(* ===== verification/PyJson.thy ===== *)
theory PyJson
  imports Prelude
begin

text \<open>
  Dynamic Python values and the \<open>json\<close> module, as far as the services use it: \<open>json.dumps\<close>
  with its \<open>separators\<close>, \<open>ensure_ascii\<close> and \<open>sort_keys\<close> options, and \<open>json.loads\<close>.

  A float is kept as the text of its literal, so that no rounding is involved.  The lemmas
  show that a serialised value can be cut out of the text that follows it in one way only
  (\<open>json_string_unique\<close>, \<open>show_int_sep_unique\<close>), which the hash chain of the audit log
  rests on.
\<close>

datatype pyval =
    PNone
  | PBool bool
  | PInt int
  | PFloat string
  | PStr string
  | PList "pyval list"
  | PDict "(string \<times> pyval) list"

text \<open>Truth value, \<open>repr\<close> and \<open>str\<close> of a dynamic value.\<close>

fun py_truthy :: "pyval \<Rightarrow> bool" where
  "py_truthy PNone = False"
| "py_truthy (PBool b) = b"
| "py_truthy (PInt i) = (i \<noteq> 0)"
| "py_truthy (PFloat s) = (s \<notin> {''0.0'', ''-0.0''})"
| "py_truthy (PStr s) = (s \<noteq> [])"
| "py_truthy (PList vs) = (vs \<noteq> [])"
| "py_truthy (PDict es) = (es \<noteq> [])"

section \<open>Escaping of string literals\<close>

definition hex_digit :: "nat \<Rightarrow> char" where
  "hex_digit n = char_of (if n < 10 then 48 + n else 87 + n)"

definition hex_val :: "char \<Rightarrow> nat option" where
  "hex_val c = (let n = (of_char c :: nat) in
     if 48 \<le> n \<and> n \<le> 57 then Some (n - 48)
     else if 97 \<le> n \<and> n \<le> 102 then Some (n - 87)
     else if 65 \<le> n \<and> n \<le> 70 then Some (n - 55) else None)"

abbreviation quote_c :: char where "quote_c \<equiv> CHR 0x22"
abbreviation backslash_c :: char where "backslash_c \<equiv> CHR 0x5C"

definition unicode_escape :: "nat \<Rightarrow> string" where
  "unicode_escape n = [backslash_c, CHR ''u'', hex_digit (n div 4096 mod 16), hex_digit (n div 256 mod 16),
     hex_digit (n div 16 mod 16), hex_digit (n mod 16)]"

definition esc_char :: "char \<Rightarrow> string" where
  "esc_char c =
     (if c = quote_c then [backslash_c, quote_c]
      else if c = backslash_c then [backslash_c, backslash_c]
      else if c = CHR 0x0A then [backslash_c, CHR ''n'']
      else if c = CHR 0x0D then [backslash_c, CHR ''r'']
      else if c = CHR 0x09 then [backslash_c, CHR ''t'']
      else if c = CHR 0x08 then [backslash_c, CHR ''b'']
      else if c = CHR 0x0C then [backslash_c, CHR ''f'']
      else if (of_char c :: nat) < 32 then unicode_escape (of_char c)
      else [c])"

definition esc_raw :: "string \<Rightarrow> string" where
  "esc_raw s = concat (map esc_char s)"

text \<open>With \<open>ensure_ascii\<close>, a code point above 127 is decoded from its UTF-8 bytes and written
  as one escape, or as a surrogate pair above \<open>0xFFFF\<close>.\<close>

definition esc_code_point :: "nat \<Rightarrow> string" where
  "esc_code_point n =
     (if n < 65536 then unicode_escape n
      else unicode_escape (55296 + (n - 65536) div 1024) @ unicode_escape (56320 + (n - 65536) mod 1024))"

definition cont_bits :: "char \<Rightarrow> nat" where
  "cont_bits c = of_char c mod 64"

fun esc_ascii :: "string \<Rightarrow> string" where
  "esc_ascii [] = []"
| "esc_ascii (a # r) =
     (let n = (of_char a :: nat) in
      if n < 128 then esc_char a @ esc_ascii r
      else if n < 224 then (case r of b # r' \<Rightarrow> esc_code_point ((n - 192) * 64 + cont_bits b) @ esc_ascii r'
                            | [] \<Rightarrow> esc_code_point n)
      else if n < 240 then (case r of b # c # r' \<Rightarrow>
                              esc_code_point (((n - 224) * 64 + cont_bits b) * 64 + cont_bits c) @ esc_ascii r'
                            | _ \<Rightarrow> esc_code_point n)
      else (case r of b # c # d # r' \<Rightarrow>
              esc_code_point ((((n - 240) * 64 + cont_bits b) * 64 + cont_bits c) * 64 + cont_bits d) @ esc_ascii r'
            | _ \<Rightarrow> esc_code_point n))"

definition json_string :: "bool \<Rightarrow> string \<Rightarrow> string" where
  "json_string ascii s = quote_c # (if ascii then esc_ascii s else esc_raw s) @ [quote_c]"

text \<open>\<open>repr\<close> of a string prefers single quotes; \<open>str\<close> of a value is its \<open>repr\<close> except for a string.\<close>

definition repr_char :: "char \<Rightarrow> char \<Rightarrow> string" where
  "repr_char q c =
     (if c = q \<or> c = backslash_c then [backslash_c, c]
      else if c = CHR 0x0A then [backslash_c, CHR ''n'']
      else if c = CHR 0x0D then [backslash_c, CHR ''r'']
      else if c = CHR 0x09 then [backslash_c, CHR ''t'']
      else if (of_char c :: nat) < 32 \<or> c = CHR 0x7F
        then [backslash_c, CHR ''x'', hex_digit (of_char c div 16), hex_digit (of_char c mod 16)]
      else [c])"

definition repr_str :: "string \<Rightarrow> string" where
  "repr_str s =
     (let q = (if CHR 0x27 \<in> set s \<and> quote_c \<notin> set s then quote_c else CHR 0x27)
      in q # concat (map (repr_char q) s) @ [q])"

fun py_repr :: "pyval \<Rightarrow> string" where
  "py_repr PNone = ''None''"
| "py_repr (PBool b) = (if b then ''True'' else ''False'')"
| "py_repr (PInt i) = show_int i"
| "py_repr (PFloat s) = s"
| "py_repr (PStr s) = repr_str s"
| "py_repr (PList vs) = ''['' @ join '', '' (map py_repr vs) @ '']''"
| "py_repr (PDict es) = ''{'' @ join '', '' (map (\<lambda>(k, v). repr_str k @ '': '' @ py_repr v) es) @ ''}''"

definition py_str :: "pyval \<Rightarrow> string" where
  "py_str v = (case v of PStr s \<Rightarrow> s | _ \<Rightarrow> py_repr v)"

section \<open>json.dumps\<close>

record json_fmt =
  item_sep :: string
  key_sep :: string
  ensure_ascii :: bool

definition json_default :: json_fmt where
  "json_default = \<lparr>item_sep = '', '', key_sep = '': '', ensure_ascii = True\<rparr>"

definition json_compact :: json_fmt where
  "json_compact = \<lparr>item_sep = '','', key_sep = '':'', ensure_ascii = False\<rparr>"

fun json_dumps :: "json_fmt \<Rightarrow> pyval \<Rightarrow> string" where
  "json_dumps f PNone = ''null''"
| "json_dumps f (PBool b) = (if b then ''true'' else ''false'')"
| "json_dumps f (PInt i) = show_int i"
| "json_dumps f (PFloat s) = s"
| "json_dumps f (PStr s) = json_string (ensure_ascii f) s"
| "json_dumps f (PList vs) = ''['' @ join (item_sep f) (map (json_dumps f) vs) @ '']''"
| "json_dumps f (PDict es) =
     ''{'' @ join (item_sep f) (map (\<lambda>(k, v). json_string (ensure_ascii f) k @ key_sep f @ json_dumps f v) es) @ ''}''"

text \<open>\<open>sort_keys=True\<close> sorts the items of every dictionary by key.\<close>

fun sort_dict_keys :: "pyval \<Rightarrow> pyval" where
  "sort_dict_keys (PList vs) = PList (map sort_dict_keys vs)"
| "sort_dict_keys (PDict es) = PDict (sort_key fst (map (\<lambda>(k, v). (k, sort_dict_keys v)) es))"
| "sort_dict_keys v = v"

definition json_dumps_sorted :: "json_fmt \<Rightarrow> pyval \<Rightarrow> string" where
  "json_dumps_sorted f v = json_dumps f (sort_dict_keys v)"

section \<open>json.loads\<close>

fun skip_ws :: "string \<Rightarrow> string" where
  "skip_ws [] = []"
| "skip_ws (c # cs) = (if c = CHR '' '' \<or> c = CHR 0x09 \<or> c = CHR 0x0A \<or> c = CHR 0x0D then skip_ws cs else c # cs)"

definition utf8_enc :: "nat \<Rightarrow> string" where
  "utf8_enc n =
     (if n < 128 then [char_of n]
      else if n < 2048 then [char_of (192 + n div 64), char_of (128 + n mod 64)]
      else if n < 65536 then [char_of (224 + n div 4096), char_of (128 + n div 64 mod 64), char_of (128 + n mod 64)]
      else [char_of (240 + n div 262144), char_of (128 + n div 4096 mod 64),
            char_of (128 + n div 64 mod 64), char_of (128 + n mod 64)])"

definition hex4 :: "char \<Rightarrow> char \<Rightarrow> char \<Rightarrow> char \<Rightarrow> nat option" where
  "hex4 a b c d =
     (case (hex_val a, hex_val b, hex_val c, hex_val d) of
        (Some w, Some x, Some y, Some z) \<Rightarrow> Some (((w * 16 + x) * 16 + y) * 16 + z)
      | _ \<Rightarrow> None)"

definition simple_escape :: "char \<Rightarrow> char option" where
  "simple_escape c =
     (if c = quote_c then Some quote_c
      else if c = backslash_c then Some backslash_c
      else if c = CHR ''/'' then Some CHR ''/''
      else if c = CHR ''b'' then Some (CHR 0x08)
      else if c = CHR ''f'' then Some (CHR 0x0C)
      else if c = CHR ''n'' then Some (CHR 0x0A)
      else if c = CHR ''r'' then Some (CHR 0x0D)
      else if c = CHR ''t'' then Some (CHR 0x09)
      else None)"

definition prepend :: "string \<Rightarrow> (string \<times> string) option \<Rightarrow> (string \<times> string) option" where
  "prepend p x = map_option (\<lambda>(s, r). (p @ s, r)) x"

definition high_surrogate :: "nat \<Rightarrow> bool" where
  "high_surrogate n \<longleftrightarrow> 55296 \<le> n \<and> n < 56320"

definition low_surrogate :: "nat \<Rightarrow> bool" where
  "low_surrogate n \<longleftrightarrow> 56320 \<le> n \<and> n < 57344"

text \<open>The body of a string literal up to the closing quote; control characters are rejected
  (\<open>strict\<close> mode), and a high surrogate followed by a low one is one code point.\<close>

fun parse_str_body :: "string \<Rightarrow> (string \<times> string) option" where
  "parse_str_body [] = None"
| "parse_str_body (c # cs) =
     (if c = quote_c then Some ([], cs)
      else if (of_char c :: nat) < 32 then None
      else if c \<noteq> backslash_c then prepend [c] (parse_str_body cs)
      else case cs of
          [] \<Rightarrow> None
        | e # es \<Rightarrow>
            (case simple_escape e of
               Some d \<Rightarrow> prepend [d] (parse_str_body es)
             | None \<Rightarrow>
                (if e \<noteq> CHR ''u'' then None
                 else case es of
                     w # x # y # z # r \<Rightarrow>
                       (case hex4 w x y z of
                          None \<Rightarrow> None
                        | Some n \<Rightarrow>
                           (case r of
                              b # u # w' # x' # y' # z' # r' \<Rightarrow>
                                (case hex4 w' x' y' z' of
                                   Some m \<Rightarrow>
                                     if high_surrogate n \<and> b = backslash_c \<and> u = CHR ''u'' \<and> low_surrogate m
                                     then prepend (utf8_enc (65536 + (n - 55296) * 1024 + (m - 56320))) (parse_str_body r')
                                     else prepend (utf8_enc n) (parse_str_body r)
                                 | None \<Rightarrow> prepend (utf8_enc n) (parse_str_body r))
                            | _ \<Rightarrow> prepend (utf8_enc n) (parse_str_body r)))
                   | _ \<Rightarrow> None)))"

text \<open>Numbers: an optional sign, an integer part without a leading zero, and an optional
  fraction and exponent that make the value a float.\<close>

definition take_digits :: "string \<Rightarrow> string \<times> string" where
  "take_digits s = (takeWhile is_digit s, dropWhile is_digit s)"

definition int_part :: "string \<Rightarrow> (string \<times> string) option" where
  "int_part s = (case s of
      c # cs \<Rightarrow> if c = CHR ''0'' then Some ([c], cs) else if is_digit c then Some (take_digits s) else None
    | [] \<Rightarrow> None)"

definition frac_part :: "string \<Rightarrow> string \<times> string" where
  "frac_part s = (case s of
      c # cs \<Rightarrow> (case take_digits cs of (ds, r) \<Rightarrow> if c = CHR ''.'' \<and> ds \<noteq> [] then (c # ds, r) else ([], s))
    | [] \<Rightarrow> ([], s))"

definition exp_part :: "string \<Rightarrow> string \<times> string" where
  "exp_part s = (case s of
      c # cs \<Rightarrow>
        (let (sg, t) = (case cs of d # ds \<Rightarrow> if d = CHR ''+'' \<or> d = CHR ''-'' then ([d], ds) else ([], cs) | [] \<Rightarrow> ([], cs));
             (ds, r) = take_digits t
         in if (c = CHR ''e'' \<or> c = CHR ''E'') \<and> ds \<noteq> [] then (c # sg @ ds, r) else ([], s))
    | [] \<Rightarrow> ([], s))"

definition parse_number :: "string \<Rightarrow> (pyval \<times> string) option" where
  "parse_number s =
     (let (neg, t) = (case s of c # cs \<Rightarrow> if c = CHR ''-'' then (True, cs) else (False, s) | [] \<Rightarrow> (False, s))
      in case int_part t of
           None \<Rightarrow> None
         | Some (ds, r) \<Rightarrow>
             (let (fr, r1) = frac_part r; (ex, r2) = exp_part r1; n = int (nat_of_digits ds)
              in if fr = [] \<and> ex = [] then Some (PInt (if neg then - n else n), r)
                 else Some (PFloat ((if neg then ''-'' else []) @ ds @ fr @ ex), r2)))"

definition strip_word :: "string \<Rightarrow> string \<Rightarrow> string option" where
  "strip_word w s = (if prefix w s then Some (drop (length w) s) else None)"

text \<open>The recursive descent spends one unit of fuel per nested call.  An element of an array or an
  object is reached by at most two calls and takes at least one character and a separator or
  a bracket, so twice the length of the text is enough.\<close>

fun parse_value :: "nat \<Rightarrow> string \<Rightarrow> (pyval \<times> string) option"
and parse_items :: "nat \<Rightarrow> string \<Rightarrow> (pyval list \<times> string) option"
and parse_members :: "nat \<Rightarrow> string \<Rightarrow> ((string \<times> pyval) list \<times> string) option" where
  "parse_value 0 s = None"
| "parse_value (Suc f) s =
     (case s of
        [] \<Rightarrow> None
      | c # cs \<Rightarrow>
          if c = quote_c then map_option (\<lambda>(t, r). (PStr t, r)) (parse_str_body cs)
          else if c = CHR ''['' then
            (case skip_ws cs of
               [] \<Rightarrow> None
             | d # ds \<Rightarrow> if d = CHR '']'' then Some (PList [], ds)
                       else map_option (\<lambda>(vs, r). (PList vs, r)) (parse_items f (d # ds)))
          else if c = CHR ''{'' then
            (case skip_ws cs of
               [] \<Rightarrow> None
             | d # ds \<Rightarrow> if d = CHR ''}'' then Some (PDict [], ds)
                       else map_option (\<lambda>(es, r). (PDict (dupdate [] es), r)) (parse_members f (d # ds)))
          else (case strip_word ''null'' s of Some r \<Rightarrow> Some (PNone, r) | None \<Rightarrow>
                case strip_word ''true'' s of Some r \<Rightarrow> Some (PBool True, r) | None \<Rightarrow>
                case strip_word ''false'' s of Some r \<Rightarrow> Some (PBool False, r) | None \<Rightarrow>
                case parse_number s of Some x \<Rightarrow> Some x | None \<Rightarrow>
                case strip_word ''NaN'' s of Some r \<Rightarrow> Some (PFloat ''NaN'', r) | None \<Rightarrow>
                case strip_word ''Infinity'' s of Some r \<Rightarrow> Some (PFloat ''Infinity'', r) | None \<Rightarrow>
                map_option (\<lambda>r. (PFloat ''-Infinity'', r)) (strip_word ''-Infinity'' s)))"
| "parse_items 0 s = None"
| "parse_items (Suc f) s =
     (case parse_value f s of
        None \<Rightarrow> None
      | Some (v, r) \<Rightarrow>
          (case skip_ws r of
             c # cs \<Rightarrow>
               if c = CHR '']'' then Some ([v], cs)
               else if c = CHR '','' then map_option (\<lambda>(vs, t). (v # vs, t)) (parse_items f (skip_ws cs))
               else None
           | [] \<Rightarrow> None))"
| "parse_members 0 s = None"
| "parse_members (Suc f) s =
     (case s of
        [] \<Rightarrow> None
      | q # cs \<Rightarrow>
         if q \<noteq> quote_c then None
         else case parse_str_body cs of
             None \<Rightarrow> None
           | Some (k, r) \<Rightarrow>
              (case skip_ws r of
                 [] \<Rightarrow> None
               | c # ds \<Rightarrow>
                  if c \<noteq> CHR '':'' then None
                  else case parse_value f (skip_ws ds) of
                      None \<Rightarrow> None
                    | Some (v, r1) \<Rightarrow>
                       (case skip_ws r1 of
                          d # es \<Rightarrow>
                            if d = CHR ''}'' then Some ([(k, v)], es)
                            else if d = CHR '','' then map_option (\<lambda>(ms, t). ((k, v) # ms, t)) (parse_members f (skip_ws es))
                            else None
                        | [] \<Rightarrow> None)))"

definition json_loads :: "string \<Rightarrow> pyval option" where
  "json_loads s =
     (case parse_value (2 * length s + 2) (skip_ws s) of
        None \<Rightarrow> None
      | Some (v, r) \<Rightarrow> if skip_ws r = [] then Some v else None)"

section \<open>A serialised string can be cut out of what follows it\<close>

declare parse_str_body.simps [simp del]

lemma hex_val_digit [simp]: "n < 16 \<Longrightarrow> hex_val (hex_digit n) = Some n"
  by (simp add: hex_val_def hex_digit_def of_char_of Let_def)

lemma hex4_digits:
  "a < 16 \<Longrightarrow> b < 16 \<Longrightarrow> c < 16 \<Longrightarrow> d < 16 \<Longrightarrow>
     hex4 (hex_digit a) (hex_digit b) (hex_digit c) (hex_digit d) = Some (((a * 16 + b) * 16 + c) * 16 + d)"
  by (simp add: hex4_def)

lemma hex4_unicode:
  assumes n: "n < 65536"
  shows "hex4 (hex_digit (n div 4096 mod 16)) (hex_digit (n div 256 mod 16))
       (hex_digit (n div 16 mod 16)) (hex_digit (n mod 16)) = Some n"
proof -
  have "n div 256 = n div 16 div 16" and "n div 4096 = n div 16 div 16 div 16"
    by (simp_all add: div_mult2_eq [symmetric])
  moreover have "n div 16 div 16 div 16 < 16"
    using n by (simp add: div_mult2_eq [symmetric])
  moreover have "16 * (k div 16) + k mod 16 = k" for k :: nat
    by simp
  ultimately have "(((n div 4096 mod 16) * 16 + n div 256 mod 16) * 16 + n div 16 mod 16) * 16 + n mod 16 = n"
    by (metis mod_less mult.commute)
  moreover have "hex4 (hex_digit (n div 4096 mod 16)) (hex_digit (n div 256 mod 16))
       (hex_digit (n div 16 mod 16)) (hex_digit (n mod 16)) =
     Some ((((n div 4096 mod 16) * 16 + n div 256 mod 16) * 16 + n div 16 mod 16) * 16 + n mod 16)"
    by (intro hex4_digits) simp_all
  ultimately show ?thesis by (simp only:)
qed

lemma prepend_Some [simp]: "prepend p (Some (s, r)) = Some (p @ s, r)"
  by (simp add: prepend_def)

lemma parse_str_body_close: "parse_str_body (quote_c # r) = Some ([], r)"
  by (simp add: parse_str_body.simps(2))

lemma simple_escape_u: "simple_escape CHR ''u'' = None"
  by (simp add: simple_escape_def)

lemma parse_str_body_u:
  assumes "hex4 w x y z = Some n" and "\<not> high_surrogate n"
  shows "parse_str_body (backslash_c # CHR ''u'' # w # x # y # z # r) = prepend (utf8_enc n) (parse_str_body r)"
  by (subst parse_str_body.simps(2)) (simp add: simple_escape_u assms split: list.split option.split)

lemma parse_str_body_unicode:
  assumes "n < 32"
  shows "parse_str_body (unicode_escape n @ t) = prepend [char_of n] (parse_str_body t)"
proof -
  have "\<not> high_surrogate n" and "utf8_enc n = [char_of n]"
    using assms by (simp_all add: high_surrogate_def utf8_enc_def)
  then show ?thesis
    using parse_str_body_u [OF hex4_unicode [of n]] assms by (simp add: unicode_escape_def)
qed

lemma parse_str_body_escaped:
  "simple_escape e = Some d \<Longrightarrow> parse_str_body (backslash_c # e # t) = prepend [d] (parse_str_body t)"
  by (simp add: parse_str_body.simps(2) [of backslash_c])

lemma parse_str_body_esc_char: "parse_str_body (esc_char c @ t) = prepend [c] (parse_str_body t)"
proof (cases "of_char c < (32::nat) \<and> c \<notin> {CHR 0x0A, CHR 0x0D, CHR 0x09, CHR 0x08, CHR 0x0C}")
  case True
  have "\<not> of_char quote_c < (32::nat)" and "\<not> of_char backslash_c < (32::nat)" by simp_all
  then have "c \<noteq> quote_c" and "c \<noteq> backslash_c" using True by metis+
  with True have "esc_char c = unicode_escape (of_char c)"
    by (simp add: esc_char_def)
  with True show ?thesis
    using parse_str_body_unicode [of "of_char c" t] by simp
next
  case False
  then consider "c \<in> {quote_c, backslash_c, CHR 0x0A, CHR 0x0D, CHR 0x09, CHR 0x08, CHR 0x0C}"
    | "\<not> of_char c < (32::nat)" "c \<notin> {quote_c, backslash_c}" by blast
  then show ?thesis
  proof cases
    case 1
    then obtain e where "esc_char c = [backslash_c, e]" and "simple_escape e = Some c"
      by (auto simp: esc_char_def simple_escape_def)
    then show ?thesis
      by (simp add: parse_str_body_escaped)
  next
    case 2
    then have "esc_char c = [c]" by (auto simp: esc_char_def)
    then show ?thesis using 2 by (simp add: parse_str_body.simps(2) [of c])
  qed
qed

lemma parse_str_body_esc_raw: "parse_str_body (esc_raw s @ quote_c # r) = Some (s, r)"
  by (induction s) (simp_all add: esc_raw_def parse_str_body_close parse_str_body_esc_char)

lemma json_string_unique:
  "json_string False s @ r = json_string False s' @ r' \<Longrightarrow> s = s' \<and> r = r'"
proof -
  assume "json_string False s @ r = json_string False s' @ r'"
  then have "esc_raw s @ quote_c # r = esc_raw s' @ quote_c # r'"
    by (simp add: json_string_def)
  then have "Some (s, r) = Some (s', r')"
    using parse_str_body_esc_raw by metis
  then show "s = s' \<and> r = r'" by simp
qed

text \<open>No control character survives the escaping.\<close>

lemma hex_digit_not_control: "n < 16 \<Longrightarrow> \<not> of_char (hex_digit n) < (32::nat)"
  by (simp add: hex_digit_def of_char_of)

lemma esc_char_no_control: "x \<in> set (esc_char c) \<Longrightarrow> \<not> of_char x < (32::nat)"
  by (auto simp: esc_char_def unicode_escape_def hex_digit_not_control split: if_splits)

lemma json_string_no_newline: "CHR 0x0A \<notin> set (json_string False s)"
  using esc_char_no_control [of "CHR 0x0A"] by (auto simp: json_string_def esc_raw_def)

text \<open>A decimal number ends where its digits end.\<close>

lemma digits_sep_unique:
  assumes "list_all is_digit s" and "list_all is_digit s'"
    and "\<not> is_digit c" and "\<not> is_digit c'" and "s @ c # r = s' @ c' # r'"
  shows "s = s' \<and> c # r = c' # r'"
proof -
  have "takeWhile is_digit (s @ c # r) = s" and "takeWhile is_digit (s' @ c' # r') = s'"
    using assms(1-4) by (simp_all add: list_all_iff)
  then have "s = s'" using assms(5) by simp
  with assms(5) show ?thesis by simp
qed

lemma show_int_sep_unique:
  assumes "\<not> is_digit c" and "\<not> is_digit c'" and "show_int i @ c # r = show_int j @ c' # r'"
  shows "i = j \<and> c # r = c' # r'"
proof -
  have minus: "CHR ''-'' # s \<noteq> show_nat n @ t" for s n t
    using digit_not_special by (rule_tac n = n in show_nat_Cons) auto
  consider "i < 0" "j < 0" | "\<not> i < 0" "\<not> j < 0" | "i < 0 \<longleftrightarrow> \<not> j < 0" by blast
  then show ?thesis
  proof cases
    case 1
    then show ?thesis
      using assms digits_sep_unique [of "show_nat (nat (- i))" "show_nat (nat (- j))" c c' r r'] show_nat_digits
      by (auto simp: show_int_def)
  next
    case 2
    then show ?thesis
      using assms digits_sep_unique [of "show_nat (nat i)" "show_nat (nat j)" c c' r r'] show_nat_digits
      by (auto simp: show_int_def)
  next
    case 3
    then show ?thesis
      using assms(3) minus by (auto simp: show_int_def dest: sym)
  qed
qed

lemma show_int_no_newline: "CHR 0x0A \<notin> set (show_int i)"
proof -
  have "\<not> is_digit CHR 0x0A" by (simp add: is_digit_def)
  then have "CHR 0x0A \<notin> set (show_nat n)" for n
    using show_nat_digits [of n] by (auto simp: list_all_iff)
  then show ?thesis by (simp add: show_int_def)
qed

section \<open>Reading back what was written\<close>

text \<open>Values without floats, whose dictionaries have each key once, and whose strings are ASCII
  where the writer escapes everything else.\<close>

definition str_plain :: "json_fmt \<Rightarrow> string \<Rightarrow> bool" where
  "str_plain f s = (ensure_ascii f \<longrightarrow> list_all (\<lambda>c. of_char c < (128::nat)) s)"

fun plain :: "json_fmt \<Rightarrow> pyval \<Rightarrow> bool" where
  "plain f (PFloat s) = False"
| "plain f (PStr s) = str_plain f s"
| "plain f (PList vs) = (\<forall>v \<in> set vs. plain f v)"
| "plain f (PDict es) = (dict_ok es \<and> (\<forall>(k, v) \<in> set es. str_plain f k \<and> plain f v))"
| "plain f v = True"

definition fmt_ok :: "json_fmt \<Rightarrow> bool" where
  "fmt_ok f \<longleftrightarrow> item_sep f \<in> {'','', '', ''} \<and> key_sep f \<in> {'':'', '': ''}"

lemma fmt_ok_used [simp]: "fmt_ok json_default" "fmt_ok json_compact"
  by (simp_all add: fmt_ok_def json_default_def json_compact_def)

lemma esc_ascii_plain: "list_all (\<lambda>c. of_char c < (128::nat)) s \<Longrightarrow> esc_ascii s = esc_raw s"
  by (induction s) (simp_all add: esc_raw_def Let_def)

lemma json_string_plain: "str_plain f s \<Longrightarrow> json_string (ensure_ascii f) s = quote_c # esc_raw s @ [quote_c]"
  by (simp add: json_string_def str_plain_def esc_ascii_plain)

lemma dupdate_Nil: "dict_ok es \<Longrightarrow> dupdate [] es = es"
proof (induction es rule: rev_induct)
  case Nil
  then show ?case by (simp add: dupdate_def)
next
  case (snoc p es)
  have ok: "dict_ok es" and new: "fst p \<notin> fst ` set es"
    using snoc.prems by (auto simp: dict_ok_def)
  have "dset es (fst p) (snd p) = es @ [p]"
    using new by (induction es) auto
  then show ?case using snoc.IH [OF ok] by (simp add: dupdate_def)
qed

lemma json_string_ascii: "str_plain f s \<Longrightarrow> json_string (ensure_ascii f) s = json_string False s"
  by (simp add: json_string_def str_plain_def esc_ascii_plain)

text \<open>The fuel a value needs.\<close>

fun need :: "pyval \<Rightarrow> nat" where
  "need (PList vs) = Suc (foldr (\<lambda>v n. Suc (max (need v) n)) vs 0)"
| "need (PDict es) = Suc (foldr (\<lambda>(k, v) n. Suc (max (need v) n)) es 0)"
| "need v = 1"

abbreviation need_items :: "pyval list \<Rightarrow> nat" where
  "need_items vs \<equiv> foldr (\<lambda>v n. Suc (max (need v) n)) vs 0"

abbreviation need_members :: "(string \<times> pyval) list \<Rightarrow> nat" where
  "need_members es \<equiv> foldr (\<lambda>(k, v) n. Suc (max (need v) n)) es 0"

definition num_end :: "string \<Rightarrow> bool" where
  "num_end r = (case r of [] \<Rightarrow> True
     | c # _ \<Rightarrow> \<not> is_digit c \<and> c \<noteq> CHR ''.'' \<and> c \<noteq> CHR ''e'' \<and> c \<noteq> CHR ''E'')"

lemma show_nat_no_leading_zero: "0 < n \<Longrightarrow> hd (show_nat n) \<noteq> CHR ''0''"
proof (induction n rule: show_nat.induct)
  case (1 n)
  show ?case
  proof (cases "n < 10")
    case True
    have "digit_val CHR ''0'' = 0" by (simp add: digit_val_def)
    then have "digit_char n \<noteq> CHR ''0''"
      using True "1.prems" digit_char_props(2) [of n] by force
    then show ?thesis using True by (simp add: show_nat.simps [of n])
  next
    case False
    have "show_nat n = show_nat (n div 10) @ [digit_char (n mod 10)]"
      using False by (subst show_nat.simps) simp
    then show ?thesis using False "1.IH" show_nat_digits [of "n div 10"] by simp
  qed
qed

lemma take_digits_show_nat: "num_end r \<Longrightarrow> take_digits (show_nat n @ r) = (show_nat n, r)"
  using show_nat_digits [of n] by (cases r) (auto simp: take_digits_def num_end_def list_all_iff)

lemma int_part_show_nat:
  assumes "num_end r"
  shows "int_part (show_nat n @ r) = Some (show_nat n, r)"
proof (cases "n = 0")
  case True
  then have "show_nat n = [CHR ''0'']"
    by (subst show_nat.simps) (simp add: digit_char_def char_of_eq_iff)
  then show ?thesis by (simp add: int_part_def)
next
  case False
  obtain c cs where c: "show_nat n = c # cs" "is_digit c" by (rule show_nat_Cons)
  then have "c \<noteq> CHR ''0''" using False show_nat_no_leading_zero [of n] by simp
  then show ?thesis
    using c take_digits_show_nat [OF assms, of n] by (simp add: int_part_def)
qed

lemma num_end_tail: "num_end r \<Longrightarrow> frac_part r = ([], r) \<and> exp_part r = ([], r)"
  by (cases r) (auto simp: num_end_def frac_part_def exp_part_def Let_def split: prod.splits)

lemma parse_number_show_int:
  assumes "num_end r"
  shows "parse_number (show_int i @ r) = Some (PInt i, r)"
proof (cases "i < 0")
  case True
  then show ?thesis
    using int_part_show_nat [OF assms] num_end_tail [OF assms]
    by (simp add: parse_number_def show_int_def)
next
  case False
  obtain c cs where c: "show_nat (nat i) = c # cs" "is_digit c" by (rule show_nat_Cons)
  then have "c \<noteq> CHR ''-''" using digit_not_special by blast
  then show ?thesis
    using False c int_part_show_nat [OF assms, of "nat i"] num_end_tail [OF assms]
      nat_of_digits_show [of "nat i"]
    by (simp add: parse_number_def show_int_def)
qed

text \<open>The first character decides the kind of value, and is no white space and no closing bracket.\<close>

lemma show_int_hd: obtains c cs where "show_int i = c # cs" and "is_digit c \<or> c = CHR ''-''"
proof (cases "i < 0")
  case True
  then show ?thesis using that by (simp add: show_int_def)
next
  case False
  obtain c cs where "show_nat (nat i) = c # cs" "is_digit c" by (rule show_nat_Cons)
  then show ?thesis using that False by (simp add: show_int_def)
qed

lemma digit_not_letter:
  assumes "is_digit c \<or> c = CHR ''-''"
  shows "c \<notin> {quote_c, CHR ''['', CHR ''{'', CHR '']'', CHR ''}'', CHR ''n'', CHR ''t'', CHR ''f'', CHR '' '', CHR 0x09, CHR 0x0A, CHR 0x0D}"
  using assms by (auto simp: is_digit_def)

lemma dumps_hd:
  assumes "plain f v"
  obtains c cs where "json_dumps f v = c # cs"
    and "c \<notin> {CHR '']'', CHR ''}'', CHR '' '', CHR 0x09, CHR 0x0A, CHR 0x0D}"
proof (cases v)
  case (PInt i)
  then show ?thesis using that show_int_hd [of i] digit_not_letter by (metis insertCI json_dumps.simps(3) insertE)
next
  case (PFloat s)
  then show ?thesis using assms by simp
next
  case (PBool b)
  then show ?thesis using that by (cases b) simp_all
qed (use that in \<open>auto simp: json_string_def\<close>)

lemma skip_ws_dumps: "plain f v \<Longrightarrow> skip_ws (json_dumps f v @ r) = json_dumps f v @ r"
  by (erule dumps_hd) auto

lemma parse_value_int:
  assumes "num_end r"
  shows "parse_value (Suc n) (show_int i @ r) = Some (PInt i, r)"
proof -
  obtain c cs where c: "show_int i = c # cs" "is_digit c \<or> c = CHR ''-''" by (rule show_int_hd)
  have "strip_word ''null'' (c # cs @ r) = None" "strip_word ''true'' (c # cs @ r) = None"
    "strip_word ''false'' (c # cs @ r) = None"
    using digit_not_letter [OF c(2)] by (auto simp: strip_word_def)
  then show ?thesis
    using c digit_not_letter [OF c(2)] parse_number_show_int [OF assms, of i] by simp
qed

lemma skip_ws_sep:
  "fmt_ok f \<Longrightarrow> plain f v \<Longrightarrow>
     \<exists>t. item_sep f @ json_dumps f v @ r = CHR '','' # t \<and> skip_ws t = json_dumps f v @ r"
  "fmt_ok f \<Longrightarrow> plain f v \<Longrightarrow>
     \<exists>t. key_sep f @ json_dumps f v @ r = CHR '':'' # t \<and> skip_ws t = json_dumps f v @ r"
  using skip_ws_dumps [of f v r] by (auto simp: fmt_ok_def)

lemma join_Cons_append:
  "join sep (x # xs) @ t = x @ (if xs = [] then t else sep @ join sep xs @ t)"
  by (cases xs) simp_all

definition dump_member :: "json_fmt \<Rightarrow> string \<times> pyval \<Rightarrow> string" where
  "dump_member f = (\<lambda>(k, v). json_string (ensure_ascii f) k @ key_sep f @ json_dumps f v)"

lemma json_dumps_dict: "json_dumps f (PDict es) = ''{'' @ join (item_sep f) (map (dump_member f) es) @ ''}''"
  by (simp add: dump_member_def)

definition item_end :: "string \<Rightarrow> bool" where
  "item_end r = (\<exists>c t. r = c # t \<and> c \<in> {CHR '','', CHR '']'', CHR ''}''})"

lemma item_end_num_end: "item_end r \<Longrightarrow> num_end r"
  by (auto simp: item_end_def num_end_def is_digit_def)

lemma sep_item_end: "fmt_ok f \<Longrightarrow> item_end (item_sep f @ t)"
  by (auto simp: fmt_ok_def item_end_def)

declare parse_value.simps [simp del] parse_items.simps [simp del] parse_members.simps [simp del]

definition reads :: "json_fmt \<Rightarrow> nat \<Rightarrow> bool" where
  "reads f n \<longleftrightarrow> (\<forall>v r. need v \<le> n \<longrightarrow> plain f v \<longrightarrow> num_end r \<longrightarrow>
     parse_value n (json_dumps f v @ r) = Some (v, r))"

definition reads_items :: "json_fmt \<Rightarrow> nat \<Rightarrow> bool" where
  "reads_items f n \<longleftrightarrow> (\<forall>vs r. vs \<noteq> [] \<longrightarrow> need_items vs \<le> n \<longrightarrow> list_all (plain f) vs \<longrightarrow>
     parse_items n (join (item_sep f) (map (json_dumps f) vs) @ CHR '']'' # r) = Some (vs, r))"

definition plain_member :: "json_fmt \<Rightarrow> string \<times> pyval \<Rightarrow> bool" where
  "plain_member f p \<longleftrightarrow> str_plain f (fst p) \<and> plain f (snd p)"

definition reads_members :: "json_fmt \<Rightarrow> nat \<Rightarrow> bool" where
  "reads_members f n \<longleftrightarrow> (\<forall>es r. es \<noteq> [] \<longrightarrow> need_members es \<le> n \<longrightarrow> list_all (plain_member f) es \<longrightarrow>
     parse_members n (join (item_sep f) (map (dump_member f) es) @ CHR ''}'' # r) = Some (es, r))"

lemma reads_items_step:
  assumes f: "fmt_ok f" and v: "reads f n" and i: "reads_items f n"
  shows "reads_items f (Suc n)"
  unfolding reads_items_def
proof (intro allI impI)
  fix vs r
  assume "vs \<noteq> []" and nd: "need_items vs \<le> Suc n" and pl: "list_all (plain f) vs"
  then obtain w ws where vs: "vs = w # ws" by (cases vs) auto
  let ?t = "\<lambda>us. join (item_sep f) (map (json_dumps f) us) @ CHR '']'' # r"
  show "parse_items (Suc n) (?t vs) = Some (vs, r)"
  proof (cases ws)
    case Nil
    have "parse_value n (json_dumps f w @ CHR '']'' # r) = Some (w, CHR '']'' # r)"
      using v nd pl vs by (simp add: reads_def num_end_def is_digit_def)
    then show ?thesis using vs Nil by (simp add: parse_items.simps)
  next
    case (Cons u us)
    have t: "?t vs = json_dumps f w @ item_sep f @ ?t ws"
      using vs Cons by simp
    have "plain f u" using pl vs Cons by simp
    then obtain t' where t': "item_sep f @ ?t ws = CHR '','' # t'" "skip_ws t' = ?t ws"
      using skip_ws_sep(1) [OF f, of u "if us = [] then CHR '']'' # r else item_sep f @ ?t us"] Cons
      by (auto simp: join_Cons_append)
    have "parse_value n (?t vs) = Some (w, CHR '','' # t')"
      using v nd pl vs unfolding t t'(1) by (simp add: reads_def num_end_def is_digit_def)
    moreover have "parse_items n (?t ws) = Some (ws, r)"
      using i [unfolded reads_items_def, rule_format, of ws r] nd pl vs Cons by simp
    ultimately show ?thesis using vs t'(2) by (simp add: parse_items.simps)
  qed
qed

lemma reads_members_step:
  assumes f: "fmt_ok f" and v: "reads f n" and m: "reads_members f n"
  shows "reads_members f (Suc n)"
  unfolding reads_members_def
proof (intro allI impI)
  fix es r
  assume "es \<noteq> []" and nd: "need_members es \<le> Suc n" and pl: "list_all (plain_member f) es"
  then obtain k w ws where es: "es = (k, w) # ws" by (cases es) auto
  let ?t = "\<lambda>us. join (item_sep f) (map (dump_member f) us) @ CHR ''}'' # r"
  have pk: "str_plain f k" and pw: "plain f w" using pl es by (simp_all add: plain_member_def)
  have head: "\<exists>t'. parse_str_body (tl (dump_member f (k, w) @ t)) = Some (k, CHR '':'' # t')
      \<and> skip_ws t' = json_dumps f w @ t \<and> hd (dump_member f (k, w) @ t) = quote_c" for t
    using skip_ws_sep(2) [OF f pw, of t] pk parse_str_body_esc_raw [of k]
    by (auto simp: dump_member_def json_string_plain)
  have ne: "\<exists>b. dump_member f p = quote_c # b" for p
    by (cases p) (simp add: dump_member_def json_string_def)
  show "parse_members (Suc n) (?t es) = Some (es, r)"
  proof (cases ws)
    case Nil
    have "parse_value n (json_dumps f w @ CHR ''}'' # r) = Some (w, CHR ''}'' # r)"
      using v nd pw es by (simp add: reads_def num_end_def is_digit_def)
    then show ?thesis
      using es Nil head [of "CHR ''}'' # r"] ne [of "(k, w)"] by (auto simp: parse_members.simps)
  next
    case (Cons u us)
    have t: "?t es = dump_member f (k, w) @ item_sep f @ ?t ws"
      using es Cons by simp
    have "\<exists>b. ?t ws = quote_c # b"
      using ne [of u] Cons by (auto simp: join_Cons_append)
    then obtain t' where t': "item_sep f @ ?t ws = CHR '','' # t'" "skip_ws t' = ?t ws"
      using f by (auto simp: fmt_ok_def)
    have "parse_value n (json_dumps f w @ CHR '','' # t') = Some (w, CHR '','' # t')"
      using v nd pw es by (simp add: reads_def num_end_def is_digit_def)
    moreover have "parse_members n (?t ws) = Some (ws, r)"
      using m [unfolded reads_members_def, rule_format, of ws r] nd pl es Cons by simp
    ultimately show ?thesis
      using es t'(2) head [of "CHR '','' # t'"] ne [of "(k, w)"] unfolding t t'(1)
      by (auto simp: parse_members.simps)
  qed
qed

lemma reads_step:
  assumes f: "fmt_ok f" and i: "reads_items f n" and m: "reads_members f n"
  shows "reads f (Suc n)"
  unfolding reads_def
proof (intro allI impI)
  fix v r
  assume nd: "need v \<le> Suc n" and pl: "plain f v" and r: "num_end r"
  show "parse_value (Suc n) (json_dumps f v @ r) = Some (v, r)"
  proof (cases v)
    case (PStr s)
    then show ?thesis
      using pl by (simp add: parse_value.simps json_string_plain parse_str_body_esc_raw)
  next
    case (PInt k)
    then show ?thesis using parse_value_int [OF r] by simp
  next
    case (PList vs)
    show ?thesis
    proof (cases vs)
      case Nil
      then show ?thesis using PList by (simp add: parse_value.simps)
    next
      case (Cons u us)
      let ?t = "join (item_sep f) (map (json_dumps f) vs) @ CHR '']'' # r"
      have "plain f u" using pl PList Cons by simp
      then obtain c cs where c: "json_dumps f u = c # cs"
        "c \<notin> {CHR '']'', CHR ''}'', CHR '' '', CHR 0x09, CHR 0x0A, CHR 0x0D}" by (rule dumps_hd)
      then obtain ds where "?t = c # ds" using Cons by (simp add: join_Cons_append)
      moreover have "parse_items n ?t = Some (vs, r)"
        using i [unfolded reads_items_def, rule_format, of vs r] nd pl PList Cons
        by (simp add: list_all_iff)
      ultimately show ?thesis using PList c(2) by (simp add: parse_value.simps)
    qed
  next
    case (PDict es)
    then have ok: "dict_ok es" using pl by simp
    show ?thesis
    proof (cases es)
      case Nil
      then show ?thesis using PDict by (simp add: parse_value.simps)
    next
      case (Cons u us)
      let ?t = "join (item_sep f) (map (dump_member f) es) @ CHR ''}'' # r"
      obtain ds where "?t = quote_c # ds"
        using Cons by (cases u) (simp add: join_Cons_append dump_member_def json_string_def)
      moreover have "list_all (plain_member f) es"
        using pl PDict by (auto simp: list_all_iff plain_member_def)
      then have "parse_members n ?t = Some (es, r)"
        using m [unfolded reads_members_def, rule_format, of es r] nd PDict Cons by simp
      ultimately show ?thesis
        using PDict ok by (simp add: parse_value.simps dupdate_Nil json_dumps_dict del: json_dumps.simps(7))
    qed
  next
    case (PBool b)
    then show ?thesis by (cases b) (simp_all add: parse_value.simps strip_word_def)
  qed (use pl in \<open>simp_all add: parse_value.simps strip_word_def\<close>)
qed

lemma need_not_0 [simp]: "need v = 0 \<longleftrightarrow> False"
  by (cases v) simp_all

lemma reads_all: "fmt_ok f \<Longrightarrow> reads f n \<and> reads_items f n \<and> reads_members f n"
proof (induction n)
  case 0
  show ?case
    by (auto simp: reads_def reads_items_def reads_members_def neq_Nil_conv)
next
  case (Suc n)
  then show ?case by (simp add: reads_step reads_items_step reads_members_step)
qed

text \<open>Twice the length of the text is enough fuel.\<close>

lemma json_string_length: "2 \<le> length (json_string b s)"
  by (simp add: json_string_def)

lemma dumps_length_pos: "plain f v \<Longrightarrow> 1 \<le> length (json_dumps f v)"
  by (erule dumps_hd) simp

lemma need_items_bound:
  assumes "fmt_ok f" and "\<And>v. v \<in> set vs \<Longrightarrow> need v \<le> 2 * length (json_dumps f v)"
  shows "need_items vs \<le> 2 * length (join (item_sep f) (map (json_dumps f) vs)) + 1"
  using assms(2)
proof (induction vs)
  case Nil
  then show ?case by simp
next
  case (Cons v vs)
  have "1 \<le> length (item_sep f)" using assms(1) by (auto simp: fmt_ok_def)
  moreover have "need v \<le> 2 * length (json_dumps f v)" by (simp add: Cons.prems)
  moreover have "need_items vs \<le> 2 * length (join (item_sep f) (map (json_dumps f) vs)) + 1"
    by (rule Cons.IH) (simp add: Cons.prems)
  ultimately show ?case by (cases vs) auto
qed

lemma need_members_bound:
  assumes "fmt_ok f" and "\<And>k v. (k, v) \<in> set es \<Longrightarrow> need v \<le> 2 * length (json_dumps f v)"
  shows "need_members es \<le> 2 * length (join (item_sep f) (map (dump_member f) es)) + 1"
  using assms(2)
proof (induction es)
  case Nil
  then show ?case by simp
next
  case (Cons e es)
  obtain k v where e: "e = (k, v)" by (cases e)
  have "1 \<le> length (item_sep f)" using assms(1) by (auto simp: fmt_ok_def)
  moreover have "need v \<le> 2 * length (json_dumps f v)" using Cons.prems e by auto
  moreover have "need_members es \<le> 2 * length (join (item_sep f) (map (dump_member f) es)) + 1"
    by (rule Cons.IH) (auto intro: Cons.prems)
  moreover have "length (json_dumps f v) \<le> length (dump_member f (k, v))"
    by (simp add: dump_member_def)
  ultimately show ?case using e by (cases es) auto
qed

lemma need_bound: "fmt_ok f \<Longrightarrow> plain f v \<Longrightarrow> need v \<le> 2 * length (json_dumps f v)"
proof (induction v rule: json_dumps.induct [of _ f])
  case (6 f vs)
  then have "need_items vs \<le> 2 * length (join (item_sep f) (map (json_dumps f) vs)) + 1"
    by (intro need_items_bound) auto
  then show ?case by simp
next
  case (7 f es)
  have n: "need v \<le> 2 * length (json_dumps f v)" if "(k, v) \<in> set es" for k v
    using "7.IH" [OF that refl] "7.prems" that by auto
  have "need_members es \<le> 2 * length (join (item_sep f) (map (dump_member f) es)) + 1"
    by (rule need_members_bound [OF "7.prems"(1) n])
  then show ?case by (simp add: json_dumps_dict del: json_dumps.simps(7))
next
  case (3 f i)
  then show ?case using dumps_length_pos [of f "PInt i"] by simp
qed (auto simp: json_string_def)

theorem json_roundtrip: "fmt_ok f \<Longrightarrow> plain f v \<Longrightarrow> json_loads (json_dumps f v) = Some v"
proof -
  assume a: "fmt_ok f" "plain f v"
  have "parse_value (2 * length (json_dumps f v) + 2) (json_dumps f v @ []) = Some (v, [])"
    using reads_all [OF a(1), of "2 * length (json_dumps f v) + 2", unfolded reads_def]
      need_bound [OF a] a(2) by (simp add: num_end_def del: append_Nil2)
  then show "json_loads (json_dumps f v) = Some v"
    using skip_ws_dumps [OF a(2), of "[]"] by (simp add: json_loads_def)
qed

corollary json_dumps_inj:
  "fmt_ok f \<Longrightarrow> plain f v \<Longrightarrow> plain f w \<Longrightarrow> json_dumps f v = json_dumps f w \<longleftrightarrow> v = w"
  by (metis json_roundtrip option.inject)

text \<open>No control character is written.\<close>

lemma join_set: "set (join sep xs) \<subseteq> set sep \<union> \<Union> (set ` set xs)"
  by (induction sep xs rule: join.induct) auto

lemma dumps_no_newline:
  "fmt_ok f \<Longrightarrow> plain f v \<Longrightarrow> CHR 0x0A \<notin> set (json_dumps f v)"
proof (induction v rule: json_dumps.induct [of _ f])
  case (3 f i)
  then show ?case using show_int_no_newline by simp
next
  case (5 f s)
  then show ?case
    by (simp add: json_string_no_newline json_string_ascii)
next
  case (6 f vs)
  then show ?case
    using join_set [of "item_sep f" "map (json_dumps f) vs"] by (auto simp: fmt_ok_def)
next
  case (7 f es)
  have "CHR 0x0A \<notin> set (dump_member f e)" if "e \<in> set es" for e
  proof -
    obtain k v where e: "e = (k, v)" by (cases e)
    have p: "str_plain f k" "plain f v" using "7.prems"(2) that e by auto
    have "CHR 0x0A \<notin> set (json_dumps f v)"
      using "7.IH" [OF that e [symmetric] "7.prems"(1) p(2)] .
    moreover have "CHR 0x0A \<notin> set (key_sep f)"
      using "7.prems"(1) by (auto simp: fmt_ok_def)
    ultimately show ?thesis
      using e p(1) by (simp add: dump_member_def json_string_ascii json_string_no_newline)
  qed
  then show ?case
    using join_set [of "item_sep f" "map (dump_member f) es"] 7
    by (auto simp: json_dumps_dict fmt_ok_def simp del: json_dumps.simps(7))
qed simp_all

end
