(* ===== verification/PyTime.thy ===== *)
theory PyTime
  imports Prelude
begin

text \<open>
  \<open>datetime.datetime\<close> as far as the services use it.  A date and time is the number of
  microseconds since 0001-01-01T00:00 on its own wall clock, with the offset of that clock
  from UTC when it is aware; the calendar is the proleptic Gregorian one of the standard
  library (\<open>_ord2ymd\<close>).
\<close>

record pydt =
  wall_us :: int
  utc_off :: "int option"

abbreviation day_us :: int where "day_us \<equiv> 86400000000"
abbreviation hour_us :: int where "hour_us \<equiv> 3600000000"

text \<open>A naive value is read as UTC.\<close>

definition as_utc :: "pydt \<Rightarrow> int" where
  "as_utc t = (case utc_off t of None \<Rightarrow> wall_us t | Some off \<Rightarrow> wall_us t - off)"

definition utc_dt :: "int \<Rightarrow> pydt" where
  "utc_dt u = \<lparr>wall_us = u, utc_off = Some 0\<rparr>"

lemma as_utc_utc_dt [simp]: "as_utc (utc_dt u) = u"
  by (simp add: as_utc_def utc_dt_def)

section \<open>The calendar\<close>

definition days_before_month :: "int \<Rightarrow> int" where
  "days_before_month m = [0, 0, 31, 59, 90, 120, 151, 181, 212, 243, 273, 304, 334] ! nat m"

definition days_in_month :: "int \<Rightarrow> int" where
  "days_in_month m = [0, 31, 28, 31, 30, 31, 30, 31, 31, 30, 31, 30, 31] ! nat m"

definition ord2ymd :: "int \<Rightarrow> int \<times> int \<times> int" where
  "ord2ymd ordinal =
     (let n0 = ordinal - 1;
          n400 = n0 div 146097; r400 = n0 mod 146097;
          n100 = r400 div 36524; r100 = r400 mod 36524;
          n4 = r100 div 1461; r4 = r100 mod 1461;
          n1 = r4 div 365; n = r4 mod 365;
          year = n400 * 400 + 1 + n100 * 100 + n4 * 4 + n1
      in if n1 = 4 \<or> n100 = 4 then (year - 1, 12, 31)
         else let leap = (n1 = 3 \<and> (n4 \<noteq> 24 \<or> n100 = 3));
                  month = (n + 50) div 32;
                  preceding = days_before_month month + (if month > 2 \<and> leap then 1 else 0)
              in if preceding > n
                 then let m = month - 1;
                          p = preceding - (days_in_month m + (if m = 2 \<and> leap then 1 else 0))
                      in (year, m, n - p + 1)
                 else (year, month, n - preceding + 1))"

definition zpad :: "nat \<Rightarrow> int \<Rightarrow> string" where
  "zpad k i = (let s = show_int i in replicate (k - length s) CHR ''0'' @ s)"

text \<open>\<open>strftime\<close> with \<open>%Y-%m-%dT%H:%M:%S.\<close>; the C library does not pad the year.\<close>

definition strftime_secs :: "int \<Rightarrow> string" where
  "strftime_secs u =
     (let (y, m, d) = ord2ymd (u div day_us + 1); t = u mod day_us
      in show_int y @ ''-'' @ zpad 2 m @ ''-'' @ zpad 2 d @ ''T''
         @ zpad 2 (t div 3600000000) @ '':'' @ zpad 2 (t div 60000000 mod 60) @ '':''
         @ zpad 2 (t div 1000000 mod 60) @ ''.'')"

text \<open>The same with \<open>%Y-%m-%d %H:%M:%S.%f\<close>, cut to milliseconds.\<close>

definition strftime_ms :: "int \<Rightarrow> string" where
  "strftime_ms u =
     (let (y, m, d) = ord2ymd (u div day_us + 1); t = u mod day_us
      in show_int y @ ''-'' @ zpad 2 m @ ''-'' @ zpad 2 d @ '' '' @ zpad 2 (t div 3600000000) @ '':'' @ zpad 2 (t div 60000000 mod 60) @ '':''
         @ zpad 2 (t div 1000000 mod 60) @ ''.'' @ zpad 3 (t mod 1000000 div 1000))"

definition is_leap :: "int \<Rightarrow> bool" where
  "is_leap y = (y mod 4 = 0 \<and> (y mod 100 \<noteq> 0 \<or> y mod 400 = 0))"

definition days_before_year :: "int \<Rightarrow> int" where
  "days_before_year year = (let y = year - 1 in y * 365 + y div 4 - y div 100 + y div 400)"

definition month_length :: "int \<Rightarrow> int \<Rightarrow> int" where
  "month_length y m = days_in_month m + (if m = 2 \<and> is_leap y then 1 else 0)"

definition ymd2ord :: "int \<Rightarrow> int \<Rightarrow> int \<Rightarrow> int" where
  "ymd2ord y m d = days_before_year y + days_before_month m + (if m > 2 \<and> is_leap y then 1 else 0) + d"

text \<open>\<open>isoformat()\<close>, and \<open>isoformat(timespec="milliseconds")\<close>.\<close>

definition iso_date :: "int \<Rightarrow> string" where
  "iso_date u = (let (y, m, d) = ord2ymd (u div day_us + 1)
     in zpad 4 y @ ''-'' @ zpad 2 m @ ''-'' @ zpad 2 d)"

definition iso_secs :: "int \<Rightarrow> string" where
  "iso_secs u = (let t = u mod day_us in zpad 2 (t div hour_us) @ '':'' @ zpad 2 (t div 60000000 mod 60)
     @ '':'' @ zpad 2 (t div 1000000 mod 60))"

definition iso_offset :: "int option \<Rightarrow> string" where
  "iso_offset off = (case off of None \<Rightarrow> []
     | Some o' \<Rightarrow>
        let a = \<bar>o'\<bar>; hm = zpad 2 (a div hour_us) @ '':'' @ zpad 2 (a div 60000000 mod 60);
            ss = a div 1000000 mod 60; us = a mod 1000000
        in (if o' < 0 then ''-'' else ''+'') @ hm
           @ (if ss = 0 \<and> us = 0 then [] else '':'' @ zpad 2 ss @ (if us = 0 then [] else ''.'' @ zpad 6 us)))"

definition isoformat :: "pydt \<Rightarrow> string" where
  "isoformat t = (let u = wall_us t; us = u mod 1000000
     in iso_date u @ ''T'' @ iso_secs u @ (if us = 0 then [] else ''.'' @ zpad 6 us) @ iso_offset (utc_off t))"

definition isoformat_ms :: "pydt \<Rightarrow> string" where
  "isoformat_ms t = (let u = wall_us t
     in iso_date u @ ''T'' @ iso_secs u @ ''.'' @ zpad 3 (u mod 1000000 div 1000) @ iso_offset (utc_off t))"

section \<open>Reading ISO 8601\<close>

text \<open>\<open>datetime.fromisoformat\<close> (Python 3.11 and later): \<open>None\<close> is \<open>ValueError\<close>.\<close>

definition slice :: "nat \<Rightarrow> nat \<Rightarrow> string \<Rightarrow> string" where
  "slice i j s = take (j - i) (drop i s)"

definition char_at :: "string \<Rightarrow> nat \<Rightarrow> char option" where
  "char_at s i = (if i < length s then Some (s ! i) else None)"

definition digits_int :: "nat \<Rightarrow> string \<Rightarrow> int option" where
  "digits_int n s = (if length s = n \<and> 0 < n \<and> list_all is_digit s then Some (int (nat_of_digits s)) else None)"

definition iso_separator :: "string \<Rightarrow> nat option" where
  "iso_separator s =
     (let n = length s; digit = (\<lambda>i. case char_at s i of Some c \<Rightarrow> is_digit c | None \<Rightarrow> False)
      in if n = 7 then Some 7
         else if char_at s 4 = Some CHR ''-'' then
           if char_at s 5 = Some CHR ''W'' then
             if char_at s 8 = Some CHR ''-'' then
               if n = 9 then None else if digit 10 then Some 8 else Some 10
             else Some 8
           else Some 10
         else if char_at s 4 = Some CHR ''W'' then
           let idx = 7 + length (takeWhile is_digit (drop 7 s))
           in if idx < 9 then Some idx else if even idx then Some 7 else Some 8
         else Some 8)"

text \<open>ISO week dates.\<close>

definition week1_monday :: "int \<Rightarrow> int" where
  "week1_monday y = (let firstday = ymd2ord y 1 1; wd = (firstday + 6) mod 7; monday = firstday - wd
     in if wd > 3 then monday + 7 else monday)"

definition iso_week_ord :: "int \<Rightarrow> int \<Rightarrow> int \<Rightarrow> int option" where
  "iso_week_ord y w d =
     (let first_wd = ymd2ord y 1 1 mod 7
      in if \<not> (1 \<le> y \<and> y \<le> 9999) then None
         else if \<not> (1 \<le> w \<and> (w \<le> 52 \<or> (w = 53 \<and> (first_wd = 4 \<or> (first_wd = 3 \<and> is_leap y))))) then None
         else if \<not> (1 \<le> d \<and> d \<le> 7) then None
         else Some (week1_monday y + (w - 1) * 7 + (d - 1)))"

definition parse_iso_date :: "string \<Rightarrow> int option" where
  "parse_iso_date s =
     (case digits_int 4 (slice 0 4 s) of
        None \<Rightarrow> None
      | Some y \<Rightarrow>
         let sep = (char_at s 4 = Some CHR ''-''); pos = (if sep then 5 else 4)
         in if char_at s pos = Some CHR ''W'' then
              (case digits_int 2 (slice (pos + 1) (pos + 3) s) of
                 None \<Rightarrow> None
               | Some w \<Rightarrow>
                  if length s \<le> pos + 3 then iso_week_ord y w 1
                  else if (char_at s (pos + 3) = Some CHR ''-'') \<noteq> sep then None
                  else (let p = pos + 3 + (if sep then 1 else 0)
                        in case digits_int 1 (drop p s) of None \<Rightarrow> None | Some d \<Rightarrow> iso_week_ord y w d))
            else
              (case digits_int 2 (slice pos (pos + 2) s) of
                 None \<Rightarrow> None
               | Some m \<Rightarrow>
                  if (char_at s (pos + 2) = Some CHR ''-'') \<noteq> sep then None
                  else (let p = pos + 2 + (if sep then 1 else 0)
                        in case digits_int 2 (drop p s) of
                             None \<Rightarrow> None
                           | Some d \<Rightarrow>
                              if 1 \<le> y \<and> 1 \<le> m \<and> m \<le> 12 \<and> 1 \<le> d \<and> d \<le> month_length y m
                              then Some (ymd2ord y m d) else None)))"

text \<open>Hours, minutes, seconds and a fraction: microseconds and the four components.\<close>

definition frac_us :: "string \<Rightarrow> int option" where
  "frac_us s = (if s \<noteq> [] \<and> list_all is_digit s
     then Some (int (nat_of_digits (take 6 s)) * 10 ^ (6 - length (take 6 s))) else None)"

function hh_mm_ss :: "nat \<Rightarrow> bool \<Rightarrow> string \<Rightarrow> (int list \<times> string) option" where
  "hh_mm_ss k sep s =
     (case digits_int 2 (take 2 s) of
        None \<Rightarrow> None
      | Some v \<Rightarrow>
         (case drop 2 s of
            [] \<Rightarrow> Some ([v], [])
          | c # r \<Rightarrow>
             if k \<ge> 2 then Some ([v], c # r)
             else (let sep' = (if k = 0 then c = CHR '':'' else sep)
                   in if sep' \<and> c \<noteq> CHR '':'' then None
                      else map_option (\<lambda>(vs, t). (v # vs, t))
                             (hh_mm_ss (Suc k) sep' (if sep' then r else c # r)))))"
  by pat_completeness auto
termination
  by (relation "measure (\<lambda>(k, sep, s). 2 - k)") auto

declare hh_mm_ss.simps [simp del]

definition parse_hms :: "string \<Rightarrow> (int \<times> int \<times> int \<times> int) option" where
  "parse_hms s =
     (case hh_mm_ss 0 False s of
        None \<Rightarrow> None
      | Some (vs, r) \<Rightarrow>
         let vi = (\<lambda>i. if i < length vs then vs ! i else 0)
         in case r of
              [] \<Rightarrow> Some (vi 0, vi 1, vi 2, 0)
            | c # f \<Rightarrow> if c = CHR ''.'' \<or> c = CHR '','' then map_option (\<lambda>us. (vi 0, vi 1, vi 2, us)) (frac_us f) else None)"

definition find_char :: "char \<Rightarrow> string \<Rightarrow> nat option" where
  "find_char c s = (if c \<in> set s then Some (length (takeWhile (\<lambda>x. x \<noteq> c) s)) else None)"

definition parse_iso_time :: "string \<Rightarrow> (int \<times> int option) option" where
  "parse_iso_time s =
     (if length s < 2 then None
      else let tz = (case find_char CHR ''-'' s of Some i \<Rightarrow> Some i
                     | None \<Rightarrow> case find_char CHR ''+'' s of Some i \<Rightarrow> Some i | None \<Rightarrow> find_char CHR ''Z'' s);
               timestr = (case tz of Some i \<Rightarrow> take i s | None \<Rightarrow> s)
           in case parse_hms timestr of
                None \<Rightarrow> None
              | Some (h, m, sec, us) \<Rightarrow>
                 if \<not> (h < 24 \<and> m < 60 \<and> sec < 60) then None
                 else let t = ((h * 60 + m) * 60 + sec) * 1000000 + us
                      in case tz of
                           None \<Rightarrow> Some (t, None)
                         | Some i \<Rightarrow>
                            if Suc i = length s \<and> s ! i = CHR ''Z'' then Some (t, Some 0)
                            else if length s - Suc i \<in> {0, 1, 3} then None
                            else (case parse_hms (drop (Suc i) s) of
                                    None \<Rightarrow> None
                                  | Some (h', m', s', us') \<Rightarrow>
                                     let off = ((h' * 60 + m') * 60 + s') * 1000000 + us'
                                     in if day_us \<le> off then None
                                        else Some (t, Some (if s ! i = CHR ''-'' then - off else off))))"

definition fromisoformat :: "string \<Rightarrow> pydt option" where
  "fromisoformat s =
     (if length s < 7 then None
      else case iso_separator s of
          None \<Rightarrow> None
        | Some i \<Rightarrow>
           (case parse_iso_date (take i s) of
              None \<Rightarrow> None
            | Some ordinal \<Rightarrow>
               let base = (ordinal - 1) * day_us; tstr = drop (Suc i) s
               in if tstr = [] then Some \<lparr>wall_us = base, utc_off = None\<rparr>
                  else map_option (\<lambda>(t, off). \<lparr>wall_us = base + t, utc_off = off\<rparr>) (parse_iso_time tstr)))"

end
