(* ===== verification/AuditChain.thy ===== *)
theory AuditChain
  imports PyJson PyTime
begin

text \<open>
  The hash chain of the audit log: \<open>audit_chain.py\<close> (canonical form of a row and its hash)
  and the write path of \<open>audit.py\<close> (\<open>build_audit_row\<close>, \<open>Auditor.record\<close>).

  The digest (\<open>hashlib.sha256(\<dots>).hexdigest()\<close>) is a parameter \<open>D\<close> of the definitions, so
  every statement holds for SHA-256 and for any other digest; where two different texts
  could have the same digest, the statements say so.
\<close>

section \<open>Rows\<close>

record audit_row =
  ts :: pydt
  principal :: string
  tier :: string
  tool :: string
  args :: string
  data_classes :: "string list"
  decision :: string
  row_count :: int
  error :: string
  client_name :: string
  model_id :: string
  actor_type :: string

record chained_row = audit_row +
  prev_hash :: string
  row_hash :: string

definition ts_ms_iso :: "pydt \<Rightarrow> string" where
  "ts_ms_iso t = (let u = as_utc t in
     strftime_secs u @ zpad 3 (u mod 1000000 div 1000) @ ''Z'')"

definition attribution_values :: "'a audit_row_scheme \<Rightarrow> string list" where
  "attribution_values r =
     (let values = [client_name r, model_id r, actor_type r]
      in if \<exists>v \<in> set values. v \<noteq> [] then values else [])"

definition canonical_value :: "'a audit_row_scheme \<Rightarrow> pyval" where
  "canonical_value r =
     PList ([PStr (ts_ms_iso (ts r)), PStr (principal r), PStr (tier r), PStr (tool r), PStr (args r),
             PList (map PStr (data_classes r)), PStr (decision r), PInt (row_count r), PStr (error r)]
            @ map PStr (attribution_values r))"

definition canonical :: "'a audit_row_scheme \<Rightarrow> string" where
  "canonical r = json_dumps json_compact (canonical_value r)"

definition hash_input :: "string \<Rightarrow> 'a audit_row_scheme \<Rightarrow> string" where
  "hash_input prev r = prev @ [CHR 0x0A] @ canonical r"

definition compute_row_hash :: "(string \<Rightarrow> string) \<Rightarrow> string \<Rightarrow> 'a audit_row_scheme \<Rightarrow> string" where
  "compute_row_hash D prev r = D (hash_input prev r)"

text \<open>Two rows agree on everything the chain covers: the eleven fields other than the time
  stamp, and the time stamp to the millisecond.\<close>

definition same_fields :: "'a audit_row_scheme \<Rightarrow> 'b audit_row_scheme \<Rightarrow> bool" where
  "same_fields r s \<longleftrightarrow> ts_ms_iso (ts r) = ts_ms_iso (ts s) \<and> principal r = principal s \<and> tier r = tier s
     \<and> tool r = tool s \<and> args r = args s \<and> data_classes r = data_classes s \<and> decision r = decision s
     \<and> row_count r = row_count s \<and> error r = error s
     \<and> client_name r = client_name s \<and> model_id r = model_id s \<and> actor_type r = actor_type s"

lemma attribution_values_inj:
  "attribution_values r = attribution_values s \<longleftrightarrow>
     client_name r = client_name s \<and> model_id r = model_id s \<and> actor_type r = actor_type s"
  by (auto simp: attribution_values_def Let_def)

lemma map_PStr_inj [simp]: "map PStr xs = map PStr ys \<longleftrightarrow> xs = ys"
  by (simp add: inj_map_eq_map inj_def)

lemma canonical_value_eq: "canonical_value r = canonical_value s \<longleftrightarrow> same_fields r s"
  by (auto simp: canonical_value_def same_fields_def attribution_values_inj)

lemma canonical_value_plain: "plain json_compact (canonical_value r)"
  by (auto simp: canonical_value_def str_plain_def json_compact_def)

lemma canonical_eq_iff: "canonical r = canonical s \<longleftrightarrow> same_fields r s"
  unfolding canonical_def
  by (simp add: json_dumps_inj canonical_value_plain canonical_value_eq)

lemma canonical_no_newline: "CHR 0x0A \<notin> set (canonical r)"
  unfolding canonical_def by (rule dumps_no_newline [OF fmt_ok_used(2) canonical_value_plain])

lemma hash_input_eq_iff: "hash_input p r = hash_input q s \<longleftrightarrow> p = q \<and> same_fields r s"
proof
  assume "hash_input p r = hash_input q s"
  then have "p @ CHR 0x0A # canonical r = q @ CHR 0x0A # canonical s"
    by (simp add: hash_input_def)
  then have "p = q \<and> canonical r = canonical s"
    by (rule append_sep_last_inj [OF canonical_no_newline canonical_no_newline])
  then show "p = q \<and> same_fields r s" by (simp add: canonical_eq_iff)
qed (simp add: hash_input_def canonical_eq_iff)

section \<open>The write path\<close>

text \<open>\<open>build_audit_row\<close>: \<open>args\<close> and \<open>error\<close> are dynamic values, \<open>now\<close> is the clock reading that
  is used when no time stamp is given.\<close>

definition or_empty :: "pyval \<Rightarrow> string" where
  "or_empty v = (if py_truthy v then py_str v else [])"

definition build_audit_row ::
  "pydt \<Rightarrow> string \<Rightarrow> string \<Rightarrow> string \<Rightarrow> pyval \<Rightarrow> string list \<Rightarrow> string \<Rightarrow> int \<Rightarrow> pyval
     \<Rightarrow> pydt option \<Rightarrow> string \<Rightarrow> string \<Rightarrow> string \<Rightarrow> audit_row" where
  "build_audit_row now p ti to arg dcs dec n err t cl mo ac =
     \<lparr>ts = (case t of None \<Rightarrow> now | Some x \<Rightarrow> x),
      principal = p, tier = ti, tool = to,
      args = json_dumps_sorted json_default arg,
      data_classes = dcs, decision = dec, row_count = n,
      error = or_empty err, client_name = cl, model_id = mo, actor_type = ac\<rparr>"

text \<open>What the table's insert does to one row: it is stored or not, and the call returns or raises.
  A ClickHouse insert that returns has stored the row; one that raises may still have stored it.
  The no-op backend returns without storing.\<close>

record insert_effect =
  stored :: bool
  raised :: bool

definition ch_effect :: "insert_effect \<Rightarrow> bool" where
  "ch_effect e = (raised e \<or> stored e)"

definition noop_insert :: insert_effect where
  "noop_insert = \<lparr>stored = False, raised = False\<rparr>"

record auditor =
  last_hash :: string

definition chain_row :: "(string \<Rightarrow> string) \<Rightarrow> string \<Rightarrow> audit_row \<Rightarrow> chained_row" where
  "chain_row D prev r = audit_row.extend r (chained_row.fields prev (compute_row_hash D prev r))"

text \<open>\<open>Auditor.record\<close> returns the auditor and the rows that reached the table: the head advances
  only when the insert returned.\<close>

definition auditor_record ::
  "(string \<Rightarrow> string) \<Rightarrow> insert_effect \<Rightarrow> audit_row \<Rightarrow> auditor \<Rightarrow> auditor \<times> chained_row list" where
  "auditor_record D eff r a =
     (let row = chain_row D (last_hash a) r;
          rows = (if stored eff then [row] else [])
      in if raised eff then (a, rows) else (a\<lparr>last_hash := row_hash row\<rparr>, rows))"

fun auditor_run ::
  "(string \<Rightarrow> string) \<Rightarrow> (insert_effect \<times> audit_row) list \<Rightarrow> auditor \<Rightarrow> auditor \<times> chained_row list" where
  "auditor_run D [] a = (a, [])"
| "auditor_run D ((eff, r) # xs) a =
     (let (a', rows) = auditor_record D eff r a; (a'', rest) = auditor_run D xs a'
      in (a'', rows @ rest))"

text \<open>\<open>make_ch_auditor\<close>: without a password the auditor is a no-op, unless auditing is required.
  \<open>seed\<close> is the result of the query for the newest hash of the tier, in its first column.\<close>

datatype audit_backend = NoopBackend | ClickHouseBackend

datatype audit_config_error = AuditRequired

definition seed_last_hash :: "bool \<Rightarrow> string list \<Rightarrow> string" where
  "seed_last_hash verify_password seed =
     (if \<not> verify_password then [] else case seed of h # _ \<Rightarrow> h | [] \<Rightarrow> [])"

definition make_ch_auditor ::
  "bool \<Rightarrow> bool \<Rightarrow> bool \<Rightarrow> string list \<Rightarrow> audit_config_error + (audit_backend \<times> auditor)" where
  "make_ch_auditor audit_password audit_required verify_password seed =
     (if \<not> audit_password then
        if audit_required then Inl AuditRequired else Inr (NoopBackend, \<lparr>last_hash = []\<rparr>)
      else Inr (ClickHouseBackend, \<lparr>last_hash = seed_last_hash verify_password seed\<rparr>))"

text \<open>The columns of an inserted row, in the order of \<open>AUDIT_COLUMNS\<close>.\<close>

definition audit_columns :: "string list" where
  "audit_columns = [''ts'', ''principal'', ''tier'', ''tool'', ''args'', ''data_classes'', ''decision'',
     ''row_count'', ''error'', ''client_name'', ''model_id'', ''actor_type'', ''prev_hash'', ''row_hash'']"

section \<open>Evidence segments\<close>

text \<open>\<open>dedup_token\<close>: the length of the UTF-8 encoding is the length of the byte string.\<close>

definition dedup_token :: "string \<Rightarrow> string \<Rightarrow> int \<Rightarrow> string" where
  "dedup_token server_id run_id segment_seq =
     show_nat (length server_id) @ '':'' @ server_id @ '':''
     @ show_nat (length run_id) @ '':'' @ run_id @ '':'' @ show_int segment_seq"

lemma length_prefixed_unique:
  assumes "show_nat (length s) @ CHR '':'' # s @ r = show_nat (length s') @ CHR '':'' # s' @ r'"
  shows "s = s' \<and> r = r'"
proof -
  have "\<not> is_digit CHR '':''" by (simp add: is_digit_def)
  then have "length s = length s' \<and> s @ r = s' @ r'"
    using digits_sep_unique [OF _ _ _ _ assms] show_nat_digits by simp
  then show ?thesis by auto
qed

text \<open>The deduplication token of an evidence segment is unambiguous: different writers, runs or
  segment numbers never share a token, whatever characters the identifiers contain.\<close>

theorem dedup_token_injective:
  "dedup_token s r n = dedup_token s' r' n' \<longleftrightarrow> s = s' \<and> r = r' \<and> n = n'"
proof
  assume "dedup_token s r n = dedup_token s' r' n'"
  then have "show_nat (length s) @ CHR '':'' # s @ CHR '':'' # show_nat (length r) @ CHR '':'' # r @ CHR '':'' # show_int n
     = show_nat (length s') @ CHR '':'' # s' @ CHR '':'' # show_nat (length r') @ CHR '':'' # r' @ CHR '':'' # show_int n'"
    by (simp add: dedup_token_def)
  from length_prefixed_unique [OF this] show "s = s' \<and> r = r' \<and> n = n'"
    using length_prefixed_unique [of r "CHR '':'' # show_int n" r' "CHR '':'' # show_int n'"] by simp
qed simp

text \<open>The canonical text of a row can be read back: parsing it gives exactly the list of values it
  was made of, so two different rows never have the same canonical text.\<close>

theorem canonical_roundtrip:
  "json_loads (canonical r) = Some (canonical_value r)
   \<and> (canonical r = canonical s \<longleftrightarrow> same_fields r s)"
  using json_roundtrip [OF fmt_ok_used(2) canonical_value_plain [of r], folded canonical_def]
  by (simp add: canonical_eq_iff)

end
