(* ===== verification/VerifyAudit.thy ===== *)
theory VerifyAudit
  imports AuditChain
begin

text \<open>
  The offline verifier of the audit chain, \<open>verify_audit.py\<close>: grouping of rows into chains,
  the four checks of \<open>verify_tier\<close>, and the exit code of \<open>main\<close>.  The reachability check is a
  worklist over the rows; it is proved to compute the inductively defined set of rows that
  are linked to the genesis.
\<close>

datatype issue =
    DuplicateRow string
  | ContentEdit string
  | MissingPredecessor string
  | Unreachable string
  | UnidentifiedWriter string

section \<open>Chains\<close>

definition server_id_of :: "string \<Rightarrow> string" where
  "server_id_of raw =
     (if raw = [] then []
      else case json_loads raw of
          Some (PDict es) \<Rightarrow> (case map_of es ''server_id'' of Some (PStr v) \<Rightarrow> v | _ \<Rightarrow> [])
        | _ \<Rightarrow> [])"

definition group_key :: "chained_row \<Rightarrow> string \<times> string" where
  "group_key r = (tier r, server_id_of (args r))"

definition writer_issue :: "chained_row \<Rightarrow> issue option" where
  "writer_issue r =
     (if tier r \<noteq> ''evidence'' then None
      else if snd (group_key r) \<noteq> [] then None
      else Some (UnidentifiedWriter (row_hash r)))"

section \<open>The checks of one chain\<close>

definition hashed :: "chained_row list \<Rightarrow> chained_row list" where
  "hashed rows = filter (\<lambda>r. row_hash r \<noteq> []) rows"

definition seen_counts :: "chained_row list \<Rightarrow> (string, nat) dict" where
  "seen_counts rows = foldl (\<lambda>d r. dset d (row_hash r) (dget_or d (row_hash r) 0 + 1)) [] rows"

definition duplicate_issues :: "chained_row list \<Rightarrow> issue list" where
  "duplicate_issues rows = map (\<lambda>(h, n). DuplicateRow h) (filter (\<lambda>(h, n). n > 1) (seen_counts rows))"

definition content_issues :: "(string \<Rightarrow> string) \<Rightarrow> chained_row list \<Rightarrow> issue list" where
  "content_issues D rows =
     map (\<lambda>r. ContentEdit (row_hash r)) (filter (\<lambda>r. compute_row_hash D (prev_hash r) r \<noteq> row_hash r) rows)"

definition linkage_issues :: "chained_row list \<Rightarrow> issue list" where
  "linkage_issues rows =
     map (\<lambda>r. MissingPredecessor (row_hash r))
       (filter (\<lambda>r. prev_hash r \<noteq> [] \<and> prev_hash r \<notin> row_hash ` set rows) rows)"

text \<open>\<open>children\<close>: the rows that name a hash as their predecessor, in row order.\<close>

definition children :: "chained_row list \<Rightarrow> string \<Rightarrow> chained_row list" where
  "children rows h = filter (\<lambda>r. prev_hash r = h) rows"

text \<open>The worklist; its head is the top of the stack.\<close>

definition pending :: "chained_row list \<Rightarrow> chained_row list \<Rightarrow> string set \<Rightarrow> string set" where
  "pending rows stack reached = (row_hash ` set rows \<union> row_hash ` set stack) - reached"

function reach_loop :: "chained_row list \<Rightarrow> chained_row list \<Rightarrow> string set \<Rightarrow> string set" where
  "reach_loop rows [] reached = reached"
| "reach_loop rows (r # stack) reached =
     (if row_hash r \<in> reached then reach_loop rows stack reached
      else reach_loop rows (rev (children rows (row_hash r)) @ stack) (insert (row_hash r) reached))"
  by pat_completeness auto
termination
proof (relation "measures [\<lambda>(rows, stack, reached). card (pending rows stack reached),
      \<lambda>(rows, stack, reached). length stack]")
  fix rows stack reached and r :: chained_row
  show "((rows, stack, reached), rows, r # stack, reached)
      \<in> measures [\<lambda>(rows, stack, reached). card (pending rows stack reached),
                   \<lambda>(rows, stack, reached). length stack]"
    if "row_hash r \<in> reached"
  proof -
    have "pending rows (r # stack) reached = pending rows stack reached"
      using that by (auto simp: pending_def)
    then show ?thesis by simp
  qed
  show "((rows, rev (children rows (row_hash r)) @ stack, insert (row_hash r) reached), rows, r # stack, reached)
      \<in> measures [\<lambda>(rows, stack, reached). card (pending rows stack reached),
                   \<lambda>(rows, stack, reached). length stack]"
    if "row_hash r \<notin> reached"
  proof -
    have "pending rows (rev (children rows (row_hash r)) @ stack) (insert (row_hash r) reached)
        \<subset> pending rows (r # stack) reached"
      using that by (auto simp: pending_def children_def)
    moreover have "finite (pending rows (r # stack) reached)"
      by (simp add: pending_def)
    ultimately show ?thesis by (simp add: psubset_card_mono)
  qed
qed simp

definition reachable_hashes :: "chained_row list \<Rightarrow> string set" where
  "reachable_hashes rows = reach_loop rows (rev (children rows [])) {}"

definition reach_issues :: "chained_row list \<Rightarrow> issue list" where
  "reach_issues rows =
     (let reachable = reachable_hashes rows
      in map (\<lambda>r. Unreachable (row_hash r)) (filter (\<lambda>r. row_hash r \<notin> reachable) rows))"

definition verify_tier :: "(string \<Rightarrow> string) \<Rightarrow> chained_row list \<Rightarrow> issue list" where
  "verify_tier D all_rows =
     (let rows = hashed all_rows
      in duplicate_issues rows @ content_issues D rows @ linkage_issues rows @ reach_issues rows)"

section \<open>All chains\<close>

definition group_rows :: "chained_row list \<Rightarrow> (string \<times> string, chained_row list) dict" where
  "group_rows rows = foldl (\<lambda>d r. dset d (group_key r) (dget_or d (group_key r) [] @ [r])) [] rows"

definition chain_issues :: "(string \<Rightarrow> string) \<Rightarrow> chained_row list \<Rightarrow> issue list" where
  "chain_issues D rows = verify_tier D rows @ List.map_filter writer_issue rows"

text \<open>\<open>main\<close> returns 2 without a verifier password, 0 when no chain has an issue, else 1.\<close>

definition verify_main :: "(string \<Rightarrow> string) \<Rightarrow> bool \<Rightarrow> chained_row list \<Rightarrow> int" where
  "verify_main D verify_password rows =
     (if \<not> verify_password then 2
      else let total = sum_list (map (\<lambda>(k, chain). length (chain_issues D chain)) (group_rows rows))
           in if total = 0 then 0 else 1)"

section \<open>The worklist computes reachability\<close>

inductive linked :: "chained_row list \<Rightarrow> string \<Rightarrow> bool" for rows where
  genesis: "r \<in> set rows \<Longrightarrow> prev_hash r = [] \<Longrightarrow> linked rows (row_hash r)"
| link: "linked rows h \<Longrightarrow> r \<in> set rows \<Longrightarrow> prev_hash r = h \<Longrightarrow> linked rows (row_hash r)"

inductive_simps linked_iff: "linked rows h"

lemma set_children [simp]: "set (children rows h) = {r \<in> set rows. prev_hash r = h}"
  by (auto simp: children_def)

text \<open>Soundness and closure of the worklist, by computation induction.\<close>

lemma reach_loop_mono: "reached \<subseteq> reach_loop rows stack reached"
  by (induction rows stack reached rule: reach_loop.induct) auto

lemma reach_loop_stack: "r \<in> set stack \<Longrightarrow> row_hash r \<in> reach_loop rows stack reached"
proof (induction rows stack reached rule: reach_loop.induct)
  case (1 rows reached)
  then show ?case by simp
next
  case (2 rows q stack reached)
  show ?case
  proof (cases "r = q")
    case True
    then show ?thesis
      using reach_loop_mono [of reached rows stack]
        reach_loop_mono [of "insert (row_hash q) reached" rows "rev (children rows (row_hash q)) @ stack"]
      by auto
  next
    case False
    then show ?thesis using 2 by auto
  qed
qed

lemma reach_loop_sound:
  assumes "\<And>r. r \<in> set stack \<Longrightarrow> linked rows (row_hash r)" and "\<And>h. h \<in> reached \<Longrightarrow> linked rows h"
    and "h \<in> reach_loop rows stack reached"
  shows "linked rows h"
  using assms
proof (induction rows stack reached rule: reach_loop.induct)
  case (1 rows reached)
  then show ?case by simp
next
  case (2 rows q stack reached)
  show ?case
  proof (cases "row_hash q \<in> reached")
    case True
    then show ?thesis using 2 by auto
  next
    case False
    have q: "linked rows (row_hash q)" using "2.prems"(1) by simp
    show ?thesis
    proof (rule "2.IH"(2) [OF False])
      fix r assume "r \<in> set (rev (children rows (row_hash q)) @ stack)"
      then show "linked rows (row_hash r)" using q "2.prems"(1) by (auto intro: linked.link)
    next
      fix h assume "h \<in> insert (row_hash q) reached"
      then show "linked rows h" using q "2.prems"(2) by auto
    next
      show "h \<in> reach_loop rows (rev (children rows (row_hash q)) @ stack) (insert (row_hash q) reached)"
        using "2.prems"(3) False by simp
    qed
  qed
qed

definition closed_under :: "chained_row list \<Rightarrow> chained_row list \<Rightarrow> string set \<Rightarrow> bool" where
  "closed_under rows stack reached \<longleftrightarrow>
     (\<forall>h \<in> reached. \<forall>r \<in> set rows. prev_hash r = h \<longrightarrow> row_hash r \<in> reached \<or> r \<in> set stack)"

lemma reach_loop_closed:
  "closed_under rows stack reached \<Longrightarrow> closed_under rows [] (reach_loop rows stack reached)"
proof (induction rows stack reached rule: reach_loop.induct)
  case (1 rows reached)
  then show ?case by simp
next
  case (2 rows q stack reached)
  show ?case
  proof (cases "row_hash q \<in> reached")
    case True
    then have "closed_under rows stack reached"
      using "2.prems" by (auto simp: closed_under_def)
    then show ?thesis using "2.IH"(1) True by simp
  next
    case False
    have "closed_under rows (rev (children rows (row_hash q)) @ stack) (insert (row_hash q) reached)"
      using "2.prems" by (auto simp: closed_under_def)
    then show ?thesis using "2.IH"(2) False by simp
  qed
qed

lemma reachable_hashes_eq: "reachable_hashes rows = {h. linked rows h}"
proof (intro set_eqI iffI; simp)
  fix h assume "h \<in> reachable_hashes rows"
  then show "linked rows h"
    unfolding reachable_hashes_def by (rule reach_loop_sound [rotated 2]) (auto intro: linked.genesis)
next
  fix h assume "linked rows h"
  then show "h \<in> reachable_hashes rows"
  proof induction
    case (genesis r)
    then show ?case unfolding reachable_hashes_def by (intro reach_loop_stack) simp
  next
    case (link h r)
    have "closed_under rows [] (reachable_hashes rows)"
      unfolding reachable_hashes_def by (rule reach_loop_closed) (simp add: closed_under_def)
    then show ?case using link by (simp add: closed_under_def)
  qed
qed

section \<open>What an empty report means\<close>

text \<open>The abstract contract of a chain: every hashed row occurs once, carries the hash of its own
  content and is linked to the genesis.\<close>

definition clean_chain :: "(string \<Rightarrow> string) \<Rightarrow> chained_row list \<Rightarrow> bool" where
  "clean_chain D all_rows \<longleftrightarrow>
     (let rows = hashed all_rows
      in distinct (map row_hash rows)
       \<and> (\<forall>r \<in> set rows. row_hash r = compute_row_hash D (prev_hash r) r)
       \<and> (\<forall>r \<in> set rows. linked rows (row_hash r)))"

lemma seen_counts_fold:
  "dict_ok d \<Longrightarrow>
     (let e = foldl (\<lambda>d r. dset d (row_hash r) (dget_or d (row_hash r) 0 + 1)) d rows
      in dict_ok e \<and> (\<forall>h. dget_or e h 0 = dget_or d h 0 + count_list (map row_hash rows) h)
         \<and> fst ` set e = fst ` set d \<union> row_hash ` set rows)"
proof (induction rows arbitrary: d)
  case Nil
  then show ?case by simp
next
  case (Cons r rows)
  from Cons.IH [OF dict_ok_dset [OF Cons.prems], of "row_hash r" "dget_or d (row_hash r) 0 + 1"]
  show ?case by (auto simp: Let_def dget_or_dset keys_dset)
qed

lemma seen_counts_iff:
  "(h, n) \<in> set (seen_counts rows) \<longleftrightarrow> h \<in> row_hash ` set rows \<and> n = count_list (map row_hash rows) h"
proof -
  let ?e = "seen_counts rows"
  have e: "dict_ok ?e" "\<And>h. dget_or ?e h 0 = count_list (map row_hash rows) h"
    "fst ` set ?e = row_hash ` set rows"
    using seen_counts_fold [of "[]" rows] by (simp_all add: seen_counts_def Let_def dget_or_def)
  have "(h, n) \<in> set ?e \<longleftrightarrow> map_of ?e h = Some n"
    using dict_ok_map_of [OF e(1)] by simp
  also have "\<dots> \<longleftrightarrow> h \<in> fst ` set ?e \<and> n = dget_or ?e h 0"
    by (cases "map_of ?e h") (force simp: dget_or_def map_of_eq_None_iff dest: map_of_SomeD)+
  finally show ?thesis by (simp add: e)
qed

lemma distinct_count_list: "distinct xs \<longleftrightarrow> (\<forall>x \<in> set xs. count_list xs x \<le> 1)"
proof (induction xs)
  case Nil
  then show ?case by simp
next
  case (Cons x xs)
  show ?case
  proof (cases "x \<in> set xs")
    case True
    then have "0 < count_list xs x" using count_list_0_iff [of xs x] by (cases "count_list xs x") auto
    then show ?thesis using True by auto
  next
    case False
    then have "count_list xs x = 0" by simp
    moreover have "count_list (x # xs) y = count_list xs y" if "y \<in> set xs" for y
      using that False by auto
    ultimately show ?thesis using Cons False by auto
  qed
qed

lemma duplicate_issues_iff:
  "DuplicateRow h \<in> set (duplicate_issues rows) \<longleftrightarrow> 1 < count_list (map row_hash rows) h"
proof -
  have "1 < count_list (map row_hash rows) h \<Longrightarrow> h \<in> row_hash ` set rows"
    using count_notin [of h "map row_hash rows"] by fastforce
  then show ?thesis
    by (auto simp: duplicate_issues_def seen_counts_iff image_iff split: prod.splits)
qed

lemma duplicate_issues_Nil: "duplicate_issues rows = [] \<longleftrightarrow> distinct (map row_hash rows)"
proof -
  have "duplicate_issues rows = [] \<longleftrightarrow> (\<forall>h n. (h, n) \<in> set (seen_counts rows) \<longrightarrow> n \<le> 1)"
    by (force simp: duplicate_issues_def filter_empty_conv not_less)
  also have "\<dots> \<longleftrightarrow> (\<forall>h \<in> row_hash ` set rows. count_list (map row_hash rows) h \<le> 1)"
    unfolding seen_counts_iff by blast
  finally show ?thesis by (simp add: distinct_count_list)
qed

lemma verify_tier_Nil_iff:
  "verify_tier D rows = [] \<longleftrightarrow>
     distinct (map row_hash (hashed rows))
     \<and> (\<forall>r \<in> set (hashed rows). row_hash r = compute_row_hash D (prev_hash r) r)
     \<and> (\<forall>r \<in> set (hashed rows). prev_hash r \<noteq> [] \<longrightarrow> prev_hash r \<in> row_hash ` set (hashed rows))
     \<and> (\<forall>r \<in> set (hashed rows). linked (hashed rows) (row_hash r))"
  by (auto simp: verify_tier_def Let_def duplicate_issues_Nil content_issues_def linkage_issues_def
      reach_issues_def reachable_hashes_eq filter_empty_conv)

lemma linked_hash: "linked rows h \<Longrightarrow> h \<in> row_hash ` set rows"
  by (induction rule: linked.induct) auto

lemma linked_prev:
  assumes "distinct (map row_hash rows)" and "r \<in> set rows" and "linked rows (row_hash r)"
    and "prev_hash r \<noteq> []"
  shows "linked rows (prev_hash r)"
proof -
  have same: "q = r" if "q \<in> set rows" "row_hash q = row_hash r" for q
    using assms(1,2) that by (auto simp: distinct_map inj_on_def)
  from assms(3) show ?thesis
  proof cases
    case (genesis q)
    then show ?thesis using same [of q] assms(4) by simp
  next
    case (link h q)
    then show ?thesis using same [of q] by simp
  qed
qed

lemma verify_tier_clean: "verify_tier D rows = [] \<longleftrightarrow> clean_chain D rows"
proof -
  have "prev_hash r \<in> row_hash ` set (hashed rows)"
    if "distinct (map row_hash (hashed rows))" "r \<in> set (hashed rows)" "linked (hashed rows) (row_hash r)"
      "prev_hash r \<noteq> []" for r
    using linked_hash [OF linked_prev [OF that]] .
  then show ?thesis
    unfolding verify_tier_Nil_iff clean_chain_def Let_def by blast
qed

text \<open>The four kinds of issue, each for exactly the rows it is about.\<close>

lemma issue_kinds:
  "DuplicateRow h \<in> set (verify_tier D rows) \<longleftrightarrow> 1 < count_list (map row_hash (hashed rows)) h"
  "ContentEdit h \<in> set (verify_tier D rows) \<longleftrightarrow>
     (\<exists>r \<in> set (hashed rows). row_hash r = h \<and> compute_row_hash D (prev_hash r) r \<noteq> h)"
  "MissingPredecessor h \<in> set (verify_tier D rows) \<longleftrightarrow>
     (\<exists>r \<in> set (hashed rows). row_hash r = h \<and> prev_hash r \<noteq> [] \<and> prev_hash r \<notin> row_hash ` set (hashed rows))"
  "Unreachable h \<in> set (verify_tier D rows) \<longleftrightarrow>
     (\<exists>r \<in> set (hashed rows). row_hash r = h \<and> \<not> linked (hashed rows) h)"
proof -
  show "DuplicateRow h \<in> set (verify_tier D rows) \<longleftrightarrow> 1 < count_list (map row_hash (hashed rows)) h"
    unfolding duplicate_issues_iff [symmetric]
    by (auto simp: verify_tier_def Let_def content_issues_def linkage_issues_def reach_issues_def)
qed (auto simp: verify_tier_def Let_def duplicate_issues_def content_issues_def linkage_issues_def
    reach_issues_def reachable_hashes_eq split: prod.splits)

section \<open>Writers whose rows verify\<close>

text \<open>What the verifier relies on in a writer: every row it stores is chained to its current head,
  and its head only ever moves to a row it has stored.\<close>

locale chain_writer =
  fixes D :: "string \<Rightarrow> string"
    and step :: "'op \<Rightarrow> 's \<Rightarrow> 's \<times> chained_row list"
    and head :: "'s \<Rightarrow> string"
    and admissible :: "'op \<Rightarrow> bool"
  assumes row_chained: "r \<in> set (snd (step op s)) \<Longrightarrow>
      prev_hash r = head s \<and> row_hash r = compute_row_hash D (head s) r"
    and head_stored: "admissible op \<Longrightarrow>
      head (fst (step op s)) = head s \<or> head (fst (step op s)) \<in> row_hash ` set (snd (step op s))"

lemma linked_append: "linked rows h \<Longrightarrow> linked (rows @ later) h"
  by (induction rule: linked.induct) (auto intro: linked.intros)

definition chained_table :: "(string \<Rightarrow> string) \<Rightarrow> chained_row list \<Rightarrow> bool" where
  "chained_table D rows \<longleftrightarrow>
     (\<forall>r \<in> set rows. row_hash r = compute_row_hash D (prev_hash r) r \<and> linked rows (row_hash r))"

definition head_in :: "string \<Rightarrow> chained_row list \<Rightarrow> bool" where
  "head_in h rows \<longleftrightarrow> h = [] \<or> linked rows h"

lemma chained_table_append:
  assumes "chained_table D rows" and "head_in h rows"
    and "\<And>r. r \<in> set new \<Longrightarrow> prev_hash r = h \<and> row_hash r = compute_row_hash D h r"
  shows "chained_table D (rows @ new)"
proof -
  have "linked (rows @ new) (row_hash r)" if "r \<in> set new" for r
  proof -
    have p: "prev_hash r = h" "r \<in> set (rows @ new)" using assms(3) that by auto
    show ?thesis
    proof (cases "h = []")
      case True
      then show ?thesis using p by (auto intro: linked.genesis)
    next
      case False
      then have "linked (rows @ new) h" using assms(2) by (auto simp: head_in_def linked_append)
      then show ?thesis using p by (auto intro: linked.link)
    qed
  qed
  then show ?thesis
    using assms by (auto simp: chained_table_def intro: linked_append)
qed

fun run_writer :: "('op \<Rightarrow> 's \<Rightarrow> 's \<times> chained_row list) \<Rightarrow> 'op list \<Rightarrow> 's \<Rightarrow> 's \<times> chained_row list" where
  "run_writer step [] s = (s, [])"
| "run_writer step (x # xs) s =
     (let (s', rows) = step x s; (s'', rest) = run_writer step xs s' in (s'', rows @ rest))"

context chain_writer
begin

lemma step_table:
  assumes "chained_table D rows" and "head_in (head s) rows" and "admissible op"
  shows "chained_table D (rows @ snd (step op s)) \<and> head_in (head (fst (step op s))) (rows @ snd (step op s))"
proof -
  have t: "chained_table D (rows @ snd (step op s))"
    using assms(1,2) row_chained by (rule chained_table_append)
  moreover have "linked (rows @ snd (step op s)) h" if "h \<in> row_hash ` set (snd (step op s))" for h
    using t that by (auto simp: chained_table_def simp del: set_append) (metis UnI2 set_append)
  then have "head_in (head (fst (step op s))) (rows @ snd (step op s))"
    using head_stored [OF assms(3), of s] assms(2) by (auto simp: head_in_def linked_append)
  ultimately show ?thesis ..
qed

lemma run_table:
  "chained_table D rows \<Longrightarrow> head_in (head s) rows \<Longrightarrow> (\<forall>op \<in> set ops. admissible op) \<Longrightarrow>
     chained_table D (rows @ snd (run_writer step ops s))"
proof (induction ops arbitrary: rows s)
  case Nil
  then show ?case by simp
next
  case (Cons op ops)
  obtain s' new where st: "step op s = (s', new)" by (cases "step op s")
  have "chained_table D (rows @ new)" and "head_in (head s') (rows @ new)"
    using step_table [OF Cons.prems(1,2), of op] Cons.prems(3) st by simp_all
  then have "chained_table D ((rows @ new) @ snd (run_writer step ops s'))"
    using Cons.IH Cons.prems(3) by (simp del: append_assoc)
  then show ?case by (cases "run_writer step ops s'") (simp add: st)
qed

lemma run_verifies:
  assumes "verify_tier D old = []" and "head s = [] \<or> head s \<in> row_hash ` set (hashed old)"
    and "\<forall>op \<in> set ops. admissible op"
    and "snd (run_writer step ops s) = new"
    and "\<forall>r \<in> set new. row_hash r \<noteq> []" and "distinct (map row_hash (hashed old @ new))"
  shows "verify_tier D (old @ new) = []"
proof -
  have "chained_table D (hashed old)" and "head_in (head s) (hashed old)"
    using assms(1,2) by (auto simp: verify_tier_clean clean_chain_def Let_def chained_table_def head_in_def)
  then have "chained_table D (hashed old @ new)"
    using run_table assms(3,4) by blast
  moreover have "hashed (old @ new) = hashed old @ new"
    using assms(5) by (simp add: hashed_def filter_True)
  ultimately have "clean_chain D (old @ new)"
    using assms(6) unfolding clean_chain_def chained_table_def Let_def by metis
  then show ?thesis by (simp only: verify_tier_clean)
qed

end

text \<open>The auditor over ClickHouse is such a writer.\<close>

lemma chain_row_fields [simp]:
  "prev_hash (chain_row D h r) = h" "row_hash (chain_row D h r) = compute_row_hash D h r"
  "compute_row_hash D q (chain_row D h r) = compute_row_hash D q r"
  by (simp_all add: chain_row_def audit_row.defs chained_row.defs compute_row_hash_def hash_input_def
      canonical_def canonical_value_def attribution_values_def)

definition auditor_step ::
  "(string \<Rightarrow> string) \<Rightarrow> insert_effect \<times> audit_row \<Rightarrow> auditor \<Rightarrow> auditor \<times> chained_row list" where
  "auditor_step D = (\<lambda>(eff, r). auditor_record D eff r)"

interpretation auditor_chain: chain_writer D "auditor_step D" last_hash "\<lambda>op. ch_effect (fst op)" for D
  by unfold_locales
    (auto simp: auditor_step_def auditor_record_def ch_effect_def Let_def split: prod.splits if_splits)

lemma auditor_run_writer: "auditor_run D ops a = run_writer (auditor_step D) ops a"
  by (induction ops arbitrary: a) (auto simp: auditor_step_def split: prod.splits)

section \<open>Tampering\<close>

text \<open>Two texts collide.\<close>

definition collision :: "(string \<Rightarrow> string) \<Rightarrow> string \<Rightarrow> string \<Rightarrow> bool" where
  "collision D x y \<longleftrightarrow> x \<noteq> y \<and> D x = D y"

lemma row_hash_eq_iff:
  "compute_row_hash D p r = compute_row_hash D q s \<longleftrightarrow>
     (p = q \<and> same_fields r s) \<or> collision D (hash_input p r) (hash_input q s)"
  unfolding compute_row_hash_def collision_def using hash_input_eq_iff by metis

text \<open>The rows between the genesis and a hash, oldest first.\<close>

inductive history :: "chained_row list \<Rightarrow> string \<Rightarrow> chained_row list \<Rightarrow> bool" for rows where
  first_row: "r \<in> set rows \<Longrightarrow> prev_hash r = [] \<Longrightarrow> history rows (row_hash r) [r]"
| next_row: "history rows h rs \<Longrightarrow> r \<in> set rows \<Longrightarrow> prev_hash r = h \<Longrightarrow> prev_hash r \<noteq> [] \<Longrightarrow>
     history rows (row_hash r) (rs @ [r])"

lemma linked_history: "linked rows h \<Longrightarrow> \<exists>rs. history rows h rs"
proof (induction rule: linked.induct)
  case (genesis r)
  then show ?case by (blast intro: history.first_row)
next
  case (link h r)
  then show ?case by (cases "h = []") (blast intro: history.intros)+
qed

lemma history_nonempty: "history rows h rs \<Longrightarrow> rs \<noteq> [] \<and> row_hash (last rs) = h \<and> set rs \<subseteq> set rows"
  by (induction rule: history.induct) auto

definition no_collision :: "(string \<Rightarrow> string) \<Rightarrow> chained_row list \<Rightarrow> bool" where
  "no_collision D rows \<longleftrightarrow> inj_on D ((\<lambda>r. hash_input (prev_hash r) r) ` set rows)"

lemma same_row_hash:
  assumes "no_collision D (rows @ rows')" and "r \<in> set rows" and "s \<in> set rows'"
    and "row_hash r = compute_row_hash D (prev_hash r) r"
    and "row_hash s = compute_row_hash D (prev_hash s) s"
    and "row_hash r = row_hash s"
  shows "prev_hash r = prev_hash s \<and> same_fields r s"
proof -
  have "hash_input (prev_hash r) r = hash_input (prev_hash s) s"
    using assms unfolding no_collision_def compute_row_hash_def by (auto dest: inj_onD)
  then show ?thesis by (simp add: hash_input_eq_iff)
qed

lemma history_unique:
  assumes "no_collision D (rows @ rows')"
    and "\<And>r. r \<in> set rows \<Longrightarrow> row_hash r = compute_row_hash D (prev_hash r) r"
    and "\<And>r. r \<in> set rows' \<Longrightarrow> row_hash r = compute_row_hash D (prev_hash r) r"
  shows "history rows h rs \<Longrightarrow> history rows' h rs' \<Longrightarrow> list_all2 same_fields rs rs'"
proof (induction arbitrary: rs' rule: history.induct)
  case (first_row r)
  from first_row.prems show ?case
  proof cases
    case (first_row s)
    then show ?thesis
      using same_row_hash [OF assms(1), of r s] assms(2,3) \<open>r \<in> set rows\<close> by simp
  next
    case (next_row h' ss s)
    then show ?thesis
      using same_row_hash [OF assms(1), of r s] assms(2,3) \<open>r \<in> set rows\<close> \<open>prev_hash r = []\<close> by simp
  qed
next
  case (next_row h rs r)
  from next_row.prems show ?case
  proof cases
    case (first_row s)
    then show ?thesis
      using same_row_hash [OF assms(1), of r s] assms(2,3) \<open>r \<in> set rows\<close> \<open>prev_hash r \<noteq> []\<close> by simp
  next
    case (next_row h' ss s)
    have "prev_hash r = prev_hash s \<and> same_fields r s"
      using same_row_hash [OF assms(1), of r s] assms(2,3) \<open>r \<in> set rows\<close> next_row by simp
    moreover have "list_all2 same_fields rs ss"
      using next_row.IH [of ss] next_row calculation \<open>prev_hash r = h\<close> by simp
    ultimately show ?thesis using next_row by (simp add: list_all2_appendI)
  qed
qed

text \<open>Deleting the rows with one hash.\<close>

definition delete_hash :: "string \<Rightarrow> chained_row list \<Rightarrow> chained_row list" where
  "delete_hash h rows = filter (\<lambda>r. row_hash r \<noteq> h) rows"

lemma set_delete_hash [simp]: "set (delete_hash h rows) = {r \<in> set rows. row_hash r \<noteq> h}"
  by (auto simp: delete_hash_def)

lemma hashed_delete_hash: "hashed (delete_hash h rows) = delete_hash h (hashed rows)"
  by (simp add: hashed_def delete_hash_def conj_commute)

lemma linked_delete:
  assumes "\<forall>r \<in> set rows. prev_hash r \<noteq> h"
  shows "linked rows k \<Longrightarrow> k \<noteq> h \<Longrightarrow> linked (delete_hash h rows) k"
proof (induction rule: linked.induct)
  case (genesis r)
  then show ?case by (intro linked.genesis) auto
next
  case (link k r)
  then have "k \<noteq> h" using assms by auto
  then show ?case using link by (intro linked.link [of _ k]) auto
qed

lemma no_self_link:
  assumes "distinct (map row_hash rows)" and "r \<in> set rows" and "prev_hash r = row_hash r"
    and "row_hash r \<noteq> []"
  shows "linked rows k \<Longrightarrow> k \<noteq> row_hash r"
proof (induction rule: linked.induct)
  case (genesis q)
  then show ?case using assms by (metis distinct_map inj_onD)
next
  case (link k q)
  then show ?case using assms by (metis distinct_map inj_onD)
qed

lemma deletion_report:
  assumes clean: "verify_tier D rows = []" and h: "h \<noteq> []"
  shows "verify_tier D (delete_hash h rows) = [] \<longleftrightarrow> (\<forall>r \<in> set (hashed rows). prev_hash r \<noteq> h)"
proof
  assume rest: "verify_tier D (delete_hash h rows) = []"
  show "\<forall>r \<in> set (hashed rows). prev_hash r \<noteq> h"
  proof (intro ballI notI)
    fix r assume r: "r \<in> set (hashed rows)" "prev_hash r = h"
    have c: "distinct (map row_hash (hashed rows))" "linked (hashed rows) (row_hash r)"
      using clean r(1) unfolding verify_tier_Nil_iff by blast+
    have "row_hash r \<noteq> h"
      using no_self_link [OF c(1) r(1) _ _ c(2)] r h by auto
    then have "r \<in> set (hashed (delete_hash h rows))" using r(1) by (simp add: hashed_delete_hash)
    then have "h \<in> row_hash ` set (hashed (delete_hash h rows))"
      using rest r(2) h unfolding verify_tier_Nil_iff by blast
    then show False by (auto simp: hashed_delete_hash)
  qed
next
  assume no: "\<forall>r \<in> set (hashed rows). prev_hash r \<noteq> h"
  have "clean_chain D rows" using clean by (simp add: verify_tier_clean)
  then have "clean_chain D (delete_hash h rows)"
    using linked_delete [OF no] unfolding clean_chain_def Let_def hashed_delete_hash
    by (auto simp: delete_hash_def distinct_map_filter)
  then show "verify_tier D (delete_hash h rows) = []" by (simp add: verify_tier_clean)
qed

section \<open>Grouping and the exit code\<close>

lemma group_rows_fold:
  "dict_ok d \<Longrightarrow>
     (let e = foldl (\<lambda>d r. dset d (group_key r) (dget_or d (group_key r) [] @ [r])) d rows
      in dict_ok e \<and> (\<forall>k. dget_or e k [] = dget_or d k [] @ filter (\<lambda>r. group_key r = k) rows)
         \<and> fst ` set e = fst ` set d \<union> group_key ` set rows)"
proof (induction rows arbitrary: d)
  case Nil
  then show ?case by simp
next
  case (Cons r rows)
  from Cons.IH [OF dict_ok_dset [OF Cons.prems], of "group_key r" "dget_or d (group_key r) [] @ [r]"]
  show ?case by (auto simp: Let_def dget_or_dset dom_update)
qed

lemma group_rows_spec:
  "(k, chain) \<in> set (group_rows rows) \<longleftrightarrow>
     k \<in> group_key ` set rows \<and> chain = filter (\<lambda>r. group_key r = k) rows"
proof -
  let ?e = "group_rows rows"
  have e: "dict_ok ?e" "\<And>k. dget_or ?e k [] = filter (\<lambda>r. group_key r = k) rows"
    "fst ` set ?e = group_key ` set rows"
    using group_rows_fold [of "[]" rows, unfolded Let_def, folded group_rows_def]
    by (simp_all add: dict_ok_def dget_or_def [of "[]"] del: split_paired_All)
  have "(k, chain) \<in> set ?e \<longleftrightarrow> map_of ?e k = Some chain"
    using e(1) by (simp add: dict_ok_def)
  also have "\<dots> \<longleftrightarrow> k \<in> fst ` set ?e \<and> chain = dget_or ?e k []"
    using map_of_eq_None_iff [of ?e k] by (auto simp: dget_or_def simp del: map_of_eq_None_iff split: option.splits)
  finally show ?thesis by (simp add: e)
qed

lemma clean_chain_Nil [simp]: "clean_chain D []"
  by (simp add: clean_chain_def hashed_def)

lemma writer_issues_Nil:
  "List.map_filter writer_issue rows = [] \<longleftrightarrow>
     (\<forall>r \<in> set rows. tier r = ''evidence'' \<longrightarrow> server_id_of (args r) \<noteq> [])"
  by (auto simp: List.map_filter_def writer_issue_def group_key_def filter_empty_conv)

lemma chain_issues_Nil:
  "chain_issues D rows = [] \<longleftrightarrow> clean_chain D rows
     \<and> (\<forall>r \<in> set rows. tier r = ''evidence'' \<longrightarrow> server_id_of (args r) \<noteq> [])"
  by (simp add: chain_issues_def verify_tier_clean writer_issues_Nil)

lemma verify_main_zero:
  "verify_main D True rows = 0 \<longleftrightarrow>
     (\<forall>k. clean_chain D (filter (\<lambda>r. group_key r = k) rows))
     \<and> (\<forall>r \<in> set rows. tier r = ''evidence'' \<longrightarrow> server_id_of (args r) \<noteq> [])"
proof -
  have "verify_main D True rows = 0 \<longleftrightarrow> (\<forall>(k, chain) \<in> set (group_rows rows). chain_issues D chain = [])"
    by (auto simp: verify_main_def Let_def)
  also have "\<dots> \<longleftrightarrow> (\<forall>k \<in> group_key ` set rows. chain_issues D (filter (\<lambda>r. group_key r = k) rows) = [])"
    unfolding Ball_def split_paired_all split_paired_All case_prod_conv group_rows_spec by simp
  also have "\<dots> \<longleftrightarrow> (\<forall>k \<in> group_key ` set rows. clean_chain D (filter (\<lambda>r. group_key r = k) rows))
      \<and> (\<forall>r \<in> set rows. tier r = ''evidence'' \<longrightarrow> server_id_of (args r) \<noteq> [])"
    by (auto simp: chain_issues_Nil)
  also have "(\<forall>k \<in> group_key ` set rows. clean_chain D (filter (\<lambda>r. group_key r = k) rows))
      \<longleftrightarrow> (\<forall>k. clean_chain D (filter (\<lambda>r. group_key r = k) rows))"
  proof -
    have "filter (\<lambda>r. group_key r = k) rows = []" if "k \<notin> group_key ` set rows" for k
      using that by (auto simp: filter_empty_conv)
    then show ?thesis by (metis clean_chain_Nil)
  qed
  finally show ?thesis .
qed

section \<open>Properties\<close>

text \<open>A small log for the witnesses, written with the digest that returns its input.\<close>

definition sample_row :: "string \<Rightarrow> audit_row" where
  "sample_row t = \<lparr>ts = utc_dt 0, principal = ''alice'', tier = ''sovereign'', tool = t, args = ''{}'',
     data_classes = [''topology''], decision = ''allow'', row_count = 1, error = [],
     client_name = [], model_id = [], actor_type = []\<rparr>"

definition stored_ok :: insert_effect where
  "stored_ok = \<lparr>stored = True, raised = False\<rparr>"

definition sample_log :: "chained_row list" where
  "sample_log = snd (auditor_run (\<lambda>x. x) [(stored_ok, sample_row ''locate''), (stored_ok, sample_row ''neighbors'')]
     \<lparr>last_hash = []\<rparr>)"

lemma sample_log_clean: "verify_tier (\<lambda>x. x) sample_log = []"
  by code_simp

text \<open>The hash of an audit row binds its predecessor and its whole content.  Two rows hash alike
  exactly when they follow the same predecessor and agree in every chained field, or when the two
  texts that were hashed are a collision of the digest.\<close>

theorem row_hash_binds_content:
  "compute_row_hash D p r = compute_row_hash D q s \<longleftrightarrow>
     (p = q \<and> same_fields r s) \<or> collision D (hash_input p r) (hash_input q s)"
  by (rule row_hash_eq_iff)

text \<open>C5: The verifier exits with 0 exactly when every chain (rows with the same tier and writer) is
  clean, that is, no hash repeats, every hash is that of its row's content and every row is linked
  to the genesis, and every evidence row names its writer.\<close>

theorem verify_main_zero_iff:
  "verify_main D True rows = 0 \<longleftrightarrow>
     (\<forall>k. clean_chain D (filter (\<lambda>r. group_key r = k) rows))
     \<and> (\<forall>r \<in> set rows. tier r = ''evidence'' \<longrightarrow> server_id_of (args r) \<noteq> [])"
  by (rule verify_main_zero)

lemma verify_main_zero_iff_witness:
  "clean_chain (\<lambda>x. x) (filter (\<lambda>r. group_key r = (''sovereign'', [])) sample_log) \<and> sample_log \<noteq> []"
proof -
  have "verify_main (\<lambda>x. x) True sample_log = 0" by code_simp
  moreover have "sample_log \<noteq> []" by code_simp
  ultimately show ?thesis using verify_main_zero_iff [of "\<lambda>x. x" sample_log] by blast
qed

text \<open>Each kind of issue is reported for exactly the rows it names: a hash that occurs twice, a
  row whose content does not hash to its hash, a row whose predecessor is missing, and a row that
  is not linked to the genesis (found by the worklist).\<close>

theorem issues_are_exact:
  "(DuplicateRow h \<in> set (verify_tier D rows) \<longleftrightarrow> 1 < count_list (map row_hash (hashed rows)) h)
   \<and> (ContentEdit h \<in> set (verify_tier D rows) \<longleftrightarrow>
       (\<exists>r \<in> set (hashed rows). row_hash r = h \<and> compute_row_hash D (prev_hash r) r \<noteq> h))
   \<and> (MissingPredecessor h \<in> set (verify_tier D rows) \<longleftrightarrow>
       (\<exists>r \<in> set (hashed rows). row_hash r = h \<and> prev_hash r \<noteq> [] \<and> prev_hash r \<notin> row_hash ` set (hashed rows)))
   \<and> (Unreachable h \<in> set (verify_tier D rows) \<longleftrightarrow>
       (\<exists>r \<in> set (hashed rows). row_hash r = h \<and> \<not> linked (hashed rows) h))"
  using issue_kinds by blast

text \<open>C11: A hash authenticates everything before it.  When two clean logs contain the same hash and no
  two of their rows collide, the rows from the genesis to that hash agree in every field.\<close>

theorem head_authenticates_history:
  assumes "no_collision D (rows @ rows')" and "clean_chain D rows" and "clean_chain D rows'"
    and "history (hashed rows) h rs" and "history (hashed rows') h rs'"
  shows "list_all2 same_fields rs rs'"
proof -
  have "no_collision D (hashed rows @ hashed rows')"
    using assms(1) unfolding no_collision_def by (rule inj_on_subset) (auto simp: hashed_def)
  moreover have "row_hash r = compute_row_hash D (prev_hash r) r"
    if "r \<in> set (hashed rows) \<or> r \<in> set (hashed rows')" for r
    using that assms(2,3) by (auto simp: clean_chain_def Let_def)
  ultimately show ?thesis using history_unique assms(4,5) by blast
qed

lemma head_authenticates_history_witness:
  "list_all2 same_fields sample_log sample_log"
proof -
  obtain a b where ab: "sample_log = [a, b]" "prev_hash a = []" "prev_hash b = row_hash a" "row_hash a \<noteq> []"
    "row_hash b \<noteq> []"
    by (simp add: sample_log_def auditor_record_def stored_ok_def Let_def compute_row_hash_def hash_input_def)
  then have h: "hashed sample_log = [a, b]" unfolding ab(1) by (simp add: hashed_def)
  have "history [a, b] (row_hash a) [a]" using ab(2-) by (intro history.first_row) simp_all
  then have "history [a, b] (row_hash b) ([a] @ [b])" using ab(2-) by (intro history.next_row) simp_all
  moreover have "clean_chain (\<lambda>x. x) sample_log" using sample_log_clean by (simp add: verify_tier_clean)
  moreover have "no_collision (\<lambda>x. x) (sample_log @ sample_log)" by (simp add: no_collision_def inj_on_def)
  ultimately show ?thesis
    using head_authenticates_history [of "\<lambda>x. x" sample_log sample_log "row_hash b" "[a, b]" "[a, b]"]
    unfolding h unfolding ab(1) by simp
qed

text \<open>C20: Deleting rows from a clean log is reported unless nothing referred to them: the verifier still
  accepts the log exactly when no remaining row named the deleted hash as its predecessor.  The
  newest rows can therefore be cut off unnoticed.\<close>

theorem deletion_detected_iff:
  assumes "verify_tier D rows = []" and "h \<noteq> []"
  shows "verify_tier D (delete_hash h rows) = [] \<longleftrightarrow> (\<forall>r \<in> set (hashed rows). prev_hash r \<noteq> h)"
  using assms by (rule deletion_report)

lemma deletion_detected_iff_witness:
  "verify_tier (\<lambda>x. x) (delete_hash (row_hash (hd sample_log)) sample_log) \<noteq> []
   \<and> verify_tier (\<lambda>x. x) (delete_hash (row_hash (last sample_log)) sample_log) = []"
proof -
  have "row_hash (hd sample_log) \<noteq> []" "row_hash (last sample_log) \<noteq> []"
    "\<not> (\<forall>r \<in> set (hashed sample_log). prev_hash r \<noteq> row_hash (hd sample_log))"
    "\<forall>r \<in> set (hashed sample_log). prev_hash r \<noteq> row_hash (last sample_log)"
    by code_simp+
  then show ?thesis
    using deletion_detected_iff [OF sample_log_clean] by blast
qed

lemma rootless_unlinked:
  assumes "prev_hash r \<noteq> []"
  shows "\<not> linked [r] h"
proof
  assume "linked [r] h"
  then show False using assms by (induction rule: linked.induct) auto
qed

lemma issues_are_exact_witness:
  "MissingPredecessor (row_hash (last sample_log)) \<in> set (verify_tier (\<lambda>x. x) [last sample_log])
   \<and> Unreachable (row_hash (last sample_log)) \<in> set (verify_tier (\<lambda>x. x) [last sample_log])"
proof -
  let ?r = "last sample_log"
  have r: "hashed [?r] = [?r]" "prev_hash ?r \<noteq> []" "prev_hash ?r \<noteq> row_hash ?r"
    by code_simp+
  then have "MissingPredecessor (row_hash ?r) \<in> set (verify_tier (\<lambda>x. x) [?r])"
    using issues_are_exact [of "row_hash ?r" "\<lambda>x. x" "[?r]"] by auto
  moreover have "\<not> linked [?r] (row_hash ?r)"
    using rootless_unlinked r(2) by blast
  then have "Unreachable (row_hash ?r) \<in> set (verify_tier (\<lambda>x. x) [?r])"
    using issues_are_exact [of "row_hash ?r" "\<lambda>x. x" "[?r]"] r(1) by auto
  ultimately show ?thesis ..
qed

end
