(* ===== verification/RateLimit.thy ===== *)
theory RateLimit
  imports Prelude
begin

text \<open>
  \<open>ratelimit.py\<close>: the per-principal limiter.  The state is the two dictionaries of
  \<open>PrincipalLimiter\<close>; every operation holds the lock for its whole body, so an execution is
  a sequence of operations.  The clock reading of an operation is an argument, and a Python
  float is read as the real number it stands for.
\<close>

record limiter_cfg =
  max_calls :: int
  window :: real
  window_text :: string \<comment> \<open>the window rendered with \<open>:g\<close>, for the message\<close>
  max_concurrent :: int

record limiter =
  calls :: "(string, real list) dict"
  in_flight_counts :: "(string, int) dict"

datatype limit_error =
    RateLimitExceeded string
  | ConcurrencyExceeded string

definition new_limiter :: limiter where
  "new_limiter = \<lparr>calls = [], in_flight_counts = []\<rparr>"

definition limiter_enabled :: "limiter_cfg \<Rightarrow> bool" where
  "limiter_enabled cfg \<longleftrightarrow> max_calls cfg > 0 \<or> max_concurrent cfg > 0"

definition trim_calls :: "limiter_cfg \<Rightarrow> string \<Rightarrow> real \<Rightarrow> limiter \<Rightarrow> real list" where
  "trim_calls cfg p now st = dropWhile (\<lambda>t. t \<le> now - window cfg) (dget_or (calls st) p [])"

text \<open>\<open>_trim\<close> returns the principal's deque, which stays in the dictionary.\<close>

definition trim :: "limiter_cfg \<Rightarrow> string \<Rightarrow> real \<Rightarrow> limiter \<Rightarrow> real list \<times> limiter" where
  "trim cfg p now st =
     (let cs = trim_calls cfg p now st in (cs, st\<lparr>calls := dset (calls st) p cs\<rparr>))"

definition observed :: "limiter_cfg \<Rightarrow> string \<Rightarrow> real \<Rightarrow> limiter \<Rightarrow> nat \<times> limiter" where
  "observed cfg p now st = (let (cs, st') = trim cfg p now st in (length cs, st'))"

definition in_flight :: "limiter \<Rightarrow> string \<Rightarrow> int" where
  "in_flight st p = dget_or (in_flight_counts st) p 0"

definition concurrency_message :: "limiter_cfg \<Rightarrow> string \<Rightarrow> int \<Rightarrow> string" where
  "concurrency_message cfg p current =
     ''principal '' @ [CHR 0x27] @ p @ [CHR 0x27] @ '' already has '' @ show_int current
     @ '' calls in flight (limit '' @ show_int (max_concurrent cfg) @ '')''"

definition rate_message :: "limiter_cfg \<Rightarrow> string \<Rightarrow> string" where
  "rate_message cfg p =
     ''principal '' @ [CHR 0x27] @ p @ [CHR 0x27] @ '' exceeded '' @ show_int (max_calls cfg)
     @ '' calls per '' @ window_text cfg @ ''s''"

definition enter_flight :: "string \<Rightarrow> limiter \<Rightarrow> limiter" where
  "enter_flight p st = st\<lparr>in_flight_counts := dset (in_flight_counts st) p (in_flight st p + 1)\<rparr>"

definition acquire :: "limiter_cfg \<Rightarrow> string \<Rightarrow> real \<Rightarrow> limiter \<Rightarrow> (limit_error + unit) \<times> limiter" where
  "acquire cfg p now st =
     (if max_concurrent cfg > 0 \<and> in_flight st p \<ge> max_concurrent cfg
      then (Inl (ConcurrencyExceeded (concurrency_message cfg p (in_flight st p))), st)
      else if max_calls cfg > 0 then
        (let (cs, st') = trim cfg p now st
         in if int (length cs) \<ge> max_calls cfg then (Inl (RateLimitExceeded (rate_message cfg p)), st')
            else (Inr (), enter_flight p (st'\<lparr>calls := dset (calls st') p (cs @ [now])\<rparr>)))
      else (Inr (), enter_flight p st))"

definition release :: "string \<Rightarrow> limiter \<Rightarrow> limiter" where
  "release p st =
     (if in_flight st p \<le> 1 then st\<lparr>in_flight_counts := ddel (in_flight_counts st) p\<rparr>
      else st\<lparr>in_flight_counts := dset (in_flight_counts st) p (in_flight st p - 1)\<rparr>)"

section \<open>One operation\<close>

text \<open>The calls a principal has inside the window that ends now, without changing the state.\<close>

definition budget_used :: "limiter_cfg \<Rightarrow> limiter \<Rightarrow> string \<Rightarrow> real \<Rightarrow> nat" where
  "budget_used cfg st p now = length (trim_calls cfg p now st)"

lemma in_flight_enter [simp]: "in_flight (enter_flight p st) q = (if q = p then in_flight st p + 1 else in_flight st q)"
  by (simp add: in_flight_def enter_flight_def dget_or_dset)

lemma in_flight_calls [simp]: "in_flight (st\<lparr>calls := c\<rparr>) p = in_flight st p"
  by (simp add: in_flight_def)

lemma calls_enter [simp]: "calls (enter_flight p st) = calls st"
  by (simp add: enter_flight_def)

lemma in_flight_release:
  "in_flight (release p st) q = (if q = p then max 0 (in_flight st p - 1) else in_flight st q)"
  by (auto simp: in_flight_def release_def dget_or_def map_of_ddel split: option.splits)

lemma calls_release [simp]: "calls (release p st) = calls st"
  by (simp add: release_def)

lemma trim_calls_other [simp]: "trim_calls cfg q now (st\<lparr>calls := dset (calls st) p cs\<rparr>) =
    dropWhile (\<lambda>t. t \<le> now - window cfg) (if q = p then cs else dget_or (calls st) q [])"
  by (simp add: trim_calls_def dget_or_dset)

lemma acquire_flight:
  "acquire cfg p now st = (Inr u, st') \<Longrightarrow> in_flight st' q = in_flight st q + (if q = p then 1 else 0)"
  "acquire cfg p now st = (Inl e, st') \<Longrightarrow> in_flight st' q = in_flight st q"
  by (auto simp: acquire_def trim_def Let_def split: if_splits)

lemma acquire_budget_rejected:
  "acquire cfg p now st = (Inl e, st') \<Longrightarrow> trim_calls cfg q now st' = trim_calls cfg q now st"
  by (auto simp: acquire_def trim_def Let_def split: if_splits) (simp_all add: trim_calls_def)

lemma acquire_calls_other:
  "acquire cfg p now st = (r, st') \<Longrightarrow> q \<noteq> p \<Longrightarrow> dget_or (calls st') q [] = dget_or (calls st) q []"
  by (auto simp: acquire_def trim_def Let_def dget_or_dset split: if_splits)

lemma acquire_calls_admitted:
  "acquire cfg p now st = (Inr u, st') \<Longrightarrow> max_calls cfg > 0 \<Longrightarrow>
     dget_or (calls st') p [] = trim_calls cfg p now st @ [now] \<and> int (length (trim_calls cfg p now st)) < max_calls cfg"
  by (auto simp: acquire_def trim_def Let_def dget_or_dset split: if_splits)

lemma acquire_limit:
  "acquire cfg p now st = (Inr u, st') \<Longrightarrow> max_concurrent cfg > 0 \<Longrightarrow> in_flight st p < max_concurrent cfg"
  by (auto simp: acquire_def trim_def Let_def split: if_splits)

section \<open>Executions\<close>

text \<open>Threads call the limiter in any order; each call is one event with its clock reading.  The
  run collects the admitted calls.\<close>

datatype limiter_event = Acquire string | Release string | Observe string

fun limiter_step :: "limiter_cfg \<Rightarrow> real \<times> limiter_event \<Rightarrow> limiter \<Rightarrow> limiter \<times> (string \<times> real) list" where
  "limiter_step cfg (now, Acquire p) st =
     (case acquire cfg p now st of (Inr u, st') \<Rightarrow> (st', [(p, now)]) | (Inl e, st') \<Rightarrow> (st', []))"
| "limiter_step cfg (now, Release p) st = (release p st, [])"
| "limiter_step cfg (now, Observe p) st = (snd (observed cfg p now st), [])"

fun limiter_run :: "limiter_cfg \<Rightarrow> (real \<times> limiter_event) list \<Rightarrow> limiter \<Rightarrow> limiter \<times> (string \<times> real) list" where
  "limiter_run cfg [] st = (st, [])"
| "limiter_run cfg (e # es) st =
     (let (st', a) = limiter_step cfg e st; (st'', b) = limiter_run cfg es st' in (st'', a @ b))"

definition times :: "(string \<times> real) list \<Rightarrow> string \<Rightarrow> real list" where
  "times adm p = map snd (filter (\<lambda>x. fst x = p) adm)"

definition in_window :: "limiter_cfg \<Rightarrow> (string \<times> real) list \<Rightarrow> string \<Rightarrow> real \<Rightarrow> nat" where
  "in_window cfg adm p t = length (filter (\<lambda>s. t - window cfg < s \<and> s \<le> t) (times adm p))"

definition window_ok :: "limiter_cfg \<Rightarrow> (string \<times> real) list \<Rightarrow> bool" where
  "window_ok cfg adm \<longleftrightarrow> (\<forall>p t. int (in_window cfg adm p t) \<le> max_calls cfg)"

text \<open>The invariant: what is no longer in a principal's deque has left the window for good.\<close>

definition window_inv :: "limiter_cfg \<Rightarrow> limiter \<Rightarrow> (string \<times> real) list \<Rightarrow> real \<Rightarrow> bool" where
  "window_inv cfg st adm lst \<longleftrightarrow>
     (\<forall>p. \<exists>old. times adm p = old @ dget_or (calls st) p [] \<and> (\<forall>t \<in> set old. t \<le> lst - window cfg))"

lemma times_append: "times (adm @ adm') p = times adm p @ times adm' p"
  by (simp add: times_def)

lemma window_inv_drop:
  assumes "window_inv cfg st adm lst" and "lst \<le> now"
  obtains old where "times adm p = old @ trim_calls cfg p now st" and "\<forall>t \<in> set old. t \<le> now - window cfg"
proof -
  let ?P = "\<lambda>t. t \<le> now - window cfg" and ?q = "dget_or (calls st) p []"
  obtain old where old: "times adm p = old @ ?q" "\<forall>t \<in> set old. t \<le> lst - window cfg"
    using assms(1) unfolding window_inv_def by blast
  have "times adm p = (old @ takeWhile ?P ?q) @ trim_calls cfg p now st"
    using old(1) by (simp add: trim_calls_def)
  moreover have "\<forall>t \<in> set (old @ takeWhile ?P ?q). ?P t"
    using old(2) assms(2) by (force dest: set_takeWhileD)
  ultimately show ?thesis using that by blast
qed

lemma window_inv_update:
  assumes "window_inv cfg st adm lst" and "lst \<le> now"
    and "\<And>q. (dget_or (calls st') q [] = trim_calls cfg q now st @ times new q)
        \<or> (dget_or (calls st') q [] = dget_or (calls st) q [] @ times new q)"
  shows "window_inv cfg st' (adm @ new) now"
  unfolding window_inv_def
proof
  fix q
  obtain old where a: "times adm q = old @ trim_calls cfg q now st" "\<forall>t \<in> set old. t \<le> now - window cfg"
    using window_inv_drop [OF assms(1,2)] by blast
  obtain old' where b: "times adm q = old' @ dget_or (calls st) q []" "\<forall>t \<in> set old'. t \<le> now - window cfg"
    using assms(1,2) unfolding window_inv_def by force
  have "times (adm @ new) q = old @ dget_or (calls st') q [] \<or> times (adm @ new) q = old' @ dget_or (calls st') q []"
    using assms(3) [of q] a(1) b(1) by (metis append_assoc times_append)
  then show "\<exists>old. times (adm @ new) q = old @ dget_or (calls st') q []
      \<and> (\<forall>t \<in> set old. t \<le> now - window cfg)"
    using a(2) b(2) by blast
qed

lemma window_ok_admit:
  assumes inv: "window_inv cfg st adm lst" and "lst \<le> now" and ok: "window_ok cfg adm"
    and room: "int (length (trim_calls cfg p now st)) < max_calls cfg"
  shows "window_ok cfg (adm @ [(p, now)])"
  unfolding window_ok_def
proof (intro allI)
  fix q t
  obtain old where old: "times adm p = old @ trim_calls cfg p now st" "\<forall>t \<in> set old. t \<le> now - window cfg"
    using window_inv_drop [OF inv assms(2)] by blast
  let ?in = "\<lambda>s. t - window cfg < s \<and> s \<le> t"
  consider "q \<noteq> p" | "q = p" "t < now" | "q = p" "now \<le> t" by linarith
  then show "int (in_window cfg (adm @ [(p, now)]) q t) \<le> max_calls cfg"
  proof cases
    case 3
    have "filter ?in old = []" using old(2) 3 by (auto simp: filter_empty_conv)
    then have "in_window cfg (adm @ [(p, now)]) q t \<le> length (trim_calls cfg p now st) + 1"
      using 3 by (simp add: in_window_def times_append old(1)) (simp add: times_def le_SucI)
    then show ?thesis using room by linarith
  qed (use ok in \<open>auto simp: window_ok_def in_window_def times_append times_def\<close>)
qed

lemma limiter_step_window:
  assumes inv: "window_inv cfg st adm lst" and le: "lst \<le> now" and ok: "window_ok cfg adm"
    and pos: "max_calls cfg > 0" and st: "limiter_step cfg (now, ev) st = (st', new)"
  shows "window_inv cfg st' (adm @ new) now \<and> window_ok cfg (adm @ new)"
proof (cases ev)
  case (Acquire p)
  show ?thesis
  proof (cases "acquire cfg p now st")
    case (Pair r st1)
    show ?thesis
    proof (cases r)
      case (Inl e)
      then have *: "st' = st1" "new = []" using st Acquire Pair by simp_all
      have "dget_or (calls st1) q [] \<in> {trim_calls cfg q now st, dget_or (calls st) q []}" for q
        using Pair Inl by (auto simp: acquire_def trim_def Let_def dget_or_dset split: if_splits)
      then show ?thesis
        using * ok window_inv_update [OF inv le, of st1 "[]"] by (auto simp: times_def)
    next
      case (Inr u)
      then have *: "st' = st1" "new = [(p, now)]" using st Acquire Pair by simp_all
      have a: "dget_or (calls st1) p [] = trim_calls cfg p now st @ [now]"
        "int (length (trim_calls cfg p now st)) < max_calls cfg"
        using acquire_calls_admitted [of cfg p now st u st1] Pair Inr pos by simp_all
      have "dget_or (calls st1) q [] = dget_or (calls st) q []" if "q \<noteq> p" for q
        using acquire_calls_other [OF Pair that] .
      then have "window_inv cfg st1 (adm @ [(p, now)]) now"
        using a(1) by (intro window_inv_update [OF inv le]) (auto simp: times_def)
      then show ?thesis using * window_ok_admit [OF inv le ok a(2)] by simp
    qed
  qed
next
  case (Release p)
  then have "st' = release p st" "new = []" using st by simp_all
  then show ?thesis using ok window_inv_update [OF inv le, of st' "[]"] by (simp add: times_def)
next
  case (Observe p)
  then have "st' = st\<lparr>calls := dset (calls st) p (trim_calls cfg p now st)\<rparr>" "new = []"
    using st by (simp_all add: observed_def trim_def Let_def)
  then show ?thesis
    using ok window_inv_update [OF inv le, of st' "[]"] by (auto simp: times_def dget_or_dset)
qed

lemma limiter_run_window:
  "window_inv cfg st adm lst \<Longrightarrow> window_ok cfg adm \<Longrightarrow> max_calls cfg > 0 \<Longrightarrow>
     sorted (lst # map fst es) \<Longrightarrow> window_ok cfg (adm @ snd (limiter_run cfg es st))"
proof (induction es arbitrary: st adm lst)
  case Nil
  then show ?case by simp
next
  case (Cons e es)
  obtain now ev where e: "e = (now, ev)" by (cases e)
  obtain st' new where st': "limiter_step cfg e st = (st', new)" by (cases "limiter_step cfg e st")
  have "window_inv cfg st' (adm @ new) now \<and> window_ok cfg (adm @ new)"
    using limiter_step_window [of cfg st adm lst now ev st' new] Cons.prems e st' by simp
  then have "window_ok cfg ((adm @ new) @ snd (limiter_run cfg es st'))"
    using Cons.IH [of st' "adm @ new" now] Cons.prems e by (simp del: append_assoc)
  then show ?case using st' by (cases "limiter_run cfg es st'") simp
qed

text \<open>The number of calls in flight stays between zero and the limit.\<close>

definition flight_ok :: "limiter_cfg \<Rightarrow> limiter \<Rightarrow> bool" where
  "flight_ok cfg st \<longleftrightarrow> (\<forall>p. 0 \<le> in_flight st p \<and> (max_concurrent cfg > 0 \<longrightarrow> in_flight st p \<le> max_concurrent cfg))"

lemma limiter_step_flight: "flight_ok cfg st \<Longrightarrow> flight_ok cfg (fst (limiter_step cfg e st))"
proof -
  assume ok: "flight_ok cfg st"
  obtain now ev where e: "e = (now, ev)" by (cases e)
  show ?thesis
  proof (cases ev)
    case (Acquire p)
    show ?thesis
    proof (cases "acquire cfg p now st")
      case (Pair r st1)
      show ?thesis
        using ok Acquire Pair acquire_flight [of cfg p now st _ st1] acquire_limit [of cfg p now st _ st1] e
        by (cases r) (auto simp: flight_ok_def)
    qed
  next
    case (Release p)
    have "0 \<le> in_flight (release p st) q \<and> in_flight (release p st) q \<le> in_flight st q" for q
      using ok by (auto simp: flight_ok_def in_flight_release)
    then show ?thesis using ok e Release by (fastforce simp: flight_ok_def intro: order_trans)
  next
    case (Observe p)
    then show ?thesis using ok e by (simp add: flight_ok_def observed_def trim_def Let_def)
  qed
qed

lemma limiter_run_flight: "flight_ok cfg st \<Longrightarrow> flight_ok cfg (fst (limiter_run cfg es st))"
proof (induction es arbitrary: st)
  case (Cons e es)
  obtain st' new where st': "limiter_step cfg e st = (st', new)" by (cases "limiter_step cfg e st")
  then have "flight_ok cfg (fst (limiter_run cfg es st'))"
    using Cons.IH [of st'] limiter_step_flight [OF Cons.prems, of e] by simp
  then show ?case using st' by (cases "limiter_run cfg es st'") simp
qed simp

section \<open>What a client relies on\<close>

text \<open>The client of a limiter relies on this contract only: an admitted call holds one slot of its
  principal, a refused one holds none, and a release gives one slot back.\<close>

locale slot_limiter =
  fixes acq :: "string \<Rightarrow> 't \<Rightarrow> 's \<Rightarrow> ('e + unit) \<times> 's"
    and rel :: "string \<Rightarrow> 's \<Rightarrow> 's"
    and held :: "'s \<Rightarrow> string \<Rightarrow> int"
  assumes acq_admitted: "acq p t s = (Inr u, s') \<Longrightarrow> held s' q = held s q + (if q = p then 1 else 0)"
    and acq_refused: "acq p t s = (Inl e, s') \<Longrightarrow> held s' q = held s q"
    and rel_held: "held (rel p s) q = (if q = p then max 0 (held s p - 1) else held s q)"
begin

lemma acq_rel_balanced:
  "acq p t s = (Inr u, s') \<Longrightarrow> 0 \<le> held s p \<Longrightarrow> held (rel p s') q = held s q"
  by (simp add: rel_held acq_admitted)

end

interpretation principal_limiter: slot_limiter "acquire cfg" release in_flight for cfg
  by unfold_locales (auto simp: acquire_flight in_flight_release)

section \<open>Properties\<close>

lemma window_inv_start: "window_inv cfg new_limiter [] lst"
  by (simp add: window_inv_def new_limiter_def times_def dget_or_def)

lemma window_ok_start: "max_calls cfg > 0 \<Longrightarrow> window_ok cfg []"
  by (simp add: window_ok_def in_window_def times_def)

text \<open>C4: The rate limit holds in every execution.  However calls, releases and observations of any
  number of principals interleave under a clock that does not go back, no principal has more than
  \<open>max_calls\<close> admitted calls in any window, wherever the window lies.\<close>

theorem rate_limit_holds:
  assumes "max_calls cfg > 0" and "sorted (map fst es)"
  shows "window_ok cfg (snd (limiter_run cfg es new_limiter))"
proof -
  define lst where "lst = (case es of [] \<Rightarrow> 0 | e # _ \<Rightarrow> fst e)"
  have "sorted (lst # map fst es)"
    using assms(2) by (cases es) (auto simp: lst_def)
  from limiter_run_window [OF window_inv_start window_ok_start [OF assms(1)] assms(1) this]
  show ?thesis by simp
qed

definition sample_cfg :: limiter_cfg where
  "sample_cfg = \<lparr>max_calls = 2, window = 60, window_text = ''60'', max_concurrent = 1\<rparr>"

definition sample_events :: "(real \<times> limiter_event) list" where
  "sample_events = [(0, Acquire ''a''), (1, Release ''a''), (2, Acquire ''a''), (3, Release ''a''),
     (4, Acquire ''a''), (61, Acquire ''a'')]"

lemma rate_limit_holds_witness:
  "window_ok sample_cfg (snd (limiter_run sample_cfg sample_events new_limiter))
   \<and> snd (limiter_run sample_cfg sample_events new_limiter) = [(''a'', 0), (''a'', 2), (''a'', 61)]"
proof
  show "window_ok sample_cfg (snd (limiter_run sample_cfg sample_events new_limiter))"
    by (rule rate_limit_holds) (simp_all add: sample_cfg_def sample_events_def)
  show "snd (limiter_run sample_cfg sample_events new_limiter) = [(''a'', 0), (''a'', 2), (''a'', 61)]"
    by code_simp
qed

text \<open>A call is admitted exactly when both budgets of its own principal have room.  A refused call
  leaves every budget of every principal as it was, and an admitted one changes only its own.\<close>

theorem acquire_decision:
  "(isl (fst (acquire cfg p now st)) \<longleftrightarrow>
      (max_concurrent cfg > 0 \<and> in_flight st p \<ge> max_concurrent cfg)
      \<or> (max_calls cfg > 0 \<and> int (budget_used cfg st p now) \<ge> max_calls cfg))
   \<and> (isl (fst (acquire cfg p now st)) \<longrightarrow>
        (\<forall>q. in_flight (snd (acquire cfg p now st)) q = in_flight st q
           \<and> budget_used cfg (snd (acquire cfg p now st)) q now = budget_used cfg st q now))
   \<and> (\<forall>q. q \<noteq> p \<longrightarrow> in_flight (snd (acquire cfg p now st)) q = in_flight st q
           \<and> budget_used cfg (snd (acquire cfg p now st)) q now = budget_used cfg st q now)"
proof (intro conjI)
  show "isl (fst (acquire cfg p now st)) \<longleftrightarrow>
      (max_concurrent cfg > 0 \<and> in_flight st p \<ge> max_concurrent cfg)
      \<or> (max_calls cfg > 0 \<and> int (budget_used cfg st p now) \<ge> max_calls cfg)"
    by (auto simp: acquire_def trim_def budget_used_def Let_def)
  obtain r st' where a: "acquire cfg p now st = (r, st')" by (cases "acquire cfg p now st")
  show "isl (fst (acquire cfg p now st)) \<longrightarrow>
        (\<forall>q. in_flight (snd (acquire cfg p now st)) q = in_flight st q
           \<and> budget_used cfg (snd (acquire cfg p now st)) q now = budget_used cfg st q now)"
    using a acquire_flight(2) [of cfg p now st _ st'] acquire_budget_rejected [of cfg p now st _ st']
    by (cases r) (simp_all add: budget_used_def)
  show "\<forall>q. q \<noteq> p \<longrightarrow> in_flight (snd (acquire cfg p now st)) q = in_flight st q
           \<and> budget_used cfg (snd (acquire cfg p now st)) q now = budget_used cfg st q now"
    using a acquire_flight [of cfg p now st _ st'] acquire_calls_other [OF a]
    by (cases r) (simp_all add: budget_used_def trim_calls_def)
qed

lemma acquire_decision_witness:
  "isl (fst (acquire sample_cfg ''a'' 1 (enter_flight ''a'' new_limiter)))
   \<and> in_flight (snd (acquire sample_cfg ''a'' 1 (enter_flight ''a'' new_limiter))) ''b'' = 0"
  using acquire_decision [of sample_cfg "''a''" 1 "enter_flight ''a'' new_limiter"]
  by (simp add: sample_cfg_def in_flight_def new_limiter_def dget_or_def enter_flight_def)

end
