(* ===== verification/Classification.thy ===== *)
theory Classification
  imports PyJson
begin

text \<open>
  \<open>classification.py\<close>: which classes of data a tool can return, which of them an operator may
  declare shareable, and which tools the public server may therefore expose.  Reading the
  configuration file is an argument: the text of the file, or \<open>None\<close> when it cannot be read.
\<close>

datatype class_error =
    UnreadableFile
  | InvalidJson
  | NotAnObject
  | UnknownClass string
  | NotConfigurable string
  | InvalidLabel string
  | UnhashableLabel \<comment> \<open>the \<open>TypeError\<close> of testing a list or an object for set membership\<close>
  | MissingLabel string \<comment> \<open>the \<open>KeyError\<close> of a class without a label\<close>

definition DATA_CLASSES :: "string list" where
  "DATA_CLASSES = [''security_log'', ''firewall_config'', ''topology'', ''identity'', ''metrics'']"

definition CONFIGURABLE_CLASSES :: "string list" where
  "CONFIGURABLE_CLASSES = [''topology'', ''identity'', ''metrics'']"

definition LABELS :: "string list" where
  "LABELS = [''sovereign'', ''shareable'']"

definition TOOL_DATA_CLASSES :: "(string, string list) dict" where
  "TOOL_DATA_CLASSES =
    [(''query_flows'', [''security_log'']),
     (''describe_schema'', [''security_log'']),
     (''top_talkers'', [''security_log'']),
     (''run_sql'', [''security_log'']),
     (''get_entity'', [''identity'']),
     (''locate'', [''topology'']),
     (''neighbors'', [''topology'']),
     (''find_path'', [''topology'']),
     (''enforcement_points'', [''topology'', ''firewall_config'']),
     (''topology_snapshot'', [''topology'']),
     (''explain_access'', [''security_log'', ''topology'', ''identity'', ''firewall_config'']),
     (''configured_policies'', [''firewall_config'']),
     (''observed_by'', [''security_log'']),
     (''ingest_status'', [''security_log'']),
     (''fabric_status'', [''security_log'']),
     (''lab_topology_snapshot'', [''topology'']),
     (''recent_alerts'', [''security_log'']),
     (''metric_timeseries'', [''metrics'']),
     (''top_series'', [''metrics'']),
     (''entity_metric_timeseries'', [''metrics'']),
     (''reidentify'', [''identity'']),
     (''rule_history'', [''firewall_config'']),
     (''rule_usage'', [''security_log'', ''firewall_config'']),
     (''unused_rules'', [''security_log'', ''firewall_config'']),
     (''explain_rule'', [''security_log'', ''firewall_config''])]"

type_synonym classification = "(string, string) dict"

definition label_for_class :: "classification \<Rightarrow> string \<Rightarrow> class_error + string" where
  "label_for_class c cls =
     (if cls \<notin> set DATA_CLASSES then Inl (UnknownClass cls)
      else case map_of c cls of None \<Rightarrow> Inl (MissingLabel cls) | Some l \<Rightarrow> Inr l)"

definition classes_for_tool :: "string \<Rightarrow> string list" where
  "classes_for_tool tool = dget_or TOOL_DATA_CLASSES tool []"

definition default_labels :: classification where
  "default_labels = map (\<lambda>c. (c, ''sovereign'')) DATA_CLASSES"

fun apply_overrides :: "(string \<times> pyval) list \<Rightarrow> classification \<Rightarrow> class_error + classification" where
  "apply_overrides [] labels = Inr labels"
| "apply_overrides ((cls, v) # rest) labels =
     (if cls \<notin> set DATA_CLASSES then Inl (UnknownClass cls)
      else if cls \<notin> set CONFIGURABLE_CLASSES then Inl (NotConfigurable cls)
      else case v of
          PList _ \<Rightarrow> Inl UnhashableLabel
        | PDict _ \<Rightarrow> Inl UnhashableLabel
        | PStr l \<Rightarrow> if l \<in> set LABELS then apply_overrides rest (dset labels cls l) else Inl (InvalidLabel cls)
        | _ \<Rightarrow> Inl (InvalidLabel cls))"

text \<open>\<open>path\<close> is the argument or else the environment variable; an empty one means no file.\<close>

definition load_classification :: "string \<Rightarrow> (string \<Rightarrow> string option) \<Rightarrow> class_error + classification" where
  "load_classification path read_text =
     (if path = [] then Inr default_labels
      else case read_text path of
          None \<Rightarrow> Inl UnreadableFile
        | Some raw \<Rightarrow>
           (case json_loads raw of
              None \<Rightarrow> Inl InvalidJson
            | Some (PDict overrides) \<Rightarrow> apply_overrides overrides default_labels
            | Some _ \<Rightarrow> Inl NotAnObject))"

definition PUBLIC_EXCLUDED_TOOLS :: "string list" where
  "PUBLIC_EXCLUDED_TOOLS = [''run_sql'']"

fun all_shareable :: "classification \<Rightarrow> string list \<Rightarrow> class_error + bool" where
  "all_shareable c [] = Inr True"
| "all_shareable c (cls # rest) =
     bind_sum (label_for_class c cls) (\<lambda>l. if l = ''shareable'' then all_shareable c rest else Inr False)"

definition is_tool_shareable :: "classification \<Rightarrow> string \<Rightarrow> class_error + bool" where
  "is_tool_shareable c tool =
     (if tool \<in> set PUBLIC_EXCLUDED_TOOLS then Inr False
      else if classes_for_tool tool = [] then Inr False
      else all_shareable c (classes_for_tool tool))"

fun public_tool_names :: "classification \<Rightarrow> string list \<Rightarrow> class_error + string list" where
  "public_tool_names c [] = Inr []"
| "public_tool_names c (name # rest) =
     bind_sum (is_tool_shareable c name)
       (\<lambda>ok. bind_sum (public_tool_names c rest) (\<lambda>names. Inr (if ok then name # names else names)))"

section \<open>A loaded classification\<close>

text \<open>Every class has one of the two labels, and only a configurable one can be shareable.\<close>

definition class_inv :: "classification \<Rightarrow> bool" where
  "class_inv c \<longleftrightarrow> (\<forall>cls \<in> set DATA_CLASSES. \<exists>l. map_of c cls = Some l \<and> l \<in> set LABELS
     \<and> (l = ''shareable'' \<longrightarrow> cls \<in> set CONFIGURABLE_CLASSES))"

lemma default_labels_inv: "class_inv default_labels"
  by (simp add: class_inv_def default_labels_def DATA_CLASSES_def LABELS_def)

lemma apply_overrides_inv: "apply_overrides os c = Inr c' \<Longrightarrow> class_inv c \<Longrightarrow> class_inv c'"
proof (induction os c rule: apply_overrides.induct)
  case (2 cls v rest labels)
  then obtain l where "v = PStr l" "l \<in> set LABELS" "cls \<in> set CONFIGURABLE_CLASSES" "cls \<in> set DATA_CLASSES"
    "apply_overrides rest (dset labels cls l) = Inr c'"
    by (auto split: if_splits pyval.splits)
  moreover have "class_inv (dset labels cls l)"
    using 2 calculation by (auto simp: class_inv_def)
  ultimately show ?case using "2.IH" by auto
qed simp

lemma load_classification_inv: "load_classification path rd = Inr c \<Longrightarrow> class_inv c"
  using apply_overrides_inv default_labels_inv
  by (auto simp: load_classification_def split: if_splits option.splits pyval.splits)

lemma tool_classes_known: "set (classes_for_tool tool) \<subseteq> set DATA_CLASSES"
proof (cases "map_of TOOL_DATA_CLASSES tool")
  case None
  then show ?thesis by (simp add: classes_for_tool_def dget_or_def)
next
  case (Some cs)
  then have "(tool, cs) \<in> set TOOL_DATA_CLASSES" by (rule map_of_SomeD)
  moreover have "list_all (\<lambda>(t, cs). list_all (\<lambda>c. c \<in> set DATA_CLASSES) cs) TOOL_DATA_CLASSES"
    by (simp add: TOOL_DATA_CLASSES_def DATA_CLASSES_def)
  ultimately show ?thesis using Some by (auto simp: classes_for_tool_def dget_or_def list_all_iff)
qed

lemma all_shareable_eq:
  "class_inv c \<Longrightarrow> set cs \<subseteq> set DATA_CLASSES \<Longrightarrow>
     all_shareable c cs = Inr (\<forall>cls \<in> set cs. map_of c cls = Some ''shareable'')"
proof (induction cs)
  case (Cons cls cs)
  then obtain l where l: "map_of c cls = Some l" by (force simp: class_inv_def)
  then have "label_for_class c cls = Inr l" using Cons.prems by (simp add: label_for_class_def)
  then show ?case using Cons l by auto
qed simp

lemma is_tool_shareable_eq:
  "class_inv c \<Longrightarrow> is_tool_shareable c tool =
     Inr (tool \<notin> set PUBLIC_EXCLUDED_TOOLS \<and> classes_for_tool tool \<noteq> []
          \<and> (\<forall>cls \<in> set (classes_for_tool tool). map_of c cls = Some ''shareable''))"
  using all_shareable_eq [OF _ tool_classes_known] by (auto simp: is_tool_shareable_def)

lemma public_tool_names_eq:
  "class_inv c \<Longrightarrow> public_tool_names c ts =
     Inr (filter (\<lambda>tool. tool \<notin> set PUBLIC_EXCLUDED_TOOLS \<and> classes_for_tool tool \<noteq> []
            \<and> (\<forall>cls \<in> set (classes_for_tool tool). map_of c cls = Some ''shareable'')) ts)"
  by (induction ts) (simp_all add: is_tool_shareable_eq)

lemma shareable_configurable:
  assumes "class_inv c" and "map_of c cls = Some ''shareable''" and "cls \<in> set DATA_CLASSES"
  shows "cls \<in> set CONFIGURABLE_CLASSES"
  using assms by (auto simp: class_inv_def)

section \<open>Properties\<close>

text \<open>C12: The public server is safe for every configuration file.  Whatever the file holds, if it loads
  then no tool that can return security logs or firewall configuration, nor \<open>run_sql\<close>, nor a tool
  without declared classes, is exposed; and a tool is exposed exactly when every class it returns
  has been declared shareable.\<close>

theorem public_tools_safe:
  assumes "load_classification path rd = Inr c" and "public_tool_names c ts = Inr names"
  shows "(\<forall>t \<in> set names. t \<in> set ts \<and> t \<noteq> ''run_sql''
            \<and> ''security_log'' \<notin> set (classes_for_tool t) \<and> ''firewall_config'' \<notin> set (classes_for_tool t))
     \<and> (\<forall>t \<in> set ts. t \<in> set names \<longleftrightarrow> t \<noteq> ''run_sql'' \<and> classes_for_tool t \<noteq> []
            \<and> (\<forall>cls \<in> set (classes_for_tool t). map_of c cls = Some ''shareable''))"
proof -
  have inv: "class_inv c" using load_classification_inv [OF assms(1)] .
  note names = assms(2) [unfolded public_tool_names_eq [OF inv] sum.inject, symmetric]
  have "cls \<in> set CONFIGURABLE_CLASSES" if "t \<in> set names" "cls \<in> set (classes_for_tool t)" for t cls
    using shareable_configurable [OF inv, of cls] tool_classes_known [of t] that by (auto simp: names)
  then show ?thesis
    by (auto simp: names PUBLIC_EXCLUDED_TOOLS_def CONFIGURABLE_CLASSES_def)
qed

definition sample_file :: "string \<Rightarrow> string option" where
  "sample_file p = Some (''{'' @ [CHR 0x22] @ ''metrics'' @ [CHR 0x22] @ '':'' @ [CHR 0x22] @ ''shareable'' @ [CHR 0x22] @ ''}'')"

lemma public_tools_safe_witness:
  "\<exists>c names. load_classification ''labels.json'' sample_file = Inr c
     \<and> public_tool_names c (dkeys TOOL_DATA_CLASSES) = Inr names
     \<and> (\<forall>t \<in> set names. ''security_log'' \<notin> set (classes_for_tool t)) \<and> ''top_series'' \<in> set names"
proof -
  let ?c = "dset default_labels ''metrics'' ''shareable''"
  let ?n = "[''metric_timeseries'', ''top_series'', ''entity_metric_timeseries'']"
  have l: "load_classification ''labels.json'' sample_file = Inr ?c"
    by code_simp
  have n: "public_tool_names ?c (dkeys TOOL_DATA_CLASSES) = Inr ?n"
    by code_simp
  from public_tools_safe [OF l n] l n show ?thesis by auto
qed

lemma apply_overrides_rejects:
  "(cls, v) \<in> set os \<Longrightarrow> cls \<notin> set CONFIGURABLE_CLASSES \<or> (\<forall>l \<in> set LABELS. v \<noteq> PStr l) \<Longrightarrow>
     isl (apply_overrides os d)"
  by (induction os d rule: apply_overrides.induct) (auto split: pyval.splits)

text \<open>Loading is all or nothing and fails closed: without a file every class is sovereign and no tool
  is exposed, and a file that names a class it may not change, or gives a label that is not one of
  the two, is refused, never partly applied.\<close>

theorem classification_fails_closed:
  "(\<forall>ts. load_classification [] rd = Inr default_labels \<and> public_tool_names default_labels ts = Inr [])
   \<and> (path \<noteq> [] \<and> rd path = Some raw \<and> json_loads raw = Some (PDict os)
        \<and> (\<exists>(cls, v) \<in> set os. cls \<notin> set CONFIGURABLE_CLASSES \<or> (\<forall>l \<in> set LABELS. v \<noteq> PStr l))
      \<longrightarrow> isl (load_classification path rd))"
proof (intro conjI impI)
  have "classes_for_tool t \<noteq> [] \<Longrightarrow> \<exists>cls \<in> set (classes_for_tool t). map_of default_labels cls \<noteq> Some ''shareable''"
    for t
    using tool_classes_known [of t]
    by (cases "classes_for_tool t") (auto simp: default_labels_def DATA_CLASSES_def)
  then show "\<forall>ts. load_classification [] rd = Inr default_labels \<and> public_tool_names default_labels ts = Inr []"
    by (auto simp: load_classification_def public_tool_names_eq [OF default_labels_inv] filter_empty_conv)
next
  assume a: "path \<noteq> [] \<and> rd path = Some raw \<and> json_loads raw = Some (PDict os)
        \<and> (\<exists>(cls, v) \<in> set os. cls \<notin> set CONFIGURABLE_CLASSES \<or> (\<forall>l \<in> set LABELS. v \<noteq> PStr l))"
  then show "isl (load_classification path rd)"
    using apply_overrides_rejects [of _ _ os default_labels] by (auto simp: load_classification_def)
qed

lemma classification_fails_closed_witness:
  "isl (load_classification ''labels.json'' (\<lambda>p. Some (''{'' @ [CHR 0x22] @ ''security_log'' @ [CHR 0x22] @ '':''
      @ [CHR 0x22] @ ''shareable'' @ [CHR 0x22] @ ''}'')))"
proof -
  let ?raw = "''{'' @ [CHR 0x22] @ ''security_log'' @ [CHR 0x22] @ '':'' @ [CHR 0x22] @ ''shareable'' @ [CHR 0x22] @ ''}''"
  have "json_loads ?raw = Some (PDict [(''security_log'', PStr ''shareable'')])"
    by code_simp
  then show ?thesis
    using classification_fails_closed [of "\<lambda>p. Some ?raw" "''labels.json''" ?raw
        "[(''security_log'', PStr ''shareable'')]"]
    by (simp add: CONFIGURABLE_CLASSES_def)
qed

end
