(* ===== verification/Tokens.thy ===== *)
theory Tokens
  imports PyJson PyTime "HOL-Library.Word"
begin

unbundle bit_operations_syntax

text \<open>
  Who is calling: \<open>tokenstore.py\<close> (bearer tokens held as digests), \<open>auth.py\<close> (the claims of the
  request) and \<open>attribution.py\<close> (what an audit row says about the caller beyond the token).
  The digest is a parameter \<open>D\<close>, as in the audit chain.
\<close>

text \<open>An entry of the token file, which is also the claims of the requests it authenticates.\<close>

record token_entry =
  te_principal :: "string option"
  te_sub :: "string option"
  te_allowed_tools :: "string list option"
  te_not_after :: "string option"
  te_model_id :: "string option"
  te_actor_type :: pyval
  te_client_id :: "string option"
  te_scopes :: "string list option"

section \<open>The token file\<close>

definition DIGEST_PREFIX :: string where
  "DIGEST_PREFIX = ''sha256:''"

definition digest_for :: "(string \<Rightarrow> string) \<Rightarrow> string \<Rightarrow> string" where
  "digest_for D token = DIGEST_PREFIX @ D token"

definition is_digest :: "string \<Rightarrow> bool" where
  "is_digest key = startswith key DIGEST_PREFIX"

text \<open>The permission bits of group and others, as in \<open>S_IRWXG | S_IRWXO\<close>.\<close>

datatype token_error =
    InsecureTokenFile
  | SameDigest string

definition assert_file_mode_private :: "32 word \<Rightarrow> token_error + unit" where
  "assert_file_mode_private mode = (if mode AND 63 \<noteq> 0 then Inl InsecureTokenFile else Inr ())"

fun normalize_loop ::
  "(string \<Rightarrow> string) \<Rightarrow> (string \<times> token_entry) list \<Rightarrow> (string, token_entry) dict \<Rightarrow> string list
     \<Rightarrow> token_error + (string, token_entry) dict \<times> string list" where
  "normalize_loop D [] by_digest legacy = Inr (by_digest, legacy)"
| "normalize_loop D ((key, entry) # rest) by_digest legacy =
     (let key_digest = (if is_digest key then key else digest_for D key);
          legacy' = (if is_digest key then legacy
                     else legacy @ [case te_principal entry of None \<Rightarrow> ''<unnamed>'' | Some p \<Rightarrow> p])
      in if dhas by_digest key_digest then Inl (SameDigest key_digest)
         else normalize_loop D rest (dset by_digest key_digest entry) legacy')"

definition normalize_token_keys ::
  "(string \<Rightarrow> string) \<Rightarrow> (string, token_entry) dict \<Rightarrow> token_error + (string, token_entry) dict \<times> string list" where
  "normalize_token_keys D raw = normalize_loop D raw [] []"

text \<open>The names of the warning, sorted; \<open>None\<close> when nothing is printed.\<close>

definition legacy_warning :: "string list \<Rightarrow> string option" where
  "legacy_warning legacy = (if legacy = [] then None else Some (join '', '' (sort legacy)))"

text \<open>Every stored digest is compared; the last match wins.\<close>

fun verify_against :: "(string \<Rightarrow> string) \<Rightarrow> (string, token_entry) dict \<Rightarrow> string \<Rightarrow> token_entry option" where
  "verify_against D [] presented = None"
| "verify_against D ((stored_digest, entry) # rest) presented =
     (case verify_against D rest presented of
        Some e \<Rightarrow> Some e
      | None \<Rightarrow> if stored_digest = digest_for D presented then Some entry else None)"

record access_token =
  at_token :: string
  at_client_id :: string
  at_scopes :: "string list"
  at_claims :: token_entry

definition verify_token ::
  "(string \<Rightarrow> string) \<Rightarrow> (string, token_entry) dict \<Rightarrow> string \<Rightarrow> access_token option" where
  "verify_token D by_digest token =
     (case verify_against D by_digest token of
        None \<Rightarrow> None
      | Some entry \<Rightarrow> Some \<lparr>at_token = token,
          at_client_id = (case te_client_id entry of None \<Rightarrow> ''ssdf'' | Some c \<Rightarrow> c),
          at_scopes = (case te_scopes entry of None \<Rightarrow> [] | Some s \<Rightarrow> s),
          at_claims = entry\<rparr>)"

section \<open>The claims of a request\<close>

text \<open>A malformed expiry reads as long past.\<close>

definition EXPIRED :: pydt where
  "EXPIRED = utc_dt (719162 * day_us)"

definition parse_claim_not_after :: "string option \<Rightarrow> pydt option" where
  "parse_claim_not_after v =
     (case v of
        None \<Rightarrow> None
      | Some s \<Rightarrow>
         (case fromisoformat s of
            None \<Rightarrow> Some EXPIRED
          | Some p \<Rightarrow> Some (if utc_off p = None then p\<lparr>utc_off := Some 0\<rparr> else p)))"

record caller_info =
  ci_principal :: string
  ci_allowed :: "string list option"
  ci_not_after :: "pydt option"

text \<open>\<open>claims\<close> is \<open>None\<close> when the request has no token or the token has no claims.\<close>

definition current_caller_claims :: "token_entry option \<Rightarrow> caller_info" where
  "current_caller_claims claims =
     (case claims of
        None \<Rightarrow> \<lparr>ci_principal = ''unknown'', ci_allowed = None, ci_not_after = None\<rparr>
      | Some e \<Rightarrow> \<lparr>ci_principal = opt_or (te_principal e) (opt_or (te_sub e) ''unknown''),
                  ci_allowed = te_allowed_tools e,
                  ci_not_after = parse_claim_not_after (te_not_after e)\<rparr>)"

section \<open>Attribution\<close>

definition ACTOR_TYPES :: "string list" where
  "ACTOR_TYPES = [''human'', ''agent'', ''unknown'']"

definition normalize_actor_type :: "pyval \<Rightarrow> string" where
  "normalize_actor_type v =
     (case v of
        PStr s \<Rightarrow> let lowered = lower (strip s) in if lowered \<in> set ACTOR_TYPES then lowered else ''unknown''
      | _ \<Rightarrow> ''unknown'')"

text \<open>\<open>name\<close> is the value found at \<open>session.client_params.clientInfo.name\<close>, \<open>PNone\<close> when any
  step of that path is missing or raises.\<close>

definition client_name_from_session :: "pyval \<Rightarrow> string" where
  "client_name_from_session name = (case name of PStr s \<Rightarrow> s | _ \<Rightarrow> [])"

definition attribution_from :: "token_entry option \<Rightarrow> pyval \<Rightarrow> string \<times> string \<times> string" where
  "attribution_from claims session_name =
     (client_name_from_session session_name,
      (case claims of None \<Rightarrow> [] | Some e \<Rightarrow> opt_or (te_model_id e) []),
      normalize_actor_type (case claims of None \<Rightarrow> PNone | Some e \<Rightarrow> te_actor_type e))"

section \<open>Authentication\<close>

text \<open>The digest under which a key of the file is stored.\<close>

definition stored_key :: "(string \<Rightarrow> string) \<Rightarrow> string \<Rightarrow> string" where
  "stored_key D key = (if is_digest key then key else digest_for D key)"

lemma verify_against_map_of: "dict_ok d \<Longrightarrow> verify_against D d t = map_of d (digest_for D t)"
proof (induction d)
  case (Cons p d)
  obtain k e where p: "p = (k, e)" by (cases p)
  have "map_of d k = None" using Cons.prems p by (simp add: dict_ok_def map_of_eq_None_iff)
  moreover have "verify_against D d t = map_of d (digest_for D t)"
    using Cons by (simp add: dict_ok_def)
  ultimately show ?case using p by (auto split: option.splits)
qed simp

lemma normalize_loop_spec:
  "normalize_loop D raw d leg = Inr (d', leg') \<Longrightarrow> dict_ok d \<Longrightarrow>
     dict_ok d' \<and> set d' = set d \<union> (\<lambda>(k, e). (stored_key D k, e)) ` set raw"
proof (induction raw arbitrary: d leg)
  case (Cons p raw)
  obtain k e where p: "p = (k, e)" by (cases p)
  have new: "\<not> dhas d (stored_key D k)"
    and rest: "\<exists>l. normalize_loop D raw (dset d (stored_key D k) e) l = Inr (d', leg')"
    using Cons.prems(1) p by (auto simp: Let_def stored_key_def split: if_splits)
  from rest obtain l where "normalize_loop D raw (dset d (stored_key D k) e) l = Inr (d', leg')" by blast
  from Cons.IH [OF this] Cons.prems(2)
  have "dict_ok d' \<and> set d' = set (dset d (stored_key D k) e) \<union> (\<lambda>(k, e). (stored_key D k, e)) ` set raw"
    by simp
  moreover have "set (dset d (stored_key D k) e) = insert (stored_key D k, e) (set d)"
    using set_dset [OF Cons.prems(2)] new by (auto simp: dhas_iff image_iff)
  ultimately show ?case using p by auto
qed simp

lemma normalize_token_keys_spec:
  assumes "normalize_token_keys D raw = Inr (d, leg)"
  shows "dict_ok d" and "set d = (\<lambda>(k, e). (stored_key D k, e)) ` set raw"
  using normalize_loop_spec [of D raw "[]" "[]" d leg] assms by (simp_all add: normalize_token_keys_def)

lemma dict_ok_map_of_iff: "dict_ok d \<Longrightarrow> map_of d k = Some e \<longleftrightarrow> (k, e) \<in> set d"
  by (simp add: dict_ok_def)

lemma verify_against_iff:
  assumes "normalize_token_keys D raw = Inr (d, leg)"
  shows "verify_against D d t = Some e \<longleftrightarrow> (\<exists>k. (k, e) \<in> set raw \<and> stored_key D k = digest_for D t)"
proof -
  note spec = normalize_token_keys_spec [OF assms]
  have "verify_against D d t = Some e \<longleftrightarrow> (digest_for D t, e) \<in> set d"
    by (simp only: verify_against_map_of [OF spec(1)] dict_ok_map_of_iff [OF spec(1)])
  also have "\<dots> \<longleftrightarrow> (\<exists>k. (k, e) \<in> set raw \<and> stored_key D k = digest_for D t)"
    unfolding spec(2) by (force simp: image_iff)
  finally show ?thesis .
qed

lemma normalize_loop_inr:
  "dict_ok d \<Longrightarrow> isl (normalize_loop D raw d leg) \<longleftrightarrow>
     \<not> (distinct (map (stored_key D) (dkeys raw)) \<and> stored_key D ` set (dkeys raw) \<inter> set (dkeys d) = {})"
proof (induction raw arbitrary: d leg)
  case (Cons p raw)
  obtain k e where p: "p = (k, e)" by (cases p)
  have keys: "set (dkeys (dset d (stored_key D k) e)) = insert (stored_key D k) (set (dkeys d))"
    using dom_update [of "stored_key D k" e d] by simp
  have step: "isl (normalize_loop D (p # raw) d leg) \<longleftrightarrow>
      stored_key D k \<in> set (dkeys d) \<or> (\<exists>l. isl (normalize_loop D raw (dset d (stored_key D k) e) l))"
    using Cons.IH [OF dict_ok_dset [OF Cons.prems], of "stored_key D k" e]
    by (auto simp: p Let_def stored_key_def dhas_iff)
  show ?case
    unfolding step using Cons.IH [OF dict_ok_dset [OF Cons.prems], of "stored_key D k" e] keys
    by (auto simp: p)
qed simp

section \<open>Properties\<close>

text \<open>Authentication decides by digest alone.  A token file loads exactly when no two of its entries
  resolve to the same digest, and then a presented token authenticates as an entry exactly when
  the entry's key is the token's digest or is a plaintext key with that digest; the claims of the
  request are that entry.\<close>

theorem token_authentication:
  "(isl (normalize_token_keys D raw) \<longleftrightarrow> \<not> distinct (map (stored_key D) (dkeys raw)))
   \<and> (normalize_token_keys D raw = Inr (d, leg) \<longrightarrow>
       (\<forall>t e. map_option at_claims (verify_token D d t) = Some e \<longleftrightarrow>
          (\<exists>k. (k, e) \<in> set raw \<and> stored_key D k = digest_for D t)))"
proof (intro conjI impI allI)
  show "isl (normalize_token_keys D raw) \<longleftrightarrow> \<not> distinct (map (stored_key D) (dkeys raw))"
    using normalize_loop_inr [of "[]" D raw "[]"] by (simp add: normalize_token_keys_def dict_ok_def)
  fix t e
  assume a: "normalize_token_keys D raw = Inr (d, leg)"
  show "map_option at_claims (verify_token D d t) = Some e \<longleftrightarrow>
      (\<exists>k. (k, e) \<in> set raw \<and> stored_key D k = digest_for D t)"
    unfolding verify_against_iff [OF a, symmetric] by (auto simp: verify_token_def split: option.splits)
qed

definition sample_entry :: "string \<Rightarrow> token_entry" where
  "sample_entry p = \<lparr>te_principal = Some p, te_sub = None, te_allowed_tools = None, te_not_after = None,
     te_model_id = None, te_actor_type = PStr '' Agent'', te_client_id = None, te_scopes = None\<rparr>"

lemma token_authentication_witness:
  "\<exists>d leg. normalize_token_keys rev [(''sha256:cba'', sample_entry ''alice''), (''xyz'', sample_entry ''bob'')] = Inr (d, leg)
     \<and> map_option at_claims (verify_token rev d ''abc'') = Some (sample_entry ''alice'')
     \<and> map_option at_claims (verify_token rev d ''cba'') \<noteq> Some (sample_entry ''alice'')"
proof -
  let ?raw = "[(''sha256:cba'', sample_entry ''alice''), (''xyz'', sample_entry ''bob'')]"
  let ?d = "[(''sha256:cba'', sample_entry ''alice''), (''sha256:zyx'', sample_entry ''bob'')]"
  have n: "normalize_token_keys rev ?raw = Inr (?d, [''bob''])"
    by (simp add: normalize_token_keys_def is_digest_def startswith_def DIGEST_PREFIX_def digest_for_def
        sample_entry_def dhas_def)
  have k: "stored_key rev ''sha256:cba'' = digest_for rev ''abc''" "stored_key rev ''sha256:cba'' \<noteq> digest_for rev ''cba''"
    "stored_key rev ''xyz'' \<noteq> digest_for rev ''cba''"
    by (simp_all add: stored_key_def is_digest_def startswith_def DIGEST_PREFIX_def digest_for_def)
  have "sample_entry ''alice'' \<noteq> sample_entry ''bob''" by (simp add: sample_entry_def)
  moreover have "\<forall>t e. map_option at_claims (verify_token rev ?d t) = Some e \<longleftrightarrow>
      (\<exists>k. (k, e) \<in> set ?raw \<and> stored_key rev k = digest_for rev t)"
    using token_authentication [of rev ?raw ?d "[''bob'']"] n by blast
  ultimately show ?thesis using n k by (intro exI [of _ ?d] exI [of _ "[''bob'']"]) simp
qed

end
