(* ===== verification/Wrapper.thy ===== *)
theory Wrapper
  imports VerifyAudit RateLimit Classification Tokens
begin

text \<open>
  \<open>wrapper.py\<close>: what happens around every tool call.  \<open>audited_tool\<close> is given as the composition
  of its phases (\<open>admit\<close>, the tool, \<open>finish_limiter\<close>, \<open>call_row\<close>) and, for a server that runs many
  calls at once, as a step relation in which the phases of different calls interleave; the limiter
  and the auditor each hold their own lock, so a phase is a step.
\<close>

section \<open>One call\<close>

definition row_count_of :: "pyval \<Rightarrow> int" where
  "row_count_of v =
     (case v of
        PDict es \<Rightarrow>
          (case map_of es ''row_count'' of
             Some (PInt n) \<Rightarrow> n
           | Some (PBool b) \<Rightarrow> of_bool b
           | _ \<Rightarrow> (case map_of es ''rows'' of Some (PList l) \<Rightarrow> int (length l) | _ \<Rightarrow> 0))
      | _ \<Rightarrow> 0)"

text \<open>A tool returns a value or raises an exception: the name of its type and its \<open>str\<close>.\<close>

datatype outcome = Returned pyval | Raised string string

record call =
  cl_tool :: string
  cl_info :: caller_info
  cl_kwargs :: pyval
  cl_attr :: "string \<times> string \<times> string"

definition quoted :: "string \<Rightarrow> string" where
  "quoted s = [CHR 0x27] @ s @ [CHR 0x27]"

definition limit_text :: "limit_error \<Rightarrow> string" where
  "limit_text e = (case e of RateLimitExceeded m \<Rightarrow> m | ConcurrencyExceeded m \<Rightarrow> m)"

definition limiter_on :: "limiter_cfg option \<Rightarrow> bool" where
  "limiter_on lm = (case lm of None \<Rightarrow> False | Some cfg \<Rightarrow> limiter_enabled cfg)"

text \<open>The guards before the tool runs: \<open>Inl\<close> is the error code and the detail of a denial.  \<open>now\<close>
  is the wall clock, \<open>tick\<close> the monotonic clock of the limiter.\<close>

definition admit ::
  "limiter_cfg option \<Rightarrow> call \<Rightarrow> pydt \<Rightarrow> real \<Rightarrow> limiter \<Rightarrow> (string \<times> string + unit) \<times> limiter" where
  "admit lm c now tick st =
     (let p = ci_principal (cl_info c) in
      if (case ci_not_after (cl_info c) of None \<Rightarrow> False | Some t \<Rightarrow> as_utc now \<ge> as_utc t)
      then (Inl (''forbidden'', ''token for principal '' @ quoted p @ '' has expired''), st)
      else if (case ci_allowed (cl_info c) of None \<Rightarrow> False | Some allowed \<Rightarrow> cl_tool c \<notin> set allowed)
      then (Inl (''forbidden'', ''tool '' @ quoted (cl_tool c) @ '' not permitted for principal '' @ quoted p), st)
      else if limiter_on lm then
        (case acquire (the lm) p tick st of
           (Inl e, st') \<Rightarrow> (Inl (''rate_limited'', limit_text e), st')
         | (Inr u, st') \<Rightarrow> (Inr (), st'))
      else (Inr (), st))"

definition deny_response :: "string \<times> string \<Rightarrow> pyval" where
  "deny_response d = PDict [(''error'', PStr (fst d)), (''detail'', PStr (snd d))]"

definition deny_row :: "string \<Rightarrow> call \<Rightarrow> pydt \<Rightarrow> string \<times> string \<Rightarrow> audit_row" where
  "deny_row tr c now d =
     (case cl_attr c of (client, model, actor) \<Rightarrow>
        build_audit_row now (ci_principal (cl_info c)) tr (cl_tool c) (cl_kwargs c)
          (sort (classes_for_tool (cl_tool c))) ''deny'' 0 (PStr (fst d)) None client model actor)"

text \<open>The audited error of a call that did.\<close>

definition outcome_error :: "outcome \<Rightarrow> pyval" where
  "outcome_error out =
     (case out of
        Returned (PDict es) \<Rightarrow> dget_or es ''error'' (PStr [])
      | Returned _ \<Rightarrow> PStr []
      | Raised ty msg \<Rightarrow> PStr (ty @ '': '' @ msg))"

definition outcome_rows :: "outcome \<Rightarrow> int" where
  "outcome_rows out = (case out of Returned v \<Rightarrow> row_count_of v | Raised _ _ \<Rightarrow> 0)"

definition allow_row :: "string \<Rightarrow> call \<Rightarrow> pydt \<Rightarrow> outcome \<Rightarrow> audit_row" where
  "allow_row tr c now out =
     (case cl_attr c of (client, model, actor) \<Rightarrow>
        build_audit_row now (ci_principal (cl_info c)) tr (cl_tool c) (cl_kwargs c)
          (sort (classes_for_tool (cl_tool c))) ''allow'' (outcome_rows out) (outcome_error out) None
          client model actor)"

definition finish_limiter :: "limiter_cfg option \<Rightarrow> call \<Rightarrow> limiter \<Rightarrow> limiter" where
  "finish_limiter lm c st = (if limiter_on lm then release (ci_principal (cl_info c)) st else st)"

text \<open>One call from beginning to end.  \<open>fn\<close> is the tool, \<open>rec\<close> the clock reading of the audit row,
  \<open>eff\<close> what the insert of the row does.  The result is what the caller sees, whether the tool did,
  and the new states with the rows that reached the table.\<close>

definition audited_tool ::
  "(string \<Rightarrow> string) \<Rightarrow> string \<Rightarrow> limiter_cfg option \<Rightarrow> (pyval \<Rightarrow> outcome) \<Rightarrow> call \<Rightarrow> pydt \<Rightarrow> real \<Rightarrow> pydt
     \<Rightarrow> insert_effect \<Rightarrow> limiter \<times> auditor \<Rightarrow> outcome \<times> bool \<times> (limiter \<times> auditor) \<times> chained_row list" where
  "audited_tool D tr lm fn c now tick rec eff s =
     (case admit lm c now tick (fst s) of
        (Inl d, lst) \<Rightarrow>
          (let (a, rows) = auditor_record D eff (deny_row tr c rec d) (snd s)
           in (Returned (deny_response d), False, (lst, a), rows))
      | (Inr u, lst) \<Rightarrow>
          (let out = fn (cl_kwargs c);
               lst' = finish_limiter lm c lst;
               (a, rows) = auditor_record D eff (allow_row tr c rec out) (snd s)
           in (out, True, (lst', a), rows)))"

section \<open>Who may run a tool\<close>

text \<open>The contract of the guards, without the limiter.\<close>

definition authorised :: "call \<Rightarrow> pydt \<Rightarrow> bool" where
  "authorised c now \<longleftrightarrow>
     (\<forall>t. ci_not_after (cl_info c) = Some t \<longrightarrow> as_utc now < as_utc t)
     \<and> (\<forall>allowed. ci_allowed (cl_info c) = Some allowed \<longrightarrow> cl_tool c \<in> set allowed)"

lemma admit_unauthorised:
  "\<not> authorised c now \<Longrightarrow> \<exists>m. admit lm c now tick st = (Inl (''forbidden'', m), st)"
  by (auto simp: admit_def authorised_def Let_def split: option.splits)

lemma admit_authorised:
  "authorised c now \<Longrightarrow> admit lm c now tick st =
     (if limiter_on lm then
        (case acquire (the lm) (ci_principal (cl_info c)) tick st of
           (Inl e, st') \<Rightarrow> (Inl (''rate_limited'', limit_text e), st')
         | (Inr u, st') \<Rightarrow> (Inr (), st'))
      else (Inr (), st))"
  by (auto simp: admit_def authorised_def Let_def not_le split: option.splits)

lemma admit_ok_authorised: "admit lm c now tick st = (Inr u, st') \<Longrightarrow> authorised c now"
  using admit_unauthorised [of c now lm tick st] by auto

lemma admit_flight:
  "admit lm c now tick st = (Inr u, st') \<Longrightarrow> in_flight st' q =
     in_flight st q + (if limiter_on lm \<and> q = ci_principal (cl_info c) then 1 else 0)"
  "admit lm c now tick st = (Inl d, st') \<Longrightarrow> in_flight st' q = in_flight st q"
  using admit_unauthorised [of c now lm tick st] admit_authorised [of c now lm tick st]
  by (cases "authorised c now"; auto split: if_splits prod.splits sum.splits dest: acquire_flight)+

lemma finish_flight:
  "in_flight (finish_limiter lm c st) q =
     (if limiter_on lm \<and> q = ci_principal (cl_info c) then max 0 (in_flight st q - 1) else in_flight st q)"
  by (simp add: finish_limiter_def in_flight_release)

lemma admit_limit:
  "admit (Some cfg) c now tick st = (Inr u, st') \<Longrightarrow> max_concurrent cfg > 0 \<Longrightarrow>
     in_flight st (ci_principal (cl_info c)) < max_concurrent cfg"
  using admit_ok_authorised [of "Some cfg" c now tick st u st']
  by (auto simp: admit_authorised limiter_on_def limiter_enabled_def split: prod.splits sum.splits if_splits
      dest: acquire_limit)

section \<open>Many calls at once\<close>

record gate =
  g_limiter :: limiter
  g_auditor :: auditor
  g_running :: "call list"
  g_pending :: "audit_row list" \<comment> \<open>rows built but not yet recorded\<close>
  g_log :: "chained_row list"
  g_begun :: nat
  g_recorded :: nat

definition gate_start :: "auditor \<Rightarrow> chained_row list \<Rightarrow> gate" where
  "gate_start a old = \<lparr>g_limiter = new_limiter, g_auditor = a, g_running = [], g_pending = [], g_log = old,
     g_begun = 0, g_recorded = 0\<rparr>"

definition gate_begin :: "string \<Rightarrow> limiter_cfg option \<Rightarrow> call \<Rightarrow> pydt \<Rightarrow> real \<Rightarrow> pydt \<Rightarrow> gate \<Rightarrow> gate" where
  "gate_begin tr lm c now tick rec s =
     (case admit lm c now tick (g_limiter s) of
        (Inl d, lst) \<Rightarrow> s\<lparr>g_limiter := lst, g_pending := g_pending s @ [deny_row tr c rec d], g_begun := Suc (g_begun s)\<rparr>
      | (Inr u, lst) \<Rightarrow> s\<lparr>g_limiter := lst, g_running := g_running s @ [c], g_begun := Suc (g_begun s)\<rparr>)"

definition gate_finish :: "string \<Rightarrow> limiter_cfg option \<Rightarrow> call \<Rightarrow> outcome \<Rightarrow> pydt \<Rightarrow> gate \<Rightarrow> gate" where
  "gate_finish tr lm c out rec s =
     s\<lparr>g_limiter := finish_limiter lm c (g_limiter s), g_running := remove1 c (g_running s),
       g_pending := g_pending s @ [allow_row tr c rec out]\<rparr>"

definition gate_write :: "(string \<Rightarrow> string) \<Rightarrow> insert_effect \<Rightarrow> audit_row \<Rightarrow> gate \<Rightarrow> gate" where
  "gate_write D eff r s =
     (let (a, rows) = auditor_record D eff r (g_auditor s)
      in s\<lparr>g_auditor := a, g_pending := remove1 r (g_pending s), g_log := g_log s @ rows, g_recorded := Suc (g_recorded s)\<rparr>)"

inductive gate_step :: "(string \<Rightarrow> string) \<Rightarrow> string \<Rightarrow> limiter_cfg option \<Rightarrow> gate \<Rightarrow> gate \<Rightarrow> bool"
  for D tr lm where
  begin_call: "gate_step D tr lm s (gate_begin tr lm c now tick rec s)"
| finish_call: "c \<in> set (g_running s) \<Longrightarrow> gate_step D tr lm s (gate_finish tr lm c out rec s)"
| write_row: "r \<in> set (g_pending s) \<Longrightarrow> ch_effect eff \<Longrightarrow> gate_step D tr lm s (gate_write D eff r s)"

inductive_cases gate_stepE: "gate_step D tr lm s s'"

inductive reach :: "(string \<Rightarrow> string) \<Rightarrow> string \<Rightarrow> limiter_cfg option \<Rightarrow> gate \<Rightarrow> gate \<Rightarrow> bool" for D tr lm s0 where
  start: "reach D tr lm s0 s0"
| more: "reach D tr lm s0 s \<Longrightarrow> gate_step D tr lm s s' \<Longrightarrow> reach D tr lm s0 s'"

text \<open>The calls of a principal whose tool is running.\<close>

definition running_calls :: "gate \<Rightarrow> string \<Rightarrow> nat" where
  "running_calls s p = length (filter (\<lambda>c. ci_principal (cl_info c) = p) (g_running s))"

definition flight_inv :: "limiter_cfg option \<Rightarrow> gate \<Rightarrow> bool" where
  "flight_inv lm s \<longleftrightarrow>
     (\<forall>p. in_flight (g_limiter s) p = (if limiter_on lm then int (running_calls s p) else 0))"

definition row_inv :: "gate \<Rightarrow> bool" where
  "row_inv s \<longleftrightarrow> g_begun s = length (g_running s) + length (g_pending s) + g_recorded s"

lemma filter_remove1_length:
  "c \<in> set xs \<Longrightarrow> length (filter P (remove1 c xs)) = length (filter P xs) - (if P c then 1 else 0)"
proof (induction xs)
  case (Cons x xs)
  have "0 < length (filter P xs)" if "c \<in> set xs" "P c"
    using that by (metis filter_empty_conv length_greater_0_conv)
  then show ?case using Cons by (auto simp: Suc_diff_Suc)
qed simp

lemma running_pos: "c \<in> set (g_running s) \<Longrightarrow> 0 < running_calls s (ci_principal (cl_info c))"
  by (auto simp: running_calls_def filter_empty_conv)

lemma running_remove1:
  assumes "c \<in> set (g_running s)"
  shows "int (length (filter (\<lambda>x. ci_principal (cl_info x) = p) (remove1 c (g_running s)))) =
    int (running_calls s p) - (if p = ci_principal (cl_info c) then 1 else 0)"
proof -
  have "length (filter (\<lambda>x. ci_principal (cl_info x) = p) (remove1 c (g_running s))) =
      running_calls s p - (if p = ci_principal (cl_info c) then 1 else 0)"
    using filter_remove1_length [OF assms, of "\<lambda>x. ci_principal (cl_info x) = p"]
    by (auto simp: running_calls_def)
  moreover have "(if p = ci_principal (cl_info c) then 1 else 0) \<le> running_calls s p"
    using running_pos [OF assms] by auto
  ultimately show ?thesis by (simp add: of_nat_diff split: if_splits)
qed

lemma gate_step_flight:
  assumes "gate_step D tr lm s s'" and inv: "flight_inv lm s"
  shows "flight_inv lm s'"
  using assms(1)
proof cases
  case (begin_call c now tick rec)
  show ?thesis
  proof (cases "admit lm c now tick (g_limiter s)")
    case (Pair r lst)
    show ?thesis
      using inv begin_call Pair admit_flight [of lm c now tick "g_limiter s" _ lst]
      by (cases r) (auto simp: flight_inv_def gate_begin_def running_calls_def)
  qed
next
  case (finish_call c out rec)
  have "0 < running_calls s (ci_principal (cl_info c))"
    using finish_call by (auto simp: running_calls_def filter_empty_conv)
  then show ?thesis
    using inv finish_call running_remove1 [of c s]
    by (auto simp: flight_inv_def gate_finish_def finish_flight running_calls_def [of "_\<lparr>g_limiter := _\<rparr>"]
        running_calls_def [of "_\<lparr>g_pending := _\<rparr>"])
next
  case (write_row r eff)
  then show ?thesis
    using inv by (auto simp: flight_inv_def gate_write_def running_calls_def split: prod.splits)
qed

lemma reach_flight: "reach D tr lm s0 s \<Longrightarrow> flight_inv lm s0 \<Longrightarrow> flight_inv lm s"
  by (induction rule: reach.induct) (auto intro: gate_step_flight)

lemma flight_inv_start: "flight_inv lm (gate_start a old)"
  by (simp add: flight_inv_def gate_start_def running_calls_def in_flight_def new_limiter_def dget_or_def)

lemma gate_step_rows: "gate_step D tr lm s s' \<Longrightarrow> row_inv s \<Longrightarrow> row_inv s'"
proof (induction rule: gate_step.induct)
  case (begin_call s c now tick rec)
  show ?case
    using begin_call by (cases "admit lm c now tick (g_limiter s)"; cases "fst (admit lm c now tick (g_limiter s))")
      (auto simp: row_inv_def gate_begin_def)
next
  case (finish_call c s out rec)
  then have "0 < length (g_running s)" by (auto simp: length_pos_if_in_set)
  then show ?case using finish_call by (simp add: row_inv_def gate_finish_def length_remove1)
next
  case (write_row r s eff)
  then have "0 < length (g_pending s)" by (auto simp: length_pos_if_in_set)
  then show ?case using write_row by (auto simp: row_inv_def gate_write_def length_remove1 split: prod.splits)
qed

lemma reach_rows: "reach D tr lm s0 s \<Longrightarrow> row_inv s0 \<Longrightarrow> row_inv s"
  by (induction rule: reach.induct) (auto intro: gate_step_rows)

text \<open>The log of a gate is what one auditor wrote.\<close>

lemma auditor_run_snoc:
  "auditor_run D (ops @ [(eff, r)]) a =
     (let (a', rows) = auditor_run D ops a; (a'', new) = auditor_record D eff r a' in (a'', rows @ new))"
  by (induction ops arbitrary: a) (auto split: prod.splits)

lemma reach_log:
  "reach D tr lm s0 s \<Longrightarrow> \<exists>ops. (\<forall>op \<in> set ops. ch_effect (fst op))
     \<and> g_auditor s = fst (auditor_run D ops (g_auditor s0))
     \<and> g_log s = g_log s0 @ snd (auditor_run D ops (g_auditor s0))"
proof (induction rule: reach.induct)
  case start
  show ?case by (rule exI [of _ "[]"]) simp
next
  case (more s s')
  then obtain ops where ops: "\<forall>op \<in> set ops. ch_effect (fst op)"
    "g_auditor s = fst (auditor_run D ops (g_auditor s0))"
    "g_log s = g_log s0 @ snd (auditor_run D ops (g_auditor s0))" by blast
  from more.hyps(2) show ?case
  proof cases
    case (begin_call c now tick rec)
    then have "g_auditor s' = g_auditor s \<and> g_log s' = g_log s"
      by (auto simp: gate_begin_def split: prod.splits sum.splits)
    then show ?thesis using ops by auto
  next
    case (finish_call c out rec)
    then show ?thesis using ops by (auto simp: gate_finish_def)
  next
    case (write_row r eff)
    then show ?thesis using ops
      by (intro exI [of _ "ops @ [(eff, r)]"]) (auto simp: gate_write_def auditor_run_snoc split: prod.splits)
  qed
qed

lemma reach_log_verifies:
  assumes "reach D tr lm (gate_start a old) s" and "verify_tier D old = []"
    and "last_hash a = [] \<or> last_hash a \<in> row_hash ` set (hashed old)"
    and "\<forall>r \<in> set (g_log s). row_hash r \<noteq> []" and "distinct (map row_hash (g_log s))"
  shows "verify_tier D (g_log s) = []"
proof -
  obtain ops where ops: "\<forall>op \<in> set ops. ch_effect (fst op)"
    "g_log s = old @ snd (auditor_run D ops a)"
    using reach_log [OF assms(1)] by (auto simp: gate_start_def)
  moreover have "hashed old = old"
    using assms(4) ops(2) by (simp add: hashed_def)
  ultimately show ?thesis
    using auditor_chain.run_verifies [of D old a ops "snd (auditor_run D ops a)"] assms
    by (simp add: auditor_run_writer)
qed

lemma audited_tool_denied:
  "admit lm c now tick l = (Inl d, l') \<Longrightarrow> auditor_record D eff (deny_row tr c rec d) a = (a', rows) \<Longrightarrow>
     audited_tool D tr lm fn c now tick rec eff (l, a) = (Returned (deny_response d), False, (l', a'), rows)"
  by (simp add: audited_tool_def)

lemma audited_tool_ran:
  "admit lm c now tick l = (Inr u, l') \<Longrightarrow>
     auditor_record D eff (allow_row tr c rec (fn (cl_kwargs c))) a = (a', rows) \<Longrightarrow>
     audited_tool D tr lm fn c now tick rec eff (l, a) =
       (fn (cl_kwargs c), True, (finish_limiter lm c l', a'), rows)"
  by (simp add: audited_tool_def)

lemma audited_tool_cases:
  assumes "audited_tool D tr lm fn c now tick rec eff (l, a) = (resp, did, (l2, a2), rows)"
  obtains d where "admit lm c now tick l = (Inl d, l2)" and "resp = Returned (deny_response d)" and "\<not> did"
      and "(a2, rows) = auditor_record D eff (deny_row tr c rec d) a"
  | u l1 where "admit lm c now tick l = (Inr u, l1)" and "resp = fn (cl_kwargs c)" and "did"
      and "l2 = finish_limiter lm c l1"
      and "(a2, rows) = auditor_record D eff (allow_row tr c rec (fn (cl_kwargs c))) a"
proof (cases "admit lm c now tick l")
  case (Pair r l1)
  then show thesis
    using assms that by (cases r) (auto simp: audited_tool_def Let_def split: prod.splits)
qed

lemma deny_row_fields [simp]:
  "decision (deny_row tr c rec d) = ''deny''" "principal (deny_row tr c rec d) = ci_principal (cl_info c)"
  "tool (deny_row tr c rec d) = cl_tool c" "row_count (deny_row tr c rec d) = 0"
  "args (deny_row tr c rec d) = json_dumps_sorted json_default (cl_kwargs c)" "tier (deny_row tr c rec d) = tr"
  by (simp_all add: deny_row_def build_audit_row_def split: prod.splits)

lemma allow_row_fields [simp]:
  "decision (allow_row tr c rec out) = ''allow''" "principal (allow_row tr c rec out) = ci_principal (cl_info c)"
  "tool (allow_row tr c rec out) = cl_tool c"
  "args (allow_row tr c rec out) = json_dumps_sorted json_default (cl_kwargs c)" "tier (allow_row tr c rec out) = tr"
  "error (allow_row tr c rec out) = or_empty (outcome_error out)"
  by (simp_all add: allow_row_def build_audit_row_def split: prod.splits)

lemma record_row: "(a', rows) = auditor_record D eff r a \<Longrightarrow> rows = (if stored eff then [chain_row D (last_hash a) r] else [])"
  by (auto simp: auditor_record_def Let_def split: if_splits)

section \<open>Bounds of an execution\<close>

definition within_limit :: "limiter_cfg \<Rightarrow> gate \<Rightarrow> bool" where
  "within_limit cfg s \<longleftrightarrow> (\<forall>p. int (running_calls s p) \<le> max_concurrent cfg)"

lemma gate_step_limit:
  assumes st: "gate_step D tr (Some cfg) s s'" and pos: "max_concurrent cfg > 0"
    and inv: "flight_inv (Some cfg) s" and ok: "within_limit cfg s"
  shows "within_limit cfg s'"
  using st
proof cases
  case (begin_call c now tick rec)
  have on: "limiter_on (Some cfg)" using pos by (simp add: limiter_on_def limiter_enabled_def)
  show ?thesis
  proof (cases "admit (Some cfg) c now tick (g_limiter s)")
    case (Pair r lst)
    then show ?thesis
      using ok begin_call admit_limit [of cfg c now tick "g_limiter s" _ lst] pos inv on
      by (cases r) (auto simp: within_limit_def gate_begin_def running_calls_def flight_inv_def)
  qed
next
  case (finish_call c out rec)
  have "running_calls s' p \<le> running_calls s p" for p
    using finish_call running_remove1 [of c s p]
    by (simp add: gate_finish_def running_calls_def [of "_\<lparr>g_pending := _\<rparr>"] running_calls_def [of "_\<lparr>g_limiter := _\<rparr>"]
        running_calls_def [of "_\<lparr>g_running := _\<rparr>"] split: if_splits)
  then show ?thesis using ok unfolding within_limit_def by (meson of_nat_mono order_trans)
next
  case (write_row r eff)
  then show ?thesis
    using ok by (auto simp: within_limit_def gate_write_def running_calls_def split: prod.splits)
qed

lemma reach_limit:
  "reach D tr (Some cfg) s0 s \<Longrightarrow> max_concurrent cfg > 0 \<Longrightarrow> flight_inv (Some cfg) s0 \<Longrightarrow> within_limit cfg s0 \<Longrightarrow>
     within_limit cfg s"
  by (induction rule: reach.induct) (auto intro: gate_step_limit reach_flight)

section \<open>Properties\<close>


definition sample_call :: "pydt option \<Rightarrow> call" where
  "sample_call t = \<lparr>cl_tool = ''locate'', cl_info = \<lparr>ci_principal = ''alice'', ci_allowed = Some [''locate''], ci_not_after = t\<rparr>,
     cl_kwargs = PDict [(''host'', PStr ''h1'')], cl_attr = ([], [], ''agent'')\<rparr>"


text \<open>C3: Every call is audited exactly once, however it ends.  A denied call, a call that returns and a
  call that raises each build one row that names the caller, the tool and its arguments and says
  deny or allow; an exception is never recorded as an empty error; and if the insert stores rows,
  exactly that row, chained to the head, reaches the table.\<close>

theorem every_call_is_audited_once:
  assumes "audited_tool D tr lm fn c now tick rec eff (l, a) = (resp, did, (l2, a2), rows)"
  shows "\<exists>r. (a2, rows) = auditor_record D eff r a
    \<and> principal r = ci_principal (cl_info c) \<and> tool r = cl_tool c \<and> tier r = tr
    \<and> args r = json_dumps_sorted json_default (cl_kwargs c)
    \<and> decision r = (if did then ''allow'' else ''deny'')
    \<and> (\<forall>ty msg. did \<and> resp = Raised ty msg \<longrightarrow> error r = ty @ '': '' @ msg)
    \<and> (stored eff \<longrightarrow> rows = [chain_row D (last_hash a) r])"
  using assms
proof (cases rule: audited_tool_cases)
  case (1 d)
  then show ?thesis
    using record_row [OF 1(4)] by (intro exI [of _ "deny_row tr c rec d"]) simp
next
  case (2 u l1)
  have "error (allow_row tr c rec (Raised ty msg)) = ty @ '': '' @ msg" for ty msg
    by (simp add: outcome_error_def or_empty_def py_str_def)
  then show ?thesis
    using 2 record_row [OF 2(5)] by (intro exI [of _ "allow_row tr c rec (fn (cl_kwargs c))"]) simp
qed

lemma every_call_is_audited_once_witness:
  "\<exists>resp s rows. audited_tool (\<lambda>x. x) ''sovereign'' None (\<lambda>k. Raised ''ValueError'' ''bad'') (sample_call None) (utc_dt 5) 0
       (utc_dt 5) stored_ok (new_limiter, \<lparr>last_hash = []\<rparr>) = (resp, True, s, rows)
     \<and> map error rows = [''ValueError: bad''] \<and> map decision rows = [''allow'']"
proof -
  obtain resp did l2 a2 rows where r: "audited_tool (\<lambda>x. x) ''sovereign'' None (\<lambda>k. Raised ''ValueError'' ''bad'')
      (sample_call None) (utc_dt 5) 0 (utc_dt 5) stored_ok (new_limiter, \<lparr>last_hash = []\<rparr>)
      = (resp, did, (l2, a2), rows)"
    by (metis surj_pair)
  then have "did" and "resp = Raised ''ValueError'' ''bad''"
    by (auto simp: audited_tool_def admit_def sample_call_def limiter_on_def Let_def split: prod.splits)
  then show ?thesis
    using every_call_is_audited_once [OF r] r
    by (auto simp: stored_ok_def chain_row_def audit_row.defs chained_row.defs)
qed


text \<open>A run of two steps for the witnesses: an expired call is denied and its row is stored.\<close>

definition sample_gate :: gate where
  "sample_gate = gate_write (\<lambda>x. x) stored_ok (deny_row ''sovereign'' (sample_call (Some (utc_dt 5))) (utc_dt 5)
       (''forbidden'', ''token for principal '' @ quoted ''alice'' @ '' has expired''))
     (gate_begin ''sovereign'' (Some sample_cfg) (sample_call (Some (utc_dt 5))) (utc_dt 5) 0 (utc_dt 5)
       (gate_begin ''sovereign'' (Some sample_cfg) (sample_call None) (utc_dt 5) 0 (utc_dt 5)
         (gate_start \<lparr>last_hash = []\<rparr> [])))"

lemma sample_admit: "admit lm (sample_call (Some (utc_dt 5))) (utc_dt 5) tick st =
    (Inl (''forbidden'', ''token for principal '' @ quoted ''alice'' @ '' has expired''), st)"
  by (simp add: admit_def sample_call_def Let_def)

lemma sample_gate_reach: "reach (\<lambda>x. x) ''sovereign'' (Some sample_cfg) (gate_start \<lparr>last_hash = []\<rparr> []) sample_gate"
proof -
  let ?s0 = "gate_start \<lparr>last_hash = []\<rparr> []"
  let ?s1 = "gate_begin ''sovereign'' (Some sample_cfg) (sample_call None) (utc_dt 5) 0 (utc_dt 5) ?s0"
  let ?s2 = "gate_begin ''sovereign'' (Some sample_cfg) (sample_call (Some (utc_dt 5))) (utc_dt 5) 0 (utc_dt 5) ?s1"
  have p: "g_pending ?s2 = g_pending ?s1 @ [deny_row ''sovereign'' (sample_call (Some (utc_dt 5))) (utc_dt 5)
       (''forbidden'', ''token for principal '' @ quoted ''alice'' @ '' has expired'')]"
    by (simp add: gate_begin_def [of _ _ "sample_call (Some (utc_dt 5))"] sample_admit)
  have "reach (\<lambda>x. x) ''sovereign'' (Some sample_cfg) ?s0 ?s2"
    by (rule reach.more [OF reach.more [OF reach.start]]) (rule gate_step.begin_call)+
  then show ?thesis
    unfolding sample_gate_def using p
    by (elim reach.more, intro gate_step.write_row) (simp_all add: ch_effect_def stored_ok_def)
qed


text \<open>C19: The concurrency limit holds in every interleaving.  At every reachable moment the limiter's
  count for a principal is the number of that principal's calls whose tool is running, and that
  number never exceeds \<open>max_concurrent\<close>; so slots are neither leaked nor freed twice.\<close>

theorem concurrency_limit_holds:
  assumes "reach D tr (Some cfg) (gate_start a old) s" and "max_concurrent cfg > 0"
  shows "in_flight (g_limiter s) p = int (running_calls s p) \<and> int (running_calls s p) \<le> max_concurrent cfg"
proof -
  have "limiter_on (Some cfg)" using assms(2) by (simp add: limiter_on_def limiter_enabled_def)
  moreover have "within_limit cfg (gate_start a old)"
    using assms(2) by (simp add: within_limit_def gate_start_def running_calls_def)
  ultimately show ?thesis
    using reach_flight [OF assms(1) flight_inv_start] reach_limit [OF assms flight_inv_start]
    by (simp add: flight_inv_def within_limit_def)
qed

lemma concurrency_limit_holds_witness:
  "in_flight (g_limiter sample_gate) ''alice'' = 1 \<and> running_calls sample_gate ''alice'' = 1"
proof -
  have "running_calls sample_gate ''alice'' = 1" by code_simp
  then show ?thesis
    using concurrency_limit_holds [OF sample_gate_reach, of "''alice''"] by (simp add: sample_cfg_def)
qed

text \<open>No call is lost from the audit trail.  At every reachable moment the calls that began are the
  calls still running, the rows built but not yet recorded and the rows recorded, each counted
  once; when nothing is running or pending, every call that began has been recorded.\<close>

theorem no_call_lost:
  assumes "reach D tr lm (gate_start a old) s"
  shows "g_begun s = length (g_running s) + length (g_pending s) + g_recorded s"
  using reach_rows [OF assms] by (simp add: row_inv_def gate_start_def)

lemma no_call_lost_witness: "g_begun sample_gate = 2 \<and> g_recorded sample_gate = 1 \<and> length (g_running sample_gate) = 1"
proof -
  have "g_recorded sample_gate = 1" "length (g_running sample_gate) = 1" "g_pending sample_gate = []"
    by code_simp+
  then show ?thesis using no_call_lost [OF sample_gate_reach] by simp
qed

text \<open>A token with an unreadable expiry is an expired token.  When the \<open>not_after\<close> of the token file
  does not parse, no tool runs for it at any time from 1970 on, and the caller is told so.\<close>

theorem malformed_expiry_denies:
  assumes "te_not_after e = Some txt" and "fromisoformat txt = None"
    and "cl_info c = current_caller_claims (Some e)" and "as_utc EXPIRED \<le> as_utc now"
  shows "fst (audited_tool D tr lm fn c now tick rec eff s) = Returned (deny_response (''forbidden'',
           ''token for principal '' @ quoted (ci_principal (cl_info c)) @ '' has expired''))
    \<and> \<not> fst (snd (audited_tool D tr lm fn c now tick rec eff s))"
proof -
  have "ci_not_after (cl_info c) = Some EXPIRED"
    using assms by (simp add: current_caller_claims_def parse_claim_not_after_def)
  then show ?thesis
    using assms(4) by (simp add: audited_tool_def admit_def Let_def split: prod.splits)
qed

lemma malformed_expiry_denies_witness:
  "\<not> fst (snd (audited_tool (\<lambda>x. x) ''sovereign'' None Returned
      ((sample_call None)\<lparr>cl_info := current_caller_claims (Some ((sample_entry ''bob'')\<lparr>te_not_after := Some ''soon''\<rparr>))\<rparr>)
      (utc_dt (738000 * day_us)) 0 (utc_dt 0) stored_ok (new_limiter, \<lparr>last_hash = []\<rparr>)))"
proof -
  let ?e = "(sample_entry ''bob'')\<lparr>te_not_after := Some ''soon''\<rparr>"
  let ?c = "(sample_call None)\<lparr>cl_info := current_caller_claims (Some ?e)\<rparr>"
  have "fromisoformat ''soon'' = None" by code_simp
  moreover have "as_utc EXPIRED \<le> as_utc (utc_dt (738000 * day_us))"
    by (simp add: EXPIRED_def utc_dt_def as_utc_def)
  ultimately show ?thesis
    using malformed_expiry_denies [of ?e "''soon''" ?c "utc_dt (738000 * day_us)"] by simp
qed

end
