(* ===== verification/TimeParse.thy ===== *)
theory TimeParse
  imports PyTime
begin

text \<open>
  \<open>timeparse.py\<close>: a time expression is \<open>now\<close>, \<open>now-<n><unit>\<close> or an ISO 8601 text.  The
  clock reading is an argument, a UTC time in microseconds.  A negative result or an amount
  beyond the range of \<open>timedelta\<close> is Python's \<open>OverflowError\<close>, which the code lets through.
\<close>

datatype time_error = TimeParseError string | OverflowError

definition unit_us :: "char \<Rightarrow> int option" where
  "unit_us c =
     (if c = CHR ''s'' then Some 1000000
      else if c = CHR ''m'' then Some 60000000
      else if c = CHR ''h'' then Some 3600000000
      else if c = CHR ''d'' then Some 86400000000
      else None)"

text \<open>The groups of the expression \<open>^now(?:-(\d+)([smhd]))?$\<close>: \<open>Some None\<close> is a match without
  an amount.\<close>

definition rel_match :: "string \<Rightarrow> (int \<times> int) option option" where
  "rel_match s =
     (if \<not> startswith s ''now'' then None
      else case drop 3 s of
          [] \<Rightarrow> Some None
        | c # r \<Rightarrow>
           (let ds = takeWhile is_digit r
            in if c \<noteq> CHR ''-'' \<or> ds = [] then None
               else case dropWhile is_digit r of
                   [u] \<Rightarrow> (case unit_us u of Some k \<Rightarrow> Some (Some (int (nat_of_digits ds), k)) | None \<Rightarrow> None)
                 | _ \<Rightarrow> None))"

fun replace_Z :: "string \<Rightarrow> string" where
  "replace_Z [] = []"
| "replace_Z (c # cs) = (if c = CHR ''Z'' then ''+00:00'' else [c]) @ replace_Z cs"

definition max_timedelta :: int where
  "max_timedelta = 1000000000 * day_us"

definition parse_time :: "int \<Rightarrow> string \<Rightarrow> time_error + pydt" where
  "parse_time now value =
     (let t = strip value
      in case rel_match t of
           Some None \<Rightarrow> Inr (utc_dt now)
         | Some (Some (amount, k)) \<Rightarrow>
             if max_timedelta \<le> amount * k \<or> now < amount * k then Inl OverflowError
             else Inr (utc_dt (now - amount * k))
         | None \<Rightarrow>
             (case fromisoformat (replace_Z t) of
                None \<Rightarrow> Inl (TimeParseError value)
              | Some p \<Rightarrow>
                  (case utc_off p of
                     None \<Rightarrow> Inr (p\<lparr>utc_off := Some 0\<rparr>)
                   | Some off \<Rightarrow>
                       if wall_us p - off < 0 \<or> 3652059 * day_us \<le> wall_us p - off then Inl OverflowError
                       else Inr (utc_dt (as_utc p)))))"

text \<open>\<open>parse_time(x) if x else parse_time(default)\<close>.\<close>

definition parse_time_or :: "int \<Rightarrow> string option \<Rightarrow> string \<Rightarrow> time_error + pydt" where
  "parse_time_or now x dflt = parse_time now (opt_or x dflt)"

lemma parse_time_aware: "parse_time now value = Inr t \<Longrightarrow> utc_off t = Some 0"
  by (auto simp: parse_time_def utc_dt_def Let_def split: option.splits if_splits prod.splits)

lemma strip_clean:
  assumes "s \<noteq> []" and "\<not> is_space (hd s)" and "\<not> is_space (last s)"
  shows "strip s = s"
proof -
  have "dropWhile is_space s = s" and "dropWhile is_space (rev s) = rev s"
    using assms by (simp_all add: dropWhile_eq_self_iff hd_rev)
  then show ?thesis by (simp add: strip_def)
qed

lemma takeWhile_digits:
  "list_all is_digit ds \<Longrightarrow> \<not> is_digit u \<Longrightarrow>
     takeWhile is_digit (ds @ [u]) = ds \<and> dropWhile is_digit (ds @ [u]) = [u]"
  by (simp add: list_all_iff)

lemma unit_char:
  assumes "unit_us u = Some k"
  shows "\<not> is_digit u" and "\<not> is_space u" and "0 < k"
  using assms by (auto simp: unit_us_def is_digit_def is_space_def split: if_splits)

lemma rel_match_amount:
  "unit_us u = Some k \<Longrightarrow> rel_match (''now-'' @ show_nat n @ [u]) = Some (Some (int n, k))"
  using takeWhile_digits [of "show_nat n" u] show_nat_digits [of n] unit_char [of u k]
  by (simp add: rel_match_def startswith_def)

lemma parse_time_relative:
  assumes "unit_us u = Some k" and "int n * k \<le> now" and "int n * k < max_timedelta"
  shows "parse_time now (''now-'' @ show_nat n @ [u]) = Inr (utc_dt (now - int n * k))"
proof -
  have "strip (''now-'' @ show_nat n @ [u]) = ''now-'' @ show_nat n @ [u]"
    using unit_char(2) [OF assms(1)] by (intro strip_clean) (simp_all add: is_space_def)
  then show ?thesis
    using assms rel_match_amount [OF assms(1), of n] by (simp add: parse_time_def)
qed

lemma parse_time_relative_overflow:
  assumes "unit_us u = Some k" and "now < int n * k"
  shows "parse_time now (''now-'' @ show_nat n @ [u]) = Inl OverflowError"
proof -
  have "strip (''now-'' @ show_nat n @ [u]) = ''now-'' @ show_nat n @ [u]"
    using unit_char(2) [OF assms(1)] by (intro strip_clean) (simp_all add: is_space_def)
  then show ?thesis
    using assms rel_match_amount [OF assms(1), of n] by (simp add: parse_time_def)
qed

section \<open>Properties\<close>

text \<open>Relative times are exact.  For every unit and amount \<open>now-<n><unit>\<close> is the instant that many
  units before now when that instant is representable, and an instant before year 1 raises
  \<open>OverflowError\<close>, which is not the documented \<open>TimeParseError\<close>; every parsed time is in UTC.\<close>

theorem relative_time_exact:
  assumes "unit_us u = Some k"
  shows "(int n * k \<le> now \<and> int n * k < max_timedelta \<longrightarrow>
            parse_time now (''now-'' @ show_nat n @ [u]) = Inr (utc_dt (now - int n * k)))
    \<and> (now < int n * k \<longrightarrow> parse_time now (''now-'' @ show_nat n @ [u]) = Inl OverflowError)
    \<and> (\<forall>value t. parse_time now value = Inr t \<longrightarrow> utc_off t = Some 0)"
  using parse_time_relative [OF assms] parse_time_relative_overflow [OF assms] parse_time_aware by blast

lemma relative_time_exact_witness:
  "parse_time (739000 * day_us) ''now-6h'' = Inr (utc_dt (739000 * day_us - 21600000000))
   \<and> parse_time (5 * day_us) ''now-9d'' = Inl OverflowError"
proof
  have s: "show_nat 6 = ''6''" "show_nat 9 = ''9''"
    by code_simp+
  have u: "unit_us CHR ''h'' = Some (3600 * 1000000)" "unit_us CHR ''d'' = Some day_us"
    by code_simp+
  show "parse_time (739000 * day_us) ''now-6h'' = Inr (utc_dt (739000 * day_us - 21600000000))"
    using conjunct1 [OF relative_time_exact [OF u(1), of 6 "739000 * day_us"]] s
    by (simp add: max_timedelta_def)
  show "parse_time (5 * day_us) ''now-9d'' = Inl OverflowError"
    using conjunct1 [OF conjunct2 [OF relative_time_exact [OF u(2), of 9 "5 * day_us"]]] s
    by (simp add: max_timedelta_def)
qed

end
