(* ===== verification/Sql.thy ===== *)
theory Sql
  imports PyJson TimeParse
begin

text \<open>
  The SQL texts of the services and the parameters bound beside them: \<open>builders.py\<close>,
  \<open>rule_builders.py\<close>, \<open>graphstore.py\<close>, \<open>entitystore.py\<close>, \<open>metrics_store.py\<close>, \<open>liveness_tools.py\<close>,
  \<open>alerts.py\<close> and \<open>fabric_manifest.py\<close> of mcp-query, \<open>chwriter.py\<close> of the entity and policy services,
  \<open>rule_usage_rollup.py\<close>, and \<open>flows.py\<close> and \<open>resolve_main.py\<close> of topo.  A builder answers the text and
  a dictionary of parameters; the texts are those of the source, character by character.
\<close>

type_synonym params = "(string, pyval) dict"
type_synonym query = "string \<times> params"

abbreviation PStrs :: "string list \<Rightarrow> pyval" where
  "PStrs xs \<equiv> PList (map PStr xs)"

section \<open>Flow queries: \<open>builders.py\<close>\<close>

definition MAX_LIMIT :: int where "MAX_LIMIT = 1000"
definition TOP_MAX_LIMIT :: int where "TOP_MAX_LIMIT = 100"

definition FLOW_COLUMNS :: "string list" where
  "FLOW_COLUMNS = [''timestamp'', ''event_action'', ''event_outcome'', ''event_provider'', ''source_ip'',
     ''source_port'', ''destination_ip'', ''destination_port'', ''network_transport'', ''network_bytes'',
     ''rule_name'', ''observer_ingress_zone'', ''observer_egress_zone'', ''user_name'']"

datatype build_error = BuilderError string | TimeFailure time_error

definition clamp :: "int \<Rightarrow> int \<Rightarrow> int \<Rightarrow> int" where
  "clamp v lo hi = max lo (min v hi)"

text \<open>The clock is read once for each bound; \<open>n1\<close> and \<open>n2\<close> are the readings.\<close>

definition query_window :: "int \<Rightarrow> int \<Rightarrow> string option \<Rightarrow> string option \<Rightarrow> time_error + params \<times> string list" where
  "query_window n1 n2 since until =
     (case parse_time_or n1 since ''now-24h'' of Inl e \<Rightarrow> Inl e
      | Inr s \<Rightarrow>
         (case parse_time_or n2 until ''now'' of Inl e \<Rightarrow> Inl e
          | Inr u \<Rightarrow> Inr ([(''since'', PStr (isoformat s)), (''until'', PStr (isoformat u))],
              [''timestamp >= parseDateTimeBestEffort({since:String})'',
               ''timestamp <= parseDateTimeBestEffort({until:String})''])))"

text \<open>\<open>if x is not None: params[name] = x; conditions.append(text)\<close>\<close>

definition with_filter :: "string \<Rightarrow> string \<Rightarrow> pyval option \<Rightarrow> params \<times> string list \<Rightarrow> params \<times> string list" where
  "with_filter name text v acc =
     (case v of None \<Rightarrow> acc | Some x \<Rightarrow> (dset (fst acc) name x, snd acc @ [text]))"

record flow_filter =
  ff_src_ip :: "string option"
  ff_dst_ip :: "string option"
  ff_dst_port :: "int option"
  ff_action :: "string option"
  ff_outcome :: "string option"
  ff_provider :: "string option"
  ff_zone :: "string option"
  ff_since :: "string option"
  ff_until :: "string option"
  ff_limit :: int

definition flow_conditions :: "flow_filter \<Rightarrow> params \<times> string list \<Rightarrow> params \<times> string list" where
  "flow_conditions f acc =
     foldl (\<lambda>acc (name, text, v). with_filter name text v acc) acc
       [(''src_ip'', ''source_ip = toIPv4({src_ip:String})'', map_option PStr (ff_src_ip f)),
        (''dst_ip'', ''destination_ip = toIPv4({dst_ip:String})'', map_option PStr (ff_dst_ip f)),
        (''dst_port'', ''destination_port = {dst_port:UInt16}'', map_option PInt (ff_dst_port f)),
        (''action'', ''event_action = {action:String}'', map_option PStr (ff_action f)),
        (''outcome'', ''event_outcome = {outcome:String}'', map_option PStr (ff_outcome f)),
        (''provider'', ''event_provider = {provider:String}'', map_option PStr (ff_provider f)),
        (''zone'', ''(observer_ingress_zone = {zone:String} OR observer_egress_zone = {zone:String})'',
           map_option PStr (ff_zone f))]"

definition flow_text :: "string list \<Rightarrow> int \<Rightarrow> string" where
  "flow_text conditions limit =
     ''SELECT '' @ join '', '' FLOW_COLUMNS @ '' FROM ssdf.events WHERE '' @ join '' AND '' conditions @
     '' ORDER BY timestamp DESC LIMIT '' @ show_int (clamp limit 1 MAX_LIMIT)"

definition build_query_flows :: "int \<Rightarrow> int \<Rightarrow> flow_filter \<Rightarrow> build_error + query" where
  "build_query_flows n1 n2 f =
     (case query_window n1 n2 (ff_since f) (ff_until f) of
        Inl e \<Rightarrow> Inl (TimeFailure e)
      | Inr w \<Rightarrow> Inr (flow_text (snd (flow_conditions f w)) (ff_limit f), fst (flow_conditions f w)))"

definition top_text :: "string \<Rightarrow> string \<Rightarrow> string list \<Rightarrow> int \<Rightarrow> string" where
  "top_text ip_col order_expr conditions limit =
     ''SELECT '' @ ip_col @ '' AS ip, sum(network_bytes) AS bytes, count() AS flows '' @
     ''FROM ssdf.events WHERE '' @ join '' AND '' conditions @
     '' GROUP BY ip ORDER BY '' @ order_expr @ '' DESC LIMIT '' @ show_int (clamp limit 1 TOP_MAX_LIMIT)"

definition build_top_talkers ::
  "int \<Rightarrow> int \<Rightarrow> string \<Rightarrow> string \<Rightarrow> string option \<Rightarrow> string option \<Rightarrow> int \<Rightarrow> build_error + query" where
  "build_top_talkers n1 n2 by_col side since until limit =
     (if by_col \<noteq> ''bytes'' \<and> by_col \<noteq> ''flows''
      then Inl (BuilderError (''by must be 'bytes' or 'flows'' @ [CHR 0x27]))
      else if side \<noteq> ''src'' \<and> side \<noteq> ''dst''
      then Inl (BuilderError (''side must be 'src' or 'dst'' @ [CHR 0x27]))
      else
        (let ip_col = (if side = ''src'' then ''source_ip'' else ''destination_ip'');
             order_expr = (if by_col = ''bytes'' then ''sum(network_bytes)'' else ''count()'')
         in case query_window n1 n2 since until of Inl e \<Rightarrow> Inl (TimeFailure e)
            | Inr (ps, conds) \<Rightarrow> Inr (top_text ip_col order_expr (conds @ [ip_col @ '' IS NOT NULL'']) limit, ps)))"

section \<open>Rule queries: \<open>rule_builders.py\<close>\<close>

definition HISTORY_MAX_LIMIT :: int where "HISTORY_MAX_LIMIT = 500"

definition window_params :: "int \<Rightarrow> int \<Rightarrow> string option \<Rightarrow> string option \<Rightarrow> time_error + params" where
  "window_params n1 n2 since until =
     (case parse_time_or n1 since ''now-24h'' of Inl e \<Rightarrow> Inl e
      | Inr s \<Rightarrow>
         (case parse_time_or n2 until ''now'' of Inl e \<Rightarrow> Inl e
          | Inr u \<Rightarrow> Inr [(''since'', PStr (isoformat s)), (''until'', PStr (isoformat u))]))"

definition RULE_USAGE_SQL :: string where
  "RULE_USAGE_SQL =
      ''SELECT bucket_start, provider, observer_hostname, rule_name, sum(sessions) AS sessions, '' @
      ''sum(bytes) AS bytes FROM ssdf.rule_usage_hourly FINAL WHERE observer_hostname = '' @
      ''{device:String} AND rule_name = {rule:String} AND bucket_start >= '' @
      ''parseDateTimeBestEffort({since:String}) AND bucket_start < '' @
      ''parseDateTimeBestEffort({until:String}) GROUP BY bucket_start, provider, '' @
      ''observer_hostname, rule_name ORDER BY bucket_start''"

definition build_rule_usage_sql ::
  "int \<Rightarrow> int \<Rightarrow> string \<Rightarrow> string \<Rightarrow> string option \<Rightarrow> string option \<Rightarrow> time_error + query" where
  "build_rule_usage_sql n1 n2 device rule since until =
     bind_sum (window_params n1 n2 since until)
       (\<lambda>ps. Inr (RULE_USAGE_SQL, dset (dset ps ''device'' (PStr device)) ''rule'' (PStr rule)))"

definition LOG_COVERAGE_SQL :: string where
  "LOG_COVERAGE_SQL =
      ''SELECT min(bucket_start) AS min_bucket, max(bucket_start) AS max_bucket, count() AS c '' @
      ''FROM ssdf.rule_usage_hourly FINAL WHERE observer_hostname = {device:String} AND '' @
      ''bucket_start >= parseDateTimeBestEffort({since:String}) AND bucket_start < '' @
      ''parseDateTimeBestEffort({until:String})''"

definition build_device_log_coverage_sql ::
  "int \<Rightarrow> int \<Rightarrow> string \<Rightarrow> string option \<Rightarrow> string option \<Rightarrow> time_error + query" where
  "build_device_log_coverage_sql n1 n2 device since until =
     bind_sum (window_params n1 n2 since until) (\<lambda>ps. Inr (LOG_COVERAGE_SQL, dset ps ''device'' (PStr device)))"

definition RULE_HISTORY_SQL :: string where
  "RULE_HISTORY_SQL =
      ''SELECT toString(valid_from) AS valid_from, content_hash, action, from_zone, to_zone, '' @
      ''enabled, position FROM ssdf.policy_versions WHERE device_name = {device:String} AND '' @
      ''rule_name = {rule:String} ORDER BY valid_from DESC LIMIT ''"

definition build_rule_history_sql :: "string \<Rightarrow> string \<Rightarrow> int \<Rightarrow> query" where
  "build_rule_history_sql device rule limit0 =
     (let limit = max 1 (min limit0 HISTORY_MAX_LIMIT)
      in (RULE_HISTORY_SQL @ show_int limit, [(''device'', PStr device), (''rule'', PStr rule)]))"

section \<open>Graph queries: \<open>graphstore.py\<close>\<close>

definition mac_digit :: "char \<Rightarrow> bool" where
  "mac_digit c = (is_digit c \<or> lower_char c \<in> set ''abcdef'')"

text \<open>The expression \<open>^[0-9a-f]{2}(:[0-9a-f]{2}){5}$\<close>, which also accepts one final newline.\<close>

definition mac_shape :: "string \<Rightarrow> bool" where
  "mac_shape s =
     (let groups = split_on CHR '':'' (if s \<noteq> [] \<and> last s = CHR 0x0A then butlast s else s)
      in length groups = 6 \<and> list_all (\<lambda>g. length g = 2 \<and> list_all mac_digit g) groups)"

definition normalize_identifier :: "string \<Rightarrow> string" where
  "normalize_identifier v = (if mac_shape v then lower v else v)"

definition SOVEREIGN_NODE_COLUMNS :: string where
  "SOVEREIGN_NODE_COLUMNS =
      ''node_id, kind, name, identifiers, toString(first_seen) AS first_seen, '' @
      ''toString(last_seen) AS last_seen, attrs''"

definition PUBLIC_NODE_COLUMNS :: string where
  "PUBLIC_NODE_COLUMNS =
      ''node_id, kind, toString(first_seen) AS first_seen, toString(last_seen) AS last_seen''"

definition SOVEREIGN_EDGE_COLUMNS :: string where
  "SOVEREIGN_EDGE_COLUMNS =
      ''edge_id, src_id, dst_id, edge_type, layer, toString(first_seen) AS first_seen, '' @
      ''toString(last_seen) AS last_seen, confidence, attrs''"

definition PUBLIC_EDGE_COLUMNS :: string where
  "PUBLIC_EDGE_COLUMNS =
      ''edge_id, src_id, dst_id, edge_type, layer, toString(first_seen) AS first_seen, '' @
      ''toString(last_seen) AS last_seen, confidence''"

definition node_columns :: "string \<Rightarrow> string" where
  "node_columns schema = (if schema = ''ssdf_public'' then PUBLIC_NODE_COLUMNS else SOVEREIGN_NODE_COLUMNS)"

definition edge_columns :: "string \<Rightarrow> string" where
  "edge_columns schema = (if schema = ''ssdf_public'' then PUBLIC_EDGE_COLUMNS else SOVEREIGN_EDGE_COLUMNS)"

definition build_node_match_sql :: "string \<Rightarrow> string \<Rightarrow> string \<Rightarrow> query" where
  "build_node_match_sql v tenant schema =
     (if schema = ''ssdf_public'' then
       (''SELECT '' @ node_columns schema @ '' FROM '' @ schema @
        ''.graph_nodes FINAL WHERE tenant_id = {tenant:String} AND node_id = {val:String} ORDER '' @
        ''BY last_seen DESC LIMIT 1'',
        [(''tenant'', PStr tenant), (''val'', PStr v)])
      else
       (''SELECT '' @ node_columns schema @ '' FROM '' @ schema @
        ''.graph_nodes FINAL WHERE tenant_id = {tenant:String} AND (node_id = {val:String} OR '' @
        ''has(mapValues(identifiers), {val:String})) ORDER BY last_seen DESC LIMIT 1'',
        [(''tenant'', PStr tenant), (''val'', PStr (normalize_identifier v))]))"

definition SUBGRAPH_SQL :: "string \<Rightarrow> string" where
  "SUBGRAPH_SQL schema =
      ''SELECT '' @ edge_columns schema @ '' FROM '' @ schema @
      ''.graph_edges FINAL WHERE tenant_id = {tenant:String} AND graph_edges.last_seen >= '' @
      ''parseDateTimeBestEffort({since:String}) ORDER BY graph_edges.last_seen DESC LIMIT ''"

definition build_subgraph_sql :: "string \<Rightarrow> string \<Rightarrow> int \<Rightarrow> string \<Rightarrow> query" where
  "build_subgraph_sql since_iso tenant limit schema =
     (SUBGRAPH_SQL schema @ show_int limit, [(''tenant'', PStr tenant), (''since'', PStr since_iso)])"

definition build_nodes_by_id_sql :: "string list \<Rightarrow> string \<Rightarrow> string \<Rightarrow> query" where
  "build_nodes_by_id_sql ids tenant schema =
     (''SELECT '' @ node_columns schema @ '' FROM '' @ schema @
      ''.graph_nodes FINAL WHERE tenant_id = {tenant:String} AND node_id IN {ids:Array(String)}'',
      [(''tenant'', PStr tenant), (''ids'', PStrs ids)])"

text \<open>\<open>None\<close> is the \<open>ValueError\<close> of a role filter on the public schema.\<close>

definition build_nodes_by_attr_sql ::
  "string option \<Rightarrow> string option \<Rightarrow> string \<Rightarrow> int \<Rightarrow> string \<Rightarrow> query option" where
  "build_nodes_by_attr_sql role kind tenant limit schema =
     (if role \<noteq> None \<and> schema = ''ssdf_public'' then None
      else
        (let (ps, clauses) =
           foldl (\<lambda>acc (name, text, v). with_filter name text v acc)
             ([(''tenant'', PStr tenant)], [''tenant_id = {tenant:String}''])
             [(''role'', ''attrs['role'] = {role:String}'', map_option PStr role),
              (''kind'', ''kind = {kind:String}'', map_option PStr kind)]
         in Some (''SELECT '' @ node_columns schema @ '' FROM '' @ schema @ ''.graph_nodes FINAL WHERE '' @
              join '' AND '' clauses @ '' ORDER BY last_seen DESC LIMIT '' @ show_int limit, ps)))"

section \<open>Entity queries: \<open>entitystore.py\<close>\<close>

definition ENTITY_COLS :: string where
  "ENTITY_COLS =
      ''entity_id, kind, name, identifiers, source, identity_basis, confidence, '' @
      ''toString(first_seen) AS first_seen, toString(last_seen) AS last_seen, attrs''"

definition EDGE_COLS :: string where
  "EDGE_COLS =
      ''edge_id, src_id, dst_id, edge_type, source, confidence, toString(first_seen) AS '' @
      ''first_seen, toString(last_seen) AS last_seen, attrs''"

definition build_entity_match_sql :: "string \<Rightarrow> string \<Rightarrow> query" where
  "build_entity_match_sql v tenant =
     (''SELECT '' @ ENTITY_COLS @
      '' FROM ssdf.entities FINAL WHERE tenant_id = {tenant:String} AND (entity_id = '' @
      ''{val:String} OR has(mapValues(identifiers), {val:String})) ORDER BY confidence DESC, '' @
      ''entities.last_seen DESC LIMIT 1'',
      [(''tenant'', PStr tenant), (''val'', PStr (normalize_identifier v))])"

definition build_entities_match_sql :: "string \<Rightarrow> string \<Rightarrow> query" where
  "build_entities_match_sql v tenant =
     (''SELECT '' @ ENTITY_COLS @
      '' FROM ssdf.entities FINAL WHERE tenant_id = {tenant:String} AND (entity_id = '' @
      ''{val:String} OR has(mapValues(identifiers), {val:String})) ORDER BY confidence DESC, '' @
      ''entities.last_seen DESC'',
      [(''tenant'', PStr tenant), (''val'', PStr (normalize_identifier v))])"

definition build_comm_edges_sql :: "string \<Rightarrow> string \<Rightarrow> string \<Rightarrow> string \<Rightarrow> query" where
  "build_comm_edges_sql a b since_iso tenant =
     (''SELECT '' @ EDGE_COLS @
      '' FROM ssdf.entity_edges FINAL WHERE tenant_id = {tenant:String} AND edge_type = '' @
      '''communicated_with' AND entity_edges.last_seen >= '' @
      ''parseDateTimeBestEffort({since:String}) AND ((src_id = {a:String} AND dst_id = '' @
      ''{b:String}) OR (src_id = {b:String} AND dst_id = {a:String}))'',
      [(''tenant'', PStr tenant), (''a'', PStr a), (''b'', PStr b), (''since'', PStr since_iso)])"

definition build_comm_edges_multi_sql :: "string list \<Rightarrow> string list \<Rightarrow> string \<Rightarrow> string \<Rightarrow> query" where
  "build_comm_edges_multi_sql a b since_iso tenant =
     (''SELECT '' @ EDGE_COLS @
      '' FROM ssdf.entity_edges FINAL WHERE tenant_id = {tenant:String} AND edge_type = '' @
      '''communicated_with' AND entity_edges.last_seen >= '' @
      ''parseDateTimeBestEffort({since:String}) AND ((src_id IN {a:Array(String)} AND dst_id IN '' @
      ''{b:Array(String)}) OR (src_id IN {b:Array(String)} AND dst_id IN {a:Array(String)}))'',
      [(''tenant'', PStr tenant), (''a'', PStrs a), (''b'', PStrs b), (''since'', PStr since_iso)])"

definition build_governed_by_sql :: "string list \<Rightarrow> string \<Rightarrow> query" where
  "build_governed_by_sql ids tenant =
     (''SELECT '' @ EDGE_COLS @
      '' FROM ssdf.entity_edges FINAL WHERE tenant_id = {tenant:String} AND edge_type = '' @
      '''governed_by' AND src_id IN {ids:Array(String)}'',
      [(''tenant'', PStr tenant), (''ids'', PStrs ids)])"

definition build_entities_by_id_sql :: "string list \<Rightarrow> string \<Rightarrow> query" where
  "build_entities_by_id_sql ids tenant =
     (''SELECT '' @ ENTITY_COLS @
      '' FROM ssdf.entities FINAL WHERE tenant_id = {tenant:String} AND entity_id IN '' @
      ''{ids:Array(String)}'',
      [(''tenant'', PStr tenant), (''ids'', PStrs ids)])"

definition build_firewall_match_sql :: "string list \<Rightarrow> string \<Rightarrow> query" where
  "build_firewall_match_sql names tenant =
     (''SELECT '' @ ENTITY_COLS @
      '' FROM ssdf.entities FINAL WHERE tenant_id = {tenant:String} AND kind = 'firewall' AND '' @
      ''identifiers['device_name'] IN {names:Array(String)}'',
      [(''tenant'', PStr tenant), (''names'', PStrs names)])"

definition build_configured_governed_sql :: "string list \<Rightarrow> string \<Rightarrow> query" where
  "build_configured_governed_sql ids tenant =
     (''SELECT '' @ EDGE_COLS @
      '' FROM ssdf.entity_edges FINAL WHERE tenant_id = {tenant:String} AND edge_type = '' @
      '''governed_by' AND source = 'configured' AND src_id IN {ids:Array(String)}'',
      [(''tenant'', PStr tenant), (''ids'', PStrs ids)])"

definition build_alerts_for_pair_sql :: "string list \<Rightarrow> string \<Rightarrow> string \<Rightarrow> query" where
  "build_alerts_for_pair_sql ips since_iso tenant =
     (''SELECT toString(timestamp) AS timestamp, toString(source_ip) AS source_ip, '' @
      ''toString(destination_ip) AS destination_ip, ext['unifi.ips.signature'] AS signature, '' @
      ''ext['unifi.ips.signature_id'] AS signature_id, ext['unifi.ips.category'] AS category, '' @
      ''ext['unifi.ips.severity'] AS severity FROM ssdf.events WHERE tenant_id = '' @
      ''{tenant:String} AND event_provider = 'unifi' AND event_kind = 'alert' AND '' @
      ''events.timestamp >= parseDateTimeBestEffort({since:String}) AND (toString(source_ip) IN '' @
      ''{ips:Array(String)} OR toString(destination_ip) IN {ips:Array(String)}) ORDER BY '' @
      ''events.timestamp DESC LIMIT 200'',
      [(''tenant'', PStr tenant), (''ips'', PStrs ips), (''since'', PStr since_iso)])"

definition build_observers_for_ips_sql :: "string list \<Rightarrow> string \<Rightarrow> string \<Rightarrow> query" where
  "build_observers_for_ips_sql ips since_iso tenant =
     (''SELECT DISTINCT observer_hostname FROM ssdf.events WHERE tenant_id = {tenant:String} '' @
      ''AND observer_hostname != '' @ [CHR 0x27, CHR 0x27] @
      '' AND timestamp >= parseDateTimeBestEffort({since:String}) AND (toString(source_ip) IN '' @
      ''{ips:Array(String)} OR toString(destination_ip) IN {ips:Array(String)})'',
      [(''tenant'', PStr tenant), (''ips'', PStrs ips), (''since'', PStr since_iso)])"

section \<open>Metric queries: \<open>metrics_store.py\<close>\<close>

definition resolve_since :: "int \<Rightarrow> string option \<Rightarrow> time_error + string" where
  "resolve_since now since = bind_sum (parse_time now (opt_or since ''now-24h'')) (\<lambda>t. Inr (isoformat t))"

definition resolve_until :: "int \<Rightarrow> string option \<Rightarrow> time_error + string" where
  "resolve_until now until =
     (if opt_or until [] = [] then Inr [] else bind_sum (parse_time now (opt_or until [])) (\<lambda>t. Inr (isoformat t)))"

definition METRIC_TABLE :: string where "METRIC_TABLE = ''ssdf_public.metric_timeseries''"
definition ENTITY_SERIES_TABLE :: string where "ENTITY_SERIES_TABLE = ''ssdf_public.entity_series''"
definition MAP_TABLE :: string where "MAP_TABLE = ''ssdf.pseudonym_map''"

definition METRIC_SQL :: string where
  "METRIC_SQL =
      ''SELECT bucket_start, value FROM '' @ METRIC_TABLE @
      '' FINAL WHERE tenant_id = {tenant:String} AND metric = {metric:String} AND dim = '' @
      [CHR 0x27, CHR 0x27] @
      '' AND bucket_start >= parseDateTimeBestEffort({since:String}) AND ({until:String} = '' @
      [CHR 0x27, CHR 0x27] @
      '' OR bucket_start <= parseDateTimeBestEffortOrNull({until:String})) ORDER BY bucket_start''"

definition metric_timeseries_query :: "int \<Rightarrow> int \<Rightarrow> string \<Rightarrow> string \<Rightarrow> string option \<Rightarrow> string option \<Rightarrow> time_error + query" where
  "metric_timeseries_query n1 n2 tenant metric since until =
     bind_sum (resolve_since n1 since) (\<lambda>s. bind_sum (resolve_until n2 until) (\<lambda>u.
       Inr (METRIC_SQL, [(''tenant'', PStr tenant), (''metric'', PStr metric), (''since'', PStr s), (''until'', PStr u)])))"

definition TOP_SERIES_SQL :: string where
  "TOP_SERIES_SQL =
      ''SELECT surrogate, sum(value) AS value FROM '' @ ENTITY_SERIES_TABLE @
      '' FINAL WHERE tenant_id = {tenant:String} AND metric = {metric:String} AND bucket_start '' @
      ''>= parseDateTimeBestEffort({since:String}) GROUP BY surrogate ORDER BY value DESC LIMIT '' @
      ''{limit:UInt32}''"

definition top_series_query :: "int \<Rightarrow> string \<Rightarrow> string \<Rightarrow> string option \<Rightarrow> int \<Rightarrow> time_error + query" where
  "top_series_query n1 tenant metric since limit =
     bind_sum (resolve_since n1 since) (\<lambda>s.
       Inr (TOP_SERIES_SQL, [(''tenant'', PStr tenant), (''metric'', PStr metric), (''since'', PStr s), (''limit'', PInt limit)]))"

definition ENTITY_METRIC_SQL :: string where
  "ENTITY_METRIC_SQL =
      ''SELECT bucket_start, value FROM '' @ ENTITY_SERIES_TABLE @
      '' FINAL WHERE tenant_id = {tenant:String} AND surrogate = {surrogate:String} AND metric '' @
      ''= {metric:String} AND bucket_start >= parseDateTimeBestEffort({since:String}) AND '' @
      ''({until:String} = '' @ [CHR 0x27, CHR 0x27] @
      '' OR bucket_start <= parseDateTimeBestEffortOrNull({until:String})) ORDER BY bucket_start''"

definition entity_metric_query ::
  "int \<Rightarrow> int \<Rightarrow> string \<Rightarrow> string \<Rightarrow> string \<Rightarrow> string option \<Rightarrow> string option \<Rightarrow> time_error + query" where
  "entity_metric_query n1 n2 tenant surrogate metric since until =
     bind_sum (resolve_since n1 since) (\<lambda>s. bind_sum (resolve_until n2 until) (\<lambda>u.
       Inr (ENTITY_METRIC_SQL, [(''tenant'', PStr tenant), (''surrogate'', PStr surrogate), (''metric'', PStr metric),
              (''since'', PStr s), (''until'', PStr u)])))"

definition reidentify_query :: "string \<Rightarrow> query" where
  "reidentify_query surrogate =
     (''SELECT kind, real_value FROM '' @ MAP_TABLE @
      '' FINAL WHERE surrogate = {surrogate:String} LIMIT 1'',
      [(''surrogate'', PStr surrogate)])"

text \<open>\<open>reidentify\<close>: the first row of the answer.\<close>

definition reidentify :: "(query \<Rightarrow> 'row list) \<Rightarrow> string \<Rightarrow> string \<times> 'row option" where
  "reidentify run surrogate =
     (surrogate, (case run (reidentify_query surrogate) of [] \<Rightarrow> None | r # rs \<Rightarrow> Some r))"

section \<open>Liveness, alert and fabric queries\<close>

definition build_recent_observer_hostnames_sql :: "string \<Rightarrow> string \<Rightarrow> query" where
  "build_recent_observer_hostnames_sql since_iso tenant =
     (''SELECT observer_hostname, event_provider AS provider, max(timestamp) AS max_timestamp, '' @
      ''dateDiff('second', max(timestamp), now()) / 3600.0 AS hours_since FROM ssdf.events '' @
      ''WHERE tenant_id = {tenant:String} AND observer_hostname != '' @ [CHR 0x27, CHR 0x27] @
      '' AND timestamp >= parseDateTimeBestEffort({since:String}) GROUP BY observer_hostname, '' @
      ''provider'',
      [(''tenant'', PStr tenant), (''since'', PStr since_iso)])"

record subject =
  sb_name :: string
  sb_kind :: string
  sb_table :: string
  sb_ts :: string
  sb_filter :: "string option"
  sb_value :: string
  sb_budget :: real
  sb_note :: string

definition signal_label :: "subject \<Rightarrow> string" where
  "signal_label s =
     (case sb_filter s of
        Some col \<Rightarrow> sb_table s @ ''('' @ col @ ''='' @ sb_value s @ '')''
      | None \<Rightarrow> sb_table s @ ''.'' @ sb_ts s)"

definition build_subject_sql :: "subject \<Rightarrow> query" where
  "build_subject_sql s =
     (let wh = (case sb_filter s of None \<Rightarrow> [] | Some col \<Rightarrow> '' WHERE '' @ col @ '' = {fval:String}'')
      in (''SELECT count() AS n, max('' @ sb_ts s @ '') AS probe_max_ts, dateDiff('second', max('' @ sb_ts s @
        ''), now()) / 3600.0 AS hours_since FROM '' @ sb_table s @ wh,
          (case sb_filter s of None \<Rightarrow> [] | Some col \<Rightarrow> [(''fval'', PStr (sb_value s))])))"

section \<open>Queries of the resolvers\<close>

definition build_entity_flow_sql :: "int \<Rightarrow> string \<Rightarrow> query" where
  "build_entity_flow_sql window_hours tenant =
     (''SELECT toString(source_ip) AS src_ip, toString(destination_ip) AS dst_ip, '' @
      ''toString(observer_hostname) AS observer_hostname, sum(network_bytes) AS bytes, count() '' @
      ''AS flows, groupUniqArray(destination_port) AS ports, any(rule_name) AS rule_name, '' @
      ''any(event_provider) AS provider, any(network_transport) AS transport, '' @
      ''toString(min(timestamp)) AS first_seen, toString(max(timestamp)) AS last_seen FROM '' @
      ''ssdf.events WHERE tenant_id = {tenant:String} AND timestamp >= now() - INTERVAL '' @
      ''{window_hours:UInt32} HOUR AND source_ip IS NOT NULL AND destination_ip IS NOT NULL '' @
      ''GROUP BY src_ip, dst_ip, observer_hostname'',
      [(''tenant'', PStr tenant), (''window_hours'', PInt window_hours)])"

definition build_binding_sql :: "int \<Rightarrow> string \<Rightarrow> query" where
  "build_binding_sql lookback_hours tenant =
     (''SELECT source_device, replaceOne(subj_id, 'ip:', '' @ [CHR 0x27, CHR 0x27] @
      '') AS ip, argMax(replaceOne(obj_id, 'mac:', '' @ [CHR 0x27, CHR 0x27] @
      ''), topo_observations.observed_at) AS mac, toString(max(topo_observations.observed_at)) '' @
      ''AS observed_at, uniqExact(obj_id) AS mac_count FROM ssdf.topo_observations WHERE '' @
      ''tenant_id = {tenant:String} AND observation_type = 'arp_entry' AND '' @
      ''topo_observations.observed_at >= now() - INTERVAL {lookback_hours:UInt32} HOUR GROUP BY '' @
      ''source_device, subj_id'',
      [(''tenant'', PStr tenant), (''lookback_hours'', PInt lookback_hours)])"

definition RECONCILE_ENTITY_COLS :: string where
  "RECONCILE_ENTITY_COLS =
      ''entity_id, tenant_id, kind, name, identifiers, source, identity_basis, confidence, '' @
      ''attrs, toString(first_seen) AS first_seen, toString(last_seen) AS last_seen''"

definition RECONCILE_EDGE_COLS :: string where
  "RECONCILE_EDGE_COLS =
      ''edge_id, tenant_id, src_id, dst_id, edge_type, source, confidence, attrs, '' @
      ''toString(first_seen) AS first_seen, toString(last_seen) AS last_seen''"

definition build_assets_by_basis_sql :: "string \<Rightarrow> string \<Rightarrow> query" where
  "build_assets_by_basis_sql basis tenant =
     (''SELECT '' @ RECONCILE_ENTITY_COLS @
      '' FROM ssdf.entities FINAL WHERE tenant_id = {tenant:String} AND kind = 'asset' AND '' @
      ''identity_basis = {basis:String}'',
      [(''tenant'', PStr tenant), (''basis'', PStr basis)])"

definition build_all_edges_by_type_sql :: "string \<Rightarrow> string \<Rightarrow> query" where
  "build_all_edges_by_type_sql edge_type tenant =
     (''SELECT '' @ RECONCILE_EDGE_COLS @
      '' FROM ssdf.entity_edges FINAL WHERE tenant_id = {tenant:String} AND edge_type = '' @
      ''{etype:String}'',
      [(''tenant'', PStr tenant), (''etype'', PStr edge_type)])"

definition build_topo_flow_sql :: "int \<Rightarrow> string \<Rightarrow> query" where
  "build_topo_flow_sql window_hours tenant =
     (''SELECT toString(source_ip) AS src_ip, toString(destination_ip) AS dst_ip, '' @
      ''sum(network_bytes) AS bytes, count() AS flows, any(rule_name) AS rule_name, '' @
      ''any(observer_ingress_zone) AS ingress_zone, any(observer_egress_zone) AS egress_zone, '' @
      ''any(event_provider) AS provider, toString(min(timestamp)) AS first_seen, '' @
      ''toString(max(timestamp)) AS last_seen FROM ssdf.events WHERE tenant_id = '' @
      ''{tenant:String} AND timestamp >= now() - INTERVAL {window_hours:UInt32} HOUR AND '' @
      ''source_ip IS NOT NULL AND destination_ip IS NOT NULL GROUP BY src_ip, dst_ip'',
      [(''tenant'', PStr tenant), (''window_hours'', PInt window_hours)])"

definition OBS_SQL :: string where
  "OBS_SQL =
      ''SELECT toString(observed_at) AS observed_at, collector, source_device, tenant_id, '' @
      ''layer, observation_type, subj_kind, subj_id, obj_kind, obj_id, attrs, raw FROM (SELECT '' @
      ''* FROM ssdf.topo_observations WHERE tenant_id = {tenant:String} AND observed_at >= '' @
      ''now() - INTERVAL {window_hours:UInt32} HOUR)''"

definition ROLLUP_SQL :: string where
  "ROLLUP_SQL =
      [CHR 0x0A] @ ''SELECT'' @ [CHR 0x0A] @ ''    tenant_id,'' @ [CHR 0x0A] @
      ''    toStartOfHour(timestamp) AS bucket_start,'' @ [CHR 0x0A] @ ''    event_provider AS provider,'' @
      [CHR 0x0A] @ ''    observer_hostname,'' @ [CHR 0x0A] @ ''    rule_name,'' @ [CHR 0x0A] @
      ''    count() AS sessions,'' @ [CHR 0x0A] @ ''    sum(coalesce(network_bytes, 0)) AS bytes'' @
      [CHR 0x0A] @ ''FROM ssdf.events'' @ [CHR 0x0A] @ ''WHERE rule_name != '' @ [CHR 0x27, CHR 0x27] @
      [CHR 0x0A] @ ''  AND timestamp >= {since:DateTime64(3,'UTC')}'' @ [CHR 0x0A] @
      ''  AND timestamp < {until:DateTime64(3,'UTC')}'' @ [CHR 0x0A] @
      ''GROUP BY tenant_id, bucket_start, provider, observer_hostname, rule_name'' @ [CHR 0x0A]"

section \<open>Placeholders\<close>

text \<open>The names of the placeholders \<open>{name:Type}\<close> of a text, in their order.\<close>

fun placeholders :: "string \<Rightarrow> string list" where
  "placeholders [] = []"
| "placeholders (c # cs) =
     (if c = CHR ''{'' then takeWhile (\<lambda>x. x \<noteq> CHR '':'') cs # placeholders cs else placeholders cs)"

text \<open>Every opening brace of the text is followed by the end of its name.\<close>

fun closed_text :: "string \<Rightarrow> bool" where
  "closed_text [] = True"
| "closed_text (c # cs) = (if c = CHR ''{'' then CHR '':'' \<in> set cs \<and> closed_text cs else closed_text cs)"

definition bound_query :: "query \<Rightarrow> bool" where
  "bound_query q \<longleftrightarrow> set (placeholders (fst q)) = set (dkeys (snd q))"

lemma placeholders_append: "closed_text a \<Longrightarrow> placeholders (a @ b) = placeholders a @ placeholders b"
  by (induction a) (auto simp: takeWhile_append1)

lemma closed_append: "closed_text a \<Longrightarrow> closed_text b \<Longrightarrow> closed_text (a @ b)"
  by (induction a) auto

lemma plain_text: "CHR ''{'' \<notin> set s \<Longrightarrow> placeholders s = [] \<and> closed_text s"
  by (induction s) auto

lemma show_int_chars: "c \<in> set (show_int i) \<Longrightarrow> is_digit c \<or> c = CHR ''-''"
  using show_nat_digits by (auto simp: show_int_def list_all_iff split: if_splits)

lemma show_int_plain [simp]: "placeholders (show_int i) = []" "closed_text (show_int i)"
proof -
  have "\<not> is_digit CHR ''{''" by code_simp
  then have "CHR ''{'' \<notin> set (show_int i)" using show_int_chars by fastforce
  from plain_text [OF this] show "placeholders (show_int i) = []" "closed_text (show_int i)" by simp_all
qed

lemma join_placeholders:
  assumes "closed_text sep" and "placeholders sep = []" and "\<forall>x \<in> set xs. closed_text x"
  shows "placeholders (join sep xs) = concat (map placeholders xs) \<and> closed_text (join sep xs)"
  using assms
proof (induction sep xs rule: join.induct)
  case (3 sep x y ys)
  then show ?case by (simp add: placeholders_append closed_append)
qed simp_all

section \<open>Every placeholder is bound\<close>

lemma window_bound:
  "query_window n1 n2 since until = Inr (ps, conds) \<Longrightarrow>
     dkeys ps = [''since'', ''until''] \<and> list_all closed_text conds
     \<and> concat (map placeholders conds) = [''since'', ''until'']"
proof -
  have "closed_text ''timestamp >= parseDateTimeBestEffort({since:String})''"
    "closed_text ''timestamp <= parseDateTimeBestEffort({until:String})''"
    "placeholders ''timestamp >= parseDateTimeBestEffort({since:String})'' = [''since'']"
    "placeholders ''timestamp <= parseDateTimeBestEffort({until:String})'' = [''until'']"
    by code_simp+
  then show "query_window n1 n2 since until = Inr (ps, conds) \<Longrightarrow>
     dkeys ps = [''since'', ''until''] \<and> list_all closed_text conds
     \<and> concat (map placeholders conds) = [''since'', ''until'']"
    by (auto simp: query_window_def split: sum.splits)
qed

text \<open>Parameters and conditions that go together: what the conditions name is what is bound.\<close>

definition matched :: "params \<times> string list \<Rightarrow> bool" where
  "matched acc \<longleftrightarrow> list_all closed_text (snd acc) \<and> set (concat (map placeholders (snd acc))) = fst ` set (fst acc)"

lemma with_filter_matched:
  "matched acc \<Longrightarrow> closed_text text \<Longrightarrow> set (placeholders text) = {name} \<Longrightarrow> matched (with_filter name text v acc)"
  by (auto simp: matched_def with_filter_def keys_dset split: option.splits)

lemma filters_matched:
  "matched acc \<Longrightarrow> (\<forall>(name, text, v) \<in> set fs. closed_text text \<and> set (placeholders text) = {name}) \<Longrightarrow>
     matched (foldl (\<lambda>acc (name, text, v). with_filter name text v acc) acc fs)"
proof (induction fs arbitrary: acc)
  case (Cons p fs)
  obtain name tx v where p: "p = (name, tx, v)" by (cases p)
  have "matched (with_filter name tx v acc)"
    by (rule with_filter_matched) (use Cons.prems p in auto)
  then show ?case using Cons.IH Cons.prems(2) p by simp
qed simp

lemma flow_conditions_matched: "matched acc \<Longrightarrow> matched (flow_conditions f acc)"
  unfolding flow_conditions_def
proof (rule filters_matched)
  have "list_all (\<lambda>(name, text). closed_text text \<and> set (placeholders text) = {name})
     [(''src_ip'', ''source_ip = toIPv4({src_ip:String})''), (''dst_ip'', ''destination_ip = toIPv4({dst_ip:String})''),
      (''dst_port'', ''destination_port = {dst_port:UInt16}''), (''action'', ''event_action = {action:String}''),
      (''outcome'', ''event_outcome = {outcome:String}''), (''provider'', ''event_provider = {provider:String}''),
      (''zone'', ''(observer_ingress_zone = {zone:String} OR observer_egress_zone = {zone:String})'')]"
    by code_simp
  then show "\<forall>(name, text, v) \<in> set [(''src_ip'', ''source_ip = toIPv4({src_ip:String})'', map_option PStr (ff_src_ip f)),
        (''dst_ip'', ''destination_ip = toIPv4({dst_ip:String})'', map_option PStr (ff_dst_ip f)),
        (''dst_port'', ''destination_port = {dst_port:UInt16}'', map_option PInt (ff_dst_port f)),
        (''action'', ''event_action = {action:String}'', map_option PStr (ff_action f)),
        (''outcome'', ''event_outcome = {outcome:String}'', map_option PStr (ff_outcome f)),
        (''provider'', ''event_provider = {provider:String}'', map_option PStr (ff_provider f)),
        (''zone'', ''(observer_ingress_zone = {zone:String} OR observer_egress_zone = {zone:String})'',
           map_option PStr (ff_zone f))]. closed_text text \<and> set (placeholders text) = {name}"
    by (simp only: list.pred_inject list.set ball_simps split_conv simp_thms)
qed

lemma flow_text_placeholders:
  assumes "list_all closed_text conds"
  shows "placeholders (flow_text conds limit) = concat (map placeholders conds)"
proof -
  have c: "closed_text '' AND ''" "placeholders '' AND '' = []"
    "closed_text (''SELECT '' @ join '', '' FLOW_COLUMNS @ '' FROM ssdf.events WHERE '')"
    "placeholders (''SELECT '' @ join '', '' FLOW_COLUMNS @ '' FROM ssdf.events WHERE '') = []"
    "closed_text '' ORDER BY timestamp DESC LIMIT ''" "placeholders '' ORDER BY timestamp DESC LIMIT '' = []"
    by code_simp+
  have j: "placeholders (join '' AND '' conds) = concat (map placeholders conds)" "closed_text (join '' AND '' conds)"
    using join_placeholders [OF c(1,2), of conds] assms by (auto simp: list_all_iff)
  have four: "closed_text a \<Longrightarrow> closed_text b \<Longrightarrow> closed_text d \<Longrightarrow>
      placeholders (a @ b @ d @ e) = placeholders a @ placeholders b @ placeholders d @ placeholders e" for a b d e
    by (simp add: placeholders_append)
  have "flow_text conds limit = (''SELECT '' @ join '', '' FLOW_COLUMNS @ '' FROM ssdf.events WHERE '') @
      join '' AND '' conds @ '' ORDER BY timestamp DESC LIMIT '' @ show_int (clamp limit 1 MAX_LIMIT)"
    unfolding flow_text_def append_assoc ..
  then show ?thesis
    unfolding four [OF c(3) j(2) c(5)] c(4) c(6) j(1)
    by (metis append_Nil append_Nil2 c(4) c(6) four [OF c(3) j(2) c(5)] j(1) show_int_plain(1))
qed

lemma bound_query_number:
  "closed_text a \<Longrightarrow> set (placeholders a) = set (dkeys ps) \<Longrightarrow> bound_query (a @ show_int i, ps)"
  by (simp add: bound_query_def placeholders_append)

lemma flow_query_bound:
  assumes "build_query_flows n1 n2 f = Inr q"
  shows "bound_query q"
proof -
  obtain ps conds where w: "query_window n1 n2 (ff_since f) (ff_until f) = Inr (ps, conds)"
    and q: "q = (flow_text (snd (flow_conditions f (ps, conds))) (ff_limit f), fst (flow_conditions f (ps, conds)))"
    using assms by (auto simp: build_query_flows_def split: sum.splits)
  have "matched (ps, conds)"
    using window_bound [OF w] unfolding matched_def by (metis fst_conv image_set snd_conv)
  then have "matched (flow_conditions f (ps, conds))" by (rule flow_conditions_matched)
  then show ?thesis
    unfolding q bound_query_def matched_def by (simp add: flow_text_placeholders)
qed

lemma top_query_bound:
  assumes "build_top_talkers n1 n2 by_col side since until limit = Inr q"
  shows "bound_query q"
proof -
  define ip_col where "ip_col = (if side = ''src'' then ''source_ip'' else ''destination_ip'')"
  define order_expr where "order_expr = (if by_col = ''bytes'' then ''sum(network_bytes)'' else ''count()'')"
  obtain ps conds where w: "query_window n1 n2 since until = Inr (ps, conds)"
    and q: "q = (top_text ip_col order_expr (conds @ [ip_col @ '' IS NOT NULL'']) limit, ps)"
    using assms by (auto simp: build_top_talkers_def ip_col_def order_expr_def Let_def split: sum.splits if_splits)
  have ip: "ip_col = ''source_ip'' \<or> ip_col = ''destination_ip''" by (simp add: ip_col_def)
  have ord: "order_expr = ''sum(network_bytes)'' \<or> order_expr = ''count()''" by (simp add: order_expr_def)
  have c0: "closed_text '' AND ''" "placeholders '' AND '' = []" by code_simp+
  have c1: "closed_text (''SELECT '' @ ip_col @ '' AS ip, sum(network_bytes) AS bytes, count() AS flows '' @ ''FROM ssdf.events WHERE '')
      \<and> placeholders (''SELECT '' @ ip_col @ '' AS ip, sum(network_bytes) AS bytes, count() AS flows '' @ ''FROM ssdf.events WHERE '') = []
      \<and> closed_text (ip_col @ '' IS NOT NULL'') \<and> placeholders (ip_col @ '' IS NOT NULL'') = []"
    by (rule disjE [OF ip]; simp only: ; code_simp)
  have c2: "closed_text ('' GROUP BY ip ORDER BY '' @ order_expr @ '' DESC LIMIT '')
      \<and> placeholders ('' GROUP BY ip ORDER BY '' @ order_expr @ '' DESC LIMIT '') = []"
    by (rule disjE [OF ord]; simp only: ; code_simp)
  note c = c0 c1 [THEN conjunct1] c1 [THEN conjunct2, THEN conjunct1] c2 [THEN conjunct1] c2 [THEN conjunct2]
    c1 [THEN conjunct2, THEN conjunct2, THEN conjunct1] c1 [THEN conjunct2, THEN conjunct2, THEN conjunct2]
  let ?conds = "conds @ [ip_col @ '' IS NOT NULL'']"
  have wb: "dkeys ps = [''since'', ''until'']" "list_all closed_text conds"
      "concat (map placeholders conds) = [''since'', ''until'']"
    using window_bound [OF w] by blast+
  have "\<forall>x \<in> set ?conds. closed_text x" using wb(2) c(7) by (auto simp: list_all_iff)
  note j = join_placeholders [OF c(1,2) this]
  have four: "closed_text a \<Longrightarrow> closed_text b \<Longrightarrow> closed_text d \<Longrightarrow>
      placeholders (a @ b @ d @ e) = placeholders a @ placeholders b @ placeholders d @ placeholders e" for a b d e
    by (simp add: placeholders_append)
  have t: "fst q = (''SELECT '' @ ip_col @ '' AS ip, sum(network_bytes) AS bytes, count() AS flows '' @ ''FROM ssdf.events WHERE '')
      @ join '' AND '' ?conds @ ('' GROUP BY ip ORDER BY '' @ order_expr @ '' DESC LIMIT '') @ show_int (clamp limit 1 TOP_MAX_LIMIT)"
    unfolding q top_text_def fst_conv append_assoc ..
  have "placeholders (fst q) = placeholders (join '' AND '' ?conds)"
    unfolding t four [OF c(3) conjunct2 [OF j] c(5)] c(4) c(6) by simp
  also have "\<dots> = [''since'', ''until'']"
    using j wb(3) c(8) by simp
  finally show ?thesis using wb(1) unfolding bound_query_def q snd_conv by simp
qed

lemma window_params_keys: "window_params n1 n2 since until = Inr ps \<Longrightarrow> dkeys ps = [''since'', ''until'']"
  by (auto simp: window_params_def split: sum.splits)

lemma rule_usage_bound:
  assumes "build_rule_usage_sql n1 n2 device rule since until = Inr q"
  shows "bound_query q"
proof -
  obtain ps where w: "window_params n1 n2 since until = Inr ps" and q: "q = (RULE_USAGE_SQL, dset (dset ps ''device'' (PStr device)) ''rule'' (PStr rule))"
    using assms by (auto simp: build_rule_usage_sql_def bind_sum_Inr_iff)
  have "dkeys ps = [''since'', ''until'']" by (rule window_params_keys [OF w])
  then have keys: "set (dkeys (snd q)) = {''rule'', ''device'', ''since'', ''until''}"
    by (simp only: q snd_conv set_map keys_dset) (simp flip: set_map)
  have "set (placeholders RULE_USAGE_SQL) = {''rule'', ''device'', ''since'', ''until''}" by code_simp
  then show ?thesis using keys by (simp add: bound_query_def q)
qed

lemma log_coverage_bound:
  assumes "build_device_log_coverage_sql n1 n2 device since until = Inr q"
  shows "bound_query q"
proof -
  obtain ps where w: "window_params n1 n2 since until = Inr ps" and q: "q = (LOG_COVERAGE_SQL, dset ps ''device'' (PStr device))"
    using assms by (auto simp: build_device_log_coverage_sql_def bind_sum_Inr_iff)
  have "dkeys ps = [''since'', ''until'']" by (rule window_params_keys [OF w])
  then have keys: "set (dkeys (snd q)) = {''device'', ''since'', ''until''}"
    by (simp only: q snd_conv set_map keys_dset) (simp flip: set_map)
  have "set (placeholders LOG_COVERAGE_SQL) = {''device'', ''since'', ''until''}" by code_simp
  then show ?thesis using keys by (simp add: bound_query_def q)
qed

lemma metric_queries_bound:
  "metric_timeseries_query n1 n2 tenant metric since until = Inr q \<Longrightarrow> bound_query q"
  "top_series_query n1 tenant metric since limit = Inr q \<Longrightarrow> bound_query q"
  "entity_metric_query n1 n2 tenant surrogate metric since until = Inr q \<Longrightarrow> bound_query q"
  "bound_query (reidentify_query surrogate)"
proof -
  have p: "set (placeholders METRIC_SQL) = set [''tenant'', ''metric'', ''since'', ''until'']"
    "set (placeholders TOP_SERIES_SQL) = set [''tenant'', ''metric'', ''since'', ''limit'']"
    "set (placeholders ENTITY_METRIC_SQL) = set [''tenant'', ''surrogate'', ''metric'', ''since'', ''until'']"
    by code_simp+
  then show "metric_timeseries_query n1 n2 tenant metric since until = Inr q \<Longrightarrow> bound_query q"
    "top_series_query n1 tenant metric since limit = Inr q \<Longrightarrow> bound_query q"
    "entity_metric_query n1 n2 tenant surrogate metric since until = Inr q \<Longrightarrow> bound_query q"
    by (auto simp only: metric_timeseries_query_def top_series_query_def entity_metric_query_def bind_sum_Inr_iff
      bound_query_def fst_conv snd_conv list.map prod.sel sum.inject)
  show "bound_query (reidentify_query surrogate)"
    unfolding bound_query_def reidentify_query_def fst_conv snd_conv list.map by code_simp
qed

lemma graph_queries_bound:
  assumes "schema \<in> {''ssdf'', ''ssdf_public''}"
  shows "bound_query (build_node_match_sql v tenant schema)"
    and "bound_query (build_subgraph_sql since_iso tenant limit schema)"
    and "bound_query (build_nodes_by_id_sql ids tenant schema)"
proof -
  have schema: "schema = ''ssdf'' \<or> schema = ''ssdf_public''" using assms by simp
  have p: "set (placeholders (fst (build_node_match_sql v tenant schema))) = set [''tenant'', ''val'']
      \<and> set (placeholders (fst (build_nodes_by_id_sql ids tenant schema))) = set [''tenant'', ''ids'']
      \<and> set (placeholders (SUBGRAPH_SQL schema)) = set [''tenant'', ''since'']
      \<and> closed_text (SUBGRAPH_SQL schema)"
    unfolding build_node_match_sql_def build_nodes_by_id_sql_def
    by (rule disjE [OF schema]; simp only: fst_conv if_True if_False refl; code_simp)
  then show "bound_query (build_node_match_sql v tenant schema)" and "bound_query (build_nodes_by_id_sql ids tenant schema)"
    unfolding bound_query_def by (simp_all add: build_node_match_sql_def build_nodes_by_id_sql_def)
  show "bound_query (build_subgraph_sql since_iso tenant limit schema)"
    unfolding build_subgraph_sql_def by (rule bound_query_number) (use p in simp_all)
qed

lemma entity_queries_bound:
  "bound_query (build_entity_match_sql v tenant)"
  "bound_query (build_entities_match_sql v tenant)"
  "bound_query (build_comm_edges_sql a b since_iso tenant)"
  "bound_query (build_comm_edges_multi_sql as bs since_iso tenant)"
  "bound_query (build_governed_by_sql ids tenant)"
  "bound_query (build_entities_by_id_sql ids tenant)"
  "bound_query (build_firewall_match_sql names tenant)"
  "bound_query (build_configured_governed_sql ids tenant)"
  "bound_query (build_alerts_for_pair_sql ips since_iso tenant)"
  "bound_query (build_observers_for_ips_sql ips since_iso tenant)"
  "bound_query (build_recent_observer_hostnames_sql since_iso tenant)"
  "bound_query (build_entity_flow_sql hours tenant)"
  "bound_query (build_binding_sql hours tenant)"
  "bound_query (build_assets_by_basis_sql basis tenant)"
  "bound_query (build_all_edges_by_type_sql edge_type tenant)"
  "bound_query (build_topo_flow_sql hours tenant)"
  unfolding bound_query_def build_entity_match_sql_def build_entities_match_sql_def build_comm_edges_sql_def
    build_comm_edges_multi_sql_def build_governed_by_sql_def build_entities_by_id_sql_def build_firewall_match_sql_def
    build_configured_governed_sql_def build_alerts_for_pair_sql_def build_observers_for_ips_sql_def
    build_recent_observer_hostnames_sql_def build_entity_flow_sql_def build_binding_sql_def
    build_assets_by_basis_sql_def build_all_edges_by_type_sql_def build_topo_flow_sql_def fst_conv snd_conv list.map
  by code_simp+

lemma rule_history_bound: "bound_query (build_rule_history_sql device rule limit)"
proof -
  have "closed_text RULE_HISTORY_SQL" "set (placeholders RULE_HISTORY_SQL) = set [''device'', ''rule'']" by code_simp+
  then show ?thesis
    unfolding build_rule_history_sql_def Let_def by (intro bound_query_number) simp_all
qed

section \<open>Texts do not depend on the values\<close>

definition flow_shape :: "flow_filter \<Rightarrow> bool list" where
  "flow_shape f = [ff_src_ip f \<noteq> None, ff_dst_ip f \<noteq> None, ff_dst_port f \<noteq> None, ff_action f \<noteq> None,
     ff_outcome f \<noteq> None, ff_provider f \<noteq> None, ff_zone f \<noteq> None]"

lemma with_filter_snd: "snd (with_filter name tx v acc) = snd acc @ (if v \<noteq> None then [tx] else [])"
  by (simp add: with_filter_def split: option.split)

lemma flow_conditions_shape:
  "flow_shape f = flow_shape g \<Longrightarrow> snd acc = snd acc' \<Longrightarrow> snd (flow_conditions f acc) = snd (flow_conditions g acc')"
  by (simp add: flow_conditions_def with_filter_snd flow_shape_def)

lemma window_conditions:
  "query_window n1 n2 since until = Inr (ps, conds) \<Longrightarrow> query_window n1' n2' since' until' = Inr (ps', conds') \<Longrightarrow> conds = conds'"
  by (auto simp: query_window_def split: sum.splits)

lemma clamp_range: "lo \<le> hi \<Longrightarrow> lo \<le> clamp v lo hi \<and> clamp v lo hi \<le> hi"
  by (simp add: clamp_def)

section \<open>What a public query can name\<close>

fun occurs :: "string \<Rightarrow> string \<Rightarrow> bool" where
  "occurs p [] = (p = [])"
| "occurs p (c # cs) = (if prefix p (c # cs) then True else occurs p cs)"

lemma occurs_chars: "occurs p s \<Longrightarrow> set p \<subseteq> set s"
proof (induction s)
  case (Cons c s)
  then show ?case using set_mono_prefix [of p "c # s"] by (cases "prefix p (c # s)") auto
qed simp

lemma occurs_append:
  assumes "occurs p (a @ b)" and "p \<noteq> []" and "set p \<inter> set b = {}"
  shows "occurs p a"
  using assms(1)
proof (induction a)
  case Nil
  then have "set p \<subseteq> set b" by (simp add: occurs_chars)
  then show ?case using assms(2,3) by (cases p) auto
next
  case (Cons c a)
  show ?case
  proof (cases "prefix p (c # a @ b)")
    case True
    then have "prefix p ((c # a) @ b)" by simp
    then consider "prefix p (c # a)" | us where "p = (c # a) @ us" "prefix us b" "us \<noteq> []"
      unfolding prefix_append by force
    then show ?thesis
    proof cases
      case 2
      then have "set us \<subseteq> set p \<inter> set b" by (auto dest: set_mono_prefix)
      then show ?thesis using 2(3) assms(3) by (cases us) auto
    qed simp
  next
    case False
    then show ?thesis using Cons by simp
  qed
qed

definition SOVEREIGN_ONLY :: "string list" where
  "SOVEREIGN_ONLY = [''name'', ''identifiers'', ''attrs'']"

lemma sovereign_number:
  assumes "w \<in> set SOVEREIGN_ONLY" and "\<not> occurs w a"
  shows "\<not> occurs w (a @ show_int i)"
proof
  assume o: "occurs w (a @ show_int i)"
  have "list_all (\<lambda>c. \<not> is_digit c \<and> c \<noteq> CHR ''-'') (concat SOVEREIGN_ONLY)" by code_simp
  then have "\<forall>c \<in> set w. \<not> is_digit c \<and> c \<noteq> CHR ''-''" using assms(1) by (auto simp: list_all_iff)
  then have "set w \<inter> set (show_int i) = {}" using show_int_chars by fastforce
  moreover have "w \<noteq> []" using assms(1) by (auto simp: SOVEREIGN_ONLY_def)
  ultimately show False using occurs_append [OF o] assms(2) by blast
qed

section \<open>Properties\<close>

text \<open>No query text can be steered by the values it is asked about.  Whatever addresses, ports, actions,
  zones and times a caller passes, the text of the flow query is decided by which filters are present
  and by the limit alone, its limit lies between 1 and 1000, and every value is bound to a placeholder
  of the text: the text names exactly the parameters that are bound.\<close>

theorem flow_query_injection_free:
  assumes "build_query_flows n1 n2 f = Inr q" and "build_query_flows n1' n2' g = Inr q'"
    and "flow_shape f = flow_shape g" and "clamp (ff_limit f) 1 MAX_LIMIT = clamp (ff_limit g) 1 MAX_LIMIT"
  shows "fst q = fst q' \<and> bound_query q
    \<and> (\<exists>l. suffix ('' LIMIT '' @ show_int l) (fst q) \<and> 1 \<le> l \<and> l \<le> 1000)"
proof -
  obtain w w' where w: "query_window n1 n2 (ff_since f) (ff_until f) = Inr w"
      "query_window n1' n2' (ff_since g) (ff_until g) = Inr w'"
    and q: "q = (flow_text (snd (flow_conditions f w)) (ff_limit f), fst (flow_conditions f w))"
      "q' = (flow_text (snd (flow_conditions g w')) (ff_limit g), fst (flow_conditions g w'))"
    using assms(1,2) by (auto simp: build_query_flows_def split: sum.splits)
  have "snd w = snd w'" using window_conditions w by (metis prod.collapse)
  then have "snd (flow_conditions f w) = snd (flow_conditions g w')"
    using assms(3) by (rule flow_conditions_shape [rotated])
  then have "fst q = fst q'" unfolding q flow_text_def using assms(4) by simp
  moreover have "suffix ('' LIMIT '' @ show_int (clamp (ff_limit f) 1 MAX_LIMIT)) (fst q)"
  proof -
    have "'' ORDER BY timestamp DESC LIMIT '' = '' ORDER BY timestamp DESC'' @ '' LIMIT ''" by simp
    then have "fst q = (''SELECT '' @ join '', '' FLOW_COLUMNS @ '' FROM ssdf.events WHERE '' @
       join '' AND '' (snd (flow_conditions f w)) @ '' ORDER BY timestamp DESC'') @ '' LIMIT '' @ show_int (clamp (ff_limit f) 1 MAX_LIMIT)"
      unfolding q flow_text_def fst_conv by (simp only: append_assoc)
    then show ?thesis by (rule suffixI)
  qed
  moreover have "1 \<le> clamp (ff_limit f) 1 MAX_LIMIT \<and> clamp (ff_limit f) 1 MAX_LIMIT \<le> 1000"
    using clamp_range [of 1 MAX_LIMIT] by (simp add: MAX_LIMIT_def)
  ultimately show ?thesis using flow_query_bound [OF assms(1)] by blast
qed

definition sample_filter :: "string \<Rightarrow> int \<Rightarrow> flow_filter" where
  "sample_filter ip n = \<lparr>ff_src_ip = Some ip, ff_dst_ip = None, ff_dst_port = None, ff_action = None,
     ff_outcome = None, ff_provider = None, ff_zone = None, ff_since = Some ''now'', ff_until = None, ff_limit = n\<rparr>"

lemma sample_flow_query: "\<exists>q. build_query_flows (10 ^ 15) (10 ^ 15) (sample_filter ip n) = Inr q"
proof -
  have "rel_match (strip ''now'') = Some None" by code_simp
  then show ?thesis
    by (simp add: build_query_flows_def sample_filter_def query_window_def parse_time_or_def parse_time_def opt_or_def str_or_def)
qed

lemma flow_query_injection_free_witness:
  "\<exists>q q'. build_query_flows (10 ^ 15) (10 ^ 15) (sample_filter ''10.0.0.1'' 5000) = Inr q
     \<and> build_query_flows (10 ^ 15) (10 ^ 15) (sample_filter ''1' OR 1=1'' 1000) = Inr q' \<and> fst q = fst q'"
proof -
  obtain q q' where q: "build_query_flows (10 ^ 15) (10 ^ 15) (sample_filter ''10.0.0.1'' 5000) = Inr q"
    "build_query_flows (10 ^ 15) (10 ^ 15) (sample_filter ''1' OR 1=1'' 1000) = Inr q'"
    using sample_flow_query by blast
  have "fst q = fst q'"
    using flow_query_injection_free [OF q] by (simp add: flow_shape_def sample_filter_def clamp_def MAX_LIMIT_def)
  with q show ?thesis by blast
qed

text \<open>The text of a public inventory query up to its limit, with or without a kind.\<close>

definition public_inventory :: "string list \<Rightarrow> string" where
  "public_inventory clauses = ''SELECT '' @ PUBLIC_NODE_COLUMNS @ '' FROM '' @ ''ssdf_public'' @ ''.graph_nodes FINAL WHERE '' @
     join '' AND '' clauses @ '' ORDER BY last_seen DESC LIMIT ''"

lemma public_inventory_query:
  "build_nodes_by_attr_sql None None tenant limit ''ssdf_public'' =
     Some (public_inventory [''tenant_id = {tenant:String}''] @ show_int limit, [(''tenant'', PStr tenant)])"
  "build_nodes_by_attr_sql None (Some k) tenant limit ''ssdf_public'' =
     Some (public_inventory [''tenant_id = {tenant:String}'', ''kind = {kind:String}''] @ show_int limit,
       [(''tenant'', PStr tenant), (''kind'', PStr k)])"
  unfolding build_nodes_by_attr_sql_def public_inventory_def append_assoc node_columns_def with_filter_def
  by simp_all

lemma public_texts_clean:
  "list_all (\<lambda>w. \<not> occurs w (fst (build_node_match_sql v tenant ''ssdf_public''))) SOVEREIGN_ONLY"
  "list_all (\<lambda>w. \<not> occurs w (fst (build_nodes_by_id_sql ids tenant ''ssdf_public''))) SOVEREIGN_ONLY"
  "list_all (\<lambda>w. \<not> occurs w (SUBGRAPH_SQL ''ssdf_public'')) SOVEREIGN_ONLY"
  "list_all (\<lambda>w. \<not> occurs w (public_inventory [''tenant_id = {tenant:String}''])) SOVEREIGN_ONLY"
  "list_all (\<lambda>w. \<not> occurs w (public_inventory [''tenant_id = {tenant:String}'', ''kind = {kind:String}''])) SOVEREIGN_ONLY"
  unfolding build_node_match_sql_def build_nodes_by_id_sql_def if_True fst_conv if_P [OF refl]
  by code_simp+

lemma public_inventory_bound:
  "closed_text (public_inventory [''tenant_id = {tenant:String}''])"
  "set (placeholders (public_inventory [''tenant_id = {tenant:String}''])) = set [''tenant'']"
  "closed_text (public_inventory [''tenant_id = {tenant:String}'', ''kind = {kind:String}''])"
  "set (placeholders (public_inventory [''tenant_id = {tenant:String}'', ''kind = {kind:String}''])) = set [''tenant'', ''kind'']"
  by code_simp+

text \<open>The queries of the public schema never name the columns that only the sovereign schema has.  Neither
  \<open>name\<close> nor \<open>identifiers\<close> nor \<open>attrs\<close> occurs in the text of a node, subgraph or inventory query built
  for \<open>ssdf_public\<close>, and an inventory query by role is refused.\<close>

theorem public_graph_queries_safe:
  assumes "w \<in> set SOVEREIGN_ONLY"
  shows "\<not> occurs w (fst (build_node_match_sql v tenant ''ssdf_public''))
    \<and> \<not> occurs w (fst (build_nodes_by_id_sql ids tenant ''ssdf_public''))
    \<and> \<not> occurs w (fst (build_subgraph_sql since_iso tenant limit ''ssdf_public''))
    \<and> (case build_nodes_by_attr_sql role kind tenant limit ''ssdf_public'' of
         None \<Rightarrow> role \<noteq> None | Some q \<Rightarrow> role = None \<and> \<not> occurs w (fst q) \<and> bound_query q)"
proof -
  have clean: "\<not> occurs w (fst (build_node_match_sql v tenant ''ssdf_public''))"
    "\<not> occurs w (fst (build_nodes_by_id_sql ids tenant ''ssdf_public''))"
    "\<not> occurs w (SUBGRAPH_SQL ''ssdf_public'')"
    "\<not> occurs w (public_inventory [''tenant_id = {tenant:String}''])"
    "\<not> occurs w (public_inventory [''tenant_id = {tenant:String}'', ''kind = {kind:String}''])"
    using public_texts_clean assms unfolding list_all_iff by blast+
  have sub: "\<not> occurs w (fst (build_subgraph_sql since_iso tenant limit ''ssdf_public''))"
    unfolding build_subgraph_sql_def fst_conv by (rule sovereign_number [OF assms clean(3)])
  have attr: "case build_nodes_by_attr_sql role kind tenant limit ''ssdf_public'' of
      None \<Rightarrow> role \<noteq> None | Some q \<Rightarrow> role = None \<and> \<not> occurs w (fst q) \<and> bound_query q"
  proof (cases role)
    case None
    show ?thesis
      using sovereign_number [OF assms clean(4)] sovereign_number [OF assms clean(5)]
        bound_query_number [OF public_inventory_bound(1), of "[(''tenant'', PStr tenant)]" limit]
        bound_query_number [OF public_inventory_bound(3), of "[(''tenant'', PStr tenant), (''kind'', PStr k)]" limit for k]
      by (cases kind) (simp_all add: None public_inventory_query public_inventory_bound)
  next
    case (Some r)
    then show ?thesis by (simp add: build_nodes_by_attr_sql_def)
  qed
  show ?thesis using clean(1,2) sub attr by blast
qed

lemma public_graph_queries_safe_witness:
  "\<not> occurs ''attrs'' (fst (build_subgraph_sql ''2026-01-01'' ''t'' 5000 ''ssdf_public''))"
  using public_graph_queries_safe [of "''attrs''"] by (simp add: SOVEREIGN_ONLY_def)

text \<open>Every query the resolvers, the stores and the tools build is complete: on both graph schemas and for
  every argument, the placeholders of its text are exactly the names of the parameters that are bound
  beside it.\<close>

theorem every_query_bound:
  assumes "schema \<in> {''ssdf'', ''ssdf_public''}"
  shows "(\<forall>q. build_top_talkers n1 n2 by_col side since until limit = Inr q \<longrightarrow> bound_query q)
    \<and> (\<forall>q. build_rule_usage_sql n1 n2 device rule since until = Inr q \<longrightarrow> bound_query q)
    \<and> (\<forall>q. build_device_log_coverage_sql n1 n2 device since until = Inr q \<longrightarrow> bound_query q)
    \<and> bound_query (build_rule_history_sql device rule limit)
    \<and> (\<forall>q. metric_timeseries_query n1 n2 tenant metric since until = Inr q \<longrightarrow> bound_query q)
    \<and> (\<forall>q. top_series_query n1 tenant metric since limit = Inr q \<longrightarrow> bound_query q)
    \<and> (\<forall>q. entity_metric_query n1 n2 tenant surrogate metric since until = Inr q \<longrightarrow> bound_query q)
    \<and> bound_query (reidentify_query surrogate)
    \<and> bound_query (build_node_match_sql v tenant schema)
    \<and> bound_query (build_subgraph_sql since_iso tenant limit schema)
    \<and> bound_query (build_nodes_by_id_sql ids tenant schema)
    \<and> bound_query (build_entity_match_sql v tenant) \<and> bound_query (build_entities_match_sql v tenant)
    \<and> bound_query (build_comm_edges_sql a b since_iso tenant)
    \<and> bound_query (build_comm_edges_multi_sql as bs since_iso tenant)
    \<and> bound_query (build_governed_by_sql ids tenant) \<and> bound_query (build_entities_by_id_sql ids tenant)
    \<and> bound_query (build_firewall_match_sql names tenant) \<and> bound_query (build_configured_governed_sql ids tenant)
    \<and> bound_query (build_alerts_for_pair_sql ips since_iso tenant)
    \<and> bound_query (build_observers_for_ips_sql ips since_iso tenant)
    \<and> bound_query (build_recent_observer_hostnames_sql since_iso tenant)
    \<and> bound_query (build_entity_flow_sql hours tenant) \<and> bound_query (build_binding_sql hours tenant)
    \<and> bound_query (build_assets_by_basis_sql basis tenant) \<and> bound_query (build_all_edges_by_type_sql edge_type tenant)
    \<and> bound_query (build_topo_flow_sql hours tenant)"
  by (intro conjI allI impI;
      (erule top_query_bound rule_usage_bound log_coverage_bound metric_queries_bound(1-3)
        | rule rule_history_bound metric_queries_bound(4) graph_queries_bound [OF assms] entity_queries_bound))

lemma every_query_bound_witness: "bound_query (build_node_match_sql ''10.0.0.1'' ''t'' ''ssdf_public'')"
  using every_query_bound [of "''ssdf_public''" _ _ _ _ _ _ _ _ _ _ _ _ "''10.0.0.1''"] by simp

end
