(* ===== verification/QueryTools.thy ===== *)
theory QueryTools
  imports Sql
begin

text \<open>
  The guard of the ad hoc query tool (\<open>sql_guard.py\<close>) and the tools over the flow table
  (\<open>tools.py\<close>).  The parser and the printer of the SQL library are parameters: the guard sees a
  statement through the queries it makes of the syntax tree, which are the fields of \<open>stmt\<close>.
\<close>

section \<open>\<open>sql_guard.py\<close>\<close>

definition ALLOWED_DB :: string where "ALLOWED_DB = ''ssdf''"

definition BLOCKED_TABLES :: "string list" where
  "BLOCKED_TABLES = [''audit'', ''pseudonym_map'', ''topo_observations'']"

definition IN_FUNCTIONS :: "string list" where
  "IN_FUNCTIONS = [''in'', ''notin'', ''globalin'', ''globalnotin'', ''nullin'', ''notnullin'',
     ''globalnullin'', ''globalnotnullin'']"

definition TABLE_FUNCTIONS :: "string list" where
  "TABLE_FUNCTIONS = [''url'', ''file'', ''remote'', ''remotesecure'', ''s3'', ''s3cluster'', ''mysql'',
     ''postgresql'', ''jdbc'', ''odbc'', ''hdfs'', ''cluster'', ''merge'', ''input'', ''numbers'',
     ''generaterandom'', ''view'', ''dictionary'']"

text \<open>A limit is an integer literal or any other expression; an \<open>IN\<close> has a bare field or not, and for
  each listed expression whether a column occurs in it; a table is a plain identifier or not.\<close>

datatype limit_expr = LimitInt int | LimitOther

record in_node =
  in_field :: bool
  in_columns :: "bool list"

record table_node =
  tb_plain :: bool
  tb_db :: "string option"
  tb_name :: "string option"

record stmt =
  st_select :: bool
  st_settings :: bool
  st_functions :: "string option list"
  st_anonymous :: "string option list"
  st_ins :: "in_node list"
  st_tables :: "table_node list"
  st_limit :: "limit_expr option"

datatype guard_error =
    Unparsable string
  | NotOneStatement
  | NotSelect
  | HasSettings
  | TableFunction string
  | InTable
  | InFunction string
  | NoTable
  | NotPlainTable
  | OtherDatabase string string
  | BlockedTable string

definition fold_name :: "string option \<Rightarrow> string" where
  "fold_name n = lower (opt_or n [])"

definition check_functions :: "string option list \<Rightarrow> guard_error + unit" where
  "check_functions fs =
     (case List.find (\<lambda>f. fold_name f \<in> set TABLE_FUNCTIONS) fs of
        None \<Rightarrow> Inr () | Some f \<Rightarrow> Inl (TableFunction (fold_name f)))"

definition check_ins :: "in_node list \<Rightarrow> guard_error + unit" where
  "check_ins ns = (if list_ex (\<lambda>n. in_field n \<or> list_ex id (in_columns n)) ns then Inl InTable else Inr ())"

definition check_anonymous :: "string option list \<Rightarrow> guard_error + unit" where
  "check_anonymous fs =
     (case List.find (\<lambda>f. fold_name f \<in> set IN_FUNCTIONS) fs of
        None \<Rightarrow> Inr () | Some f \<Rightarrow> Inl (InFunction (opt_or f [])))"

fun check_tables :: "table_node list \<Rightarrow> guard_error + unit" where
  "check_tables [] = Inr ()"
| "check_tables (t # ts) =
     (if \<not> tb_plain t then Inl NotPlainTable
      else if opt_or (tb_db t) [] \<noteq> ALLOWED_DB
      then Inl (OtherDatabase (opt_or (tb_db t) ''unqualified'') (opt_or (tb_name t) []))
      else if fold_name (tb_name t) \<in> set BLOCKED_TABLES then Inl (BlockedTable (opt_or (tb_name t) []))
      else check_tables ts)"

definition enforce_limit :: "int \<Rightarrow> stmt \<Rightarrow> stmt" where
  "enforce_limit max_limit s =
     (case st_limit s of
        None \<Rightarrow> s\<lparr>st_limit := Some (LimitInt max_limit)\<rparr>
      | Some (LimitInt n) \<Rightarrow> if n > max_limit then s\<lparr>st_limit := Some (LimitInt max_limit)\<rparr> else s
      | Some LimitOther \<Rightarrow> s\<lparr>st_limit := Some (LimitInt max_limit)\<rparr>)"

definition check_stmt :: "stmt \<Rightarrow> guard_error + unit" where
  "check_stmt s =
     (if \<not> st_select s then Inl NotSelect
      else if st_settings s then Inl HasSettings
      else
        bind_sum (check_functions (st_functions s)) (\<lambda>_.
        bind_sum (check_ins (st_ins s)) (\<lambda>_.
        bind_sum (check_anonymous (st_anonymous s)) (\<lambda>_.
        if st_tables s = [] then Inl NoTable else check_tables (st_tables s)))))"

definition guard_sql ::
  "(string \<Rightarrow> string + stmt option list) \<Rightarrow> (stmt \<Rightarrow> string) \<Rightarrow> string \<Rightarrow> int \<Rightarrow> guard_error + string" where
  "guard_sql parse render query max_limit =
     (case parse query of
        Inl exc \<Rightarrow> Inl (Unparsable exc)
      | Inr parsed \<Rightarrow>
          (case map the (filter (\<lambda>s. s \<noteq> None) parsed) of
             [s] \<Rightarrow> bind_sum (check_stmt s) (\<lambda>_. Inr (render (enforce_limit max_limit s)))
           | _ \<Rightarrow> Inl NotOneStatement))"

section \<open>\<open>tools.py\<close>\<close>

type_synonym row = "(string, pyval) dict"

record result =
  rs_columns :: "string list"
  rs_rows :: "row list"
  rs_count :: nat

datatype response =
    Answer "row list" "string list" nat bool
  | Validation string
  | Upstream string \<comment> \<open>with the correlation id\<close>

text \<open>\<open>self._execute\<close> inside \<open>_safe_execute\<close>: the client raises or answers.\<close>

definition safe_execute :: "(query \<Rightarrow> string + result) \<Rightarrow> string \<Rightarrow> query \<Rightarrow> int \<Rightarrow> response" where
  "safe_execute run cid q requested_limit =
     (case run q of
        Inl exc \<Rightarrow> Upstream cid
      | Inr r \<Rightarrow> Answer (rs_rows r) (rs_columns r) (rs_count r) (int (rs_count r) \<ge> requested_limit))"

definition time_detail :: "time_error \<Rightarrow> string + string" where
  "time_detail e =
     (case e of
        TimeParseError v \<Rightarrow> Inr (''unrecognized time expression: '' @ [CHR 0x27] @ v @ [CHR 0x27])
      | OverflowError \<Rightarrow> Inl ''OverflowError'')"

text \<open>The tools catch the errors of the builder that are \<open>ValueError\<close>s; an \<open>OverflowError\<close> escapes
  (\<open>Inl\<close>).  The detail of a time error quotes the rejected text, here one without quotes or escapes.\<close>

definition tool_query_flows ::
  "(query \<Rightarrow> string + result) \<Rightarrow> string \<Rightarrow> int \<Rightarrow> int \<Rightarrow> int \<Rightarrow> flow_filter \<Rightarrow> string + response" where
  "tool_query_flows run cid max_rows n1 n2 f =
     (case build_query_flows n1 n2 f of
        Inl (BuilderError d) \<Rightarrow> Inr (Validation d)
      | Inl (TimeFailure e) \<Rightarrow> bind_sum (time_detail e) (\<lambda>d. Inr (Validation d))
      | Inr q \<Rightarrow> Inr (safe_execute run cid q (min (ff_limit f) max_rows)))"

definition tool_top_talkers ::
  "(query \<Rightarrow> string + result) \<Rightarrow> string \<Rightarrow> int \<Rightarrow> int \<Rightarrow> string \<Rightarrow> string \<Rightarrow> string option \<Rightarrow> string option \<Rightarrow> int
     \<Rightarrow> string + response" where
  "tool_top_talkers run cid n1 n2 by_col side since until limit =
     (case build_top_talkers n1 n2 by_col side since until limit of
        Inl (BuilderError d) \<Rightarrow> Inr (Validation d)
      | Inl (TimeFailure e) \<Rightarrow> bind_sum (time_detail e) (\<lambda>d. Inr (Validation d))
      | Inr q \<Rightarrow> Inr (safe_execute run cid q limit))"

definition guard_detail :: "guard_error \<Rightarrow> string" where
  "guard_detail e =
     (case e of
        Unparsable exc \<Rightarrow> ''could not parse query: '' @ exc
      | NotOneStatement \<Rightarrow> ''exactly one statement is allowed''
      | NotSelect \<Rightarrow> ''only SELECT statements are allowed''
      | HasSettings \<Rightarrow> ''SETTINGS clause is not allowed''
      | TableFunction n \<Rightarrow> ''table function not allowed: '' @ n
      | InTable \<Rightarrow> ''IN must take a subquery or a literal list, not a table name''
      | InFunction n \<Rightarrow> ''function not allowed: '' @ n
      | NoTable \<Rightarrow> ''query must read from an ssdf table''
      | NotPlainTable \<Rightarrow> ''table functions are not allowed''
      | OtherDatabase db n \<Rightarrow> ''only the 'ssdf' database is allowed (got '' @ db @ ''.'' @ n @ '')''
      | BlockedTable n \<Rightarrow> ''table 'ssdf.'' @ n @ [CHR 0x27] @ '' is not queryable via run_sql'')"

definition tool_run_sql ::
  "(string \<Rightarrow> string + stmt option list) \<Rightarrow> (stmt \<Rightarrow> string) \<Rightarrow> (query \<Rightarrow> string + result) \<Rightarrow> string \<Rightarrow> int \<Rightarrow> string \<Rightarrow> response" where
  "tool_run_sql parse render run cid max_rows query =
     (case guard_sql parse render query max_rows of
        Inl e \<Rightarrow> Validation (guard_detail e)
      | Inr sql \<Rightarrow> safe_execute run cid (sql, []) max_rows)"

text \<open>\<open>describe_schema\<close>: six queries; a failing query or a missing column is one upstream error.\<close>

record schema_info =
  sc_columns :: "(pyval \<times> pyval) list"
  sc_actions :: "pyval list"
  sc_outcomes :: "pyval list"
  sc_providers :: "pyval list"
  sc_zones :: "pyval list"
  sc_count :: pyval
  sc_min :: pyval
  sc_max :: pyval

definition field :: "string \<Rightarrow> row \<Rightarrow> string + pyval" where
  "field k r = (case map_of r k of None \<Rightarrow> Inl k | Some v \<Rightarrow> Inr v)"

fun each :: "('a \<Rightarrow> string + 'b) \<Rightarrow> 'a list \<Rightarrow> string + 'b list" where
  "each f [] = Inr []"
| "each f (x # xs) = bind_sum (f x) (\<lambda>y. bind_sum (each f xs) (\<lambda>ys. Inr (y # ys)))"

definition distinct_values :: "(query \<Rightarrow> string + result) \<Rightarrow> string \<Rightarrow> string + pyval list" where
  "distinct_values run col =
     bind_sum (run (''SELECT DISTINCT '' @ col @ '' AS v FROM ssdf.events LIMIT 100'', []))
       (\<lambda>r. each (field ''v'') (rs_rows r))"

definition ZONES_SQL :: string where
  "ZONES_SQL = ''SELECT DISTINCT observer_ingress_zone AS v FROM ssdf.events WHERE v != '' @
     [CHR 0x27, CHR 0x27] @ '' LIMIT 100''"

definition STATS_SQL :: string where
  "STATS_SQL = ''SELECT count() AS c, min(timestamp) AS mn, max(timestamp) AS mx FROM ssdf.events''"

definition describe_body :: "(query \<Rightarrow> string + result) \<Rightarrow> string + schema_info" where
  "describe_body run =
     bind_sum (run (''DESCRIBE ssdf.events'', [])) (\<lambda>cols.
     bind_sum (each (\<lambda>r. bind_sum (field ''name'' r) (\<lambda>n. bind_sum (field ''type'' r) (\<lambda>t. Inr (n, t)))) (rs_rows cols)) (\<lambda>columns.
     bind_sum (distinct_values run ''event_action'') (\<lambda>actions.
     bind_sum (distinct_values run ''event_outcome'') (\<lambda>outcomes.
     bind_sum (distinct_values run ''event_provider'') (\<lambda>providers.
     bind_sum (run (ZONES_SQL, [])) (\<lambda>zr.
     bind_sum (run (STATS_SQL, [])) (\<lambda>sr.
     let stat = (case rs_rows sr of [] \<Rightarrow> [(''c'', PInt 0), (''mn'', PNone), (''mx'', PNone)] | r # rs \<Rightarrow> r) in
     bind_sum (each (field ''v'') (rs_rows zr)) (\<lambda>zones.
     bind_sum (field ''c'' stat) (\<lambda>c.
     bind_sum (field ''mn'' stat) (\<lambda>mn.
     bind_sum (field ''mx'' stat) (\<lambda>mx.
       Inr \<lparr>sc_columns = columns, sc_actions = actions, sc_outcomes = outcomes, sc_providers = providers,
            sc_zones = zones, sc_count = c, sc_min = mn, sc_max = mx\<rparr>)))))))))))"

definition describe_schema :: "(query \<Rightarrow> string + result) \<Rightarrow> string \<Rightarrow> response + schema_info" where
  "describe_schema run cid = (case describe_body run of Inl exc \<Rightarrow> Inl (Upstream cid) | Inr i \<Rightarrow> Inr i)"

section \<open>Properties\<close>

lemma check_functions_ok: "check_functions fs = Inr u \<longleftrightarrow> (\<forall>f \<in> set fs. fold_name f \<notin> set TABLE_FUNCTIONS)"
  by (auto simp: check_functions_def find_None_iff split: option.splits)
    (metis find_None_iff option.distinct(1))

lemma check_anonymous_ok: "check_anonymous fs = Inr u \<longleftrightarrow> (\<forall>f \<in> set fs. fold_name f \<notin> set IN_FUNCTIONS)"
  by (auto simp: check_anonymous_def find_None_iff split: option.splits)
    (metis find_None_iff option.distinct(1))

lemma check_ins_ok: "check_ins ns = Inr u \<longleftrightarrow> (\<forall>n \<in> set ns. \<not> in_field n \<and> True \<notin> set (in_columns n))"
  by (auto simp: check_ins_def list_ex_iff)

definition table_ok :: "table_node \<Rightarrow> bool" where
  "table_ok t \<longleftrightarrow> tb_plain t \<and> tb_db t = Some ALLOWED_DB \<and> fold_name (tb_name t) \<notin> set BLOCKED_TABLES"

lemma check_tables_ok: "check_tables ts = Inr u \<longleftrightarrow> (\<forall>t \<in> set ts. table_ok t)"
proof (induction ts)
  case (Cons t ts)
  have "opt_or (tb_db t) [] = ALLOWED_DB \<longleftrightarrow> tb_db t = Some ALLOWED_DB"
    by (cases "tb_db t") (auto simp: opt_or_def str_or_def ALLOWED_DB_def)
  then show ?case using Cons by (auto simp: table_ok_def)
qed simp

lemma check_stmt_ok:
  "check_stmt s = Inr u \<longleftrightarrow> st_select s \<and> \<not> st_settings s
     \<and> (\<forall>f \<in> set (st_functions s). fold_name f \<notin> set TABLE_FUNCTIONS)
     \<and> (\<forall>n \<in> set (st_ins s). \<not> in_field n \<and> True \<notin> set (in_columns n))
     \<and> (\<forall>f \<in> set (st_anonymous s). fold_name f \<notin> set IN_FUNCTIONS)
     \<and> st_tables s \<noteq> [] \<and> (\<forall>t \<in> set (st_tables s). table_ok t)"
  by (auto simp: check_stmt_def bind_sum_Inr_iff check_functions_ok check_ins_ok check_anonymous_ok check_tables_ok)

lemma enforce_limit_bound: "\<exists>n. st_limit (enforce_limit m s) = Some (LimitInt n) \<and> n \<le> m"
  by (auto simp: enforce_limit_def split: option.splits limit_expr.splits)

lemma enforce_limit_rest: "\<exists>l. enforce_limit m s = s\<lparr>st_limit := l\<rparr>"
  by (cases s) (auto simp: enforce_limit_def split: option.splits limit_expr.splits)

text \<open>C16: The guard lets a query through exactly when it parses to one statement, a \<open>SELECT\<close> without
  settings, that calls no table function and no \<open>IN\<close> function, whose every \<open>IN\<close> is free of bare names,
  and whose tables, at least one, are all plain tables of the database \<open>ssdf\<close> other than the audit log,
  the pseudonym map and the topology observations.  What it lets through is that statement with a
  literal limit of at most the maximum and nothing else changed.\<close>

theorem guard_sql_exact:
  "guard_sql parse render query max_limit = Inr out \<longleftrightarrow>
     (\<exists>parsed s l n. parse query = Inr parsed \<and> filter (\<lambda>s. s \<noteq> None) parsed = [Some s]
       \<and> st_select s \<and> \<not> st_settings s
       \<and> (\<forall>f \<in> set (st_functions s). fold_name f \<notin> set TABLE_FUNCTIONS)
       \<and> (\<forall>f \<in> set (st_anonymous s). fold_name f \<notin> set IN_FUNCTIONS)
       \<and> (\<forall>i \<in> set (st_ins s). \<not> in_field i \<and> True \<notin> set (in_columns i))
       \<and> st_tables s \<noteq> []
       \<and> (\<forall>t \<in> set (st_tables s). tb_plain t \<and> tb_db t = Some ''ssdf''
            \<and> fold_name (tb_name t) \<notin> {''audit'', ''pseudonym_map'', ''topo_observations''})
       \<and> enforce_limit max_limit s = s\<lparr>st_limit := l\<rparr> \<and> l = Some (LimitInt n) \<and> n \<le> max_limit
       \<and> out = render (s\<lparr>st_limit := l\<rparr>))" (is "?L \<longleftrightarrow> ?R")
proof
  assume ?L
  then obtain parsed s u where p: "parse query = Inr parsed" "map the (filter (\<lambda>s. s \<noteq> None) parsed) = [s]"
      "check_stmt s = Inr u" "out = render (enforce_limit max_limit s)"
    by (auto simp: guard_sql_def bind_sum_Inr_iff split: sum.splits list.splits)
  obtain x where x: "filter (\<lambda>s. s \<noteq> None) parsed = [x]" "the x = s"
    using p(2) by (cases "filter (\<lambda>s. s \<noteq> None) parsed") auto
  then have "x \<in> set (filter (\<lambda>s. s \<noteq> None) parsed)" by simp
  then have one: "filter (\<lambda>s. s \<noteq> None) parsed = [Some s]"
    using x by auto
  obtain n l where l: "enforce_limit max_limit s = s\<lparr>st_limit := l\<rparr>" and n: "l = Some (LimitInt n)" "n \<le> max_limit"
    using enforce_limit_bound [of max_limit s] enforce_limit_rest [of max_limit s] by (metis stmt.select_convs(7) stmt.surjective stmt.update_convs(7))
  then show ?R
    using p one unfolding check_stmt_ok table_ok_def ALLOWED_DB_def BLOCKED_TABLES_def by auto
next
  assume ?R
  then obtain parsed s where p: "parse query = Inr parsed" "filter (\<lambda>s. s \<noteq> None) parsed = [Some s]"
      and ok: "check_stmt s = Inr ()" and out: "out = render (enforce_limit max_limit s)"
    unfolding check_stmt_ok table_ok_def ALLOWED_DB_def BLOCKED_TABLES_def by auto
  then show ?L by (simp add: guard_sql_def)
qed

text \<open>The talkers tool does not notice its own truncation.  Its query asks for at most 100 rows, but its
  answer is marked as truncated by comparing with the limit the caller asked for: when that limit is
  above 100, no answer is ever marked, although a full answer of 100 rows has been cut.\<close>

theorem top_talkers_truncation_unmarked:
  assumes "\<And>q r i. run q = Inr r \<Longrightarrow> suffix ('' LIMIT '' @ show_int i) (fst q) \<Longrightarrow> int (rs_count r) \<le> max 0 i"
    and "limit > 100"
    and "tool_top_talkers run cid n1 n2 by_col side since until limit = Inr (Answer rows cols n truncated)"
  shows "\<not> truncated \<and> n \<le> 100"
proof -
  obtain q r where q: "build_top_talkers n1 n2 by_col side since until limit = Inr q" and r: "run q = Inr r"
    and n: "n = rs_count r" "truncated = (int (rs_count r) \<ge> limit)"
    using assms(3) by (auto simp: tool_top_talkers_def safe_execute_def bind_sum_Inr_iff split: sum.splits build_error.splits)
  obtain a b conds where "fst q = top_text a b conds limit"
    using q by (auto simp: build_top_talkers_def Let_def split: sum.splits if_splits)
  moreover have "'' DESC LIMIT '' = '' DESC'' @ '' LIMIT ''" by simp
  ultimately have "fst q = (''SELECT '' @ a @ '' AS ip, sum(network_bytes) AS bytes, count() AS flows '' @
      ''FROM ssdf.events WHERE '' @ join '' AND '' conds @ '' GROUP BY ip ORDER BY '' @ b @ '' DESC'')
      @ '' LIMIT '' @ show_int (clamp limit 1 TOP_MAX_LIMIT)"
    unfolding top_text_def by (simp only: append_assoc)
  then have "suffix ('' LIMIT '' @ show_int (clamp limit 1 TOP_MAX_LIMIT)) (fst q)" by (rule suffixI)
  from assms(1) [OF r this] have "int (rs_count r) \<le> 100"
    using assms(2) by (simp add: clamp_def TOP_MAX_LIMIT_def)
  then show ?thesis using n assms(2) by simp
qed

definition sample_stmt :: stmt where
  "sample_stmt = \<lparr>st_select = True, st_settings = False, st_functions = [Some ''count''], st_anonymous = [],
     st_ins = [], st_tables = [\<lparr>tb_plain = True, tb_db = Some ''ssdf'', tb_name = Some ''events''\<rparr>],
     st_limit = Some (LimitInt 5000)\<rparr>"

definition sample_result :: result where
  "sample_result = \<lparr>rs_columns = [''ip''], rs_rows = [], rs_count = 0\<rparr>"

lemma top_talkers_truncation_unmarked_witness:
  "\<exists>r. tool_top_talkers (\<lambda>q. Inr sample_result) ''c'' (10 ^ 15) (10 ^ 15) ''bytes'' ''src'' (Some ''now'') None 500 = Inr (Answer [] [''ip''] 0 r)
     \<and> \<not> r"
proof -
  have "rel_match (strip ''now'') = Some None" by code_simp
  then have t: "tool_top_talkers (\<lambda>q. Inr sample_result) ''c'' (10 ^ 15) (10 ^ 15) ''bytes'' ''src'' (Some ''now'') None 500
      = Inr (Answer [] [''ip''] 0 False)"
    by (simp add: tool_top_talkers_def build_top_talkers_def query_window_def parse_time_or_def parse_time_def opt_or_def
      str_or_def safe_execute_def sample_result_def)
  show ?thesis
    using top_talkers_truncation_unmarked [OF _ _ t] t by (auto simp: sample_result_def)
qed

lemma guard_sql_exact_witness:
  "guard_sql (\<lambda>q. Inr [Some sample_stmt]) (\<lambda>s. if st_limit s = Some (LimitInt 1000) then ''cut'' else ''open'')
     ''SELECT count() FROM ssdf.events LIMIT 5000'' 1000 = Inr ''cut''"
proof -
  have "fold_name (Some ''count'') \<notin> set TABLE_FUNCTIONS" "fold_name (Some ''events'') \<notin> {''audit'', ''pseudonym_map'', ''topo_observations''}"
    by code_simp+
  then show ?thesis
    unfolding guard_sql_exact
    by (intro exI [of _ "[Some sample_stmt]"] exI [of _ sample_stmt] exI [of _ "Some (LimitInt 1000)"] exI [of _ 1000])
      (simp add: sample_stmt_def enforce_limit_def)
qed

end
