(* ===== verification/GraphTools.thy ===== *)
theory GraphTools
  imports Sql
begin

text \<open>
  The graph store (\<open>graphstore.py\<close>), the topology tools (\<open>topo_tools.py\<close>) and the public snapshot
  (\<open>public_snapshot.py\<close>).  A column the schema does not have reads as the empty value.  The graph
  library's searches are the parameters of \<open>graph_lib\<close>; the digest of the snapshot is \<open>D\<close>.
\<close>

record gnode =
  gn_id :: string
  gn_kind :: string
  gn_name :: string
  gn_identifiers :: attrs
  gn_last :: string
  gn_attrs :: attrs

record gedge =
  ge_id :: string
  ge_src :: string
  ge_dst :: string
  ge_type :: string
  ge_layer :: string
  ge_last :: string
  ge_attrs :: attrs

section \<open>\<open>graphstore.py\<close>\<close>

record graph_reader =
  gr_nodes :: "query \<Rightarrow> string + gnode list"
  gr_edges :: "query \<Rightarrow> string + gedge list"

text \<open>One row per named device, the freshest; unnamed rows pass through after them.\<close>

definition freshest_step :: "(string, gnode) dict \<times> gnode list \<Rightarrow> gnode \<Rightarrow> (string, gnode) dict \<times> gnode list" where
  "freshest_step acc n =
     (if gn_name n = [] then (fst acc, snd acc @ [n])
      else case map_of (fst acc) (gn_name n) of
          None \<Rightarrow> (dset (fst acc) (gn_name n) n, snd acc)
        | Some cur \<Rightarrow> if gn_last n > gn_last cur then (dset (fst acc) (gn_name n) n, snd acc) else acc)"

definition collapse_superseded :: "gnode list \<Rightarrow> gnode list" where
  "collapse_superseded rows = (let (fresh, rest) = foldl freshest_step ([], []) rows in dvalues fresh @ rest)"

definition find_node :: "graph_reader \<Rightarrow> string \<Rightarrow> string \<Rightarrow> string \<Rightarrow> string + gnode option" where
  "find_node c tenant schema identifier =
     bind_sum (gr_nodes c (build_node_match_sql identifier tenant schema))
       (\<lambda>rows. Inr (case rows of [] \<Rightarrow> None | r # rs \<Rightarrow> Some r))"

definition load_subgraph ::
  "graph_reader \<Rightarrow> string \<Rightarrow> string \<Rightarrow> string \<Rightarrow> int \<Rightarrow> string + gnode list \<times> gedge list" where
  "load_subgraph c tenant schema since_iso limit =
     bind_sum (gr_edges c (build_subgraph_sql since_iso tenant limit schema)) (\<lambda>edges.
       let ids = sorted_set (map ge_src edges @ map ge_dst edges) in
       if ids = [] then Inr ([], edges)
       else bind_sum (gr_nodes c (build_nodes_by_id_sql ids tenant schema)) (\<lambda>nodes. Inr (nodes, edges)))"

definition nodes_by_attr ::
  "graph_reader \<Rightarrow> string \<Rightarrow> string \<Rightarrow> string option \<Rightarrow> string option \<Rightarrow> int \<Rightarrow> string + gnode list" where
  "nodes_by_attr c tenant schema role kind limit =
     (case build_nodes_by_attr_sql role kind tenant limit schema of
        None \<Rightarrow> Inl ''ValueError''
      | Some q \<Rightarrow> bind_sum (gr_nodes c q) (\<lambda>rows. Inr (collapse_superseded rows)))"

section \<open>\<open>topo_tools.py\<close>\<close>

definition MAX_NODES :: int where "MAX_NODES = 5000"
definition TOPO_WINDOW_HOURS :: int where "TOPO_WINDOW_HOURS = 24"

text \<open>What the tools use of the graph library, over the ids of the nodes and a list of edges: the edges
  out of a node in the library's order, the ball of a radius, the connected component of a node, and
  a shortest path in the undirected graph, if there is one.\<close>

record graph_lib =
  gl_out :: "gedge list \<Rightarrow> string \<Rightarrow> gedge list"
  gl_ball :: "string list \<Rightarrow> gedge list \<Rightarrow> string \<Rightarrow> int \<Rightarrow> string list"
  gl_component :: "string list \<Rightarrow> gedge list \<Rightarrow> string \<Rightarrow> string list"
  gl_path :: "string list \<Rightarrow> gedge list \<Rightarrow> string \<Rightarrow> string \<Rightarrow> string list option"

definition node_by_id :: "gnode list \<Rightarrow> (string, gnode) dict" where
  "node_by_id ns = foldl (\<lambda>d n. dset d (gn_id n) n) [] ns"

text \<open>The nodes of the library's graph: those loaded and the ends of the edges.\<close>

definition graph_ids :: "gnode list \<Rightarrow> gedge list \<Rightarrow> string list" where
  "graph_ids ns es = remdups (map gn_id ns @ concat (map (\<lambda>e. [ge_src e, ge_dst e]) es))"

definition layer_edges :: "string list \<Rightarrow> gedge list \<Rightarrow> gedge list" where
  "layer_edges layers es = filter (\<lambda>e. ge_layer e \<in> set layers) es"

datatype 'a tool_answer = NotFound string | Found 'a

definition not_found :: "string \<Rightarrow> 'a tool_answer" where
  "not_found identifier = NotFound (''no entity matches '' @ [CHR 0x27] @ identifier @ [CHR 0x27])"

definition get_entity :: "graph_reader \<Rightarrow> string \<Rightarrow> string \<Rightarrow> string \<Rightarrow> string + gnode tool_answer" where
  "get_entity c tenant schema identifier =
     bind_sum (find_node c tenant schema identifier)
       (\<lambda>n. Inr (case n of None \<Rightarrow> not_found identifier | Some x \<Rightarrow> Found x))"

record location =
  lc_entity :: string
  lc_name :: string
  lc_attached :: "string option"
  lc_port :: "string option"
  lc_vlan :: "string option"
  lc_via :: "string option"

definition attr_or_none :: "attrs \<Rightarrow> string \<Rightarrow> string option" where
  "attr_or_none a k = (case map_of a k of None \<Rightarrow> None | Some v \<Rightarrow> if v = [] then None else Some v)"

definition attachment :: "gedge \<Rightarrow> location \<Rightarrow> location" where
  "attachment e l =
     l\<lparr>lc_attached := Some (ge_dst e),
       lc_port := (case attr_or_none (ge_attrs e) ''port'' of Some p \<Rightarrow> Some p | None \<Rightarrow> map_of (ge_attrs e) ''bridge''),
       lc_vlan := map_of (ge_attrs e) ''vlan'',
       lc_via := Some (if attr_or_none (ge_attrs e) ''bridge'' \<noteq> None then ''bridge'' else ''switchport'')\<rparr>"

text \<open>\<open>since\<close> is the text of the start of the window, read from the clock by the caller.\<close>

definition locate :: "graph_lib \<Rightarrow> graph_reader \<Rightarrow> string \<Rightarrow> string \<Rightarrow> string \<Rightarrow> string \<Rightarrow> string + location tool_answer" where
  "locate gl c tenant schema since identifier =
     bind_sum (find_node c tenant schema identifier) (\<lambda>n.
       case n of None \<Rightarrow> Inr (not_found identifier)
       | Some node \<Rightarrow>
           bind_sum (load_subgraph c tenant schema since MAX_NODES) (\<lambda>(nodes, edges).
             let base = \<lparr>lc_entity = gn_id node, lc_name = gn_name node, lc_attached = None, lc_port = None,
                         lc_vlan = None, lc_via = None\<rparr>
             in Inr (Found
                  (if gn_id node \<in> set (graph_ids nodes edges)
                   then case List.find (\<lambda>e. ge_type e = ''attaches_to'') (gl_out gl edges (gn_id node)) of
                          None \<Rightarrow> base | Some e \<Rightarrow> attachment e base
                   else base))))"

definition neighbors ::
  "graph_lib \<Rightarrow> graph_reader \<Rightarrow> string \<Rightarrow> string \<Rightarrow> string \<Rightarrow> string \<Rightarrow> string option \<Rightarrow> int
     \<Rightarrow> string + (gnode list \<times> gedge list) tool_answer" where
  "neighbors gl c tenant schema since identifier layer depth =
     bind_sum (find_node c tenant schema identifier) (\<lambda>n.
       case n of None \<Rightarrow> Inr (not_found identifier)
       | Some node \<Rightarrow>
           bind_sum (load_subgraph c tenant schema since MAX_NODES) (\<lambda>(nodes, edges).
             let ids = graph_ids nodes edges; nid = gn_id node in
             if nid \<notin> set ids then Inr (Found ([node], []))
             else
               (let reach = gl_ball gl ids edges nid depth; by_id = node_by_id nodes
                in Inr (Found
                     (map (\<lambda>i. the (map_of by_id i)) (filter (dhas by_id) reach),
                      filter (\<lambda>e. ge_src e \<in> set reach \<and> ge_dst e \<in> set reach
                                  \<and> (layer = None \<or> layer = Some (ge_layer e)))
                        (concat (map (gl_out gl edges) ids)))))))"

definition path_layers :: "string \<Rightarrow> string list" where
  "path_layers layer =
     (if layer = ''physical'' then [''l1'', ''l2'']
      else if layer = ''flow'' then [''flow'', ''l3'']
      else [''l1'', ''l2'', ''l3'', ''virt'', ''flow''])"

datatype path_answer = NoEntity | NoPath string string | Path string string "string list" nat

definition find_path ::
  "graph_lib \<Rightarrow> graph_reader \<Rightarrow> string \<Rightarrow> string \<Rightarrow> string \<Rightarrow> string \<Rightarrow> string \<Rightarrow> string \<Rightarrow> string + path_answer" where
  "find_path gl c tenant schema since src dst layer =
     bind_sum (find_node c tenant schema src) (\<lambda>sn.
     bind_sum (find_node c tenant schema dst) (\<lambda>dn.
       case (sn, dn) of
         (Some s, Some d) \<Rightarrow>
           bind_sum (load_subgraph c tenant schema since MAX_NODES) (\<lambda>(nodes, edges).
             let ids = graph_ids nodes edges; es = layer_edges (path_layers layer) edges in
             if gn_id s \<notin> set ids \<or> gn_id d \<notin> set ids then Inr (NoPath (gn_id s) (gn_id d))
             else Inr (case gl_path gl ids es (gn_id s) (gn_id d) of
                 None \<Rightarrow> NoPath (gn_id s) (gn_id d)
               | Some p \<Rightarrow> Path (gn_id s) (gn_id d) p (length p - 1)))
       | _ \<Rightarrow> Inr NoEntity))"

record enforcement =
  ep_src :: string
  ep_dst :: string
  ep_firewalls :: "string list"
  ep_rules :: "string list"
  ep_zones :: "string list"

definition pair_rules :: "(string, gnode) dict \<Rightarrow> gedge list \<Rightarrow> string \<Rightarrow> string \<Rightarrow> string list" where
  "pair_rules by_id edges s d =
     concat (map (\<lambda>e.
       map (\<lambda>g. case map_of by_id (ge_dst g) of
              Some r \<Rightarrow> if gn_name r \<noteq> [] then gn_name r else dget_or (ge_attrs g) ''rule_name'' []
            | None \<Rightarrow> dget_or (ge_attrs g) ''rule_name'' [])
         (filter (\<lambda>g. ge_type g = ''governed_by'' \<and> ge_src g = ge_id e) edges))
       (filter (\<lambda>e. ge_type e = ''talked_to'' \<and> {ge_src e, ge_dst e} = {s, d}) edges))"

definition end_zones :: "gedge list \<Rightarrow> string \<Rightarrow> string \<Rightarrow> string list" where
  "end_zones edges s d =
     map (\<lambda>e. dget_or (ge_attrs e) ''zone'' []) (filter (\<lambda>e. ge_type e = ''in_zone'' \<and> ge_src e \<in> {s, d}) edges)"

definition is_firewall :: "gnode \<Rightarrow> bool" where
  "is_firewall n \<longleftrightarrow> gn_kind n = ''device'' \<and> dget_or (gn_attrs n) ''role'' [] = ''firewall''"

text \<open>The firewalls in the layer-2 component of one end.\<close>

definition component_firewalls ::
  "graph_lib \<Rightarrow> (string, gnode) dict \<Rightarrow> string list \<Rightarrow> gedge list \<Rightarrow> string \<Rightarrow> string list" where
  "component_firewalls gl by_id ids edges x =
     (if x \<notin> set ids then []
      else concat (map (\<lambda>i. case map_of by_id i of
               Some n \<Rightarrow> if is_firewall n then [if gn_name n \<noteq> [] then gn_name n else i] else []
             | None \<Rightarrow> [])
           (gl_component gl ids (layer_edges [''l1'', ''l2''] edges) x)))"

definition nonempty_sorted :: "string list \<Rightarrow> string list" where
  "nonempty_sorted xs = sorted_set (filter (\<lambda>x. x \<noteq> []) xs)"

definition enforcement_points ::
  "graph_lib \<Rightarrow> graph_reader \<Rightarrow> string \<Rightarrow> string \<Rightarrow> string \<Rightarrow> string \<Rightarrow> string \<Rightarrow> string + enforcement option" where
  "enforcement_points gl c tenant schema since src dst =
     bind_sum (find_node c tenant schema src) (\<lambda>sn.
     bind_sum (find_node c tenant schema dst) (\<lambda>dn.
       case (sn, dn) of
         (Some sx, Some dx) \<Rightarrow>
           bind_sum (load_subgraph c tenant schema since MAX_NODES) (\<lambda>(nodes, edges).
             let s = gn_id sx; d = gn_id dx; by_id = node_by_id nodes; ids = graph_ids nodes edges
             in Inr (Some \<lparr>ep_src = s, ep_dst = d,
                  ep_firewalls = nonempty_sorted (component_firewalls gl by_id ids edges s @ component_firewalls gl by_id ids edges d),
                  ep_rules = nonempty_sorted (pair_rules by_id edges s d),
                  ep_zones = nonempty_sorted (end_zones edges s d)\<rparr>))
       | _ \<Rightarrow> Inr None))"

record topo_snapshot =
  ts_nodes :: "gnode list"
  ts_edges :: "gedge list"
  ts_truncated :: bool

definition topology_snapshot ::
  "graph_reader \<Rightarrow> string \<Rightarrow> string \<Rightarrow> string \<Rightarrow> string option \<Rightarrow> string option \<Rightarrow> string option \<Rightarrow> string + topo_snapshot" where
  "topology_snapshot c tenant schema since layer role kind =
     bind_sum
       (if role \<noteq> None \<or> kind \<noteq> None then
          bind_sum (nodes_by_attr c tenant schema role kind MAX_NODES) (\<lambda>nodes.
          bind_sum (load_subgraph c tenant schema since MAX_NODES) (\<lambda>(ns, edges).
            let keep = map gn_id nodes
            in Inr (nodes, filter (\<lambda>e. ge_src e \<in> set keep \<and> ge_dst e \<in> set keep) edges)))
        else load_subgraph c tenant schema since MAX_NODES)
       (\<lambda>(nodes, edges).
          Inr \<lparr>ts_nodes = nodes,
               ts_edges = (case layer of None \<Rightarrow> edges
                 | Some l \<Rightarrow> if l = [] then edges else filter (\<lambda>e. ge_layer e = l) edges),
               ts_truncated = (int (length nodes) \<ge> MAX_NODES)\<rparr>)"

section \<open>\<open>public_snapshot.py\<close>\<close>

definition SNAPSHOT_MAX_NODES :: nat where "SNAPSHOT_MAX_NODES = 64"
definition SNAPSHOT_MAX_EDGES :: nat where "SNAPSHOT_MAX_EDGES = 256"

record display_device =
  dd_name :: string
  dd_site :: string
  dd_ollama :: bool

definition ALLOWLIST_DEFAULTS :: "display_device list" where
  "ALLOWLIST_DEFAULTS =
     (let primary = (\<lambda>n. \<lparr>dd_name = n, dd_site = ''primary'', dd_ollama = False\<rparr>) in
      map primary [''vsrx-prod'', ''vsrx-ci'', ''panosvm'', ''Gateway Max'']
      @ [\<lparr>dd_name = ''pve2'', dd_site = ''primary'', dd_ollama = True\<rparr>]
      @ map primary [''pve3'', ''USW Pro HD 24 PoE'', ''USW Pro XG 8 PoE'', ''USW Flex 2.5G 8'', ''USP RPS'',
          ''ap-1'', ''ap-2'', ''ap-3'', ''ap-4''])"

text \<open>\<open>overrides\<close>: the parsed override file, if one is configured.\<close>

definition resolve_allowlist :: "(string, string) dict option \<Rightarrow> display_device list \<Rightarrow> display_device list" where
  "resolve_allowlist overrides defaults =
     (case overrides of None \<Rightarrow> defaults
      | Some renames \<Rightarrow> map (\<lambda>d. d\<lparr>dd_name := dget_or renames (dd_name d) (dd_name d)\<rparr>) defaults)"

definition by_name :: "display_device list \<Rightarrow> (string, display_device) dict" where
  "by_name ds = foldl (\<lambda>m d. dset m (dd_name d) d) [] ds"

definition within_window :: "string \<Rightarrow> pydt \<Rightarrow> real \<Rightarrow> bool" where
  "within_window last_seen now hours =
     (if last_seen = [] then False
      else case fromisoformat (replace_Z last_seen) of
          None \<Rightarrow> False
        | Some seen \<Rightarrow> of_int (as_utc now - as_utc seen) / 1000000 \<le> hours * 3600)"

definition snapshot_step :: "(string, display_device) dict \<Rightarrow> (string, gnode) dict \<Rightarrow> gnode \<Rightarrow> (string, gnode) dict" where
  "snapshot_step allow d n =
     (if gn_kind n \<noteq> ''device'' \<or> \<not> dhas allow (gn_name n) then d
      else case map_of d (gn_name n) of
          None \<Rightarrow> dset d (gn_name n) n
        | Some cur \<Rightarrow> if gn_last n > gn_last cur then dset d (gn_name n) n else d)"

definition selected_nodes :: "(string, display_device) dict \<Rightarrow> gnode list \<Rightarrow> gnode list" where
  "selected_nodes allow ns = dvalues (foldl (snapshot_step allow) [] ns)"

definition ordered_nodes :: "(string \<Rightarrow> string) \<Rightarrow> string \<Rightarrow> (string, display_device) dict \<Rightarrow> gnode list \<Rightarrow> gnode list" where
  "ordered_nodes D salt allow ns = sort_key (\<lambda>n. D (salt @ gn_name n)) (selected_nodes allow ns)"

record public_node =
  pn_id :: string
  pn_reachable :: bool
  pn_ollama :: bool
  pn_site :: string

record public_edge =
  pe_source :: string
  pe_target :: string
  pe_remote :: bool
  pe_recent :: bool

definition opaque_id :: "nat \<Rightarrow> string" where
  "opaque_id i = CHR ''n'' # show_nat i"

definition opaque_ids :: "gnode list \<Rightarrow> (string, string) dict" where
  "opaque_ids ordered =
     foldl (\<lambda>d (i, n). dset d (gn_id n) (opaque_id i)) [] (zip [1 ..< length ordered + 1] ordered)"

definition public_nodes ::
  "(string, display_device) dict \<Rightarrow> pydt \<Rightarrow> real \<Rightarrow> gnode list \<Rightarrow> public_node list" where
  "public_nodes allow now hours ordered =
     map (\<lambda>(i, n). \<lparr>pn_id = opaque_id i, pn_reachable = within_window (gn_last n) now hours,
                     pn_ollama = dd_ollama (the (map_of allow (gn_name n))),
                     pn_site = dd_site (the (map_of allow (gn_name n)))\<rparr>)
       (zip [1 ..< length ordered + 1] ordered)"

text \<open>The device of the first node with an id.\<close>

definition device_of :: "(string, display_device) dict \<Rightarrow> gnode list \<Rightarrow> string \<Rightarrow> display_device option" where
  "device_of allow ordered i =
     (case List.find (\<lambda>n. gn_id n = i) ordered of None \<Rightarrow> None | Some n \<Rightarrow> map_of allow (gn_name n))"

record edge_state =
  es_out :: "public_edge list"
  es_seen :: "(string \<times> string) list"
  es_truncated :: bool

definition sorted_pair :: "string \<Rightarrow> string \<Rightarrow> string \<times> string" where
  "sorted_pair a b = (if b < a then (b, a) else (a, b))"

definition is_remote :: "display_device option \<Rightarrow> bool" where
  "is_remote d = (case d of None \<Rightarrow> False | Some x \<Rightarrow> dd_site x = ''remote'')"

fun public_edges ::
  "(string, display_device) dict \<Rightarrow> pydt \<Rightarrow> real \<Rightarrow> gnode list \<Rightarrow> (string, string) dict \<Rightarrow> gedge list \<Rightarrow> edge_state \<Rightarrow> edge_state" where
  "public_edges allow now hours ordered opaque [] st = st"
| "public_edges allow now hours ordered opaque (e # es) st =
     (case (map_of opaque (ge_src e), map_of opaque (ge_dst e)) of
        (Some src, Some dst) \<Rightarrow>
          if src = dst \<or> sorted_pair src dst \<in> set (es_seen st) then public_edges allow now hours ordered opaque es st
          else if length (es_out st) \<ge> SNAPSHOT_MAX_EDGES then st\<lparr>es_truncated := True\<rparr>
          else public_edges allow now hours ordered opaque es
                 (st\<lparr>es_seen := sorted_pair src dst # es_seen st,
                     es_out := es_out st @ [\<lparr>pe_source = src, pe_target = dst,
                       pe_remote = (is_remote (device_of allow ordered (ge_src e)) \<or> is_remote (device_of allow ordered (ge_dst e))),
                       pe_recent = within_window (ge_last e) now hours\<rparr>]\<rparr>)
      | _ \<Rightarrow> public_edges allow now hours ordered opaque es st)"

record snapshot =
  sn_generated :: string
  sn_nodes :: "public_node list"
  sn_edges :: "public_edge list"
  sn_truncated :: bool

definition build_snapshot ::
  "(string \<Rightarrow> string) \<Rightarrow> display_device list \<Rightarrow> gnode list \<Rightarrow> gedge list \<Rightarrow> pydt \<Rightarrow> string \<Rightarrow> real \<Rightarrow> real \<Rightarrow> snapshot" where
  "build_snapshot D allowlist ns es now salt reach_hours activity_hours =
     (let allow = by_name allowlist;
          all_nodes = ordered_nodes D salt allow ns;
          ordered = take SNAPSHOT_MAX_NODES all_nodes;
          st = public_edges allow now activity_hours ordered (opaque_ids ordered) es
                 \<lparr>es_out = [], es_seen = [], es_truncated = False\<rparr>
      in \<lparr>sn_generated = isoformat_ms now, sn_nodes = public_nodes allow now reach_hours ordered,
          sn_edges = es_out st, sn_truncated = (length all_nodes > SNAPSHOT_MAX_NODES \<or> es_truncated st)\<rparr>)"

definition lab_topology_snapshot ::
  "(string \<Rightarrow> string) \<Rightarrow> display_device list \<Rightarrow> graph_reader \<Rightarrow> string \<Rightarrow> string \<Rightarrow> real \<Rightarrow> int \<Rightarrow> string \<Rightarrow> string + snapshot" where
  "lab_topology_snapshot D allowlist c tenant schema activity now salt =
     bind_sum (nodes_by_attr c tenant schema None (Some ''device'') 5000) (\<lambda>nodes.
     bind_sum (load_subgraph c tenant schema (isoformat_ms (utc_dt (now - round (activity * 3600000000)))) 5000) (\<lambda>(ns, edges).
       Inr (build_snapshot D allowlist nodes edges (utc_dt now) salt 1 activity)))"

section \<open>The shape of a snapshot\<close>

lemma foldl_dset_values:
  "map_of (foldl (\<lambda>d x. dset d (k x) (v x)) d xs) y = Some w \<Longrightarrow> map_of d y = Some w \<or> w \<in> v ` set xs"
proof (induction xs arbitrary: d)
  case (Cons x xs)
  from Cons.IH [of "dset d (k x) (v x)"] Cons.prems show ?case by (auto split: if_splits)
qed simp

lemma opaque_ids_values:
  assumes "map_of (opaque_ids ordered) y = Some w"
  shows "w \<in> set (map opaque_id [1 ..< length ordered + 1])"
proof -
  have "opaque_ids ordered = foldl (\<lambda>d x. dset d (gn_id (snd x)) (opaque_id (fst x))) [] (zip [1 ..< length ordered + 1] ordered)"
    unfolding opaque_ids_def case_prod_beta ..
  note foldl_dset_values [OF assms [unfolded this]]
  then have "w \<in> (\<lambda>x. opaque_id (fst x)) ` set (zip [1 ..< length ordered + 1] ordered)" by simp
  then show ?thesis by (auto dest: set_zip_leftD)
qed

definition edges_ok :: "string set \<Rightarrow> edge_state \<Rightarrow> bool" where
  "edges_ok ids st \<longleftrightarrow>
     length (es_out st) \<le> SNAPSHOT_MAX_EDGES
     \<and> (\<forall>e \<in> set (es_out st). pe_source e \<in> ids \<and> pe_target e \<in> ids \<and> pe_source e \<noteq> pe_target e)
     \<and> distinct (map (\<lambda>e. sorted_pair (pe_source e) (pe_target e)) (es_out st))
     \<and> set (es_seen st) = (\<lambda>e. sorted_pair (pe_source e) (pe_target e)) ` set (es_out st)"

lemma public_edges_ok:
  assumes "\<And>y w. map_of opaque y = Some w \<Longrightarrow> w \<in> ids" and "edges_ok ids st"
  shows "edges_ok ids (public_edges allow now hours ordered opaque es st)"
  using assms(2)
proof (induction es arbitrary: st)
  case (Cons e es)
  show ?case
  proof (cases "map_of opaque (ge_src e)"; cases "map_of opaque (ge_dst e)")
    fix src dst assume s: "map_of opaque (ge_src e) = Some src" and d: "map_of opaque (ge_dst e) = Some dst"
    show ?case
    proof (cases "src = dst \<or> sorted_pair src dst \<in> set (es_seen st)")
      case True
      then show ?thesis using Cons s d by simp
    next
      case new: False
      show ?thesis
      proof (cases "length (es_out st) \<ge> SNAPSHOT_MAX_EDGES")
        case True
        then show ?thesis using Cons.prems new s d by (simp add: edges_ok_def)
      next
        case False
        let ?st = "st\<lparr>es_seen := sorted_pair src dst # es_seen st,
            es_out := es_out st @ [\<lparr>pe_source = src, pe_target = dst,
              pe_remote = (is_remote (device_of allow ordered (ge_src e)) \<or> is_remote (device_of allow ordered (ge_dst e))),
              pe_recent = within_window (ge_last e) now hours\<rparr>]\<rparr>"
        have "edges_ok ids ?st"
          using Cons.prems new False assms(1) [OF s] assms(1) [OF d] by (auto simp: edges_ok_def)
        from Cons.IH [OF this] show ?thesis using new s d False by simp
      qed
    qed
  qed (use Cons in simp_all)
qed simp

lemma by_name_mem: "map_of (by_name ds) n = Some d \<Longrightarrow> d \<in> set ds \<and> dd_name d = n"
proof -
  have "map_of (foldl (\<lambda>m d. dset m (dd_name d) d) m ds) n = Some d \<Longrightarrow> map_of m n = Some d \<or> d \<in> set ds \<and> dd_name d = n" for m
  proof (induction ds arbitrary: m)
    case (Cons x xs)
    from Cons.IH [of "dset m (dd_name x) x"] Cons.prems show ?case by (auto split: if_splits)
  qed simp
  from this [of "[]"] show "map_of (by_name ds) n = Some d \<Longrightarrow> d \<in> set ds \<and> dd_name d = n"
    by (simp add: by_name_def)
qed

definition chosen_ok :: "(string, display_device) dict \<Rightarrow> (string, gnode) dict \<Rightarrow> bool" where
  "chosen_ok allow d \<longleftrightarrow> dict_ok d \<and> (\<forall>(k, n) \<in> set d. gn_name n = k \<and> dhas allow k)"

lemma snapshot_step_ok: "chosen_ok allow d \<Longrightarrow> chosen_ok allow (snapshot_step allow d n)"
  using set_dset_subset [of "gn_name n" n d]
  by (fastforce simp: snapshot_step_def chosen_ok_def split: option.splits)

lemma selected_ok:
  "distinct (map gn_name (selected_nodes allow ns)) \<and> (\<forall>n \<in> set (selected_nodes allow ns). dhas allow (gn_name n))"
proof -
  have fold: "chosen_ok allow d \<Longrightarrow> chosen_ok allow (foldl (snapshot_step allow) d ns)" for d
    by (induction ns arbitrary: d) (simp_all add: snapshot_step_ok)
  define d where "d = foldl (snapshot_step allow) [] ns"
  have ok: "chosen_ok allow d" unfolding d_def by (rule fold) (simp add: chosen_ok_def)
  then have "map gn_name (dvalues d) = dkeys d" by (auto simp: chosen_ok_def)
  moreover have "distinct (dkeys d)" using ok by (simp add: chosen_ok_def dict_ok_def)
  ultimately have "distinct (map gn_name (dvalues d))" by (simp only:)
  then show ?thesis
    using ok unfolding selected_nodes_def d_def [symmetric] by (auto simp: chosen_ok_def)
qed

text \<open>The public snapshot has the promised shape on every graph.  It shows at most 64 nodes and 256 edges;
  its node ids are \<open>n1\<close>, \<open>n2\<close>, \<dots> in order; every node stands for another allowlisted device and carries
  the site and the inference flag the allowlist declares for it; every edge joins two different shown
  nodes; and no two edges join the same pair.\<close>

theorem snapshot_shape:
  fixes D allowlist ns es now salt reach_hours activity_hours
  defines "s \<equiv> build_snapshot D allowlist ns es now salt reach_hours activity_hours"
  shows "length (sn_nodes s) \<le> 64 \<and> length (sn_edges s) \<le> 256
    \<and> map pn_id (sn_nodes s) = map opaque_id [1 ..< length (sn_nodes s) + 1]
    \<and> (\<exists>ds. length ds = length (sn_nodes s) \<and> distinct (map dd_name ds) \<and> set ds \<subseteq> set allowlist
         \<and> map pn_site (sn_nodes s) = map dd_site ds \<and> map pn_ollama (sn_nodes s) = map dd_ollama ds)
    \<and> (\<forall>e \<in> set (sn_edges s). pe_source e \<in> pn_id ` set (sn_nodes s) \<and> pe_target e \<in> pn_id ` set (sn_nodes s)
         \<and> pe_source e \<noteq> pe_target e)
    \<and> distinct (map (\<lambda>e. sorted_pair (pe_source e) (pe_target e)) (sn_edges s))"
proof -
  let ?allow = "by_name allowlist"
  define ordered where "ordered = take SNAPSHOT_MAX_NODES (ordered_nodes D salt ?allow ns)"
  define st where "st = public_edges ?allow now activity_hours ordered (opaque_ids ordered) es
      \<lparr>es_out = [], es_seen = [], es_truncated = False\<rparr>"
  have s: "sn_nodes s = public_nodes ?allow now reach_hours ordered" "sn_edges s = es_out st"
    by (simp_all add: s_def build_snapshot_def Let_def ordered_def st_def)
  have len: "length (sn_nodes s) = length ordered" unfolding s public_nodes_def length_map length_zip length_upt by simp
  have ids: "map pn_id (sn_nodes s) = map opaque_id [1 ..< length ordered + 1]"
  proof -
    have fst: "map fst (zip [1 ..< length ordered + 1] ordered) = [1 ..< length ordered + 1]"
      by (rule map_fst_zip) (simp del: upt_Suc)
    have "map pn_id (sn_nodes s) = map opaque_id (map fst (zip [1 ..< length ordered + 1] ordered))"
      unfolding s public_nodes_def map_map by (rule map_cong [OF refl]) auto
    then show ?thesis unfolding fst .
  qed
  have "edges_ok (set (map opaque_id [1 ..< length ordered + 1])) st"
    unfolding st_def by (rule public_edges_ok [OF opaque_ids_values]) (auto simp: edges_ok_def)
  then have edges: "length (sn_edges s) \<le> 256"
      "\<forall>e \<in> set (sn_edges s). pe_source e \<in> pn_id ` set (sn_nodes s) \<and> pe_target e \<in> pn_id ` set (sn_nodes s)
         \<and> pe_source e \<noteq> pe_target e"
      "distinct (map (\<lambda>e. sorted_pair (pe_source e) (pe_target e)) (sn_edges s))"
    unfolding edges_ok_def s(2) ids [symmetric] set_map SNAPSHOT_MAX_EDGES_def by blast+
  let ?ds = "map (\<lambda>n. the (map_of ?allow (gn_name n))) ordered"
  have sel: "distinct (map gn_name ordered)" "\<forall>n \<in> set ordered. dhas ?allow (gn_name n)"
  proof -
    let ?all = "ordered_nodes D salt ?allow ns"
    have "distinct (map gn_name ?all)" "\<forall>n \<in> set ?all. dhas ?allow (gn_name n)"
      using selected_ok [of ?allow ns] unfolding ordered_nodes_def by (simp_all add: distinct_map)
    then show "distinct (map gn_name ordered)" "\<forall>n \<in> set ordered. dhas ?allow (gn_name n)"
      unfolding ordered_def by (auto simp: take_map [symmetric] dest: in_set_takeD)
  qed
  have dev: "the (map_of ?allow (gn_name n)) \<in> set allowlist \<and> dd_name (the (map_of ?allow (gn_name n))) = gn_name n"
    if "n \<in> set ordered" for n
    using sel(2) that by_name_mem [of allowlist "gn_name n"] by (auto simp: dhas_def)
  have "map dd_name ?ds = map gn_name ordered" using dev by simp
  then have "distinct (map dd_name ?ds)" using sel(1) by (simp only:)
  moreover have "set ?ds \<subseteq> set allowlist" using dev by auto
  moreover have "map pn_site (sn_nodes s) = map dd_site ?ds" "map pn_ollama (sn_nodes s) = map dd_ollama ?ds"
  proof -
    have snd: "map snd (zip [1 ..< length ordered + 1] ordered) = ordered"
      by (rule map_snd_zip) (simp del: upt_Suc)
    have "map pn_site (sn_nodes s) = map (\<lambda>n. dd_site (the (map_of ?allow (gn_name n)))) (map snd (zip [1 ..< length ordered + 1] ordered))"
      "map pn_ollama (sn_nodes s) = map (\<lambda>n. dd_ollama (the (map_of ?allow (gn_name n)))) (map snd (zip [1 ..< length ordered + 1] ordered))"
      unfolding s public_nodes_def map_map by (rule map_cong [OF refl]; auto)+
    then show "map pn_site (sn_nodes s) = map dd_site ?ds" "map pn_ollama (sn_nodes s) = map dd_ollama ?ds"
      unfolding snd by simp_all
  qed
  moreover have "length ?ds = length (sn_nodes s)" using len by simp
  ultimately have "\<exists>ds. length ds = length (sn_nodes s) \<and> distinct (map dd_name ds) \<and> set ds \<subseteq> set allowlist
      \<and> map pn_site (sn_nodes s) = map dd_site ds \<and> map pn_ollama (sn_nodes s) = map dd_ollama ds"
    by blast
  moreover have "length (sn_nodes s) \<le> 64" unfolding len ordered_def SNAPSHOT_MAX_NODES_def by simp
  ultimately show ?thesis using edges ids len by simp
qed

definition sample_device :: "string \<Rightarrow> string \<Rightarrow> gnode" where
  "sample_device i n = \<lparr>gn_id = i, gn_kind = ''device'', gn_name = n, gn_identifiers = [], gn_last = ''2026-01-01'',
     gn_attrs = []\<rparr>"

lemma snapshot_shape_witness:
  "length (sn_nodes (build_snapshot id ALLOWLIST_DEFAULTS [sample_device ''a'' ''pve2'', sample_device ''b'' ''attic''] []
     (utc_dt 0) ''s'' 1 24)) \<le> 64"
  by (rule conjunct1 [OF snapshot_shape])

section \<open>The snapshot does not depend on what is hidden\<close>

definition rename_device :: "(string \<Rightarrow> string) \<Rightarrow> display_device \<Rightarrow> display_device" where
  "rename_device f d = d\<lparr>dd_name := f (dd_name d)\<rparr>"

lemma update_map_keys:
  "inj f \<Longrightarrow> AList.update (f k) (h v) (map (\<lambda>(k, v). (f k, h v)) d) = map (\<lambda>(k, v). (f k, h v)) (AList.update k v d)"
  by (induction d) (auto dest: injD)

lemma map_of_map_keys: "inj f \<Longrightarrow> map_of (map (\<lambda>(k, v). (f k, h v)) d) (f k) = map_option h (map_of d k)"
  by (induction d) (auto dest: injD)

lemma by_name_rename:
  assumes "inj f"
  shows "by_name (map (rename_device f) ds) = map (\<lambda>(k, d). (f k, rename_device f d)) (by_name ds)"
proof -
  have "foldl (\<lambda>m d. dset m (dd_name d) d) (map (\<lambda>(k, d). (f k, rename_device f d)) m) (map (rename_device f) ds)
      = map (\<lambda>(k, d). (f k, rename_device f d)) (foldl (\<lambda>m d. dset m (dd_name d) d) m ds)" for m
  proof (induction ds arbitrary: m)
    case (Cons d ds)
    have "dd_name (rename_device f d) = f (dd_name d)" by (simp add: rename_device_def)
    then show ?case
      using Cons.IH [of "dset m (dd_name d) d"] update_map_keys [OF assms, of "dd_name d" "rename_device f" d m] by simp
  qed simp
  from this [of "[]"] show ?thesis by (simp add: by_name_def)
qed

lemma insort_key_map: "insort_key k (h x) (map h xs) = map h (insort_key (\<lambda>y. k (h y)) x xs)"
  by (induction xs) simp_all

lemma sort_key_map: "sort_key k (map h xs) = map h (sort_key (\<lambda>y. k (h y)) xs)"
  by (induction xs) (simp_all add: insort_key_map)

text \<open>A change of hidden data: names and ids renamed without collisions, everything the snapshot must not
  show changed at will.\<close>

definition disguises :: "(string \<Rightarrow> string) \<Rightarrow> (string \<Rightarrow> string) \<Rightarrow> (gnode \<Rightarrow> gnode) \<Rightarrow> (gedge \<Rightarrow> gedge) \<Rightarrow> bool" where
  "disguises f g \<phi> \<psi> \<longleftrightarrow> inj f \<and> inj g
     \<and> (\<forall>n. gn_kind (\<phi> n) = gn_kind n \<and> gn_last (\<phi> n) = gn_last n \<and> gn_name (\<phi> n) = f (gn_name n) \<and> gn_id (\<phi> n) = g (gn_id n))
     \<and> (\<forall>e. ge_src (\<psi> e) = g (ge_src e) \<and> ge_dst (\<psi> e) = g (ge_dst e) \<and> ge_last (\<psi> e) = ge_last e)"

lemma selected_disguised:
  assumes "disguises f g \<phi> \<psi>"
  shows "selected_nodes (by_name (map (rename_device f) ds)) (map \<phi> ns) = map \<phi> (selected_nodes (by_name ds) ns)"
proof -
  let ?allow = "by_name (map (rename_device f) ds)"
  have inj: "inj f" and \<phi>: "\<And>n. gn_kind (\<phi> n) = gn_kind n" "\<And>n. gn_last (\<phi> n) = gn_last n" "\<And>n. gn_name (\<phi> n) = f (gn_name n)"
    using assms by (simp_all add: disguises_def)
  have has: "dhas ?allow (f k) = dhas (by_name ds) k" for k
    by (simp add: dhas_def by_name_rename [OF inj] map_of_map_keys [OF inj])
  have step: "snapshot_step ?allow (map (\<lambda>(k, n). (f k, \<phi> n)) d) (\<phi> n) = map (\<lambda>(k, n). (f k, \<phi> n)) (snapshot_step (by_name ds) d n)" for d n
    by (cases "map_of d (gn_name n)") (simp_all add: snapshot_step_def \<phi> has map_of_map_keys [OF inj] update_map_keys [OF inj])
  have "foldl (snapshot_step ?allow) (map (\<lambda>(k, n). (f k, \<phi> n)) d) (map \<phi> ns)
      = map (\<lambda>(k, n). (f k, \<phi> n)) (foldl (snapshot_step (by_name ds)) d ns)" for d
    by (induction ns arbitrary: d) (simp_all add: step)
  from this [of "[]"] show ?thesis
    by (simp add: selected_nodes_def comp_def case_prod_beta)
qed

lemma opaque_ids_disguised:
  assumes "disguises f g \<phi> \<psi>"
  shows "opaque_ids (map \<phi> xs) = map (\<lambda>(k, v). (g k, v)) (opaque_ids xs)"
proof -
  have inj: "inj g" and \<phi>: "\<And>n. gn_id (\<phi> n) = g (gn_id n)" using assms by (simp_all add: disguises_def)
  have fold: "foldl (\<lambda>d (i, n). dset d (gn_id n) (opaque_id i)) (map (\<lambda>(k, v). (g k, v)) d) (zip is (map \<phi> xs))
      = map (\<lambda>(k, v). (g k, v)) (foldl (\<lambda>d (i, n). dset d (gn_id n) (opaque_id i)) d (zip is xs))" for d "is"
  proof (induction xs arbitrary: d "is")
    case (Cons x xs)
    then show ?case
      using update_map_keys [OF inj, of "gn_id x" "\<lambda>v :: string. v"] by (cases "is") (simp_all add: \<phi>)
  qed simp
  show ?thesis using fold [of "[]"] by (simp add: opaque_ids_def)
qed

lemma find_map_id:
  assumes "inj g" and "\<And>n. gn_id (\<phi> n) = g (gn_id n)"
  shows "List.find (\<lambda>n. gn_id n = g i) (map \<phi> xs) = map_option \<phi> (List.find (\<lambda>n. gn_id n = i) xs)"
  using assms by (induction xs) (auto dest: injD)

lemma remote_disguised:
  assumes "disguises f g \<phi> \<psi>"
  shows "is_remote (device_of (by_name (map (rename_device f) ds)) (map \<phi> xs) (g i)) = is_remote (device_of (by_name ds) xs i)"
proof -
  have inj: "inj f" "inj g" and \<phi>: "\<And>n. gn_id (\<phi> n) = g (gn_id n)" "\<And>n. gn_name (\<phi> n) = f (gn_name n)"
    using assms by (simp_all add: disguises_def)
  show ?thesis
    using find_map_id [OF inj(2) \<phi>(1), of i xs]
    by (auto simp: device_of_def by_name_rename [OF inj(1)] map_of_map_keys [OF inj(1)] \<phi>(2) is_remote_def rename_device_def
      split: option.splits)
qed

lemma public_edges_disguised:
  assumes "disguises f g \<phi> \<psi>"
  shows "public_edges (by_name (map (rename_device f) ds)) now h (map \<phi> xs) (map (\<lambda>(k, v). (g k, v)) opaque) (map \<psi> es) st
    = public_edges (by_name ds) now h xs opaque es st"
proof (induction es arbitrary: st)
  case (Cons e es)
  have inj: "inj g" and \<psi>: "ge_src (\<psi> e) = g (ge_src e)" "ge_dst (\<psi> e) = g (ge_dst e)" "ge_last (\<psi> e) = ge_last e"
    using assms by (simp_all add: disguises_def)
  have look: "map_of (map (\<lambda>(k, v). (g k, v)) opaque) (g k) = map_of opaque k" for k
    using map_of_map_keys [OF inj, of "\<lambda>v. v" opaque k] by (simp add: option.map_ident)
  show ?case
    using Cons.IH by (simp add: \<psi> look remote_disguised [OF assms] split: option.split)
qed simp

lemma public_nodes_disguised:
  assumes "disguises f g \<phi> \<psi>" and "\<forall>n \<in> set xs. dhas (by_name ds) (gn_name n)"
  shows "public_nodes (by_name (map (rename_device f) ds)) now h (map \<phi> xs) = public_nodes (by_name ds) now h xs"
proof -
  have inj: "inj f" and \<phi>: "\<And>n. gn_last (\<phi> n) = gn_last n" "\<And>n. gn_name (\<phi> n) = f (gn_name n)"
    using assms(1) by (simp_all add: disguises_def)
  have look: "map_of (by_name (map (rename_device f) ds)) (f k) = map_option (rename_device f) (map_of (by_name ds) k)" for k
    by (simp add: by_name_rename [OF inj] map_of_map_keys [OF inj])
  have zip: "zip is (map \<phi> xs) = map (\<lambda>(i, n). (i, \<phi> n)) (zip is xs)" for "is" :: "nat list"
    by (simp add: zip_map2)
  show ?thesis
    unfolding public_nodes_def length_map zip map_map
  proof (rule map_cong [OF refl])
    fix p assume "p \<in> set (zip [1 ..< length xs + 1] xs)"
    then have "snd p \<in> set xs" by (metis in_set_zipE prod.collapse)
    then obtain d where "map_of (by_name ds) (gn_name (snd p)) = Some d" using assms(2) by (auto simp: dhas_def)
    then show "((\<lambda>(i, n). \<lparr>pn_id = opaque_id i, pn_reachable = within_window (gn_last n) now h,
          pn_ollama = dd_ollama (the (map_of (by_name (map (rename_device f) ds)) (gn_name n))),
          pn_site = dd_site (the (map_of (by_name (map (rename_device f) ds)) (gn_name n)))\<rparr>) \<circ> (\<lambda>(i, n). (i, \<phi> n))) p =
        (case p of (i, n) \<Rightarrow> \<lparr>pn_id = opaque_id i, pn_reachable = within_window (gn_last n) now h,
          pn_ollama = dd_ollama (the (map_of (by_name ds) (gn_name n))), pn_site = dd_site (the (map_of (by_name ds) (gn_name n)))\<rparr>)"
      by (cases p) (simp add: \<phi> look rename_device_def)
  qed
qed

text \<open>C17: The public snapshot reveals nothing of what it must hide.  Rename every device in the graph and in
  the allowlist, replace every node id, and change identifiers, attributes, edge ids, types and layers
  at will: as long as the salted digests order the names alike, the snapshot is the same.  It is
  decided by the allowlist's own labels, the kinds, the times of last sight and which nodes are joined.\<close>

theorem snapshot_deidentified:
  assumes d: "disguises f g \<phi> \<psi>" and order: "\<And>x. D' (salt' @ f x) = D (salt @ x)"
  shows "build_snapshot D' (map (rename_device f) allowlist) (map \<phi> ns) (map \<psi> es) now salt' reach_hours activity_hours
    = build_snapshot D allowlist ns es now salt reach_hours activity_hours"
proof -
  let ?allow' = "by_name (map (rename_device f) allowlist)" and ?allow = "by_name allowlist"
  let ?all = "ordered_nodes D salt ?allow ns"
  let ?ordered = "take SNAPSHOT_MAX_NODES ?all"
  have name: "\<And>n. gn_name (\<phi> n) = f (gn_name n)" using d by (simp add: disguises_def)
  have all: "ordered_nodes D' salt' ?allow' (map \<phi> ns) = map \<phi> ?all"
    unfolding ordered_nodes_def selected_disguised [OF d] sort_key_map name order ..
  have "\<forall>n \<in> set ?all. dhas ?allow (gn_name n)"
    using selected_ok [of ?allow ns] unfolding ordered_nodes_def by simp
  then have known: "\<forall>n \<in> set ?ordered. dhas ?allow (gn_name n)" by (auto dest: in_set_takeD)
  show ?thesis
    unfolding build_snapshot_def Let_def all take_map opaque_ids_disguised [OF d] public_edges_disguised [OF d]
      public_nodes_disguised [OF d known] length_map ..
qed

definition hide_node :: "gnode \<Rightarrow> gnode" where
  "hide_node n = n\<lparr>gn_name := CHR ''x'' # gn_name n, gn_id := CHR ''y'' # gn_id n, gn_attrs := [], gn_identifiers := []\<rparr>"

definition hide_edge :: "gedge \<Rightarrow> gedge" where
  "hide_edge e = e\<lparr>ge_src := CHR ''y'' # ge_src e, ge_dst := CHR ''y'' # ge_dst e, ge_attrs := [], ge_type := []\<rparr>"

lemma snapshot_deidentified_witness:
  "build_snapshot tl (map (rename_device (Cons CHR ''x'')) ALLOWLIST_DEFAULTS) [hide_node (sample_device ''a'' ''pve2'')] [] (utc_dt 0) [] 1 24
    = build_snapshot id ALLOWLIST_DEFAULTS [sample_device ''a'' ''pve2''] [] (utc_dt 0) [] 1 24"
proof -
  have "disguises (Cons CHR ''x'') (Cons CHR ''y'') hide_node hide_edge"
    by (simp add: disguises_def inj_on_def hide_node_def hide_edge_def)
  from snapshot_deidentified [OF this, of tl "[]" id "[]" ALLOWLIST_DEFAULTS "[sample_device ''a'' ''pve2'']" "[]"]
  show ?thesis by simp
qed

end
