(* ===== verification/Entity.thy ===== *)
theory Entity
  imports Prelude
begin

text \<open>
  The entity resolver: \<open>models.py\<close> (ids) and \<open>resolve_entities.py\<close> (ARP bindings, assets, policies
  and the edges between them).  The digest of the ids is a parameter \<open>H\<close>.  Counters are kept as
  decimal texts in the attributes of an edge, as the code keeps them; a missing or malformed
  counter (\<open>KeyError\<close>, \<open>ValueError\<close>) is \<open>None\<close>.
\<close>

section \<open>models.py\<close>

definition ASSET :: string where "ASSET = ''asset''"
definition POLICY :: string where "POLICY = ''policy''"
definition COMMUNICATED_WITH :: string where "COMMUNICATED_WITH = ''communicated_with''"
definition GOVERNED_BY_E :: string where "GOVERNED_BY_E = ''governed_by''"
definition OBSERVED :: string where "OBSERVED = ''observed''"

definition hash16_e :: "(string \<Rightarrow> string) \<Rightarrow> string \<Rightarrow> string" where
  "hash16_e H text = take 16 (H text)"

definition entity_id :: "(string \<Rightarrow> string) \<Rightarrow> string \<Rightarrow> string \<Rightarrow> string \<Rightarrow> string" where
  "entity_id H tenant kind canonical_key = hash16_e H (tenant @ ''|entity|'' @ kind @ ''|'' @ canonical_key)"

definition ent_edge_id :: "(string \<Rightarrow> string) \<Rightarrow> string \<Rightarrow> string \<Rightarrow> string \<Rightarrow> string \<Rightarrow> string \<Rightarrow> string" where
  "ent_edge_id H tenant src_id dst_id edge_type source =
     hash16_e H (tenant @ ''|entity_edge|'' @ src_id @ ''|'' @ dst_id @ ''|'' @ edge_type @ ''|'' @ source)"

record entity =
  en_id :: string
  en_tenant :: string
  en_kind :: string
  en_name :: string
  en_identifiers :: attrs
  en_source :: string
  en_basis :: string
  en_confidence :: real
  en_attrs :: attrs
  en_first :: string
  en_last :: string

record ent_edge =
  ee_id :: string
  ee_tenant :: string
  ee_src :: string
  ee_dst :: string
  ee_type :: string
  ee_source :: string
  ee_confidence :: real
  ee_attrs :: attrs
  ee_first :: string
  ee_last :: string

section \<open>Bindings\<close>

definition normalize_segment :: "string option \<Rightarrow> string" where
  "normalize_segment name =
     (let label = lower (strip (hd (split_on CHR ''.'' (opt_or name []))))
      in str_or label ''unknown'')"

record binding =
  b_device :: "string option"
  b_ip :: "string option"
  b_mac :: "string option"
  b_count :: "int option"
  b_at :: "string option"

type_synonym seg_ip = "string \<times> string"

record binding_state =
  bs_latest :: "(seg_ip, string \<times> string) dict"
  bs_macs :: "(seg_ip, string list) dict"
  bs_conflicts :: "seg_ip list"

definition binding_key :: "binding \<Rightarrow> seg_ip" where
  "binding_key b = (normalize_segment (b_device b), opt_or (b_ip b) [])"

definition binding_mac :: "binding \<Rightarrow> string" where
  "binding_mac b = lower (opt_or (b_mac b) [])"

definition binding_count :: "binding \<Rightarrow> int" where
  "binding_count b = (case b_count b of None \<Rightarrow> 1 | Some n \<Rightarrow> if n = 0 then 1 else n)"

definition binding_at :: "binding \<Rightarrow> string" where
  "binding_at b = opt_or (b_at b) []"

definition binding_step :: "binding_state \<Rightarrow> binding \<Rightarrow> binding_state" where
  "binding_step s b =
     (let key = binding_key b; mac = binding_mac b in
      if snd key = [] \<or> mac = [] then s
      else
        (let macs = dset (bs_macs s) key (List.insert mac (dget_or (bs_macs s) key []));
             conflicts = (if binding_count b > 1 then List.insert key (bs_conflicts s) else bs_conflicts s);
             latest = (case map_of (bs_latest s) key of
                 None \<Rightarrow> dset (bs_latest s) key (binding_at b, mac)
               | Some old \<Rightarrow> if binding_at b > fst old then dset (bs_latest s) key (binding_at b, mac) else bs_latest s)
         in \<lparr>bs_latest = latest, bs_macs = macs, bs_conflicts = conflicts\<rparr>))"

definition build_binding_map :: "binding list \<Rightarrow> (seg_ip, string) dict \<times> seg_ip list" where
  "build_binding_map bs =
     (let s = foldl binding_step \<lparr>bs_latest = [], bs_macs = [], bs_conflicts = []\<rparr> bs
      in (map (\<lambda>(k, v). (k, snd v)) (bs_latest s),
          List.union (bs_conflicts s) (map fst (filter (\<lambda>(k, macs). length macs > 1) (bs_macs s)))))"

section \<open>Merging into records\<close>

definition bump_first :: "string \<Rightarrow> string \<Rightarrow> string" where
  "bump_first old new = (if old \<noteq> [] then min old new else new)"

definition bump_last :: "string \<Rightarrow> string \<Rightarrow> string" where
  "bump_last old new = (if old \<noteq> [] then max old new else new)"

definition bump_entity :: "string \<Rightarrow> string \<Rightarrow> entity \<Rightarrow> entity" where
  "bump_entity f l n = n\<lparr>en_first := bump_first (en_first n) f, en_last := bump_last (en_last n) l\<rparr>"

definition bump_edge :: "string \<Rightarrow> string \<Rightarrow> ent_edge \<Rightarrow> ent_edge" where
  "bump_edge f l e = e\<lparr>ee_first := bump_first (ee_first e) f, ee_last := bump_last (ee_last e) l\<rparr>"

definition ip_values :: "attrs \<Rightarrow> string list" where
  "ip_values ids = map snd (filter (\<lambda>(k, v). startswith k ''ip'') ids)"

definition add_ip :: "string \<Rightarrow> entity \<Rightarrow> entity" where
  "add_ip ip n =
     (let seen = remdups (ip_values (en_identifiers n)) in
      if ip \<in> set seen then n
      else n\<lparr>en_identifiers := dset (en_identifiers n)
               (if dhas (en_identifiers n) ''ip'' then ''ip'' @ show_nat (length seen + 1) else ''ip'') ip\<rparr>)"

definition set_attr_values :: "attrs \<Rightarrow> string \<Rightarrow> string list" where
  "set_attr_values a key = filter (\<lambda>s. s \<noteq> []) (split_on CHR '','' (dget_or a key []))"

definition merge_set_attr :: "string \<Rightarrow> string list \<Rightarrow> attrs \<Rightarrow> attrs" where
  "merge_set_attr key vs a =
     dset a key (join '','' (sorted_set (set_attr_values a key @ filter (\<lambda>s. s \<noteq> []) vs)))"

text \<open>\<open>attrs[key] = str(int(attrs[key]) + n)\<close>.\<close>

definition add_count :: "string \<Rightarrow> int \<Rightarrow> attrs \<Rightarrow> attrs option" where
  "add_count key n a =
     (case map_of a key of None \<Rightarrow> None
      | Some s \<Rightarrow> (case py_int s of None \<Rightarrow> None | Some i \<Rightarrow> Some (dset a key (show_int (i + n)))))"

section \<open>The resolver\<close>

text \<open>A row of the flow aggregate.  The values are those of \<open>row.get\<close>: \<open>None\<close> is a null, and \<open>ports\<close>
  are the texts of the ports.\<close>

record flow_agg =
  x_src_ip :: string
  x_dst_ip :: string
  x_host :: "string option"
  x_flows :: int
  x_bytes :: int
  x_ports :: "string list"
  x_provider :: "string option"
  x_transport :: "string option"
  x_rule :: "string option"
  x_first :: string
  x_last :: string

definition str_of :: "string option \<Rightarrow> string" where
  "str_of v = (case v of None \<Rightarrow> ''None'' | Some s \<Rightarrow> s)"

text \<open>The key an asset is known by.\<close>

definition asset_key :: "(seg_ip, string) dict \<Rightarrow> string \<Rightarrow> string \<Rightarrow> string" where
  "asset_key bm ip segment =
     (case map_of bm (segment, ip) of
        Some mac \<Rightarrow> if mac = [] then ''ip:'' @ segment @ '':'' @ ip else ''mac:'' @ mac
      | None \<Rightarrow> ''ip:'' @ segment @ '':'' @ ip)"

definition new_asset :: "string \<Rightarrow> string \<Rightarrow> string option \<Rightarrow> string \<Rightarrow> entity" where
  "new_asset tenant eid mac ip =
     \<lparr>en_id = eid, en_tenant = tenant, en_kind = ASSET, en_name = opt_or mac ip,
      en_identifiers = (if opt_or mac [] \<noteq> [] then [(''mac'', opt_or mac [])] else []),
      en_source = OBSERVED, en_basis = (if opt_or mac [] \<noteq> [] then ''mac'' else ''ip_only''),
      en_confidence = (if opt_or mac [] \<noteq> [] then 1 else 1 / 2), en_attrs = [], en_first = [], en_last = []\<rparr>"

definition asset_for ::
  "(string \<Rightarrow> string) \<Rightarrow> string \<Rightarrow> (seg_ip, string) dict \<times> seg_ip list \<Rightarrow> string \<Rightarrow> string \<Rightarrow> string \<Rightarrow> string
     \<Rightarrow> (string, entity) dict \<Rightarrow> string \<times> (string, entity) dict" where
  "asset_for H tenant bc ip segment f l entities =
     (let mac = map_of (fst bc) (segment, ip);
          eid = entity_id H tenant ASSET (asset_key (fst bc) ip segment);
          n = (case map_of entities eid of None \<Rightarrow> new_asset tenant eid mac ip | Some n \<Rightarrow> n);
          n1 = add_ip ip n;
          n2 = (if opt_or mac [] \<noteq> [] \<and> (segment, ip) \<in> set (snd bc)
                then n1\<lparr>en_attrs := dset (en_attrs n1) ''ip_conflict'' ip\<rparr> else n1)
      in (en_id n, dset entities eid (bump_entity f l n2)))"

definition policy_for ::
  "(string \<Rightarrow> string) \<Rightarrow> string \<Rightarrow> string \<Rightarrow> string \<Rightarrow> string \<Rightarrow> string
     \<Rightarrow> (string, entity) dict \<Rightarrow> string \<times> (string, entity) dict" where
  "policy_for H tenant provider rule f l entities =
     (let eid = entity_id H tenant POLICY (provider @ '':'' @ rule);
          n = (case map_of entities eid of
                 None \<Rightarrow> \<lparr>en_id = eid, en_tenant = tenant, en_kind = POLICY, en_name = rule,
                    en_identifiers = [(''rule'', rule), (''provider'', provider)], en_source = OBSERVED,
                    en_basis = [], en_confidence = 1, en_attrs = [(''provider'', provider)],
                    en_first = [], en_last = []\<rparr>
               | Some n \<Rightarrow> n)
      in (en_id n, dset entities eid (bump_entity f l n)))"

definition comm_attrs0 :: attrs where
  "comm_attrs0 = [(''sessions'', ''0''), (''bytes'', ''0''), (''ports'', []), (''providers'', []),
     (''transports'', []), (''observer_hosts'', [])]"

definition new_edge :: "string \<Rightarrow> string \<Rightarrow> string \<Rightarrow> string \<Rightarrow> string \<Rightarrow> attrs \<Rightarrow> ent_edge" where
  "new_edge tenant eid src dst ty a =
     \<lparr>ee_id = eid, ee_tenant = tenant, ee_src = src, ee_dst = dst, ee_type = ty, ee_source = OBSERVED,
      ee_confidence = 1, ee_attrs = a, ee_first = [], ee_last = []\<rparr>"

definition comm_attrs :: "flow_agg \<Rightarrow> attrs \<Rightarrow> attrs option" where
  "comm_attrs row a =
     (case add_count ''sessions'' (x_flows row) a of None \<Rightarrow> None
      | Some a1 \<Rightarrow>
         (case add_count ''bytes'' (x_bytes row) a1 of None \<Rightarrow> None
          | Some a2 \<Rightarrow>
             Some (merge_set_attr ''observer_hosts'' (if opt_or (x_host row) [] \<noteq> [] then [opt_or (x_host row) []] else [])
                    (merge_set_attr ''transports'' [str_of (x_transport row)]
                      (merge_set_attr ''providers'' [str_of (x_provider row)]
                        (merge_set_attr ''ports'' (x_ports row) a2))))))"

type_synonym ent_state = "(string, entity) dict \<times> (string, ent_edge) dict"

definition comm_edge_id :: "(string \<Rightarrow> string) \<Rightarrow> string \<Rightarrow> string \<Rightarrow> string \<Rightarrow> string" where
  "comm_edge_id H tenant src dst = ent_edge_id H tenant src dst COMMUNICATED_WITH OBSERVED"

definition comm_for ::
  "(string \<Rightarrow> string) \<Rightarrow> string \<Rightarrow> string \<Rightarrow> string \<Rightarrow> flow_agg \<Rightarrow> (string, ent_edge) dict
     \<Rightarrow> (string \<times> (string, ent_edge) dict) option" where
  "comm_for H tenant src dst row edges =
     (let eid = comm_edge_id H tenant src dst;
          e = (case map_of edges eid of None \<Rightarrow> new_edge tenant eid src dst COMMUNICATED_WITH comm_attrs0 | Some e \<Rightarrow> e)
      in case comm_attrs row (ee_attrs e) of None \<Rightarrow> None
         | Some a \<Rightarrow> Some (eid, dset edges eid (bump_edge (x_first row) (x_last row) (e\<lparr>ee_attrs := a\<rparr>))))"

definition gov_for ::
  "(string \<Rightarrow> string) \<Rightarrow> string \<Rightarrow> string \<Rightarrow> string \<Rightarrow> string \<Rightarrow> string \<Rightarrow> flow_agg \<Rightarrow> (string, ent_edge) dict
     \<Rightarrow> (string, ent_edge) dict" where
  "gov_for H tenant comm_eid policy rule provider row edges =
     (let eid = ent_edge_id H tenant comm_eid policy GOVERNED_BY_E OBSERVED;
          e = (case map_of edges eid of
                 None \<Rightarrow> new_edge tenant eid comm_eid policy GOVERNED_BY_E [(''rule'', rule), (''provider'', provider)]
               | Some e \<Rightarrow> e)
      in dset edges eid (bump_edge (x_first row) (x_last row) e))"

definition row_rule :: "flow_agg \<Rightarrow> string" where
  "row_rule row = strip (opt_or (x_rule row) [])"

definition row_provider :: "flow_agg \<Rightarrow> string" where
  "row_provider row = strip (opt_or (x_provider row) [])"

definition resolve_row ::
  "(string \<Rightarrow> string) \<Rightarrow> string \<Rightarrow> (seg_ip, string) dict \<times> seg_ip list \<Rightarrow> flow_agg \<Rightarrow> ent_state \<Rightarrow> ent_state option" where
  "resolve_row H tenant bc row s =
     (let f = x_first row; l = x_last row; segment = normalize_segment (x_host row);
          (src, en1) = asset_for H tenant bc (x_src_ip row) segment f l (fst s);
          (dst, en2) = asset_for H tenant bc (x_dst_ip row) segment f l en1
      in case comm_for H tenant src dst row (snd s) of None \<Rightarrow> None
         | Some (comm_eid, es1) \<Rightarrow>
            if row_rule row = [] then Some (en2, es1)
            else
              (let (policy, en3) = policy_for H tenant (row_provider row) (row_rule row) f l en2
               in Some (en3, gov_for H tenant comm_eid policy (row_rule row) (row_provider row) row es1)))"

fun resolve_rows ::
  "(string \<Rightarrow> string) \<Rightarrow> string \<Rightarrow> (seg_ip, string) dict \<times> seg_ip list \<Rightarrow> flow_agg list \<Rightarrow> ent_state \<Rightarrow> ent_state option" where
  "resolve_rows H tenant bc [] s = Some s"
| "resolve_rows H tenant bc (row # rows) s =
     (case resolve_row H tenant bc row s of None \<Rightarrow> None | Some s' \<Rightarrow> resolve_rows H tenant bc rows s')"

definition resolve_entities ::
  "(string \<Rightarrow> string) \<Rightarrow> flow_agg list \<Rightarrow> binding list \<Rightarrow> string \<Rightarrow> (entity list \<times> ent_edge list) option" where
  "resolve_entities H rows bs tenant =
     (case resolve_rows H tenant (build_binding_map bs) rows ([], []) of None \<Rightarrow> None
      | Some (ens, es) \<Rightarrow> Some (dvalues ens, dvalues es))"

section \<open>Bindings: the latest observation wins\<close>

text \<open>Keys of the binding map are pairs; quantifiers over them are not split.\<close>

declare split_paired_All [simp del] split_paired_Ex [simp del]

definition valid_binding :: "seg_ip \<Rightarrow> binding \<Rightarrow> bool" where
  "valid_binding key b \<longleftrightarrow> binding_key b = key \<and> snd key \<noteq> [] \<and> binding_mac b \<noteq> []"

definition binding_inv :: "binding list \<Rightarrow> binding_state \<Rightarrow> bool" where
  "binding_inv bs s \<longleftrightarrow>
     (\<forall>key. case map_of (bs_latest s) key of
         None \<Rightarrow> (\<forall>b \<in> set bs. \<not> valid_binding key b)
       | Some (t, mac) \<Rightarrow> (\<exists>b \<in> set bs. valid_binding key b \<and> binding_at b = t \<and> binding_mac b = mac)
           \<and> (\<forall>b \<in> set bs. valid_binding key b \<longrightarrow> binding_at b \<le> t))
     \<and> (\<forall>key. set (dget_or (bs_macs s) key []) = binding_mac ` {b \<in> set bs. valid_binding key b}
           \<and> distinct (dget_or (bs_macs s) key []))
     \<and> (\<forall>key. key \<in> set (bs_conflicts s) \<longleftrightarrow> (\<exists>b \<in> set bs. valid_binding key b \<and> binding_count b > 1))
     \<and> dict_ok (bs_macs s)"

lemma binding_step_inv: "binding_inv bs s \<Longrightarrow> binding_inv (bs @ [b]) (binding_step s b)"
proof -
  assume inv: "binding_inv bs s"
  let ?key = "binding_key b"
  have L: "case map_of (bs_latest s) key of
         None \<Rightarrow> (\<forall>b \<in> set bs. \<not> valid_binding key b)
       | Some (t, mac) \<Rightarrow> (\<exists>b \<in> set bs. valid_binding key b \<and> binding_at b = t \<and> binding_mac b = mac)
           \<and> (\<forall>b \<in> set bs. valid_binding key b \<longrightarrow> binding_at b \<le> t)"
    and M: "set (dget_or (bs_macs s) key []) = binding_mac ` {b \<in> set bs. valid_binding key b}
           \<and> distinct (dget_or (bs_macs s) key [])"
    and C: "key \<in> set (bs_conflicts s) \<longleftrightarrow> (\<exists>b \<in> set bs. valid_binding key b \<and> binding_count b > 1)" for key
    using inv unfolding binding_inv_def by blast+
  show ?thesis
  proof (cases "snd ?key = [] \<or> binding_mac b = []")
    case True
    then have nv: "\<not> valid_binding key b" for key by (auto simp: valid_binding_def)
    have sets: "{x \<in> set (bs @ [b]). valid_binding key x} = {x \<in> set bs. valid_binding key x}" for key
      using nv [of key] by auto
    have some: "(\<exists>x \<in> set (bs @ [b]). valid_binding key x \<and> P x) \<longleftrightarrow> (\<exists>x \<in> set bs. valid_binding key x \<and> P x)"
      and all: "(\<forall>x \<in> set (bs @ [b]). valid_binding key x \<longrightarrow> P x) \<longleftrightarrow> (\<forall>x \<in> set bs. valid_binding key x \<longrightarrow> P x)"
      and none: "(\<forall>x \<in> set (bs @ [b]). \<not> valid_binding key x) \<longleftrightarrow> (\<forall>x \<in> set bs. \<not> valid_binding key x)" for key P
      using nv [of key] by auto
    have "binding_step s b = s" using True by (simp add: binding_step_def Let_def)
    then show ?thesis using inv unfolding binding_inv_def some all none sets by simp
  next
    case False
    then have val: "valid_binding key b \<longleftrightarrow> key = ?key" for key by (auto simp: valid_binding_def)
    have sets: "{x \<in> set (bs @ [b]). valid_binding key x} =
        (if key = ?key then insert b {x \<in> set bs. valid_binding key x} else {x \<in> set bs. valid_binding key x})" for key
      using val [of key] by auto
    have latest: "case map_of (bs_latest (binding_step s b)) key of
         None \<Rightarrow> (\<forall>b' \<in> set (bs @ [b]). \<not> valid_binding key b')
       | Some (t, mac) \<Rightarrow> (\<exists>b' \<in> set (bs @ [b]). valid_binding key b' \<and> binding_at b' = t \<and> binding_mac b' = mac)
           \<and> (\<forall>b' \<in> set (bs @ [b]). valid_binding key b' \<longrightarrow> binding_at b' \<le> t)" for key
    proof (cases "key = ?key")
      case same: True
      show ?thesis
      proof (cases "map_of (bs_latest s) key")
        case None
        then have "\<forall>x \<in> set bs. \<not> valid_binding key x" using L [of key] by simp
        then show ?thesis using None same False val [of key] by (auto simp: binding_step_def Let_def)
      next
        case (Some old)
        obtain t mac where old: "old = (t, mac)" by (cases old)
        have o: "(\<exists>x \<in> set bs. valid_binding key x \<and> binding_at x = t \<and> binding_mac x = mac)"
          "(\<forall>x \<in> set bs. valid_binding key x \<longrightarrow> binding_at x \<le> t)"
          using L [of key] Some old by simp_all
        show ?thesis
        proof (cases "t < binding_at b")
          case True
          then show ?thesis using Some old same False val [of key] o(2) by (auto simp: binding_step_def Let_def intro: order_trans less_imp_le)
        next
          case ge: False
          then show ?thesis using Some old same False val [of key] o by (auto simp: binding_step_def Let_def not_less)
        qed
      qed
    next
      case other: False
      have "map_of (bs_latest (binding_step s b)) key = map_of (bs_latest s) key"
        using other False by (auto simp: binding_step_def Let_def split: option.splits)
      then show ?thesis using L [of key] other val [of key] by (auto split: option.splits)
    qed
    have macs: "dget_or (bs_macs (binding_step s b)) key [] =
        (if key = ?key then List.insert (binding_mac b) (dget_or (bs_macs s) key []) else dget_or (bs_macs s) key [])" for key
      using False by (simp add: binding_step_def Let_def dget_or_dset)
    have conf: "key \<in> set (bs_conflicts (binding_step s b)) \<longleftrightarrow>
        (key = ?key \<and> binding_count b > 1) \<or> key \<in> set (bs_conflicts s)" for key
      using False by (auto simp: binding_step_def Let_def)
    have "dict_ok (bs_macs (binding_step s b))"
      using inv False by (simp add: binding_step_def Let_def binding_inv_def)
    moreover have "set (dget_or (bs_macs (binding_step s b)) key []) = binding_mac ` {x \<in> set (bs @ [b]). valid_binding key x}
        \<and> distinct (dget_or (bs_macs (binding_step s b)) key [])" for key
      unfolding macs sets using M [of key] by (cases "key = ?key") simp_all
    moreover have "key \<in> set (bs_conflicts (binding_step s b)) \<longleftrightarrow>
        (\<exists>x \<in> set (bs @ [b]). valid_binding key x \<and> binding_count x > 1)" for key
      unfolding conf using C [of key] val [of key] by auto
    ultimately show ?thesis using latest unfolding binding_inv_def by blast
  qed
qed

lemma binding_fold_inv: "binding_inv bs s \<Longrightarrow> binding_inv (bs @ rest) (foldl binding_step s rest)"
proof (induction rest arbitrary: bs s)
  case (Cons b rest)
  then show ?case using Cons.IH [of "bs @ [b]"] binding_step_inv by simp
qed simp

lemma map_of_map_keyed_snd: "map_of (map (\<lambda>(k, v). (k, f v)) d) k = map_option f (map_of d k)"
  by (induction d) auto

lemma many_macs: "distinct xs \<Longrightarrow> 1 < length xs \<longleftrightarrow> (\<exists>x \<in> set xs. \<exists>y \<in> set xs. x \<noteq> y)"
proof (cases xs)
  case (Cons x ys)
  assume "distinct xs"
  then show ?thesis using Cons by (cases ys) auto
qed simp

lemma build_binding_map_spec:
  "map_of (fst (build_binding_map bs)) key = Some mac \<Longrightarrow>
     \<exists>b \<in> set bs. valid_binding key b \<and> binding_mac b = mac \<and> (\<forall>b' \<in> set bs. valid_binding key b' \<longrightarrow> binding_at b' \<le> binding_at b)"
  "map_of (fst (build_binding_map bs)) key = None \<longleftrightarrow> (\<forall>b \<in> set bs. \<not> valid_binding key b)"
  "key \<in> set (snd (build_binding_map bs)) \<longleftrightarrow>
     (\<exists>b \<in> set bs. valid_binding key b \<and> binding_count b > 1)
     \<or> (\<exists>b \<in> set bs. \<exists>b' \<in> set bs. valid_binding key b \<and> valid_binding key b' \<and> binding_mac b \<noteq> binding_mac b')"
proof -
  define s where "s = foldl binding_step \<lparr>bs_latest = [], bs_macs = [], bs_conflicts = []\<rparr> bs"
  have inv: "binding_inv bs s"
    using binding_fold_inv [of "[]" _ bs] by (simp add: s_def binding_inv_def dget_or_def)
  have m: "map_of (fst (build_binding_map bs)) key = map_option snd (map_of (bs_latest s) key)"
    by (simp add: build_binding_map_def Let_def s_def map_of_map_keyed_snd)
  have L: "case map_of (bs_latest s) key of
         None \<Rightarrow> (\<forall>b \<in> set bs. \<not> valid_binding key b)
       | Some (t, mac) \<Rightarrow> (\<exists>b \<in> set bs. valid_binding key b \<and> binding_at b = t \<and> binding_mac b = mac)
           \<and> (\<forall>b \<in> set bs. valid_binding key b \<longrightarrow> binding_at b \<le> t)"
    using inv unfolding binding_inv_def by blast
  show "map_of (fst (build_binding_map bs)) key = Some mac \<Longrightarrow>
     \<exists>b \<in> set bs. valid_binding key b \<and> binding_mac b = mac \<and> (\<forall>b' \<in> set bs. valid_binding key b' \<longrightarrow> binding_at b' \<le> binding_at b)"
    using L unfolding m by (auto split: option.splits)
  show "map_of (fst (build_binding_map bs)) key = None \<longleftrightarrow> (\<forall>b \<in> set bs. \<not> valid_binding key b)"
    using L unfolding m by (auto split: option.splits)
  have macs: "set (dget_or (bs_macs s) key []) = binding_mac ` {b \<in> set bs. valid_binding key b}"
    "distinct (dget_or (bs_macs s) key [])"
    using inv unfolding binding_inv_def by blast+
  have "key \<in> set (map fst (filter (\<lambda>(k, macs). length macs > 1) (bs_macs s))) \<longleftrightarrow> 1 < length (dget_or (bs_macs s) key [])"
  proof -
    have "key \<in> set (map fst (filter (\<lambda>(k, macs). length macs > 1) (bs_macs s))) \<longleftrightarrow>
        (\<exists>ms. map_of (bs_macs s) key = Some ms \<and> 1 < length ms)"
      using inv dict_ok_map_of [of "bs_macs s" key] unfolding binding_inv_def by (auto simp: image_iff)
    then show ?thesis by (auto simp: dget_or_def split: option.splits)
  qed
  then show "key \<in> set (snd (build_binding_map bs)) \<longleftrightarrow>
     (\<exists>b \<in> set bs. valid_binding key b \<and> binding_count b > 1)
     \<or> (\<exists>b \<in> set bs. \<exists>b' \<in> set bs. valid_binding key b \<and> valid_binding key b' \<and> binding_mac b \<noteq> binding_mac b')"
    unfolding many_macs [OF macs(2)] macs(1)
  proof -
    assume c: "key \<in> set (map fst (filter (\<lambda>(k, macs). length macs > 1) (bs_macs s))) \<longleftrightarrow>
      (\<exists>x \<in> binding_mac ` {b \<in> set bs. valid_binding key b}. \<exists>y \<in> binding_mac ` {b \<in> set bs. valid_binding key b}. x \<noteq> y)"
    have "snd (build_binding_map bs) = List.union (bs_conflicts s) (map fst (filter (\<lambda>(k, macs). length macs > 1) (bs_macs s)))"
      by (simp add: build_binding_map_def Let_def s_def)
    then have "key \<in> set (snd (build_binding_map bs)) \<longleftrightarrow> key \<in> set (bs_conflicts s)
        \<or> key \<in> set (map fst (filter (\<lambda>(k, macs). length macs > 1) (bs_macs s)))"
      by (simp only: set_union Un_iff)
    moreover have "key \<in> set (bs_conflicts s) \<longleftrightarrow> (\<exists>b \<in> set bs. valid_binding key b \<and> binding_count b > 1)"
      using inv unfolding binding_inv_def by blast
    ultimately show ?thesis unfolding c by blast
  qed
qed

section \<open>Totals over a dictionary\<close>

lemma sum_dset:
  fixes f :: "'v \<Rightarrow> int"
  assumes "dict_ok d"
  shows "sum_list (map f (dvalues (dset d k v))) =
    sum_list (map f (dvalues d)) - (case map_of d k of None \<Rightarrow> 0 | Some w \<Rightarrow> f w) + f v"
  using assms
proof (induction d)
  case (Cons p d)
  obtain k' v' where p: "p = (k', v')" by (cases p)
  have "map_of d k' = None" and ok: "dict_ok d"
    using Cons.prems p by (simp_all add: dict_ok_def map_of_eq_None_iff)
  then show ?case using Cons.IH [OF ok] p by (auto split: option.split)
qed (simp add: dict_ok_def)

definition counter :: "string \<Rightarrow> ent_edge \<Rightarrow> int" where
  "counter key e = (case map_of (ee_attrs e) key of None \<Rightarrow> 0 | Some s \<Rightarrow> (case py_int s of None \<Rightarrow> 0 | Some i \<Rightarrow> i))"

definition counter_total :: "string \<Rightarrow> ent_edge list \<Rightarrow> int" where
  "counter_total key es = sum_list (map (counter key) es)"

lemma total_dset:
  "dict_ok d \<Longrightarrow> counter_total key (dvalues (dset d k v)) =
     counter_total key (dvalues d) - (case map_of d k of None \<Rightarrow> 0 | Some w \<Rightarrow> counter key w) + counter key v"
  unfolding counter_total_def by (rule sum_dset)

lemma zero_text: "''0'' = show_int i \<longleftrightarrow> i = 0"
proof -
  have "''0'' = show_int 0" by code_simp
  then show ?thesis by (metis show_int_inj)
qed

definition has_counter :: "string \<Rightarrow> attrs \<Rightarrow> bool" where
  "has_counter key a \<longleftrightarrow> (\<exists>i. map_of a key = Some (show_int i))"

lemma merge_set_attr_other: "k \<noteq> key \<Longrightarrow> map_of (merge_set_attr key vs a) k = map_of a k"
  by (simp add: merge_set_attr_def)

lemma add_count_known:
  "map_of a key = Some (show_int i) \<Longrightarrow> add_count key n a = Some (dset a key (show_int (i + n)))"
  by (simp add: add_count_def)

lemma comm_attrs_counts:
  assumes "map_of a ''sessions'' = Some (show_int i)" and "map_of a ''bytes'' = Some (show_int j)"
  obtains a' where "comm_attrs row a = Some a'"
    and "map_of a' ''sessions'' = Some (show_int (i + x_flows row))"
    and "map_of a' ''bytes'' = Some (show_int (j + x_bytes row))"
proof -
  let ?a = "dset a ''sessions'' (show_int (i + x_flows row))"
  have 1: "add_count ''sessions'' (x_flows row) a = Some ?a" by (rule add_count_known [OF assms(1)])
  have "map_of ?a ''bytes'' = Some (show_int j)" using assms(2) by simp
  from add_count_known [OF this]
  have 2: "add_count ''bytes'' (x_bytes row) ?a = Some (dset ?a ''bytes'' (show_int (j + x_bytes row)))" .
  from 1 2 have "\<exists>a'. comm_attrs row a = Some a' \<and> map_of a' ''sessions'' = Some (show_int (i + x_flows row))
      \<and> map_of a' ''bytes'' = Some (show_int (j + x_bytes row))"
    by (simp add: comm_attrs_def merge_set_attr_other)
  then show thesis using that by blast
qed

section \<open>What one row does\<close>

definition row_asset :: "(string \<Rightarrow> string) \<Rightarrow> string \<Rightarrow> (seg_ip, string) dict \<Rightarrow> string \<Rightarrow> flow_agg \<Rightarrow> string" where
  "row_asset H tenant bm ip row = entity_id H tenant ASSET (asset_key bm ip (normalize_segment (x_host row)))"

definition row_comm_id :: "(string \<Rightarrow> string) \<Rightarrow> string \<Rightarrow> (seg_ip, string) dict \<Rightarrow> flow_agg \<Rightarrow> string" where
  "row_comm_id H tenant bm row =
     comm_edge_id H tenant (row_asset H tenant bm (x_src_ip row) row) (row_asset H tenant bm (x_dst_ip row) row)"

definition row_gov_id :: "(string \<Rightarrow> string) \<Rightarrow> string \<Rightarrow> (seg_ip, string) dict \<Rightarrow> flow_agg \<Rightarrow> string" where
  "row_gov_id H tenant bm row =
     ent_edge_id H tenant (row_comm_id H tenant bm row)
       (entity_id H tenant POLICY (row_provider row @ '':'' @ row_rule row)) GOVERNED_BY_E OBSERVED"

text \<open>The ids of the two kinds of edge that these rows give rise to do not collide.\<close>

definition ids_apart :: "(string \<Rightarrow> string) \<Rightarrow> string \<Rightarrow> (seg_ip, string) dict \<Rightarrow> flow_agg list \<Rightarrow> bool" where
  "ids_apart H tenant bm rows \<longleftrightarrow>
     (\<forall>r \<in> set rows. \<forall>q \<in> set rows. row_rule q \<noteq> [] \<longrightarrow> row_comm_id H tenant bm r \<noteq> row_gov_id H tenant bm q)"

definition ents_ok :: "(string, entity) dict \<Rightarrow> bool" where
  "ents_ok ens \<longleftrightarrow> dict_ok ens \<and> (\<forall>k n. map_of ens k = Some n \<longrightarrow> en_id n = k)"

definition comm_ok :: "(string, entity) dict \<Rightarrow> ent_edge \<Rightarrow> bool" where
  "comm_ok ens e \<longleftrightarrow> ee_type e = COMMUNICATED_WITH \<and> has_counter ''sessions'' (ee_attrs e)
     \<and> has_counter ''bytes'' (ee_attrs e) \<and> ee_src e \<in> dom (map_of ens) \<and> ee_dst e \<in> dom (map_of ens)"

definition gov_ok :: "(string, entity) dict \<Rightarrow> (string, ent_edge) dict \<Rightarrow> ent_edge \<Rightarrow> bool" where
  "gov_ok ens es e \<longleftrightarrow> ee_type e = GOVERNED_BY_E \<and> ee_attrs e \<noteq> [] \<and> map_of (ee_attrs e) ''sessions'' = None
     \<and> map_of (ee_attrs e) ''bytes'' = None \<and> ee_src e \<in> dom (map_of es) \<and> ee_dst e \<in> dom (map_of ens)"

definition ent_inv :: "string set \<Rightarrow> string set \<Rightarrow> ent_state \<Rightarrow> bool" where
  "ent_inv comms govs s \<longleftrightarrow> ents_ok (fst s) \<and> dict_ok (snd s)
     \<and> (\<forall>k e. map_of (snd s) k = Some e \<longrightarrow> ee_id e = k \<and>
          (k \<in> comms \<and> comm_ok (fst s) e \<or> k \<in> govs \<and> gov_ok (fst s) (snd s) e))"

lemma add_ip_id [simp]: "en_id (add_ip ip n) = en_id n"
  by (simp add: add_ip_def Let_def)

lemma asset_for_ok:
  assumes "ents_ok ens" and "asset_for H tenant bc ip segment f l ens = (eid, ens')"
  shows "eid = entity_id H tenant ASSET (asset_key (fst bc) ip segment)" and "ents_ok ens'"
    and "dom (map_of ens') = insert eid (dom (map_of ens))"
proof -
  let ?id = "entity_id H tenant ASSET (asset_key (fst bc) ip segment)"
  have id: "eid = ?id"
    using assms by (auto simp: asset_for_def Let_def ents_ok_def new_asset_def split: option.splits)
  show "eid = ?id" by (rule id)
  show "ents_ok ens'" "dom (map_of ens') = insert eid (dom (map_of ens))"
    using assms unfolding id
    by (auto simp: asset_for_def Let_def ents_ok_def new_asset_def bump_entity_def split: option.splits if_splits)
qed

lemma policy_for_ok:
  assumes "ents_ok ens" and "policy_for H tenant provider rule f l ens = (eid, ens')"
  shows "eid = entity_id H tenant POLICY (provider @ '':'' @ rule)" and "ents_ok ens'"
    and "dom (map_of ens') = insert eid (dom (map_of ens))"
proof -
  let ?id = "entity_id H tenant POLICY (provider @ '':'' @ rule)"
  have id: "eid = ?id"
    using assms by (auto simp: policy_for_def Let_def ents_ok_def split: option.splits)
  show "eid = ?id" by (rule id)
  show "ents_ok ens'" "dom (map_of ens') = insert eid (dom (map_of ens))"
    using assms unfolding id
    by (auto simp: policy_for_def Let_def ents_ok_def bump_entity_def split: option.splits if_splits)
qed

lemma ent_inv_entities:
  "ent_inv comms govs (ens, es) \<Longrightarrow> ents_ok ens' \<Longrightarrow> dom (map_of ens) \<subseteq> dom (map_of ens') \<Longrightarrow> ent_inv comms govs (ens', es)"
  unfolding ent_inv_def comm_ok_def gov_ok_def by (simp; blast)

lemma counter_known: "map_of (ee_attrs e) key = Some (show_int i) \<Longrightarrow> counter key e = i"
  by (simp add: counter_def)

lemma comm_for_ok:
  assumes inv: "ent_inv comms govs (ens, es)" and "comms \<inter> govs = {}"
    and src: "src \<in> dom (map_of ens)" and dst: "dst \<in> dom (map_of ens)" and id: "comm_edge_id H tenant src dst \<in> comms"
  shows "\<exists>es'. comm_for H tenant src dst row es = Some (comm_edge_id H tenant src dst, es')
    \<and> ent_inv comms govs (ens, es') \<and> comm_edge_id H tenant src dst \<in> dom (map_of es')
    \<and> counter_total ''sessions'' (dvalues es') = counter_total ''sessions'' (dvalues es) + x_flows row
    \<and> counter_total ''bytes'' (dvalues es') = counter_total ''bytes'' (dvalues es) + x_bytes row"
proof -
  let ?id = "comm_edge_id H tenant src dst"
  define e where "e = (case map_of es ?id of None \<Rightarrow> new_edge tenant ?id src dst COMMUNICATED_WITH comm_attrs0 | Some e \<Rightarrow> e)"
  have ok: "comm_ok ens e \<and> ee_id e = ?id"
  proof (cases "map_of es ?id")
    case None
    have "has_counter ''sessions'' comm_attrs0" "has_counter ''bytes'' comm_attrs0"
      by (auto simp: has_counter_def comm_attrs0_def zero_text)
    then show ?thesis using None src dst by (simp add: e_def comm_ok_def new_edge_def)
  next
    case (Some e0)
    then show ?thesis using inv assms(2) id by (auto simp: e_def ent_inv_def)
  qed
  then obtain i j where ij: "map_of (ee_attrs e) ''sessions'' = Some (show_int i)" "map_of (ee_attrs e) ''bytes'' = Some (show_int j)"
    by (auto simp: comm_ok_def has_counter_def)
  then obtain a' where a': "comm_attrs row (ee_attrs e) = Some a'"
    "map_of a' ''sessions'' = Some (show_int (i + x_flows row))" "map_of a' ''bytes'' = Some (show_int (j + x_bytes row))"
    by (rule comm_attrs_counts)
  let ?e = "bump_edge (x_first row) (x_last row) (e\<lparr>ee_attrs := a'\<rparr>)"
  have e': "comm_ok ens ?e \<and> ee_id ?e = ?id"
    using ok a' by (auto simp: comm_ok_def has_counter_def bump_edge_def)
  have old: "(case map_of es ?id of None \<Rightarrow> 0 | Some w \<Rightarrow> counter ''sessions'' w) = i"
    "(case map_of es ?id of None \<Rightarrow> 0 | Some w \<Rightarrow> counter ''bytes'' w) = j"
    using ij counter_known by (auto simp: e_def new_edge_def comm_attrs0_def counter_def zero_text split: option.splits)
  have new: "counter ''sessions'' ?e = i + x_flows row" "counter ''bytes'' ?e = j + x_bytes row"
    using a' by (auto intro!: counter_known simp: bump_edge_def)
  have "ent_inv comms govs (ens, dset es ?id ?e)"
    using inv e' id by (auto simp: ent_inv_def gov_ok_def)
  moreover have "comm_for H tenant src dst row es = Some (?id, dset es ?id ?e)"
    using a' by (simp add: comm_for_def Let_def e_def [symmetric])
  moreover have "dict_ok es" using inv by (simp add: ent_inv_def)
  ultimately show ?thesis
    by (simp add: total_dset old new del: map_map)
qed

lemma gov_for_ok:
  assumes inv: "ent_inv comms govs (ens, es)" and "comms \<inter> govs = {}"
    and "comm_eid \<in> dom (map_of es)" and "policy \<in> dom (map_of ens)"
    and id: "ent_edge_id H tenant comm_eid policy GOVERNED_BY_E OBSERVED \<in> govs"
  shows "ent_inv comms govs (ens, gov_for H tenant comm_eid policy rule provider row es)
    \<and> counter_total ''sessions'' (dvalues (gov_for H tenant comm_eid policy rule provider row es)) = counter_total ''sessions'' (dvalues es)
    \<and> counter_total ''bytes'' (dvalues (gov_for H tenant comm_eid policy rule provider row es)) = counter_total ''bytes'' (dvalues es)"
proof -
  let ?id = "ent_edge_id H tenant comm_eid policy GOVERNED_BY_E OBSERVED"
  define e where "e = (case map_of es ?id of
      None \<Rightarrow> new_edge tenant ?id comm_eid policy GOVERNED_BY_E [(''rule'', rule), (''provider'', provider)] | Some e \<Rightarrow> e)"
  let ?e = "bump_edge (x_first row) (x_last row) e"
  have g: "gov_for H tenant comm_eid policy rule provider row es = dset es ?id ?e"
    by (simp add: gov_for_def Let_def e_def)
  have ok: "gov_ok ens es e \<and> ee_id e = ?id"
    using inv assms(2-5) by (auto simp: e_def ent_inv_def gov_ok_def new_edge_def split: option.splits)
  have "ent_inv comms govs (ens, dset es ?id ?e)"
    using inv ok id by (auto simp: ent_inv_def gov_ok_def bump_edge_def)
  moreover have "counter k ?e = 0 \<and> (case map_of es ?id of None \<Rightarrow> 0 | Some w \<Rightarrow> counter k w) = 0" if "k \<in> {''sessions'', ''bytes''}" for k
    using ok that by (auto simp: counter_def gov_ok_def bump_edge_def e_def split: option.splits)
  moreover have "dict_ok es" using inv by (simp add: ent_inv_def)
  ultimately show ?thesis by (simp add: g total_dset del: map_map)
qed

lemma resolve_row_ok:
  assumes inv: "ent_inv comms govs s" and apart: "comms \<inter> govs = {}"
    and comm: "row_comm_id H tenant (fst bc) row \<in> comms"
    and gov: "row_rule row \<noteq> [] \<Longrightarrow> row_gov_id H tenant (fst bc) row \<in> govs"
  shows "\<exists>s'. resolve_row H tenant bc row s = Some s' \<and> ent_inv comms govs s'
    \<and> counter_total ''sessions'' (dvalues (snd s')) = counter_total ''sessions'' (dvalues (snd s)) + x_flows row
    \<and> counter_total ''bytes'' (dvalues (snd s')) = counter_total ''bytes'' (dvalues (snd s)) + x_bytes row"
proof -
  obtain ens es where s: "s = (ens, es)" by (cases s)
  let ?seg = "normalize_segment (x_host row)" and ?f = "x_first row" and ?l = "x_last row"
  obtain src en1 where a1: "asset_for H tenant bc (x_src_ip row) ?seg ?f ?l ens = (src, en1)" by force
  obtain dst en2 where a2: "asset_for H tenant bc (x_dst_ip row) ?seg ?f ?l en1 = (dst, en2)" by force
  have e0: "ents_ok ens" using inv s by (simp add: ent_inv_def)
  note A1 = asset_for_ok [OF e0 a1]
  note A2 = asset_for_ok [OF A1(2) a2]
  have "comm_edge_id H tenant src dst \<in> comms"
    using comm A1(1) A2(1) by (simp add: row_comm_id_def row_asset_def)
  moreover have "ent_inv comms govs (en2, es)"
    using ent_inv_entities [OF inv [unfolded s] A2(2)] A1(3) A2(3) by auto
  moreover have "src \<in> dom (map_of en2)" "dst \<in> dom (map_of en2)" using A1(3) A2(3) by auto
  ultimately obtain es1 where c: "comm_for H tenant src dst row es = Some (comm_edge_id H tenant src dst, es1)"
    "ent_inv comms govs (en2, es1)" "comm_edge_id H tenant src dst \<in> dom (map_of es1)"
    "counter_total ''sessions'' (dvalues es1) = counter_total ''sessions'' (dvalues es) + x_flows row"
    "counter_total ''bytes'' (dvalues es1) = counter_total ''bytes'' (dvalues es) + x_bytes row"
    using comm_for_ok [OF _ apart, of en2 es src dst H tenant row] by blast
  show ?thesis
  proof (cases "row_rule row = []")
    case True
    then show ?thesis using s a1 a2 c by (simp add: resolve_row_def Let_def del: map_map)
  next
    case False
    obtain policy en3 where p: "policy_for H tenant (row_provider row) (row_rule row) ?f ?l en2 = (policy, en3)" by force
    note P = policy_for_ok [OF A2(2) p]
    have "ent_inv comms govs (en3, es1)"
      using ent_inv_entities [OF c(2) P(2)] P(3) by auto
    moreover have "ent_edge_id H tenant (comm_edge_id H tenant src dst) policy GOVERNED_BY_E OBSERVED \<in> govs"
      using gov [OF False] A1(1) A2(1) P(1) by (simp add: row_gov_id_def row_comm_id_def row_asset_def)
    ultimately have "ent_inv comms govs (en3, gov_for H tenant (comm_edge_id H tenant src dst) policy (row_rule row) (row_provider row) row es1)
        \<and> counter_total ''sessions'' (dvalues (gov_for H tenant (comm_edge_id H tenant src dst) policy (row_rule row) (row_provider row) row es1))
            = counter_total ''sessions'' (dvalues es1)
        \<and> counter_total ''bytes'' (dvalues (gov_for H tenant (comm_edge_id H tenant src dst) policy (row_rule row) (row_provider row) row es1))
            = counter_total ''bytes'' (dvalues es1)"
      using gov_for_ok [OF _ apart c(3)] P(3) by blast
    then show ?thesis using s a1 a2 c p False by (simp add: resolve_row_def Let_def del: map_map)
  qed
qed

lemma resolve_rows_ok:
  assumes "comms \<inter> govs = {}"
  shows "ent_inv comms govs s \<Longrightarrow> (\<forall>row \<in> set rows. row_comm_id H tenant (fst bc) row \<in> comms
      \<and> (row_rule row \<noteq> [] \<longrightarrow> row_gov_id H tenant (fst bc) row \<in> govs)) \<Longrightarrow>
    \<exists>s'. resolve_rows H tenant bc rows s = Some s' \<and> ent_inv comms govs s'
      \<and> counter_total ''sessions'' (dvalues (snd s')) = counter_total ''sessions'' (dvalues (snd s)) + sum_list (map x_flows rows)
      \<and> counter_total ''bytes'' (dvalues (snd s')) = counter_total ''bytes'' (dvalues (snd s)) + sum_list (map x_bytes rows)"
proof (induction rows arbitrary: s)
  case (Cons row rows)
  obtain s1 where s1: "resolve_row H tenant bc row s = Some s1" "ent_inv comms govs s1"
    "counter_total ''sessions'' (dvalues (snd s1)) = counter_total ''sessions'' (dvalues (snd s)) + x_flows row"
    "counter_total ''bytes'' (dvalues (snd s1)) = counter_total ''bytes'' (dvalues (snd s)) + x_bytes row"
    using resolve_row_ok [OF Cons.prems(1) assms, of H tenant bc row] Cons.prems(2) by auto
  then show ?case using Cons.IH [OF s1(2)] Cons.prems(2) by (auto simp del: map_map)
qed simp

lemma ent_value: "dict_ok d \<Longrightarrow> v \<in> set (dvalues d) \<Longrightarrow> \<exists>k. map_of d k = Some v"
  by (auto simp: dict_ok_def)

lemma ents_ids: "ents_ok ens \<Longrightarrow> map en_id (dvalues ens) = dkeys ens"
  by (auto simp: ents_ok_def dict_ok_def)

lemma asset_key_eq_iff:
  assumes "CHR '':'' \<notin> set seg" and "CHR '':'' \<notin> set seg'"
    and "\<And>k m. map_of bm k = Some m \<Longrightarrow> m \<noteq> []"
  shows "asset_key bm ip seg = asset_key bm ip' seg' \<longleftrightarrow>
     (\<exists>mac. map_of bm (seg, ip) = Some mac \<and> map_of bm (seg', ip') = Some mac)
     \<or> (map_of bm (seg, ip) = None \<and> map_of bm (seg', ip') = None \<and> seg = seg' \<and> ip = ip')"
  using append_sep_first_inj [OF assms(1,2), of ip ip'] assms(3) [of "(seg, ip)"] assms(3) [of "(seg', ip')"]
  by (auto simp: asset_key_def split: option.splits)

section \<open>Properties\<close>

text \<open>The newest ARP observation decides, and conflicts are exact.  The binding of an address in a
  segment is the MAC of one of its observations with the greatest time, there is none exactly when
  no usable observation names it, and it is flagged exactly when two of its observations disagree on
  the MAC or one of them stands for several MACs.\<close>

theorem binding_map_exact:
  "(\<forall>mac. map_of (fst (build_binding_map bs)) key = Some mac \<longrightarrow>
      (\<exists>b \<in> set bs. valid_binding key b \<and> binding_mac b = mac
         \<and> (\<forall>b' \<in> set bs. valid_binding key b' \<longrightarrow> binding_at b' \<le> binding_at b)))
   \<and> (map_of (fst (build_binding_map bs)) key = None \<longleftrightarrow> (\<forall>b \<in> set bs. \<not> valid_binding key b))
   \<and> (key \<in> set (snd (build_binding_map bs)) \<longleftrightarrow>
        (\<exists>b \<in> set bs. valid_binding key b \<and> binding_count b > 1)
        \<or> (\<exists>b \<in> set bs. \<exists>b' \<in> set bs. valid_binding key b \<and> valid_binding key b' \<and> binding_mac b \<noteq> binding_mac b'))"
  using build_binding_map_spec by blast

definition sample_binding :: "string \<Rightarrow> string \<Rightarrow> binding" where
  "sample_binding mac t = \<lparr>b_device = Some ''FW1.lab'', b_ip = Some ''10.0.0.5'', b_mac = Some mac, b_count = None, b_at = Some t\<rparr>"

lemma binding_map_exact_witness:
  "(''fw1'', ''10.0.0.5'') \<in> set (snd (build_binding_map [sample_binding ''AA'' ''t2'', sample_binding ''bb'' ''t1'']))
   \<and> map_of (fst (build_binding_map [sample_binding ''AA'' ''t2'', sample_binding ''bb'' ''t1''])) (''fw1'', ''10.0.0.5'') = Some ''aa''"
proof
  have v: "valid_binding (''fw1'', ''10.0.0.5'') (sample_binding ''AA'' ''t2'')"
    "valid_binding (''fw1'', ''10.0.0.5'') (sample_binding ''bb'' ''t1'')"
    "binding_mac (sample_binding ''AA'' ''t2'') \<noteq> binding_mac (sample_binding ''bb'' ''t1'')"
    by code_simp+
  then show "(''fw1'', ''10.0.0.5'') \<in> set (snd (build_binding_map [sample_binding ''AA'' ''t2'', sample_binding ''bb'' ''t1'']))"
    unfolding conjunct2 [OF conjunct2 [OF binding_map_exact]] by auto
  show "map_of (fst (build_binding_map [sample_binding ''AA'' ''t2'', sample_binding ''bb'' ''t1''])) (''fw1'', ''10.0.0.5'') = Some ''aa''"
    by code_simp
qed


definition sample_agg :: "int \<Rightarrow> string option \<Rightarrow> flow_agg" where
  "sample_agg n rule = \<lparr>x_src_ip = ''10.0.0.5'', x_dst_ip = ''10.0.0.6'', x_host = Some ''fw1'', x_flows = n, x_bytes = 100,
     x_ports = [''443''], x_provider = Some ''panos'', x_transport = Some ''tcp'', x_rule = rule,
     x_first = ''t1'', x_last = ''t2''\<rparr>"


text \<open>Assets are told apart by MAC, else by segment and address.  In segments without a colon two
  addresses have the same asset key exactly when both are bound to the same MAC, or neither is bound
  and segment and address agree; so the same address in two segments is never merged.\<close>

theorem asset_identity:
  assumes "CHR '':'' \<notin> set seg" and "CHR '':'' \<notin> set seg'"
  shows "asset_key (fst (build_binding_map bs)) ip seg = asset_key (fst (build_binding_map bs)) ip' seg' \<longleftrightarrow>
     (\<exists>mac. map_of (fst (build_binding_map bs)) (seg, ip) = Some mac
          \<and> map_of (fst (build_binding_map bs)) (seg', ip') = Some mac)
     \<or> (map_of (fst (build_binding_map bs)) (seg, ip) = None \<and> map_of (fst (build_binding_map bs)) (seg', ip') = None
          \<and> seg = seg' \<and> ip = ip')"
proof (rule asset_key_eq_iff [OF assms])
  fix k m assume "map_of (fst (build_binding_map bs)) k = Some m"
  from build_binding_map_spec(1) [OF this] show "m \<noteq> []" by (auto simp: valid_binding_def)
qed

lemma asset_identity_witness:
  "asset_key (fst (build_binding_map [sample_binding ''AA'' ''t2''])) ''10.0.0.5'' ''fw2''
   \<noteq> asset_key (fst (build_binding_map [sample_binding ''AA'' ''t2''])) ''10.0.0.5'' ''fw3''"
proof -
  have "map_of (fst (build_binding_map [sample_binding ''AA'' ''t2''])) (''fw2'', ''10.0.0.5'') = None" by code_simp
  then show ?thesis
    using asset_identity [of "''fw2''" "''fw3''" "[sample_binding ''AA'' ''t2'']" "''10.0.0.5''" "''10.0.0.5''"] by simp
qed

end
