(* ===== verification/Reconcile.thy ===== *)
theory Reconcile
  imports Entity
begin

text \<open>
  Reconciliation of duplicate assets (\<open>reconcile_assets.py\<close>) and the writer it drives
  (\<open>chwriter.py\<close> of the entity service).  Rows read from the store are records; a malformed counter
  (\<open>ValueError\<close>) is \<open>None\<close>.  The ClickHouse client is a pair of effects \<open>insert\<close> and \<open>command\<close>
  on a store of any type, each of which may raise.
\<close>

section \<open>Rows of the store\<close>

datatype cell = CText string | CReal real | CMap attrs

definition ENTITY_COLUMNS :: "string list" where
  "ENTITY_COLUMNS = [''entity_id'', ''tenant_id'', ''kind'', ''name'', ''identifiers'', ''source'',
     ''identity_basis'', ''confidence'', ''attrs'', ''first_seen'', ''last_seen'']"

definition ENTITY_EDGE_COLUMNS :: "string list" where
  "ENTITY_EDGE_COLUMNS = [''edge_id'', ''tenant_id'', ''src_id'', ''dst_id'', ''edge_type'', ''source'',
     ''confidence'', ''attrs'', ''first_seen'', ''last_seen'']"

definition entity_dict :: "entity \<Rightarrow> (string, cell) dict" where
  "entity_dict n =
     [(''entity_id'', CText (en_id n)), (''tenant_id'', CText (en_tenant n)), (''kind'', CText (en_kind n)),
      (''name'', CText (en_name n)), (''identifiers'', CMap (en_identifiers n)), (''source'', CText (en_source n)),
      (''identity_basis'', CText (en_basis n)), (''confidence'', CReal (en_confidence n)),
      (''attrs'', CMap (en_attrs n)), (''first_seen'', CText (en_first n)), (''last_seen'', CText (en_last n))]"

definition edge_dict :: "ent_edge \<Rightarrow> (string, cell) dict" where
  "edge_dict e =
     [(''edge_id'', CText (ee_id e)), (''tenant_id'', CText (ee_tenant e)), (''src_id'', CText (ee_src e)),
      (''dst_id'', CText (ee_dst e)), (''edge_type'', CText (ee_type e)), (''source'', CText (ee_source e)),
      (''confidence'', CReal (ee_confidence e)), (''attrs'', CMap (ee_attrs e)),
      (''first_seen'', CText (ee_first e)), (''last_seen'', CText (ee_last e))]"

text \<open>\<open>[r[c] for c in columns]\<close>: a missing column is a \<open>KeyError\<close>.\<close>

definition row_of :: "string list \<Rightarrow> (string, 'c) dict \<Rightarrow> 'c list option" where
  "row_of cols d = those (map (map_of d) cols)"

definition entity_rows :: "entity list \<Rightarrow> cell list list option" where
  "entity_rows ns = those (map (row_of ENTITY_COLUMNS \<circ> entity_dict) ns)"

definition entity_edge_rows :: "ent_edge list \<Rightarrow> cell list list option" where
  "entity_edge_rows es = those (map (row_of ENTITY_EDGE_COLUMNS \<circ> edge_dict) es)"

text \<open>\<open>[dict(zip(cols, row)) for row in result_rows]\<close>\<close>

definition query_rows :: "string list \<Rightarrow> 'c list list \<Rightarrow> (string, 'c) dict list" where
  "query_rows cols rows = map (zip cols) rows"

section \<open>The writer\<close>

record 'db client =
  cl_insert :: "string \<Rightarrow> cell list list \<Rightarrow> string list \<Rightarrow> 'db \<Rightarrow> string + 'db"
  cl_command :: "string \<Rightarrow> string \<Rightarrow> string list \<Rightarrow> 'db \<Rightarrow> string + 'db"

definition DELETE_ENTITIES :: string where
  "DELETE_ENTITIES = ''ALTER TABLE ssdf.entities DELETE '' @
     ''WHERE tenant_id = {t:String} AND entity_id IN {ids:Array(String)} '' @
     ''SETTINGS mutations_sync = 1''"

definition DELETE_EDGES :: string where
  "DELETE_EDGES = ''ALTER TABLE ssdf.entity_edges DELETE '' @
     ''WHERE tenant_id = {t:String} AND edge_id IN {ids:Array(String)} '' @
     ''SETTINGS mutations_sync = 1''"

text \<open>Each operation answers the number of rows it was given.\<close>

definition replace_entities :: "'db client \<Rightarrow> entity list \<Rightarrow> 'db \<Rightarrow> string + nat \<times> 'db" where
  "replace_entities c ns db =
     (if ns = [] then Inr (0, db)
      else case entity_rows ns of None \<Rightarrow> Inl ''KeyError''
        | Some rows \<Rightarrow> bind_sum (cl_insert c ''entities'' rows ENTITY_COLUMNS db) (\<lambda>db'. Inr (length ns, db')))"

definition replace_edges :: "'db client \<Rightarrow> ent_edge list \<Rightarrow> 'db \<Rightarrow> string + nat \<times> 'db" where
  "replace_edges c es db =
     (if es = [] then Inr (0, db)
      else case entity_edge_rows es of None \<Rightarrow> Inl ''KeyError''
        | Some rows \<Rightarrow> bind_sum (cl_insert c ''entity_edges'' rows ENTITY_EDGE_COLUMNS db) (\<lambda>db'. Inr (length es, db')))"

definition delete_entities :: "'db client \<Rightarrow> string \<Rightarrow> string list \<Rightarrow> 'db \<Rightarrow> string + nat \<times> 'db" where
  "delete_entities c tenant ids db =
     (if ids = [] then Inr (0, db)
      else bind_sum (cl_command c DELETE_ENTITIES tenant ids db) (\<lambda>db'. Inr (length ids, db')))"

definition delete_edges :: "'db client \<Rightarrow> string \<Rightarrow> string list \<Rightarrow> 'db \<Rightarrow> string + nat \<times> 'db" where
  "delete_edges c tenant ids db =
     (if ids = [] then Inr (0, db)
      else bind_sum (cl_command c DELETE_EDGES tenant ids db) (\<lambda>db'. Inr (length ids, db')))"

section \<open>Planning\<close>

definition macs_by_ip :: "(seg_ip, string) dict \<Rightarrow> (string, string list) dict" where
  "macs_by_ip bm = foldl (\<lambda>d ((segment, ip), mac). dset d ip (List.insert mac (dget_or d ip []))) [] bm"

definition ip_to_unique_mac :: "(seg_ip, string) dict \<Rightarrow> (string, string) dict" where
  "ip_to_unique_mac bm =
     map (\<lambda>(ip, macs). (ip, hd macs)) (filter (\<lambda>(ip, macs). length macs = 1) (macs_by_ip bm))"

definition mac_of :: "entity \<Rightarrow> string" where
  "mac_of a = opt_or (map_of (en_identifiers a) ''mac'') []"

definition mac_asset_by_mac :: "entity list \<Rightarrow> (string, entity) dict" where
  "mac_asset_by_mac as = foldl (\<lambda>d a. dset d (mac_of a) a) [] (filter (\<lambda>a. mac_of a \<noteq> []) as)"

text \<open>The first address of the twin whose MAC is known and anchored.\<close>

fun twin_target :: "(string, string) dict \<Rightarrow> (string, entity) dict \<Rightarrow> string list \<Rightarrow> string option" where
  "twin_target ip_mac anchored [] = None"
| "twin_target ip_mac anchored (ip # ips) =
     (case map_of ip_mac ip of
        None \<Rightarrow> twin_target ip_mac anchored ips
      | Some mac \<Rightarrow>
          (if mac = [] then twin_target ip_mac anchored ips
           else case map_of anchored mac of
               None \<Rightarrow> twin_target ip_mac anchored ips
             | Some a \<Rightarrow> Some (en_id a)))"

definition twin_step ::
  "(string, string) dict \<Rightarrow> (string, entity) dict \<Rightarrow> (string, string) dict \<Rightarrow> entity \<Rightarrow> (string, string) dict" where
  "twin_step ip_mac anchored d twin =
     (case twin_target ip_mac anchored (ip_values (en_identifiers twin)) of
        None \<Rightarrow> d
      | Some i \<Rightarrow> dset d (en_id twin) i)"

definition twin_to_mac_id ::
  "entity list \<Rightarrow> entity list \<Rightarrow> (seg_ip, string) dict \<Rightarrow> (string, string) dict" where
  "twin_to_mac_id ip_only mac_assets bm =
     foldl (twin_step (ip_to_unique_mac bm) (mac_asset_by_mac mac_assets)) [] ip_only"

text \<open>\<open>int(attrs.get(key, "0") or "0")\<close>\<close>

definition count_of :: "string \<Rightarrow> attrs \<Rightarrow> int option" where
  "count_of key a = py_int (str_or (dget_or a key ''0'') ''0'')"

definition merge_count :: "string \<Rightarrow> attrs \<Rightarrow> attrs \<Rightarrow> attrs option" where
  "merge_count key src a =
     (case count_of key a of None \<Rightarrow> None
      | Some i \<Rightarrow> (case count_of key src of None \<Rightarrow> None | Some j \<Rightarrow> Some (dset a key (show_int (i + j)))))"

definition merge_edge_attrs :: "attrs \<Rightarrow> attrs \<Rightarrow> attrs option" where
  "merge_edge_attrs src a =
     (case merge_count ''sessions'' src a of None \<Rightarrow> None
      | Some a1 \<Rightarrow>
         (case merge_count ''bytes'' src a1 of None \<Rightarrow> None
          | Some a2 \<Rightarrow>
             Some (foldl (\<lambda>acc key. merge_set_attr key (set_attr_values src key) acc) a2
                     [''ports'', ''providers'', ''transports'', ''observer_hosts''])))"

definition merge_edge :: "ent_edge \<Rightarrow> ent_edge \<Rightarrow> ent_edge option" where
  "merge_edge edge target =
     (case merge_edge_attrs (ee_attrs edge) (ee_attrs target) of None \<Rightarrow> None
      | Some a \<Rightarrow> Some (target\<lparr>ee_attrs := a, ee_first := min (ee_first target) (ee_first edge),
                                ee_last := max (ee_last target) (ee_last edge)\<rparr>))"

definition redirect :: "(string, string) dict \<Rightarrow> string \<Rightarrow> string" where
  "redirect twins x = dget_or twins x x"

definition touches :: "(string, string) dict \<Rightarrow> ent_edge \<Rightarrow> bool" where
  "touches twins e \<longleftrightarrow> dhas twins (ee_src e) \<or> dhas twins (ee_dst e)"

definition fresh_target :: "string \<Rightarrow> string \<Rightarrow> string \<Rightarrow> string \<Rightarrow> ent_edge \<Rightarrow> ent_edge" where
  "fresh_target tenant eid src dst edge =
     (new_edge tenant eid src dst COMMUNICATED_WITH comm_attrs0)
        \<lparr>ee_first := ee_first edge, ee_last := ee_last edge\<rparr>"

definition comm_by_id :: "ent_edge list \<Rightarrow> (string, ent_edge) dict" where
  "comm_by_id es = foldl (\<lambda>d e. dset d (ee_id e) e) [] es"

record plan =
  p_merged :: "(string, ent_edge) dict"
  p_del_edges :: "string list"

definition moved_id :: "(string \<Rightarrow> string) \<Rightarrow> string \<Rightarrow> (string, string) dict \<Rightarrow> ent_edge \<Rightarrow> string" where
  "moved_id H tenant twins e = comm_edge_id H tenant (redirect twins (ee_src e)) (redirect twins (ee_dst e))"

definition seed_of :: "(string \<Rightarrow> string) \<Rightarrow> string \<Rightarrow> (string, string) dict \<Rightarrow> (string, ent_edge) dict \<Rightarrow> ent_edge \<Rightarrow> ent_edge" where
  "seed_of H tenant twins by_id e =
     (case map_of by_id (moved_id H tenant twins e) of
        Some seed \<Rightarrow> seed
      | None \<Rightarrow> fresh_target tenant (moved_id H tenant twins e)
                  (redirect twins (ee_src e)) (redirect twins (ee_dst e)) e)"

definition plan_edge ::
  "(string \<Rightarrow> string) \<Rightarrow> string \<Rightarrow> (string, string) dict \<Rightarrow> (string, ent_edge) dict \<Rightarrow> ent_edge list
     \<Rightarrow> ent_edge \<Rightarrow> plan \<Rightarrow> plan option" where
  "plan_edge H tenant twins by_id govs edge p =
     (if \<not> touches twins edge then Some p
      else
        (let new_id = moved_id H tenant twins edge;
             target = (case map_of (p_merged p) new_id of
                         Some t \<Rightarrow> t | None \<Rightarrow> seed_of H tenant twins by_id edge)
         in case merge_edge edge target of None \<Rightarrow> None
            | Some t \<Rightarrow> Some \<lparr>p_merged = dset (p_merged p) new_id t,
                p_del_edges = p_del_edges p @ ee_id edge # map ee_id (filter (\<lambda>g. ee_src g = ee_id edge) govs)\<rparr>))"

fun plan_edges ::
  "(string \<Rightarrow> string) \<Rightarrow> string \<Rightarrow> (string, string) dict \<Rightarrow> (string, ent_edge) dict \<Rightarrow> ent_edge list
     \<Rightarrow> ent_edge list \<Rightarrow> plan \<Rightarrow> plan option" where
  "plan_edges H tenant twins by_id govs [] p = Some p"
| "plan_edges H tenant twins by_id govs (e # es) p =
     (case plan_edge H tenant twins by_id govs e p of None \<Rightarrow> None
      | Some p' \<Rightarrow> plan_edges H tenant twins by_id govs es p')"

record reconciliation =
  merged_edges :: "ent_edge list"
  delete_entity_ids :: "string list"
  delete_edge_ids :: "string list"

definition plan_reconciliation ::
  "(string \<Rightarrow> string) \<Rightarrow> entity list \<Rightarrow> entity list \<Rightarrow> ent_edge list \<Rightarrow> ent_edge list
     \<Rightarrow> (seg_ip, string) dict \<Rightarrow> string \<Rightarrow> reconciliation option" where
  "plan_reconciliation H ip_only mac_assets comms govs bm tenant =
     (let twins = twin_to_mac_id ip_only mac_assets bm in
      case plan_edges H tenant twins (comm_by_id comms) govs comms \<lparr>p_merged = [], p_del_edges = []\<rparr> of
        None \<Rightarrow> None
      | Some p \<Rightarrow> Some \<lparr>merged_edges = dvalues (p_merged p), delete_entity_ids = dkeys twins,
                         delete_edge_ids = p_del_edges p\<rparr>)"

text \<open>The tables as \<open>reconcile\<close> reads them, and the three writes in their order.\<close>

definition reconcile ::
  "(string \<Rightarrow> string) \<Rightarrow> 'db client \<Rightarrow> string \<Rightarrow> entity list \<Rightarrow> entity list \<Rightarrow> ent_edge list \<Rightarrow> ent_edge list
     \<Rightarrow> binding list \<Rightarrow> 'db \<Rightarrow> string + reconciliation \<times> 'db" where
  "reconcile H c tenant ip_only mac_assets comms govs bindings db =
     (case plan_reconciliation H ip_only mac_assets comms govs (fst (build_binding_map bindings)) tenant of
        None \<Rightarrow> Inl ''ValueError''
      | Some r \<Rightarrow>
          bind_sum (replace_edges c (merged_edges r) db) (\<lambda>(n1, db1).
          bind_sum (delete_edges c tenant (delete_edge_ids r) db1) (\<lambda>(n2, db2).
          bind_sum (delete_entities c tenant (delete_entity_ids r) db2) (\<lambda>(n3, db3). Inr (r, db3)))))"

lemma those_map_Some: "those (map (\<lambda>x. Some (f x)) xs) = Some (map f xs)"
  by (induction xs) simp_all

section \<open>Totals over a finite map\<close>

definition map_total :: "('v \<Rightarrow> int) \<Rightarrow> ('k \<Rightarrow> 'v option) \<Rightarrow> int" where
  "map_total f m = (\<Sum>k \<in> dom m. f (the (m k)))"

lemma map_total_upd:
  assumes "finite (dom m)"
  shows "map_total f (m(k \<mapsto> v)) = map_total f m - (case m k of None \<Rightarrow> 0 | Some w \<Rightarrow> f w) + f v"
proof -
  have rest: "(\<Sum>x \<in> dom m - {k}. f (the ((m(k \<mapsto> v)) x))) = (\<Sum>x \<in> dom m - {k}. f (the (m x)))"
    by (rule sum.cong) auto
  have "map_total f (m(k \<mapsto> v)) = f v + (\<Sum>x \<in> dom m - {k}. f (the (m x)))"
    unfolding map_total_def dom_fun_upd using rest
    by (simp add: sum.insert_remove [OF assms])
  moreover have "map_total f m = (case m k of None \<Rightarrow> 0 | Some w \<Rightarrow> f w) + (\<Sum>x \<in> dom m - {k}. f (the (m x)))"
    unfolding map_total_def using assms
    by (cases "m k") (auto simp: sum.remove [of "dom m" k] domIff)
  ultimately show ?thesis by simp
qed

lemma map_total_del:
  assumes "finite (dom m)"
  shows "map_total f (m(k := None)) = map_total f m - (case m k of None \<Rightarrow> 0 | Some w \<Rightarrow> f w)"
proof -
  have "(\<Sum>x \<in> dom m - {k}. f (the ((m(k := None)) x))) = (\<Sum>x \<in> dom m - {k}. f (the (m x)))"
    by (rule sum.cong) auto
  then show ?thesis
    unfolding map_total_def using assms
    by (cases "m k") (auto simp: sum.remove [of "dom m" k] domIff)
qed

lemma map_total_dict: "dict_ok d \<Longrightarrow> map_total f (map_of d) = sum_list (map f (dvalues d))"
proof (induction d)
  case Nil
  then show ?case by (simp add: map_total_def)
next
  case (Cons p d)
  obtain k v where p: "p = (k, v)" by (cases p)
  have fresh: "map_of d k = None" and ok: "dict_ok d"
    using Cons.prems p by (simp_all add: dict_ok_def map_of_eq_None_iff)
  have "map_total f (map_of (p # d)) = map_total f ((map_of d)(k \<mapsto> v))" by (simp add: p)
  also have "\<dots> = map_total f (map_of d) + f v"
    using fresh by (subst map_total_upd) (simp_all add: finite_dom_map_of)
  finally show ?case using Cons.IH [OF ok] p by (simp add: fun_upd_def)
qed

definition keyed :: "('v \<Rightarrow> 'k) \<Rightarrow> 'v list \<Rightarrow> ('k, 'v) dict" where
  "keyed key vs = map (\<lambda>v. (key v, v)) vs"

lemma map_of_keyed_mem:
  "map_of (keyed key vs) k = Some v \<Longrightarrow> v \<in> set vs \<and> key v = k"
  by (induction vs) (auto simp: keyed_def split: if_splits)

lemma keyed_ok: "dict_ok (keyed key vs) \<longleftrightarrow> distinct (map key vs)"
  by (simp add: dict_ok_def keyed_def comp_def)

lemma map_of_keyed_in: "distinct (map key vs) \<Longrightarrow> v \<in> set vs \<Longrightarrow> map_of (keyed key vs) (key v) = Some v"
  using dict_ok_map_of [of "keyed key vs" "key v" v] by (auto simp: keyed_ok) (auto simp: keyed_def)

lemma map_of_keyed_None: "map_of (keyed key vs) k = None \<longleftrightarrow> k \<notin> key ` set vs"
  by (auto simp: map_of_eq_None_iff keyed_def image_iff)

lemma comm_by_id_map: "map_of (comm_by_id es) = map_of (rev (keyed ee_id es))"
proof -
  have "map_of (foldl (\<lambda>d e. dset d (ee_id e) e) d es) k =
      (case map_of (rev (keyed ee_id es)) k of None \<Rightarrow> map_of d k | Some e \<Rightarrow> Some e)" for d k
    by (induction es arbitrary: d) (auto simp: keyed_def map_add_def split: option.splits)
  from this [of "[]"] show ?thesis by (auto simp: comm_by_id_def fun_eq_iff split: option.splits)
qed

lemma comm_by_id_keyed: "distinct (map ee_id es) \<Longrightarrow> map_of (comm_by_id es) = map_of (keyed ee_id es)"
  using map_of_rev [of "keyed ee_id es"] by (simp add: comm_by_id_map keyed_ok)

section \<open>The twins\<close>

lemma twin_target_anchored:
  "twin_target ip_mac anchored ips = Some i \<Longrightarrow> \<exists>mac a. map_of anchored mac = Some a \<and> i = en_id a"
  by (induction ips) (auto split: option.splits if_splits)

lemma mac_asset_by_mac_mem:
  assumes "map_of (mac_asset_by_mac as) mac = Some a"
  shows "a \<in> set as \<and> mac_of a = mac \<and> mac \<noteq> []"
proof -
  have "map_of (foldl (\<lambda>d a. dset d (mac_of a) a) d as) mac = Some a \<Longrightarrow>
     map_of d mac = Some a \<or> a \<in> set as \<and> mac_of a = mac" for d as
    by (induction as arbitrary: d) (force split: if_splits)+
  from this [of "[]" "filter (\<lambda>a. mac_of a \<noteq> []) as"] assms show ?thesis
    by (auto simp: mac_asset_by_mac_def)
qed

definition twins_ok :: "string set \<Rightarrow> string set \<Rightarrow> (string, string) dict \<Rightarrow> bool" where
  "twins_ok A B d \<longleftrightarrow> dict_ok d \<and> (\<forall>k v. map_of d k = Some v \<longrightarrow> k \<in> A \<and> v \<in> B)"

lemma twin_step_ok:
  assumes "twins_ok A B d" and "en_id t \<in> A" and "\<And>mac a. map_of anchored mac = Some a \<Longrightarrow> en_id a \<in> B"
  shows "twins_ok A B (twin_step ip_mac anchored d t)"
proof (cases "twin_target ip_mac anchored (ip_values (en_identifiers t))")
  case None
  then show ?thesis using assms(1) by (simp add: twin_step_def)
next
  case (Some i)
  then have "i \<in> B" using twin_target_anchored assms(3) by blast
  then show ?thesis using Some assms(1,2) by (simp add: twin_step_def twins_ok_def)
qed

lemma twin_to_mac_id_ok:
  "twins_ok (en_id ` set ip_only) (en_id ` set mac_assets) (twin_to_mac_id ip_only mac_assets bm)"
proof -
  have anchored: "map_of (mac_asset_by_mac mac_assets) mac = Some a \<Longrightarrow> en_id a \<in> en_id ` set mac_assets" for mac a
    using mac_asset_by_mac_mem by blast
  have "twins_ok A (en_id ` set mac_assets) (foldl (twin_step (ip_to_unique_mac bm) (mac_asset_by_mac mac_assets)) d ts)"
    if "twins_ok A (en_id ` set mac_assets) d" and "en_id ` set ts \<subseteq> A" for A d ts
    using that
  proof (induction ts arbitrary: d)
    case (Cons t ts)
    have "twins_ok A (en_id ` set mac_assets) (twin_step (ip_to_unique_mac bm) (mac_asset_by_mac mac_assets) d t)"
      by (rule twin_step_ok [OF Cons.prems(1)]) (use Cons.prems(2) anchored in simp_all)
    then show ?case using Cons.IH Cons.prems(2) by simp
  qed simp
  from this [of "en_id ` set ip_only" "[]" ip_only]
  show ?thesis unfolding twin_to_mac_id_def by (simp add: twins_ok_def)
qed

lemma redirect_untouched:
  assumes "twins_ok A B d" and "A \<inter> B = {}"
  shows "\<not> dhas d (redirect d x)"
  using assms unfolding twins_ok_def redirect_def dget_or_def dhas_def
  by (cases "map_of d x") (simp_all, metis disjoint_iff option.exhaust)

section \<open>Merging counts\<close>

lemma count_of_counter: "count_of key (ee_attrs e) = Some i \<Longrightarrow> counter key e = i"
proof -
  have "py_int ''0'' = Some 0" by code_simp
  moreover have "py_int [] = None" by code_simp
  ultimately show "count_of key (ee_attrs e) = Some i \<Longrightarrow> counter key e = i"
    by (auto simp: count_of_def counter_def dget_or_def str_or_def split: option.splits if_splits)
qed

lemma count_of_dset: "count_of k (dset a key (show_int i)) = (if k = key then Some i else count_of k a)"
  by (simp add: count_of_def dget_or_def str_or_def)

lemma count_of_merge_set: "k \<noteq> key \<Longrightarrow> count_of k (merge_set_attr key vs a) = count_of k a"
  by (simp add: count_of_def dget_or_def merge_set_attr_other)

definition counts_ok :: "ent_edge \<Rightarrow> bool" where
  "counts_ok e \<longleftrightarrow> count_of ''sessions'' (ee_attrs e) \<noteq> None \<and> count_of ''bytes'' (ee_attrs e) \<noteq> None"

lemma merge_edge_counts:
  assumes "counts_ok e" and "counts_ok t"
  obtains t' where "merge_edge e t = Some t'" and "counts_ok t'"
    and "\<And>key. key \<in> {''sessions'', ''bytes''} \<Longrightarrow> counter key t' = counter key t + counter key e"
    and "ee_src t' = ee_src t" and "ee_dst t' = ee_dst t" and "ee_id t' = ee_id t"
proof -
  obtain i j i' j' where c: "count_of ''sessions'' (ee_attrs e) = Some i" "count_of ''bytes'' (ee_attrs e) = Some j"
      "count_of ''sessions'' (ee_attrs t) = Some i'" "count_of ''bytes'' (ee_attrs t) = Some j'"
    using assms unfolding counts_ok_def by auto
  define a2 where "a2 = dset (dset (ee_attrs t) ''sessions'' (show_int (i' + i))) ''bytes'' (show_int (j' + j))"
  define a3 where "a3 = foldl (\<lambda>acc key. merge_set_attr key (set_attr_values (ee_attrs e) key) acc) a2
      [''ports'', ''providers'', ''transports'', ''observer_hosts'']"
  have ok: "merge_edge_attrs (ee_attrs e) (ee_attrs t) = Some a3"
    by (simp add: merge_edge_attrs_def merge_count_def c count_of_dset a2_def a3_def)
  have "count_of ''sessions'' a3 = Some (i' + i)" "count_of ''bytes'' a3 = Some (j' + j)"
    by (simp_all add: a3_def a2_def count_of_merge_set count_of_dset)
  then show thesis
    using ok c
    by (intro that [of "t\<lparr>ee_attrs := a3, ee_first := min (ee_first t) (ee_first e), ee_last := max (ee_last t) (ee_last e)\<rparr>"])
      (auto simp: merge_edge_def counts_ok_def count_of_counter)
qed

section \<open>What a plan does to the edge table\<close>

text \<open>The edge table as a map of ids, after the merged edges are upserted and the deleted ones are gone.\<close>

definition table_after :: "ent_edge list \<Rightarrow> (string, ent_edge) dict \<Rightarrow> string list \<Rightarrow> string \<Rightarrow> ent_edge option" where
  "table_after comms merged deleted k =
     (if k \<in> set deleted then None else (map_of (keyed ee_id comms) ++ map_of merged) k)"

definition moved_pairs :: "(string, string) dict \<Rightarrow> ent_edge list \<Rightarrow> (string \<times> string) set" where
  "moved_pairs twins comms = (\<lambda>e. (ee_src e, ee_dst e)) ` set comms
     \<union> (\<lambda>e. (redirect twins (ee_src e), redirect twins (ee_dst e))) ` set comms"

text \<open>The tables \<open>reconcile\<close> reads: ids are the hashes of the end points, without collisions, and the
  counters of the edges are numbers.\<close>

definition tables_ok ::
  "(string \<Rightarrow> string) \<Rightarrow> string \<Rightarrow> (string, string) dict \<Rightarrow> ent_edge list \<Rightarrow> ent_edge list \<Rightarrow> bool" where
  "tables_ok H tenant twins comms govs \<longleftrightarrow>
     distinct (map ee_id comms)
     \<and> (\<forall>e \<in> set comms. ee_id e = comm_edge_id H tenant (ee_src e) (ee_dst e) \<and> counts_ok e)
     \<and> inj_on (\<lambda>(s, d). comm_edge_id H tenant s d) (moved_pairs twins comms)
     \<and> (\<forall>g \<in> set govs. \<forall>(s, d) \<in> moved_pairs twins comms. ee_id g \<noteq> comm_edge_id H tenant s d)"

lemma moved_eq:
  assumes "tables_ok H tenant twins comms govs" and "e \<in> set comms" and "e' \<in> set comms"
    and "moved_id H tenant twins e = ee_id e'"
  shows "ee_src e' = redirect twins (ee_src e)" and "ee_dst e' = redirect twins (ee_dst e)"
proof -
  let ?h = "\<lambda>(s, d). comm_edge_id H tenant s d"
  have inj: "inj_on ?h (moved_pairs twins comms)"
    and id: "ee_id e' = comm_edge_id H tenant (ee_src e') (ee_dst e')"
    using assms(1,3) unfolding tables_ok_def by blast+
  have "?h (ee_src e', ee_dst e') = ?h (redirect twins (ee_src e), redirect twins (ee_dst e))"
    using assms(4) id by (simp add: moved_id_def)
  moreover have "(ee_src e', ee_dst e') \<in> moved_pairs twins comms"
      "(redirect twins (ee_src e), redirect twins (ee_dst e)) \<in> moved_pairs twins comms"
    using assms(2,3) by (auto simp: moved_pairs_def)
  ultimately have "(ee_src e', ee_dst e') = (redirect twins (ee_src e), redirect twins (ee_dst e))"
    by (rule inj_onD [OF inj])
  then show "ee_src e' = redirect twins (ee_src e)" and "ee_dst e' = redirect twins (ee_dst e)" by simp_all
qed

lemma gov_not_comm:
  assumes "tables_ok H tenant twins comms govs" and "g \<in> set govs" and "e \<in> set comms"
  shows "ee_id g \<noteq> ee_id e" and "ee_id g \<noteq> moved_id H tenant twins e"
proof -
  have "(ee_src e, ee_dst e) \<in> moved_pairs twins comms"
    "(redirect twins (ee_src e), redirect twins (ee_dst e)) \<in> moved_pairs twins comms"
    using assms(3) by (auto simp: moved_pairs_def)
  moreover have "\<forall>(s, d) \<in> moved_pairs twins comms. ee_id g \<noteq> comm_edge_id H tenant s d"
    and "ee_id e = comm_edge_id H tenant (ee_src e) (ee_dst e)"
    using assms unfolding tables_ok_def by blast+
  ultimately show "ee_id g \<noteq> ee_id e" and "ee_id g \<noteq> moved_id H tenant twins e"
    unfolding moved_id_def by fastforce+
qed

text \<open>What is known of the plan when the edges \<open>past\<close> have been planned.\<close>

definition gone :: "(string, string) dict \<Rightarrow> ent_edge list \<Rightarrow> ent_edge list \<Rightarrow> string set" where
  "gone twins past govs = ee_id ` {e \<in> set past. touches twins e}
     \<union> ee_id ` {g \<in> set govs. ee_src g \<in> ee_id ` {e \<in> set past. touches twins e}}"

definition plan_inv ::
  "(string \<Rightarrow> string) \<Rightarrow> string \<Rightarrow> (string, string) dict \<Rightarrow> ent_edge list \<Rightarrow> ent_edge list \<Rightarrow> ent_edge list \<Rightarrow> plan \<Rightarrow> bool" where
  "plan_inv H tenant twins comms govs past p \<longleftrightarrow>
     dict_ok (p_merged p)
     \<and> set (p_del_edges p) = gone twins past govs
     \<and> (\<forall>k t. map_of (p_merged p) k = Some t \<longrightarrow>
           ee_id t = k \<and> counts_ok t \<and> \<not> touches twins t \<and> k \<in> moved_id H tenant twins ` {e \<in> set comms. touches twins e})
     \<and> (\<forall>key \<in> {''sessions'', ''bytes''}.
           map_total (counter key) (table_after comms (p_merged p) (p_del_edges p)) = counter_total key comms)"

lemma fresh_counts:
  "counts_ok (fresh_target tenant eid s d e)"
  "key \<in> {''sessions'', ''bytes''} \<Longrightarrow> counter key (fresh_target tenant eid s d e) = 0"
proof -
  have "py_int ''0'' = Some 0" by code_simp
  then show "counts_ok (fresh_target tenant eid s d e)"
    "key \<in> {''sessions'', ''bytes''} \<Longrightarrow> counter key (fresh_target tenant eid s d e) = 0"
    by (auto simp: fresh_target_def new_edge_def comm_attrs0_def counts_ok_def count_of_def dget_or_def str_or_def counter_def)
qed

lemma target_ok:
  assumes inv: "plan_inv H tenant twins comms govs past p" and ok: "tables_ok H tenant twins comms govs"
    and e: "e \<in> set comms" and settled: "\<And>x. \<not> dhas twins (redirect twins x)"
    and new: "moved_id H tenant twins e \<notin> set (p_del_edges p)"
  defines "t \<equiv> (case map_of (p_merged p) (moved_id H tenant twins e) of
      Some t \<Rightarrow> t | None \<Rightarrow> seed_of H tenant twins (comm_by_id comms) e)"
  shows "counts_ok t" and "ee_id t = moved_id H tenant twins e" and "\<not> touches twins t"
    and "key \<in> {''sessions'', ''bytes''} \<Longrightarrow>
      counter key t = (case table_after comms (p_merged p) (p_del_edges p) (moved_id H tenant twins e) of
         None \<Rightarrow> 0 | Some w \<Rightarrow> counter key w)"
proof -
  let ?new = "moved_id H tenant twins e"
  have by_id: "map_of (comm_by_id comms) = map_of (keyed ee_id comms)"
    using ok by (simp add: tables_ok_def comm_by_id_keyed)
  have cases: "counts_ok t \<and> ee_id t = ?new \<and> \<not> touches twins t \<and> (key \<in> {''sessions'', ''bytes''} \<longrightarrow>
      counter key t = (case table_after comms (p_merged p) (p_del_edges p) ?new of None \<Rightarrow> 0 | Some w \<Rightarrow> counter key w))" for key
  proof (cases "map_of (p_merged p) ?new")
    case (Some u)
    then show ?thesis using inv new by (simp add: t_def plan_inv_def table_after_def)
  next
    case none: None
    show ?thesis
    proof (cases "map_of (keyed ee_id comms) ?new")
      case (Some u)
      then have "u \<in> set comms" and "ee_id u = ?new" using map_of_keyed_mem by metis+
      moreover from this have "\<not> touches twins u" and "counts_ok u"
        using moved_eq [OF ok e, of u] settled ok by (auto simp: touches_def tables_ok_def)
      ultimately show ?thesis
        using none Some new by (simp add: t_def seed_of_def by_id table_after_def map_add_def)
    next
      case None
      then show ?thesis
        using none settled fresh_counts new
        by (simp add: t_def seed_of_def by_id table_after_def map_add_def touches_def)
          (simp add: fresh_target_def new_edge_def)
    qed
  qed
  show "counts_ok t" and "ee_id t = ?new" and "\<not> touches twins t"
    using cases by blast+
  show "key \<in> {''sessions'', ''bytes''} \<Longrightarrow>
      counter key t = (case table_after comms (p_merged p) (p_del_edges p) ?new of None \<Rightarrow> 0 | Some w \<Rightarrow> counter key w)"
    using cases by blast
qed

lemma gone_snoc:
  "gone twins (past @ [e]) govs =
     (if touches twins e then insert (ee_id e) (ee_id ` {g \<in> set govs. ee_src g = ee_id e} \<union> gone twins past govs)
      else gone twins past govs)"
  by (auto simp: gone_def)

lemma plan_edge_ok:
  assumes inv: "plan_inv H tenant twins comms govs past p" and ok: "tables_ok H tenant twins comms govs"
    and e: "e \<in> set comms" and past: "set past \<subseteq> set comms" "ee_id e \<notin> ee_id ` set past"
    and settled: "\<And>x. \<not> dhas twins (redirect twins x)"
  obtains p' where "plan_edge H tenant twins (comm_by_id comms) govs e p = Some p'"
    and "plan_inv H tenant twins comms govs (past @ [e]) p'"
proof (cases "touches twins e")
  case False
  then have "plan_inv H tenant twins comms govs (past @ [e]) p"
    using inv by (simp add: plan_inv_def gone_snoc)
  then show thesis using False that by (simp add: plan_edge_def)
next
  case True
  let ?new = "moved_id H tenant twins e"
  define t where "t = (case map_of (p_merged p) ?new of
      Some t \<Rightarrow> t | None \<Rightarrow> seed_of H tenant twins (comm_by_id comms) e)"
  have gone: "set (p_del_edges p) = gone twins past govs"
    and dok: "dict_ok (p_merged p)"
    and vals: "\<And>k u. map_of (p_merged p) k = Some u \<Longrightarrow>
       ee_id u = k \<and> counts_ok u \<and> \<not> touches twins u \<and> k \<in> moved_id H tenant twins ` {e \<in> set comms. touches twins e}"
    and total: "\<And>key. key \<in> {''sessions'', ''bytes''} \<Longrightarrow>
       map_total (counter key) (table_after comms (p_merged p) (p_del_edges p)) = counter_total key comms"
    using inv unfolding plan_inv_def by blast+
  have dist: "distinct (map ee_id comms)" and e_ok: "counts_ok e"
    using ok e by (simp_all add: tables_ok_def)
  have moved_new: "moved_id H tenant twins e1 \<noteq> ee_id e2"
    if "e1 \<in> set comms" "e2 \<in> set comms" "touches twins e2" for e1 e2
    using moved_eq [OF ok that(1,2)] settled that(3) by (auto simp: touches_def)
  have new_ne: "?new \<noteq> ee_id e" using moved_new [OF e e True] .
  have new_kept: "?new \<notin> gone twins past govs"
  proof
    assume "?new \<in> gone twins past govs"
    then consider e' where "e' \<in> set past" "touches twins e'" "?new = ee_id e'" | g where "g \<in> set govs" "?new = ee_id g"
      unfolding gone_def by blast
    then show False
      using moved_new [OF e] gov_not_comm(2) [OF ok _ e] past(1) by cases (metis subsetD)+
  qed
  have e_kept: "ee_id e \<notin> gone twins past govs"
    using past(2) gov_not_comm(1) [OF ok _ e] unfolding gone_def by fastforce
  have t_ok: "counts_ok t" "ee_id t = ?new" "\<not> touches twins t"
    and t_count: "\<And>key. key \<in> {''sessions'', ''bytes''} \<Longrightarrow> counter key t =
       (case table_after comms (p_merged p) (p_del_edges p) ?new of None \<Rightarrow> 0 | Some w \<Rightarrow> counter key w)"
    using target_ok [OF inv ok e settled] new_kept unfolding gone t_def by blast+
  obtain t' where t': "merge_edge e t = Some t'" "counts_ok t'" "ee_src t' = ee_src t" "ee_dst t' = ee_dst t" "ee_id t' = ee_id t"
    and sum: "\<And>key. key \<in> {''sessions'', ''bytes''} \<Longrightarrow> counter key t' = counter key t + counter key e"
    using merge_edge_counts [OF e_ok t_ok(1)] by metis
  define p' where "p' = \<lparr>p_merged = dset (p_merged p) ?new t',
      p_del_edges = p_del_edges p @ ee_id e # map ee_id (filter (\<lambda>g. ee_src g = ee_id e) govs)\<rparr>"
  have step: "plan_edge H tenant twins (comm_by_id comms) govs e p = Some p'"
    using True t' by (simp add: plan_edge_def Let_def p'_def t_def)
  let ?m = "table_after comms (p_merged p) (p_del_edges p)"
  have govs_none: "map_of (keyed ee_id comms) (ee_id g) = None" "map_of (p_merged p) (ee_id g) = None"
    if "g \<in> set govs" for g
  proof -
    show "map_of (keyed ee_id comms) (ee_id g) = None"
      using gov_not_comm(1) [OF ok that] by (auto simp: map_of_keyed_None)
    show "map_of (p_merged p) (ee_id g) = None"
      using gov_not_comm(2) [OF ok that] vals by (cases "map_of (p_merged p) (ee_id g)") blast+
  qed
  have e_in: "?m (ee_id e) = Some e"
  proof -
    have "map_of (p_merged p) (ee_id e) = None"
      using vals moved_new [OF _ e True] by (metis (mono_tags, lifting) image_iff mem_Collect_eq option.exhaust)
    then show ?thesis
      using e_kept map_of_keyed_in [OF dist e] by (simp add: table_after_def gone map_add_def)
  qed
  have view: "table_after comms (p_merged p') (p_del_edges p') = (?m(?new \<mapsto> t'))(ee_id e := None)"
    using new_kept new_ne govs_none gov_not_comm(2) [OF ok _ e]
    by (auto simp: table_after_def p'_def gone map_add_def fun_eq_iff split: option.splits)
  have fin: "finite (dom ?m)"
    by (rule finite_subset [of _ "dom (map_of (keyed ee_id comms) ++ map_of (p_merged p))"])
      (auto simp: table_after_def finite_dom_map_of split: if_splits)
  have "map_total (counter key) (table_after comms (p_merged p') (p_del_edges p')) = counter_total key comms"
    if key: "key \<in> {''sessions'', ''bytes''}" for key
  proof -
    have "map_total (counter key) (table_after comms (p_merged p') (p_del_edges p'))
        = map_total (counter key) ?m - counter key t + counter key t' - counter key e"
      unfolding view using fin new_ne e_in t_count [OF key]
      by (simp add: map_total_del map_total_upd)
    then show ?thesis using sum [OF key] total [OF key] by simp
  qed
  moreover have "set (p_del_edges p') = gone twins (past @ [e]) govs"
    using True gone by (auto simp: gone_snoc p'_def)
  moreover have "ee_id u = k \<and> counts_ok u \<and> \<not> touches twins u \<and> k \<in> moved_id H tenant twins ` {e \<in> set comms. touches twins e}"
    if "map_of (p_merged p') k = Some u" for k u
  proof (cases "k = ?new")
    case same: True
    then have "u = t'" using that by (simp add: p'_def)
    then show ?thesis using t' t_ok same True e by (auto simp: touches_def)
  next
    case False
    then show ?thesis using that vals by (simp add: p'_def)
  qed
  moreover have "dict_ok (p_merged p')" using dok by (simp add: p'_def)
  ultimately have "plan_inv H tenant twins comms govs (past @ [e]) p'"
    unfolding plan_inv_def by blast
  then show thesis using that step by blast
qed

lemma plan_edges_ok:
  assumes ok: "tables_ok H tenant twins comms govs" and settled: "\<And>x. \<not> dhas twins (redirect twins x)"
    and "plan_inv H tenant twins comms govs past p" and "comms = past @ rest"
  obtains p' where "plan_edges H tenant twins (comm_by_id comms) govs rest p = Some p'"
    and "plan_inv H tenant twins comms govs comms p'"
  using assms(3,4)
proof (induction rest arbitrary: past p thesis)
  case Nil
  then show ?case by simp
next
  case (Cons e rest)
  have "distinct (map ee_id comms)" using ok by (simp add: tables_ok_def)
  then have fresh: "ee_id e \<notin> ee_id ` set past" and in_comms: "e \<in> set comms" "set past \<subseteq> set comms"
    using Cons.prems(3) by auto
  obtain p1 where p1: "plan_edge H tenant twins (comm_by_id comms) govs e p = Some p1"
      "plan_inv H tenant twins comms govs (past @ [e]) p1"
    using plan_edge_ok [OF Cons.prems(2) ok in_comms(1,2) fresh settled] by blast
  show ?case
    by (rule Cons.IH [OF _ p1(2)]) (use Cons.prems(1,3) p1(1) in simp_all)
qed

lemma keyed_dvalues: "(\<And>k v. (k, v) \<in> set d \<Longrightarrow> key v = k) \<Longrightarrow> keyed key (dvalues d) = d"
  by (induction d) (auto simp: keyed_def)

lemma dvalues_keyed: "dvalues (keyed key vs) = vs"
  by (induction vs) (simp_all add: keyed_def)

lemma restrict_UNIV: "m |` UNIV = m"
  by (simp add: restrict_map_def)

lemma plan_inv_start: "distinct (map ee_id comms) \<Longrightarrow> plan_inv H tenant twins comms govs [] \<lparr>p_merged = [], p_del_edges = []\<rparr>"
proof -
  assume d: "distinct (map ee_id comms)"
  have "table_after comms [] [] = map_of (keyed ee_id comms)" by (simp add: table_after_def fun_eq_iff)
  moreover have "map_total (counter key) (map_of (keyed ee_id comms)) = counter_total key comms" for key
    using map_total_dict [of "keyed ee_id comms" "counter key"] d
    by (simp add: keyed_ok counter_total_def dvalues_keyed)
  ultimately show ?thesis by (simp add: plan_inv_def gone_def)
qed

section \<open>The store\<close>

text \<open>What \<open>reconcile\<close> relies on of ClickHouse: inserting into a replacing table shows the newest row of
  each key, a synchronous delete removes the named keys, and neither touches the other table.  \<open>edges\<close>
  and \<open>ents\<close> are the tables of one tenant as a \<open>FINAL\<close> query reads them.\<close>

locale entity_store =
  fixes c :: "'db client"
    and edges :: "'db \<Rightarrow> string \<Rightarrow> ent_edge option"
    and ents :: "'db \<Rightarrow> string \<Rightarrow> entity option"
    and tenant :: string
  assumes insert_edges: "entity_edge_rows es = Some rows \<Longrightarrow>
      \<exists>db'. cl_insert c ''entity_edges'' rows ENTITY_EDGE_COLUMNS db = Inr db'
        \<and> edges db' = edges db ++ map_of (rev (keyed ee_id es)) \<and> ents db' = ents db"
    and drop_edges: "\<exists>db'. cl_command c DELETE_EDGES tenant ids db = Inr db'
        \<and> edges db' = edges db |` (- set ids) \<and> ents db' = ents db"
    and drop_entities: "\<exists>db'. cl_command c DELETE_ENTITIES tenant ids db = Inr db'
        \<and> edges db' = edges db \<and> ents db' = ents db |` (- set ids)"
begin

lemma replace_edges_effect:
  obtains n db' where "replace_edges c es db = Inr (n, db')"
    and "edges db' = edges db ++ map_of (rev (keyed ee_id es))" and "ents db' = ents db"
proof (cases "es = []")
  case True
  then show thesis using that [of 0 db] by (simp add: replace_edges_def keyed_def)
next
  case False
  obtain rows where rows: "entity_edge_rows es = Some rows"
    by (simp add: entity_edge_rows_def row_of_def ENTITY_EDGE_COLUMNS_def edge_dict_def comp_def those_map_Some)
  obtain db' where "cl_insert c ''entity_edges'' rows ENTITY_EDGE_COLUMNS db = Inr db'"
      "edges db' = edges db ++ map_of (rev (keyed ee_id es))" "ents db' = ents db"
    using insert_edges [OF rows] by blast
  then show thesis using False rows that by (simp add: replace_edges_def)
qed

lemma delete_edges_effect:
  obtains n db' where "delete_edges c tenant ids db = Inr (n, db')"
    and "edges db' = edges db |` (- set ids)" and "ents db' = ents db"
proof (cases "ids = []")
  case True
  then show thesis using that [of 0 db] by (simp add: delete_edges_def restrict_UNIV)
next
  case False
  then show thesis using drop_edges [of ids db] that by (auto simp: delete_edges_def)
qed

lemma delete_entities_effect:
  obtains n db' where "delete_entities c tenant ids db = Inr (n, db')"
    and "edges db' = edges db" and "ents db' = ents db |` (- set ids)"
proof (cases "ids = []")
  case True
  then show thesis using that [of 0 db] by (simp add: delete_entities_def restrict_UNIV)
next
  case False
  then show thesis using drop_entities [of ids db] that by (auto simp: delete_entities_def)
qed

lemma reconcile_effect:
  assumes "plan_reconciliation H ip_only mac_assets comms govs (fst (build_binding_map bindings)) tenant = Some r"
  shows "\<exists>db'. reconcile H c tenant ip_only mac_assets comms govs bindings db = Inr (r, db')
    \<and> edges db' = (edges db ++ map_of (rev (keyed ee_id (merged_edges r)))) |` (- set (delete_edge_ids r))
    \<and> ents db' = ents db |` (- set (delete_entity_ids r))"
proof -
  obtain n1 db1 where 1: "replace_edges c (merged_edges r) db = Inr (n1, db1)"
      "edges db1 = edges db ++ map_of (rev (keyed ee_id (merged_edges r)))" "ents db1 = ents db"
    by (rule replace_edges_effect)
  obtain n2 db2 where 2: "delete_edges c tenant (delete_edge_ids r) db1 = Inr (n2, db2)"
      "edges db2 = edges db1 |` (- set (delete_edge_ids r))" "ents db2 = ents db1"
    by (rule delete_edges_effect)
  obtain n3 db3 where 3: "delete_entities c tenant (delete_entity_ids r) db2 = Inr (n3, db3)"
      "edges db3 = edges db2" "ents db3 = ents db2 |` (- set (delete_entity_ids r))"
    by (rule delete_entities_effect)
  show ?thesis
    using assms 1 2 3 by (simp add: reconcile_def)
qed

end

text \<open>A reference store: both tables in memory, rows decoded as \<open>query\<close> decodes them.\<close>

definition cell_text :: "(string, cell) dict \<Rightarrow> string \<Rightarrow> string" where
  "cell_text d k = (case map_of d k of Some (CText s) \<Rightarrow> s | _ \<Rightarrow> [])"

definition cell_real :: "(string, cell) dict \<Rightarrow> string \<Rightarrow> real" where
  "cell_real d k = (case map_of d k of Some (CReal r) \<Rightarrow> r | _ \<Rightarrow> 0)"

definition cell_map :: "(string, cell) dict \<Rightarrow> string \<Rightarrow> attrs" where
  "cell_map d k = (case map_of d k of Some (CMap m) \<Rightarrow> m | _ \<Rightarrow> [])"

definition edge_of_dict :: "(string, cell) dict \<Rightarrow> ent_edge" where
  "edge_of_dict d =
     \<lparr>ee_id = cell_text d ''edge_id'', ee_tenant = cell_text d ''tenant_id'', ee_src = cell_text d ''src_id'',
      ee_dst = cell_text d ''dst_id'', ee_type = cell_text d ''edge_type'', ee_source = cell_text d ''source'',
      ee_confidence = cell_real d ''confidence'', ee_attrs = cell_map d ''attrs'',
      ee_first = cell_text d ''first_seen'', ee_last = cell_text d ''last_seen''\<rparr>"

lemma edge_row_roundtrip:
  "row_of ENTITY_EDGE_COLUMNS (edge_dict e) = Some row \<Longrightarrow> edge_of_dict (zip ENTITY_EDGE_COLUMNS row) = e"
  by (auto simp: row_of_def ENTITY_EDGE_COLUMNS_def edge_dict_def edge_of_dict_def cell_text_def cell_real_def cell_map_def)

lemma edge_rows_roundtrip:
  "entity_edge_rows es = Some rows \<Longrightarrow> map edge_of_dict (query_rows ENTITY_EDGE_COLUMNS rows) = es"
  unfolding entity_edge_rows_def query_rows_def
  by (induction es arbitrary: rows) (auto simp: edge_row_roundtrip split: option.splits)

type_synonym mem_db = "(string, ent_edge) dict \<times> (string, entity) dict"

definition mem_insert :: "string \<Rightarrow> cell list list \<Rightarrow> string list \<Rightarrow> mem_db \<Rightarrow> string + mem_db" where
  "mem_insert table rows cols db =
     (if table = ''entity_edges''
      then Inr (dupdate (fst db) (keyed ee_id (map edge_of_dict (query_rows cols rows))), snd db)
      else Inl ''UNKNOWN_TABLE'')"

definition mem_command :: "string \<Rightarrow> string \<Rightarrow> string list \<Rightarrow> mem_db \<Rightarrow> string + mem_db" where
  "mem_command sql tenant ids db =
     (if sql = DELETE_EDGES then Inr (filter (\<lambda>p. fst p \<notin> set ids) (fst db), snd db)
      else if sql = DELETE_ENTITIES then Inr (fst db, filter (\<lambda>p. fst p \<notin> set ids) (snd db))
      else Inl ''SYNTAX_ERROR'')"

definition mem_client :: "mem_db client" where
  "mem_client = \<lparr>cl_insert = mem_insert, cl_command = mem_command\<rparr>"

lemma map_of_filter_keys: "map_of (filter (\<lambda>p. fst p \<notin> A) d) = map_of d |` (- A)"
  by (induction d) (auto simp: fun_eq_iff restrict_map_def)

lemma DELETE_apart: "DELETE_ENTITIES \<noteq> DELETE_EDGES"
  by code_simp

interpretation mem_store: entity_store mem_client "map_of \<circ> fst" "map_of \<circ> snd" tenant for tenant
proof unfold_locales
  fix es rows and db :: mem_db
  assume "entity_edge_rows es = Some rows"
  then have "map edge_of_dict (query_rows ENTITY_EDGE_COLUMNS rows) = es" by (rule edge_rows_roundtrip)
  then show "\<exists>db'. cl_insert mem_client ''entity_edges'' rows ENTITY_EDGE_COLUMNS db = Inr db' \<and>
      (map_of \<circ> fst) db' = (map_of \<circ> fst) db ++ map_of (rev (keyed ee_id es)) \<and> (map_of \<circ> snd) db' = (map_of \<circ> snd) db"
    by (auto simp: mem_client_def mem_insert_def dupdate_def map_of_dupdate_fold fun_eq_iff map_add_def split: option.splits)
next
  fix ids and db :: mem_db
  show "\<exists>db'. cl_command mem_client DELETE_EDGES tenant ids db = Inr db' \<and>
      (map_of \<circ> fst) db' = (map_of \<circ> fst) db |` (- set ids) \<and> (map_of \<circ> snd) db' = (map_of \<circ> snd) db"
    by (simp add: mem_client_def mem_command_def map_of_filter_keys)
  show "\<exists>db'. cl_command mem_client DELETE_ENTITIES tenant ids db = Inr db' \<and>
      (map_of \<circ> fst) db' = (map_of \<circ> fst) db \<and> (map_of \<circ> snd) db' = (map_of \<circ> snd) db |` (- set ids)"
    by (simp add: mem_client_def mem_command_def map_of_filter_keys DELETE_apart)
qed

section \<open>Properties\<close>

lemma plan_total:
  assumes ok: "tables_ok H tenant (twin_to_mac_id ip_only mac_assets bm) comms govs"
    and apart: "en_id ` set ip_only \<inter> en_id ` set mac_assets = {}"
  obtains p where "plan_inv H tenant (twin_to_mac_id ip_only mac_assets bm) comms govs comms p"
    and "plan_reconciliation H ip_only mac_assets comms govs bm tenant =
      Some \<lparr>merged_edges = dvalues (p_merged p), delete_entity_ids = dkeys (twin_to_mac_id ip_only mac_assets bm),
            delete_edge_ids = p_del_edges p\<rparr>"
    and "keyed ee_id (dvalues (p_merged p)) = p_merged p"
proof -
  let ?twins = "twin_to_mac_id ip_only mac_assets bm"
  have settled: "\<not> dhas ?twins (redirect ?twins x)" for x
    by (rule redirect_untouched [OF twin_to_mac_id_ok apart])
  have "distinct (map ee_id comms)" using ok by (simp add: tables_ok_def)
  then have start: "plan_inv H tenant ?twins comms govs [] \<lparr>p_merged = [], p_del_edges = []\<rparr>"
    by (rule plan_inv_start)
  obtain p where p: "plan_edges H tenant ?twins (comm_by_id comms) govs comms \<lparr>p_merged = [], p_del_edges = []\<rparr> = Some p"
      "plan_inv H tenant ?twins comms govs comms p"
    by (rule plan_edges_ok [OF ok settled start, of comms]) simp_all
  have "dict_ok (p_merged p)" and "\<And>k t. map_of (p_merged p) k = Some t \<Longrightarrow> ee_id t = k"
    using p(2) by (simp_all add: plan_inv_def)
  then have "keyed ee_id (dvalues (p_merged p)) = p_merged p"
    by (intro keyed_dvalues) (simp add: dict_ok_map_of)
  then show thesis using that p by (simp add: plan_reconciliation_def)
qed

lemma reconcile_conserves_plan:
  assumes "tables_ok H tenant (twin_to_mac_id ip_only mac_assets bm) comms govs"
    and "en_id ` set ip_only \<inter> en_id ` set mac_assets = {}"
  shows "\<exists>r. plan_reconciliation H ip_only mac_assets comms govs bm tenant = Some r"
  by (rule plan_total [OF assms]) blast

text \<open>C22: Reconciliation of duplicate assets loses nothing and leaves nothing dangling.  When the counters
  of the communication edges are numbers and the edge ids do not collide, planning succeeds; once the
  merged edges are upserted and the deleted ones removed, the table has the same total of sessions and
  of bytes as before, no edge left in it has a deleted asset at either end, and every governed-by edge
  that is not deleted hangs off an edge that is not deleted.\<close>

theorem reconcile_conserves:
  assumes "tables_ok H tenant (twin_to_mac_id ip_only mac_assets bm) comms govs"
    and "en_id ` set ip_only \<inter> en_id ` set mac_assets = {}"
  shows "\<exists>r. plan_reconciliation H ip_only mac_assets comms govs bm tenant = Some r
    \<and> (\<forall>key \<in> {''sessions'', ''bytes''}.
         map_total (counter key) (table_after comms (keyed ee_id (merged_edges r)) (delete_edge_ids r)) = counter_total key comms)
    \<and> (\<forall>k e. table_after comms (keyed ee_id (merged_edges r)) (delete_edge_ids r) k = Some e \<longrightarrow>
         ee_src e \<notin> set (delete_entity_ids r) \<and> ee_dst e \<notin> set (delete_entity_ids r))
    \<and> (\<forall>g \<in> set govs. ee_id g \<notin> set (delete_edge_ids r) \<longrightarrow>
         (\<forall>e \<in> set comms. ee_src g = ee_id e \<longrightarrow> ee_id e \<notin> set (delete_edge_ids r)))"
proof -
  let ?twins = "twin_to_mac_id ip_only mac_assets bm"
  obtain p where inv: "plan_inv H tenant ?twins comms govs comms p"
    and plan: "plan_reconciliation H ip_only mac_assets comms govs bm tenant =
      Some \<lparr>merged_edges = dvalues (p_merged p), delete_entity_ids = dkeys ?twins, delete_edge_ids = p_del_edges p\<rparr>"
    and keys: "keyed ee_id (dvalues (p_merged p)) = p_merged p"
    by (rule plan_total [OF assms])
  have ends: "\<not> touches ?twins e" if "table_after comms (p_merged p) (p_del_edges p) k = Some e" for k e
  proof (cases "map_of (p_merged p) k")
    case None
    then have "map_of (keyed ee_id comms) k = Some e" and "k \<notin> gone ?twins comms govs"
      using that inv by (simp_all add: table_after_def map_add_def plan_inv_def split: if_splits)
    then show ?thesis using map_of_keyed_mem [of ee_id comms k e] unfolding gone_def by blast
  next
    case (Some t)
    then show ?thesis using that inv by (simp add: table_after_def map_add_def plan_inv_def split: if_splits)
  qed
  have "ee_id e \<notin> set (p_del_edges p)"
    if "g \<in> set govs" "ee_id g \<notin> set (p_del_edges p)" "e \<in> set comms" "ee_src g = ee_id e" for g e
  proof
    assume "ee_id e \<in> set (p_del_edges p)"
    then have e: "ee_id e \<in> gone ?twins comms govs" and g: "ee_id g \<notin> gone ?twins comms govs"
      using inv that(2) by (simp_all add: plan_inv_def)
    from e have "ee_id e \<in> ee_id ` {e \<in> set comms. touches ?twins e}"
      using gov_not_comm(1) [OF assms(1) _ that(3)] unfolding gone_def by fastforce
    then show False using g that(1,4) unfolding gone_def by simp
  qed
  then have "\<forall>g \<in> set govs. ee_id g \<notin> set (p_del_edges p) \<longrightarrow>
      (\<forall>e \<in> set comms. ee_src g = ee_id e \<longrightarrow> ee_id e \<notin> set (p_del_edges p))"
    by blast
  moreover have "\<forall>k e. table_after comms (p_merged p) (p_del_edges p) k = Some e \<longrightarrow>
      ee_src e \<notin> set (dkeys ?twins) \<and> ee_dst e \<notin> set (dkeys ?twins)"
    using ends by (simp add: touches_def dhas_iff)
  moreover have "\<forall>key \<in> {''sessions'', ''bytes''}.
      map_total (counter key) (table_after comms (p_merged p) (p_del_edges p)) = counter_total key comms"
    using inv unfolding plan_inv_def by blast
  ultimately show ?thesis
    unfolding plan
    by (intro exI [of _ "\<lparr>merged_edges = dvalues (p_merged p), delete_entity_ids = dkeys ?twins, delete_edge_ids = p_del_edges p\<rparr>"])
      (simp only: reconciliation.simps keys)
qed

definition sample_end :: "string \<Rightarrow> string \<Rightarrow> attrs \<Rightarrow> entity" where
  "sample_end i basis ids = \<lparr>en_id = i, en_tenant = ''t'', en_kind = ASSET, en_name = i, en_identifiers = ids,
     en_source = OBSERVED, en_basis = basis, en_confidence = 1, en_attrs = [], en_first = ''1'', en_last = ''2''\<rparr>"

definition sample_twin :: entity where
  "sample_twin = sample_end ''x'' ''ip_only'' [(''ip'', ''10.0.0.1'')]"

definition sample_anchor :: entity where
  "sample_anchor = sample_end ''m'' ''mac'' [(''mac'', ''aa'')]"

definition sample_map :: "(seg_ip, string) dict" where
  "sample_map = [((''fw'', ''10.0.0.1''), ''aa'')]"

text \<open>A digest that keeps the part of the text that names the end points.\<close>

definition sample_H :: "string \<Rightarrow> string" where
  "sample_H = drop 14"

definition sample_comm :: "string \<Rightarrow> string \<Rightarrow> ent_edge" where
  "sample_comm src n = (new_edge ''t'' (comm_edge_id sample_H ''t'' src ''d'') src ''d'' COMMUNICATED_WITH
     [(''sessions'', n), (''bytes'', n), (''ports'', ''443'')])\<lparr>ee_first := ''1'', ee_last := ''2''\<rparr>"

definition sample_gov :: ent_edge where
  "sample_gov = new_edge ''t'' ''g'' (ee_id (sample_comm ''x'' ''2'')) ''p'' GOVERNED_BY_E []"

lemma sample_tables:
  "tables_ok sample_H ''t'' (twin_to_mac_id [sample_twin] [sample_anchor] sample_map)
     [sample_comm ''x'' ''2'', sample_comm ''m'' ''3''] [sample_gov]"
  "en_id ` set [sample_twin] \<inter> en_id ` set [sample_anchor] = {}"
proof -
  let ?twins = "twin_to_mac_id [sample_twin] [sample_anchor] sample_map"
  let ?comms = "[sample_comm ''x'' ''2'', sample_comm ''m'' ''3'']"
  have twins: "?twins = [(''x'', ''m'')]" by code_simp
  have pairs: "moved_pairs ?twins ?comms = {(''x'', ''d''), (''m'', ''d'')}"
    unfolding twins by (auto simp: moved_pairs_def sample_comm_def new_edge_def redirect_def dget_or_def)
  have ids: "comm_edge_id sample_H ''t'' ''x'' ''d'' = ''x|d|communicated''" "comm_edge_id sample_H ''t'' ''m'' ''d'' = ''m|d|communicated''"
    by code_simp+
  have counts: "counts_ok (sample_comm ''x'' ''2'')" "counts_ok (sample_comm ''m'' ''3'')"
    by code_simp+
  show "tables_ok sample_H ''t'' ?twins ?comms [sample_gov]"
    unfolding tables_ok_def pairs
    using counts by (auto simp: inj_on_def ids sample_comm_def new_edge_def sample_gov_def)
  show "en_id ` set [sample_twin] \<inter> en_id ` set [sample_anchor] = {}"
    by (simp add: sample_twin_def sample_anchor_def sample_end_def)
qed

lemma reconcile_conserves_witness:
  "\<exists>r. plan_reconciliation sample_H [sample_twin] [sample_anchor] [sample_comm ''x'' ''2'', sample_comm ''m'' ''3'']
        [sample_gov] sample_map ''t'' = Some r
    \<and> map_total (counter ''sessions'') (table_after [sample_comm ''x'' ''2'', sample_comm ''m'' ''3'']
        (keyed ee_id (merged_edges r)) (delete_edge_ids r)) = 5"
proof -
  have "counter_total ''sessions'' [sample_comm ''x'' ''2'', sample_comm ''m'' ''3''] = 5" by code_simp
  then show ?thesis
    using reconcile_conserves [OF sample_tables] by auto
qed


definition sample_arp :: binding where
  "sample_arp = \<lparr>b_device = Some ''fw'', b_ip = Some ''10.0.0.1'', b_mac = Some ''aa'', b_count = None, b_at = Some ''1''\<rparr>"


lemma map_total_split:
  assumes "finite (dom m)" and "distinct (map ee_id es)" and "\<forall>e \<in> set es. m (ee_id e) = Some e"
  shows "map_total f m = map_total f (m |` (- ee_id ` set es)) + sum_list (map f es)"
  using assms
proof (induction es arbitrary: m)
  case Nil
  then show ?case by (simp add: restrict_UNIV)
next
  case (Cons e es)
  let ?m = "m(ee_id e := None)"
  have "map_total f ?m = map_total f (?m |` (- ee_id ` set es)) + sum_list (map f es)"
  proof (rule Cons.IH)
    show "finite (dom ?m)" and "distinct (map ee_id es)" using Cons.prems(1,2) by simp_all
    have "ee_id x \<noteq> ee_id e" if "x \<in> set es" for x using Cons.prems(2) imageI [OF that, of ee_id] by auto
    then show "\<forall>x \<in> set es. ?m (ee_id x) = Some x" using Cons.prems(3) by simp
  qed
  moreover have "?m |` (- ee_id ` set es) = m |` (- ee_id ` set (e # es))"
    by (auto simp: restrict_map_def fun_eq_iff)
  moreover have "m (ee_id e) = Some e" using Cons.prems(3) by simp
  ultimately show ?case using map_total_del [OF Cons.prems(1), of f "ee_id e"] by simp
qed

text \<open>A reconciliation that is interrupted after the merged edges are written and before the twins' edges
  are deleted is not repaired by running it again: the next run succeeds, and leaves a table in which the
  sessions and bytes of every redirected edge are counted twice.\<close>

theorem interrupted_reconcile_counts_twice:
  assumes tables: "tables_ok H tenant (twin_to_mac_id ip_only mac_assets bm) comms govs"
    and apart: "en_id ` set ip_only \<inter> en_id ` set mac_assets = {}"
    and plan: "plan_reconciliation H ip_only mac_assets comms govs bm tenant = Some r"
    and written: "map_of (keyed ee_id comms') = map_of (keyed ee_id comms) ++ map_of (keyed ee_id (merged_edges r))"
    and tables': "tables_ok H tenant (twin_to_mac_id ip_only mac_assets bm) comms' govs"
    and key: "key \<in> {''sessions'', ''bytes''}"
  shows "\<exists>r'. plan_reconciliation H ip_only mac_assets comms' govs bm tenant = Some r'
    \<and> map_total (counter key) (table_after comms' (keyed ee_id (merged_edges r')) (delete_edge_ids r'))
       = counter_total key comms
         + counter_total key (filter (touches (twin_to_mac_id ip_only mac_assets bm)) comms)"
proof -
  let ?twins = "twin_to_mac_id ip_only mac_assets bm"
  let ?touched = "filter (touches ?twins) comms"
  obtain p where inv: "plan_inv H tenant ?twins comms govs comms p"
    and r: "r = \<lparr>merged_edges = dvalues (p_merged p), delete_entity_ids = dkeys ?twins, delete_edge_ids = p_del_edges p\<rparr>"
    and keys: "keyed ee_id (dvalues (p_merged p)) = p_merged p"
    using plan_total [OF tables apart] plan by (metis option.inject)
  let ?m = "map_of (keyed ee_id comms) ++ map_of (p_merged p)"
  have dist: "distinct (map ee_id comms)" using tables by (simp add: tables_ok_def)
  have settled: "\<not> dhas ?twins (redirect ?twins x)" for x
    by (rule redirect_untouched [OF twin_to_mac_id_ok apart])
  have keep: "map_of (p_merged p) (ee_id e) = None" if "e \<in> set comms" "touches ?twins e" for e
  proof (rule ccontr)
    assume "map_of (p_merged p) (ee_id e) \<noteq> None"
    then have "ee_id e \<in> moved_id H tenant ?twins ` {e \<in> set comms. touches ?twins e}"
      using inv unfolding plan_inv_def by blast
    then obtain e' where "e' \<in> set comms" "moved_id H tenant ?twins e' = ee_id e" by auto
    then show False using moved_eq [OF tables _ that(1)] settled that(2) by (auto simp: touches_def)
  qed
  have gov: "?m (ee_id g) = None" if "g \<in> set govs" for g
  proof -
    have "map_of (p_merged p) (ee_id g) = None"
      using inv gov_not_comm(2) [OF tables that] unfolding plan_inv_def by (cases "map_of (p_merged p) (ee_id g)") blast+
    then show ?thesis using gov_not_comm(1) [OF tables that] by (auto simp: map_add_def map_of_keyed_None)
  qed
  have "table_after comms (p_merged p) (p_del_edges p) = ?m |` (- ee_id ` set ?touched)"
  proof
    fix k
    have del: "set (p_del_edges p) = gone ?twins comms govs" using inv by (simp add: plan_inv_def)
    show "table_after comms (p_merged p) (p_del_edges p) k = (?m |` (- ee_id ` set ?touched)) k"
    proof (cases "k \<in> ee_id ` set ?touched \<or> k \<notin> ee_id ` set govs")
      case True
      then show ?thesis unfolding table_after_def del gone_def restrict_map_def by auto
    next
      case False
      then obtain g where g: "g \<in> set govs" "k = ee_id g" by blast
      have none: "?m k = None" unfolding g(2) by (rule gov [OF g(1)])
      show ?thesis unfolding table_after_def restrict_map_def none by simp
    qed
  qed
  moreover have "map_total (counter key) ?m = map_total (counter key) (?m |` (- ee_id ` set ?touched)) + counter_total key ?touched"
    unfolding counter_total_def
  proof (rule map_total_split)
    show "finite (dom ?m)" by (simp add: finite_dom_map_of)
    show "distinct (map ee_id ?touched)" using dist by (simp add: distinct_map_filter)
    show "\<forall>e \<in> set ?touched. ?m (ee_id e) = Some e"
      using keep map_of_keyed_in [OF dist] by (simp add: map_add_def)
  qed
  moreover have "map_total (counter key) (table_after comms (p_merged p) (p_del_edges p)) = counter_total key comms"
    using inv key unfolding plan_inv_def by blast
  ultimately have total: "map_total (counter key) (map_of (keyed ee_id comms')) = counter_total key comms + counter_total key ?touched"
    unfolding written r by (simp add: keys)
  have "distinct (map ee_id comms')" using tables' by (simp add: tables_ok_def)
  then have "map_total (counter key) (map_of (keyed ee_id comms')) = counter_total key comms'"
    using map_total_dict [of "keyed ee_id comms'" "counter key"] by (simp add: keyed_ok counter_total_def dvalues_keyed)
  moreover obtain p' where "plan_inv H tenant ?twins comms' govs comms' p'"
    and "plan_reconciliation H ip_only mac_assets comms' govs bm tenant =
      Some \<lparr>merged_edges = dvalues (p_merged p'), delete_entity_ids = dkeys ?twins, delete_edge_ids = p_del_edges p'\<rparr>"
    and "keyed ee_id (dvalues (p_merged p')) = p_merged p'"
    by (rule plan_total [OF tables' apart])
  ultimately show ?thesis using total key by (auto simp: plan_inv_def)
qed

definition sample_merged :: ent_edge where
  "sample_merged = (sample_comm ''m'' ''5'')\<lparr>ee_attrs := [(''sessions'', ''5''), (''bytes'', ''5''), (''ports'', ''443''),
     (''providers'', []), (''transports'', []), (''observer_hosts'', [])]\<rparr>"

lemma sample_plan:
  "plan_reconciliation sample_H [sample_twin] [sample_anchor] [sample_comm ''x'' ''2'', sample_comm ''m'' ''3'']
     [sample_gov] sample_map ''t'' =
   Some \<lparr>merged_edges = [sample_merged], delete_entity_ids = [''x''],
     delete_edge_ids = [ee_id (sample_comm ''x'' ''2''), ''g'']\<rparr>"
  by code_simp

lemma interrupted_reconcile_counts_twice_witness:
  "\<exists>r'. plan_reconciliation sample_H [sample_twin] [sample_anchor] [sample_comm ''x'' ''2'', sample_merged]
        [sample_gov] sample_map ''t'' = Some r'
    \<and> map_total (counter ''sessions'') (table_after [sample_comm ''x'' ''2'', sample_merged]
        (keyed ee_id (merged_edges r')) (delete_edge_ids r')) = 7"
proof -
  let ?twins = "twin_to_mac_id [sample_twin] [sample_anchor] sample_map"
  let ?comms = "[sample_comm ''x'' ''2'', sample_merged]"
  have twins: "?twins = [(''x'', ''m'')]" by code_simp
  have pairs: "moved_pairs ?twins ?comms = {(''x'', ''d''), (''m'', ''d'')}"
    unfolding twins by (auto simp: moved_pairs_def sample_comm_def sample_merged_def new_edge_def redirect_def dget_or_def)
  have ids: "comm_edge_id sample_H ''t'' ''x'' ''d'' = ''x|d|communicated''" "comm_edge_id sample_H ''t'' ''m'' ''d'' = ''m|d|communicated''"
    by code_simp+
  have counts: "counts_ok (sample_comm ''x'' ''2'')" "counts_ok sample_merged"
    by code_simp+
  have tables: "tables_ok sample_H ''t'' ?twins ?comms [sample_gov]"
    unfolding tables_ok_def pairs
    using counts by (auto simp: inj_on_def ids sample_comm_def sample_merged_def new_edge_def sample_gov_def)
  have written: "map_of (keyed ee_id ?comms) = map_of (keyed ee_id [sample_comm ''x'' ''2'', sample_comm ''m'' ''3''])
      ++ map_of (keyed ee_id (merged_edges \<lparr>merged_edges = [sample_merged], delete_entity_ids = [''x''],
           delete_edge_ids = [ee_id (sample_comm ''x'' ''2''), ''g'']\<rparr>))"
    by (auto simp: fun_eq_iff keyed_def sample_merged_def sample_comm_def new_edge_def ids)
  have totals: "counter_total ''sessions'' [sample_comm ''x'' ''2'', sample_comm ''m'' ''3''] = 5"
    "counter_total ''sessions'' (filter (touches ?twins) [sample_comm ''x'' ''2'', sample_comm ''m'' ''3'']) = 2"
    by code_simp+
  show ?thesis
    using interrupted_reconcile_counts_twice [OF sample_tables sample_plan written tables, of "''sessions''"] totals
    by simp
qed

end
