(* ===== verification/Access.thy ===== *)
theory Access
  imports Sql Reconcile "HOL-Library.Product_Lexorder"
begin

text \<open>
  The entity store of the query server (\<open>entitystore.py\<close>) and the access explanation built on it
  (\<open>access_tools.py\<close>), with the address tests of the standard library's \<open>ipaddress\<close>.  A failing
  query raises through every operation (\<open>Inl\<close> with the name of the exception).  Rows are records;
  the tenant, which the queries do not select, is the empty text in them.
\<close>

section \<open>Addresses\<close>

definition octet_ok :: "string \<Rightarrow> bool" where
  "octet_ok s \<longleftrightarrow> s \<noteq> [] \<and> list_all is_digit s \<and> length s \<le> 3 \<and> (s = ''0'' \<or> hd s \<noteq> CHR ''0'') \<and> nat_of_digits s \<le> 255"

definition ipv4_ok :: "string \<Rightarrow> bool" where
  "ipv4_ok s \<longleftrightarrow> (let os = split_on CHR ''.'' s in length os = 4 \<and> list_all octet_ok os)"

definition hextet_ok :: "string \<Rightarrow> bool" where
  "hextet_ok s \<longleftrightarrow> s \<noteq> [] \<and> list_all mac_digit s \<and> length s \<le> 4"

text \<open>The groups of an IPv6 address: at most one empty inner group stands for the skipped zeros, and an
  empty group at an end belongs to it.\<close>

definition inner_gaps :: "string list \<Rightarrow> nat list" where
  "inner_gaps parts = filter (\<lambda>i. parts ! i = []) [1 ..< length parts - 1]"

definition groups_ok :: "string list \<Rightarrow> bool" where
  "groups_ok parts \<longleftrightarrow>
     length parts \<ge> 3 \<and> length parts \<le> 9 \<and>
     (case inner_gaps parts of
        [] \<Rightarrow> length parts = 8 \<and> list_all hextet_ok parts
      | [i] \<Rightarrow>
          (let lead = (hd parts = []); trail = (last parts = []);
               hi = (if lead then i - 1 else i);
               lo = (if trail then length parts - i - 2 else length parts - i - 1)
           in (lead \<longrightarrow> hi = 0) \<and> (trail \<longrightarrow> lo = 0) \<and> hi + lo \<le> 7
              \<and> list_all hextet_ok (take hi parts) \<and> list_all hextet_ok (drop (length parts - lo) parts))
      | _ \<Rightarrow> False)"

definition ipv6_ok :: "string \<Rightarrow> bool" where
  "ipv6_ok s \<longleftrightarrow>
     CHR ''/'' \<notin> set s \<and>
     (let zone = split_on CHR ''%'' s; parts = split_on CHR '':'' (hd zone) in
      (length zone = 1 \<or> length zone = 2 \<and> zone ! 1 \<noteq> []) \<and>
      (if length parts \<ge> 3 \<and> CHR ''.'' \<in> set (last parts)
       then ipv4_ok (last parts) \<and> groups_ok (butlast parts @ [''0'', ''0''])
       else groups_ok parts))"

definition is_ip :: "string \<Rightarrow> bool" where
  "is_ip s \<longleftrightarrow> ipv4_ok s \<or> ipv6_ok s"

lemma ip_examples:
  "ipv4_ok ''10.0.0.1''" "\<not> ipv4_ok ''10.0.0.01''" "\<not> ipv4_ok ''10.0.0.256''" "ipv6_ok ''fe80::1''" "ipv6_ok ''::''"
  "ipv6_ok ''::ffff:10.0.0.1''" "\<not> ipv6_ok ''1::2::3''" "\<not> ipv6_ok ''fw.example.com''" "ipv6_ok ''1:2:3:4:5:6:7:8''"
  by code_simp+

definition short_host :: "string \<Rightarrow> string" where
  "short_host name = (if is_ip name then name else hd (split_on CHR ''.'' name))"

section \<open>The entity store\<close>

type_synonym event_row = "(string, pyval) dict"

record reader =
  rd_entities :: "query \<Rightarrow> string + entity list"
  rd_edges :: "query \<Rightarrow> string + ent_edge list"
  rd_events :: "query \<Rightarrow> string + event_row list"

definition find_entity :: "reader \<Rightarrow> string \<Rightarrow> string \<Rightarrow> string + entity option" where
  "find_entity c tenant identifier =
     bind_sum (rd_entities c (build_entity_match_sql identifier tenant))
       (\<lambda>rows. Inr (case rows of [] \<Rightarrow> None | r # rs \<Rightarrow> Some r))"

definition find_entities :: "reader \<Rightarrow> string \<Rightarrow> string \<Rightarrow> string + entity list" where
  "find_entities c tenant identifier = rd_entities c (build_entities_match_sql identifier tenant)"

definition communicated_edges :: "reader \<Rightarrow> string \<Rightarrow> string \<Rightarrow> string \<Rightarrow> string \<Rightarrow> string + ent_edge list" where
  "communicated_edges c tenant a b since_iso = rd_edges c (build_comm_edges_sql a b since_iso tenant)"

definition communicated_edges_multi ::
  "reader \<Rightarrow> string \<Rightarrow> string list \<Rightarrow> string list \<Rightarrow> string \<Rightarrow> string + ent_edge list" where
  "communicated_edges_multi c tenant a b since_iso =
     (if a = [] \<or> b = [] then Inr [] else rd_edges c (build_comm_edges_multi_sql a b since_iso tenant))"

definition by_entity_id :: "entity list \<Rightarrow> (string, entity) dict" where
  "by_entity_id ns = foldl (\<lambda>d n. dset d (en_id n) n) [] ns"

text \<open>The governed-by edges whose policy is known, with the policy.\<close>

fun join_policies :: "(string, entity) dict \<Rightarrow> ent_edge list \<Rightarrow> (entity \<times> attrs) list" where
  "join_policies policies [] = []"
| "join_policies policies (e # es) =
     (case map_of policies (ee_dst e) of
        None \<Rightarrow> join_policies policies es
      | Some p \<Rightarrow> (p, ee_attrs e) # join_policies policies es)"

definition governed_policies :: "reader \<Rightarrow> string \<Rightarrow> string list \<Rightarrow> string + (entity \<times> attrs) list" where
  "governed_policies c tenant comm_edge_ids =
     (if comm_edge_ids = [] then Inr []
      else bind_sum (rd_edges c (build_governed_by_sql comm_edge_ids tenant)) (\<lambda>gov.
        let policy_ids = sorted_set (map ee_dst gov) in
        if policy_ids = [] then Inr []
        else bind_sum (rd_entities c (build_entities_by_id_sql policy_ids tenant)) (\<lambda>ps.
          Inr (join_policies (by_entity_id ps) gov))))"

definition firewall_name :: "entity \<Rightarrow> string" where
  "firewall_name f = opt_or (map_of (en_identifiers f) ''device_name'') (en_name f)"

fun join_configured ::
  "(string, entity) dict \<Rightarrow> (string, entity) dict \<Rightarrow> ent_edge list \<Rightarrow> (string \<times> entity) list" where
  "join_configured fws policies [] = []"
| "join_configured fws policies (e # es) =
     (case (map_of fws (ee_src e), map_of policies (ee_dst e)) of
        (Some f, Some p) \<Rightarrow> (firewall_name f, p) # join_configured fws policies es
      | _ \<Rightarrow> join_configured fws policies es)"

definition configured_policies_for_firewalls ::
  "reader \<Rightarrow> string \<Rightarrow> string list \<Rightarrow> string + (string \<times> entity) list" where
  "configured_policies_for_firewalls c tenant names =
     (if names = [] then Inr []
      else bind_sum (rd_entities c (build_firewall_match_sql names tenant)) (\<lambda>fws.
        let fw_by_id = by_entity_id fws in
        if fw_by_id = [] then Inr []
        else bind_sum (rd_edges c (build_configured_governed_sql (dkeys fw_by_id) tenant)) (\<lambda>gov.
          let policy_ids = sorted_set (map ee_dst gov) in
          if policy_ids = [] then Inr []
          else bind_sum (rd_entities c (build_entities_by_id_sql policy_ids tenant)) (\<lambda>ps.
            Inr (join_configured fw_by_id (by_entity_id ps) gov)))))"

definition alerts_for_pair :: "reader \<Rightarrow> string \<Rightarrow> string list \<Rightarrow> string \<Rightarrow> string + event_row list" where
  "alerts_for_pair c tenant ips since_iso =
     (if ips = [] then Inr [] else rd_events c (build_alerts_for_pair_sql ips since_iso tenant))"

definition observers_for_ips :: "reader \<Rightarrow> string \<Rightarrow> string list \<Rightarrow> string \<Rightarrow> string + event_row list" where
  "observers_for_ips c tenant ips since_iso =
     (if ips = [] then Inr [] else rd_events c (build_observers_for_ips_sql ips since_iso tenant))"

section \<open>Choosing the pair\<close>

record bucket =
  bk_edges :: "ent_edge list"
  bk_sessions :: int
  bk_last :: string
  bk_prov :: bool

definition pair_key :: "string list \<Rightarrow> string list \<Rightarrow> ent_edge \<Rightarrow> (string \<times> string) option" where
  "pair_key clients servers e =
     (if ee_src e \<in> set clients \<and> ee_dst e \<in> set servers then Some (ee_src e, ee_dst e)
      else if ee_dst e \<in> set clients \<and> ee_src e \<in> set servers then Some (ee_dst e, ee_src e)
      else None)"

definition csv_list :: "string \<Rightarrow> string list" where
  "csv_list v = filter (\<lambda>s. s \<noteq> []) (split_on CHR '','' v)"

definition add_to_bucket :: "ent_edge \<Rightarrow> bucket \<Rightarrow> bucket option" where
  "add_to_bucket e b =
     (case count_of ''sessions'' (ee_attrs e) of None \<Rightarrow> None
      | Some n \<Rightarrow> Some \<lparr>bk_edges = bk_edges b @ [e], bk_sessions = bk_sessions b + n,
          bk_last = (if ee_last e > bk_last b then ee_last e else bk_last b),
          bk_prov = (bk_prov b \<or> dget_or (ee_attrs e) ''observer_hosts'' [] \<noteq> [])\<rparr>)"

definition empty_bucket :: bucket where
  "empty_bucket = \<lparr>bk_edges = [], bk_sessions = 0, bk_last = [], bk_prov = False\<rparr>"

fun group_pairs ::
  "string list \<Rightarrow> string list \<Rightarrow> ent_edge list \<Rightarrow> (string \<times> string, bucket) dict \<Rightarrow> (string \<times> string, bucket) dict option" where
  "group_pairs clients servers [] d = Some d"
| "group_pairs clients servers (e # es) d =
     (case pair_key clients servers e of
        None \<Rightarrow> group_pairs clients servers es d
      | Some key \<Rightarrow>
          (case add_to_bucket e (dget_or d key empty_bucket) of
             None \<Rightarrow> None
           | Some b \<Rightarrow> group_pairs clients servers es (dset d key b)))"

text \<open>The tuple \<open>(has_prov, sessions, last_seen, key)\<close> in its lexicographic order.\<close>

definition rank_less :: "(string \<times> string) \<times> bucket \<Rightarrow> (string \<times> string) \<times> bucket \<Rightarrow> bool" where
  "rank_less x y \<longleftrightarrow>
     (let (kx, bx) = x; (ky, byy) = y in
      bk_prov bx < bk_prov byy \<or> bk_prov bx = bk_prov byy \<and>
      (bk_sessions bx < bk_sessions byy \<or> bk_sessions bx = bk_sessions byy \<and>
       (bk_last bx < bk_last byy \<or> bk_last bx = bk_last byy \<and>
        (fst kx < fst ky \<or> fst kx = fst ky \<and> snd kx < snd ky))))"

fun max_rank :: "(string \<times> string) \<times> bucket \<Rightarrow> (string \<times> string, bucket) dict \<Rightarrow> (string \<times> string) \<times> bucket" where
  "max_rank best [] = best"
| "max_rank best (x # xs) = max_rank (if rank_less best x then x else best) xs"

definition select_pair ::
  "ent_edge list \<Rightarrow> string list \<Rightarrow> string list \<Rightarrow> ((string \<times> string) \<times> ent_edge list) option option" where
  "select_pair edges clients servers =
     (case group_pairs clients servers edges [] of
        None \<Rightarrow> None
      | Some [] \<Rightarrow> Some None
      | Some (p # ps) \<Rightarrow> (let (key, b) = max_rank p ps in Some (Some (key, bk_edges b))))"

section \<open>\<open>explain_access\<close>\<close>

definition DEFAULT_WINDOW_HOURS :: int where "DEFAULT_WINDOW_HOURS = 24"

text \<open>\<open>(now - timedelta(hours)).isoformat(timespec="milliseconds")\<close>\<close>

definition since_ms :: "int \<Rightarrow> int \<Rightarrow> string + string" where
  "since_ms now hours =
     (let t = now - hours * 3600000000 in
      if t < 0 \<or> 3652059 * day_us \<le> t then Inl ''OverflowError'' else Inr (isoformat_ms (utc_dt t)))"

definition hours_or :: "int option \<Rightarrow> int \<Rightarrow> int" where
  "hours_or h d = (case h of None \<Rightarrow> d | Some n \<Rightarrow> if n = 0 then d else n)"

definition required :: "string \<Rightarrow> 'a option \<Rightarrow> string + 'a" where
  "required exc v = (case v of None \<Rightarrow> Inl exc | Some x \<Rightarrow> Inr x)"

fun sum_counts :: "string \<Rightarrow> ent_edge list \<Rightarrow> int option" where
  "sum_counts key [] = Some 0"
| "sum_counts key (e # es) =
     (case count_of key (ee_attrs e) of None \<Rightarrow> None
      | Some n \<Rightarrow> (case sum_counts key es of None \<Rightarrow> None | Some m \<Rightarrow> Some (n + m)))"

definition union_attr :: "string \<Rightarrow> ent_edge list \<Rightarrow> string list" where
  "union_attr key es = sorted_set (concat (map (\<lambda>e. csv_list (dget_or (ee_attrs e) key [])) es))"

fun int_list :: "string list \<Rightarrow> int list option" where
  "int_list [] = Some []"
| "int_list (s # ss) =
     (case py_int s of None \<Rightarrow> None | Some i \<Rightarrow> (case int_list ss of None \<Rightarrow> None | Some ns \<Rightarrow> Some (i # ns)))"

record configured_rule =
  cr_firewall :: string
  cr_rule :: string
  cr_action :: string
  cr_from :: string
  cr_to :: string
  cr_position :: string
  cr_enabled :: bool
  cr_source :: string

definition configured_rule_of :: "string \<Rightarrow> entity \<Rightarrow> configured_rule" where
  "configured_rule_of fw p =
     \<lparr>cr_firewall = fw, cr_rule = en_name p, cr_action = dget_or (en_attrs p) ''action'' [],
      cr_from = dget_or (en_attrs p) ''from_zone'' [], cr_to = dget_or (en_attrs p) ''to_zone'' [],
      cr_position = dget_or (en_attrs p) ''position'' [],
      cr_enabled = (dget_or (en_attrs p) ''enabled'' [] = ''true''), cr_source = ''configured''\<rparr>"

record control =
  ct_firewall :: "string option"
  ct_vendor :: string
  ct_rule :: string
  ct_source :: string
  ct_basis :: string

definition control_of :: "string option \<Rightarrow> string \<Rightarrow> entity \<Rightarrow> control" where
  "control_of fw basis p =
     \<lparr>ct_firewall = fw, ct_vendor = dget_or (en_identifiers p) ''provider'' [], ct_rule = en_name p,
      ct_source = en_source p, ct_basis = basis\<rparr>"

definition detection_of :: "event_row \<Rightarrow> event_row" where
  "detection_of a = map (\<lambda>k. (k, dget_or a k (PStr [])))
     [''timestamp'', ''signature'', ''signature_id'', ''category'', ''severity'', ''source_ip'', ''destination_ip'']"

record 'p explanation =
  ex_client :: "string \<times> string \<times> string"
  ex_server :: "string \<times> string \<times> string"
  ex_sessions :: int
  ex_bytes :: int
  ex_ports :: "int list"
  ex_providers :: "string list"
  ex_window :: int
  ex_controls :: "control list"
  ex_detections :: "event_row list"
  ex_configured :: "configured_rule list"
  ex_configured_basis :: string
  ex_firewalls :: "string list"
  ex_firewall_basis :: string
  ex_path :: 'p

definition entity_summary :: "entity \<Rightarrow> string \<times> string \<times> string" where
  "entity_summary n = (en_id n, en_name n, en_basis n)"

text \<open>The two entities and the edges between them.\<close>

definition choose_entities ::
  "entity list \<Rightarrow> entity list \<Rightarrow> ent_edge list \<Rightarrow> string + entity \<times> entity \<times> ent_edge list" where
  "choose_entities clients servers edges =
     bind_sum (required ''ValueError'' (select_pair edges (map en_id clients) (map en_id servers))) (\<lambda>sel.
       case sel of
         None \<Rightarrow> Inr (hd clients, hd servers, [])
       | Some ((a, b), es) \<Rightarrow>
           bind_sum (required ''StopIteration'' (List.find (\<lambda>n. en_id n = a) clients)) (\<lambda>ce.
           bind_sum (required ''StopIteration'' (List.find (\<lambda>n. en_id n = b) servers)) (\<lambda>se. Inr (ce, se, es))))"

text \<open>Attribution: the firewalls that logged the flow, else those of the topology.\<close>

definition attribute_firewalls ::
  "(string \<Rightarrow> string \<Rightarrow> string + string list) \<Rightarrow> string \<Rightarrow> string \<Rightarrow> ent_edge list \<Rightarrow> string + string list \<times> string" where
  "attribute_firewalls enforcement client server comms =
     (let observers = union_attr ''observer_hosts'' comms in
      if observers \<noteq> [] then Inr (sorted_set (map short_host observers), ''provenance'')
      else bind_sum (enforcement client server) (\<lambda>fws. Inr (fws, if fws \<noteq> [] then ''topology'' else ''no_path_firewall'')))"

definition configured_controls ::
  "reader \<Rightarrow> string \<Rightarrow> string list \<Rightarrow> string + configured_rule list \<times> string" where
  "configured_controls c tenant firewalls =
     (if firewalls = [] then Inr ([], ''no_path_firewall'')
      else bind_sum (configured_policies_for_firewalls c tenant firewalls) (\<lambda>items.
        let rules = map (\<lambda>(fw, p). configured_rule_of fw p) items
        in Inr (rules, if rules = [] then ''firewall_name_unmatched'' else ''topology'')))"

definition alert_ips :: "string \<Rightarrow> string \<Rightarrow> entity \<Rightarrow> entity \<Rightarrow> string list" where
  "alert_ips client server ce se =
     sorted_set (filter ipv4_ok ([client, server] @ dvalues (en_identifiers ce) @ dvalues (en_identifiers se)))"

definition explain_access ::
  "reader \<Rightarrow> string \<Rightarrow> (string \<Rightarrow> string \<Rightarrow> string + string list) \<Rightarrow> (string \<Rightarrow> string \<Rightarrow> string + 'p) \<Rightarrow> int \<Rightarrow> int \<Rightarrow> int
     \<Rightarrow> string \<Rightarrow> string \<Rightarrow> int option \<Rightarrow> string + (string + 'p explanation)" where
  "explain_access c tenant enforcement find_path default_window n1 n2 client server since_hours =
     bind_sum (find_entities c tenant client) (\<lambda>clients.
     bind_sum (find_entities c tenant server) (\<lambda>servers.
     if clients = [] \<or> servers = []
     then Inr (Inl (''no entity matches '' @ [CHR 0x27] @ (if clients = [] then client else server) @ [CHR 0x27]))
     else
       (let window = hours_or since_hours default_window in
        bind_sum (since_ms n1 window) (\<lambda>s1.
        bind_sum (communicated_edges_multi c tenant (map en_id clients) (map en_id servers) s1) (\<lambda>edges.
        bind_sum (choose_entities clients servers edges) (\<lambda>(ce, se, comms).
        bind_sum (required ''ValueError'' (sum_counts ''sessions'' comms)) (\<lambda>sessions.
        bind_sum (required ''ValueError'' (sum_counts ''bytes'' comms)) (\<lambda>bytes_total.
        bind_sum (attribute_firewalls enforcement client server comms) (\<lambda>(firewalls, basis).
        bind_sum (configured_controls c tenant firewalls) (\<lambda>(configured, configured_basis).
        bind_sum (if comms = [] then Inr [] else governed_policies c tenant (map ee_id comms)) (\<lambda>governed.
        bind_sum (since_ms n2 window) (\<lambda>s2.
        bind_sum (alerts_for_pair c tenant (alert_ips client server ce se) s2) (\<lambda>alerts.
        bind_sum (required ''ValueError'' (int_list (union_attr ''ports'' comms))) (\<lambda>ports.
        bind_sum (find_path client server) (\<lambda>path.
        let attributed = (if length firewalls = 1 then Some (hd firewalls) else None) in
          Inr (Inr \<lparr>ex_client = entity_summary ce, ex_server = entity_summary se, ex_sessions = sessions,
            ex_bytes = bytes_total, ex_ports = sort ports, ex_providers = union_attr ''providers'' comms,
            ex_window = window, ex_controls = map (\<lambda>(p, a). control_of attributed basis p) governed,
            ex_detections = map detection_of alerts, ex_configured = configured,
            ex_configured_basis = configured_basis, ex_firewalls = firewalls, ex_firewall_basis = basis,
            ex_path = path\<rparr>))))))))))))))))"

text \<open>The counters in \<open>coverage\<close>.\<close>

definition coverage :: "'p explanation \<Rightarrow> bool \<times> nat" where
  "coverage x = (ex_sessions x > 0, length (ex_configured x))"

definition observed_by ::
  "reader \<Rightarrow> string \<Rightarrow> int \<Rightarrow> int \<Rightarrow> string \<Rightarrow> int option \<Rightarrow> string + (string + (string \<times> string) \<times> string list)" where
  "observed_by c tenant default_window now identifier since_hours =
     bind_sum (find_entities c tenant identifier) (\<lambda>cands.
       case cands of
         [] \<Rightarrow> Inr (Inl (''no entity matches '' @ [CHR 0x27] @ identifier @ [CHR 0x27]))
       | n # ns \<Rightarrow>
           bind_sum (since_ms now (hours_or since_hours default_window)) (\<lambda>s.
           bind_sum (observers_for_ips c tenant (sorted_set (filter is_ip (identifier # dvalues (en_identifiers n)))) s) (\<lambda>rows.
             let hosts = filter (\<lambda>h. h \<noteq> [])
                   (map (\<lambda>r. case map_of r ''observer_hostname'' of Some (PStr h) \<Rightarrow> h | _ \<Rightarrow> []) rows)
             in Inr (Inr ((en_id n, en_name n), sorted_set (map short_host hosts))))))"

text \<open>Rules of each firewall, one per policy id.\<close>

definition group_rules :: "(string \<times> entity) list \<Rightarrow> (string, (string, configured_rule) dict) dict" where
  "group_rules items =
     foldl (\<lambda>d (fw, p). dset d fw (dset (dget_or d fw []) (en_id p) (configured_rule_of fw p))) [] items"

definition configured_policies :: "reader \<Rightarrow> string \<Rightarrow> string list \<Rightarrow> string + (string \<times> configured_rule list \<times> nat) list" where
  "configured_policies c tenant names =
     bind_sum (configured_policies_for_firewalls c tenant names) (\<lambda>items.
       let by_fw = group_rules items in
       Inr (map (\<lambda>fw. let rules = dget_or by_fw fw [] in (fw, dvalues rules, length rules))
              (sorted_set (dkeys by_fw))))"

section \<open>The pair that is chosen\<close>

declare split_paired_All [simp del] split_paired_Ex [simp del]

definition has_provenance :: "ent_edge \<Rightarrow> bool" where
  "has_provenance e \<longleftrightarrow> dget_or (ee_attrs e) ''observer_hosts'' [] \<noteq> []"

text \<open>How a pair is ranked: provenance first, then sessions, then recency, then the ids.\<close>

definition pair_rank :: "string \<times> string \<Rightarrow> ent_edge list \<Rightarrow> bool \<times> int \<times> string \<times> string \<times> string" where
  "pair_rank k es = (list_ex has_provenance es, counter_total ''sessions'' es, foldl max [] (map ee_last es), k)"

definition extend :: "bucket \<Rightarrow> ent_edge list \<Rightarrow> bucket" where
  "extend b es = \<lparr>bk_edges = bk_edges b @ es, bk_sessions = bk_sessions b + counter_total ''sessions'' es,
     bk_last = foldl max (bk_last b) (map ee_last es), bk_prov = (bk_prov b \<or> list_ex has_provenance es)\<rparr>"

lemma extend_Nil: "extend b [] = b"
  by (simp add: extend_def counter_total_def)

lemma add_to_bucket_extend: "add_to_bucket e b = Some b' \<Longrightarrow> extend b' es = extend b (e # es)"
proof -
  assume a: "add_to_bucket e b = Some b'"
  then obtain n where n: "count_of ''sessions'' (ee_attrs e) = Some n"
    by (auto simp: add_to_bucket_def split: option.splits)
  then have "counter ''sessions'' e = n" by (rule count_of_counter)
  then show ?thesis
    using a n by (auto simp: add_to_bucket_def extend_def counter_total_def has_provenance_def max_def not_less
      intro: arg_cong [of _ _ "\<lambda>x. foldl _ x _"])
qed

definition edges_of_pair :: "string list \<Rightarrow> string list \<Rightarrow> ent_edge list \<Rightarrow> string \<times> string \<Rightarrow> ent_edge list" where
  "edges_of_pair clients servers edges k = filter (\<lambda>e. pair_key clients servers e = Some k) edges"

lemma group_pairs_spec:
  "group_pairs clients servers edges d = Some d' \<Longrightarrow> dict_ok d \<Longrightarrow>
     dict_ok d' \<and> (\<forall>k. map_of d' k =
       (if edges_of_pair clients servers edges k = [] then map_of d k
        else Some (extend (dget_or d k empty_bucket) (edges_of_pair clients servers edges k))))"
proof (induction edges arbitrary: d)
  case Nil
  then show ?case by (simp add: edges_of_pair_def)
next
  case (Cons e es)
  show ?case
  proof (cases "pair_key clients servers e")
    case None
    then show ?thesis using Cons by (simp add: edges_of_pair_def)
  next
    case (Some key)
    then obtain b where b: "add_to_bucket e (dget_or d key empty_bucket) = Some b"
      and rest: "group_pairs clients servers es (dset d key b) = Some d'"
      using Cons.prems(1) by (auto split: option.splits)
    note IH = Cons.IH [OF rest dict_ok_dset [OF Cons.prems(2)]]
    have "map_of d' k = (if edges_of_pair clients servers (e # es) k = [] then map_of d k
        else Some (extend (dget_or d k empty_bucket) (edges_of_pair clients servers (e # es) k)))" for k
    proof (cases "k = key")
      case True
      then have "edges_of_pair clients servers (e # es) k = e # edges_of_pair clients servers es k"
        using Some by (simp add: edges_of_pair_def)
      then show ?thesis
        using IH True add_to_bucket_extend [OF b, of "edges_of_pair clients servers es k"] extend_Nil [of b]
        by (cases "edges_of_pair clients servers es k = []") (simp_all add: dget_or_dset)
    next
      case False
      then have "edges_of_pair clients servers (e # es) k = edges_of_pair clients servers es k"
        using Some by (simp add: edges_of_pair_def)
      then show ?thesis using IH False by (simp add: dget_or_dset)
    qed
    then show ?thesis using IH by blast
  qed
qed

definition bucket_rank :: "(string \<times> string) \<times> bucket \<Rightarrow> bool \<times> int \<times> string \<times> string \<times> string" where
  "bucket_rank x = (bk_prov (snd x), bk_sessions (snd x), bk_last (snd x), fst x)"

lemma rank_less_rank: "rank_less x y \<longleftrightarrow> bucket_rank x < bucket_rank y"
  by (cases x; cases y) (auto simp: rank_less_def bucket_rank_def less_prod_def' Let_def)

lemma max_rank_best:
  "max_rank best xs \<in> insert best (set xs) \<and> (\<forall>y \<in> insert best (set xs). bucket_rank y \<le> bucket_rank (max_rank best xs))"
proof (induction xs arbitrary: best)
  case (Cons x xs)
  let ?b = "if rank_less best x then x else best"
  have "bucket_rank best \<le> bucket_rank ?b" "bucket_rank x \<le> bucket_rank ?b"
    by (auto simp: rank_less_rank)
  then show ?case using Cons.IH [of ?b] by (auto intro: order_trans)
qed simp

lemma pair_key_ends: "pair_key clients servers e = Some (a, b) \<Longrightarrow> a \<in> set clients \<and> b \<in> set servers"
  by (auto simp: pair_key_def split: if_splits)

text \<open>The explained flow is the best supported one.  Of all client and server candidates, the pair that is
  chosen is one whose ends are candidates and that has edges, it comes with exactly its edges, and no
  other pair with edges ranks higher: a pair whose edges carry firewall provenance wins over every pair
  without, then the number of sessions decides, then the latest edge.  No pair is chosen exactly when no
  edge joins a client to a server.\<close>

theorem select_pair_best:
  assumes "select_pair edges clients servers = Some r"
  shows "case r of
      None \<Rightarrow> \<forall>e \<in> set edges. pair_key clients servers e = None
    | Some (k, es) \<Rightarrow> fst k \<in> set clients \<and> snd k \<in> set servers
        \<and> es = edges_of_pair clients servers edges k \<and> es \<noteq> []
        \<and> (\<forall>k'. edges_of_pair clients servers edges k' \<noteq> [] \<longrightarrow>
             pair_rank k' (edges_of_pair clients servers edges k') \<le> pair_rank k es)"
proof -
  let ?es = "edges_of_pair clients servers edges"
  obtain d where d: "group_pairs clients servers edges [] = Some d"
    using assms by (auto simp: select_pair_def split: option.splits)
  have ok: "dict_ok d" and lookup: "map_of d k = (if ?es k = [] then None else Some (extend empty_bucket (?es k)))" for k
    using group_pairs_spec [OF d] by (simp_all add: dget_or_def)
  have rank: "bucket_rank (k, extend empty_bucket (?es k)) = pair_rank k (?es k)" for k
    by (simp add: bucket_rank_def pair_rank_def extend_def empty_bucket_def)
  show ?thesis
  proof (cases d)
    case Nil
    then have "r = None" using assms d by (simp add: select_pair_def)
    moreover have "pair_key clients servers e = None" if "e \<in> set edges" for e
    proof (rule ccontr)
      assume "pair_key clients servers e \<noteq> None"
      then obtain k where "pair_key clients servers e = Some k" by blast
      then have "?es k \<noteq> []" using that by (auto simp: edges_of_pair_def filter_empty_conv)
      then show False using lookup [of k] Nil by simp
    qed
    ultimately show ?thesis by simp
  next
    case (Cons p ps)
    obtain k b where kb: "max_rank p ps = (k, b)" by (cases "max_rank p ps")
    then have "(k, b) \<in> set d" and best: "\<And>y. y \<in> set d \<Longrightarrow> bucket_rank y \<le> bucket_rank (k, b)"
      using max_rank_best [of p ps] Cons by auto
    then have k: "map_of d k = Some b" using ok by (simp add: dict_ok_map_of)
    then have es: "?es k \<noteq> []" and b: "b = extend empty_bucket (?es k)" using lookup [of k] by (simp_all split: if_splits)
    have r: "r = Some (k, ?es k)"
      using assms d Cons kb b by (simp add: select_pair_def extend_def empty_bucket_def)
    obtain e where "pair_key clients servers e = Some k" using es by (auto simp: edges_of_pair_def filter_empty_conv)
    then have ends: "fst k \<in> set clients" "snd k \<in> set servers" using pair_key_ends [of clients servers e "fst k" "snd k"] by simp_all
    have "pair_rank k' (?es k') \<le> pair_rank k (?es k)" if "?es k' \<noteq> []" for k'
    proof -
      have "(k', extend empty_bucket (?es k')) \<in> set d"
        using lookup [of k'] that ok by (simp flip: dict_ok_map_of)
      from best [OF this] show ?thesis using rank by (simp add: b)
    qed
    then show ?thesis using r es ends by simp
  qed
qed

definition sample_flow_edge :: "string \<Rightarrow> string \<Rightarrow> string \<Rightarrow> ent_edge" where
  "sample_flow_edge src n hosts = (new_edge ''t'' src src ''d'' COMMUNICATED_WITH
     [(''sessions'', n), (''observer_hosts'', hosts)])\<lparr>ee_last := ''1''\<rparr>"

lemma select_pair_best_witness:
  "select_pair [sample_flow_edge ''x'' ''90'' [], sample_flow_edge ''m'' ''3'' ''fw1''] [''x'', ''m''] [''d'']
     = Some (Some ((''m'', ''d''), [sample_flow_edge ''m'' ''3'' ''fw1'']))
   \<and> pair_rank (''x'', ''d'') [sample_flow_edge ''x'' ''90'' []] \<le> pair_rank (''m'', ''d'') [sample_flow_edge ''m'' ''3'' ''fw1'']"
proof -
  let ?es = "[sample_flow_edge ''x'' ''90'' [], sample_flow_edge ''m'' ''3'' ''fw1'']"
  have sel: "select_pair ?es [''x'', ''m''] [''d''] = Some (Some ((''m'', ''d''), [sample_flow_edge ''m'' ''3'' ''fw1'']))"
    by code_simp
  have "edges_of_pair [''x'', ''m''] [''d''] ?es (''x'', ''d'') = [sample_flow_edge ''x'' ''90'' []]"
    by (simp add: edges_of_pair_def pair_key_def sample_flow_edge_def new_edge_def)
  then have "pair_rank (''x'', ''d'') [sample_flow_edge ''x'' ''90'' []] \<le> pair_rank (''m'', ''d'') [sample_flow_edge ''m'' ''3'' ''fw1'']"
    using select_pair_best [OF sel, simplified option.case prod.case, THEN conjunct2, THEN conjunct2, THEN conjunct2,
      THEN conjunct2, THEN spec, of "(''x'', ''d'')"] by simp
  with sel show ?thesis by blast
qed

end
