(* ===== verification/RuleTools.thy ===== *)
theory RuleTools
  imports Access
begin

text \<open>
  Rule history, usage and the unused-rule verdict of \<open>ssdf_mcp_query/rule_tools.py\<close>, over the stores of
  \<open>Access\<close> and the two usage queries.  A raised exception is \<open>Inl\<close> with its name.
\<close>

section \<open>\<open>rule_tools.py\<close>\<close>

definition DEFAULT_UNUSED_WINDOW_HOURS :: int where "DEFAULT_UNUSED_WINDOW_HOURS = 24 * 7"
definition COUNTER_MAX_AGE_HOURS :: int where "COUNTER_MAX_AGE_HOURS = 24"

definition time_exc :: "time_error \<Rightarrow> string" where
  "time_exc e = (case e of TimeParseError v \<Rightarrow> ''TimeParseError'' | OverflowError \<Rightarrow> ''OverflowError'')"

definition raise_time :: "time_error + 'a \<Rightarrow> string + 'a" where
  "raise_time r = (case r of Inl e \<Rightarrow> Inl (time_exc e) | Inr x \<Rightarrow> Inr x)"

text \<open>\<open>t + timedelta\<close> for a UTC time.\<close>

definition dt_add :: "pydt \<Rightarrow> int \<Rightarrow> string + pydt" where
  "dt_add t us =
     (if wall_us t + us < 0 \<or> 3652059 * day_us \<le> wall_us t + us then Inl ''OverflowError''
      else Inr (t\<lparr>wall_us := wall_us t + us\<rparr>))"

text \<open>\<open>str(t)\<close>\<close>

definition dt_str :: "pydt \<Rightarrow> string" where
  "dt_str t = take 10 (isoformat t) @ '' '' @ drop 11 (isoformat t)"

definition verdict :: "bool \<Rightarrow> bool \<Rightarrow> bool \<Rightarrow> pydt option \<Rightarrow> bool \<Rightarrow> bool \<Rightarrow> string \<times> string" where
  "verdict log_coverage_ok log_used hit_count_present counter_collected_at counter_stale counter_used =
     (if \<not> log_coverage_ok then (''unknown'', ''usage rollup does not cover the window'')
      else case counter_collected_at of
          None \<Rightarrow> (''unknown'', ''device hit-counter was not collected for this rule'')
        | Some t \<Rightarrow>
            if \<not> hit_count_present then (''unknown'', ''device hit-counter was not collected for this rule'')
            else if counter_stale then (''unknown'', ''device hit-counter is stale (collected '' @ dt_str t @ '')'')
            else if log_used \<noteq> counter_used then (''unknown'', ''log rollup and device hit-counter disagree'')
            else (if log_used then ''used'' else ''unused'', ''log rollup and device hit-counter agree''))"

text \<open>The answers of the two usage queries, decoded.\<close>

record usage_row =
  ur_start :: string
  ur_sessions :: int
  ur_bytes :: int

record coverage_row =
  cv_count :: int
  cv_min :: string
  cv_max :: string

record rule_reader = reader +
  rd_usage :: "query \<Rightarrow> string + usage_row list"
  rd_coverage :: "query \<Rightarrow> string + coverage_row list"

abbreviation store_of :: "rule_reader \<Rightarrow> reader" where
  "store_of c \<equiv> reader.truncate c"

definition rule_policy_for :: "rule_reader \<Rightarrow> string \<Rightarrow> string \<Rightarrow> string \<Rightarrow> string + entity option" where
  "rule_policy_for c tenant device rule =
     bind_sum (configured_policies_for_firewalls (store_of c) tenant [device])
       (\<lambda>items. Inr (map_option snd (List.find (\<lambda>it. en_name (snd it) = rule) items)))"

definition rule_history :: "rule_reader \<Rightarrow> string \<Rightarrow> string \<Rightarrow> int \<Rightarrow> string + event_row list \<times> nat" where
  "rule_history c device rule limit =
     bind_sum (rd_events c (build_rule_history_sql device rule limit)) (\<lambda>rows. Inr (rows, length rows))"

record rule_usage_answer =
  ru_buckets :: "usage_row list"
  ru_sessions :: int
  ru_bytes :: int
  ru_hit_count :: "int option"

text \<open>\<open>attrs.get(key)\<close>, where the empty text counts as missing.\<close>

definition attr_value :: "entity \<Rightarrow> string \<Rightarrow> string option" where
  "attr_value p key = (case map_of (en_attrs p) key of None \<Rightarrow> None | Some v \<Rightarrow> if v = [] then None else Some v)"

definition hit_count_of :: "entity \<Rightarrow> string + int option" where
  "hit_count_of p =
     (case attr_value p ''hit_count'' of None \<Rightarrow> Inr None
      | Some raw \<Rightarrow> (case py_int raw of None \<Rightarrow> Inl ''ValueError'' | Some n \<Rightarrow> Inr (Some n)))"

definition rule_usage ::
  "rule_reader \<Rightarrow> string \<Rightarrow> int \<Rightarrow> int \<Rightarrow> string \<Rightarrow> string \<Rightarrow> string option \<Rightarrow> string option \<Rightarrow> string + rule_usage_answer" where
  "rule_usage c tenant n1 n2 device rule since until =
     bind_sum (raise_time (build_rule_usage_sql n1 n2 device rule since until)) (\<lambda>q.
     bind_sum (rd_usage c q) (\<lambda>buckets.
     bind_sum (rule_policy_for c tenant device rule) (\<lambda>policy.
     bind_sum (case policy of None \<Rightarrow> Inr None | Some p \<Rightarrow> hit_count_of p) (\<lambda>hits.
       Inr \<lparr>ru_buckets = buckets, ru_sessions = sum_list (map ur_sessions buckets),
            ru_bytes = sum_list (map ur_bytes buckets), ru_hit_count = hits\<rparr>))))"

text \<open>Whether the rollup has a bucket near both ends of the window.\<close>

definition log_coverage :: "rule_reader \<Rightarrow> int \<Rightarrow> string \<Rightarrow> pydt \<Rightarrow> pydt \<Rightarrow> string + bool" where
  "log_coverage c now device since_dt until_dt =
     bind_sum (raise_time (build_device_log_coverage_sql now now device (Some (isoformat since_dt)) (Some (isoformat until_dt)))) (\<lambda>q.
     bind_sum (rd_coverage c q) (\<lambda>rows.
       case rows of
         [] \<Rightarrow> Inr False
       | r # rs \<Rightarrow>
           if cv_count r = 0 then Inr False
           else
             bind_sum (raise_time (parse_time now (cv_min r))) (\<lambda>min_bucket.
             bind_sum (raise_time (parse_time now (cv_max r))) (\<lambda>max_bucket.
             bind_sum (dt_add since_dt hour_us) (\<lambda>latest_start.
               if as_utc min_bucket > as_utc latest_start then Inr False
               else bind_sum (dt_add until_dt (- 2 * hour_us)) (\<lambda>earliest_end.
                 Inr (\<not> as_utc max_bucket < as_utc earliest_end)))))))"

record rule_verdict =
  rv_rule :: string
  rv_status :: string
  rv_reason :: string
  rv_log_coverage :: bool
  rv_log_used :: bool
  rv_hit_count :: "int option"
  rv_collected_at :: "string option"

definition judge_rule ::
  "rule_reader \<Rightarrow> int \<Rightarrow> string \<Rightarrow> pydt \<Rightarrow> pydt \<Rightarrow> bool \<Rightarrow> entity \<Rightarrow> string + rule_verdict" where
  "judge_rule c now device since_dt until_dt coverage_ok p =
     bind_sum (raise_time (build_rule_usage_sql now now device (en_name p) (Some (isoformat since_dt)) (Some (isoformat until_dt)))) (\<lambda>q.
     bind_sum (rd_usage c q) (\<lambda>rows.
     let log_used = list_ex (\<lambda>r. ur_sessions r > 0) rows;
         raw_hit = attr_value p ''hit_count'';
         raw_collected = attr_value p ''hit_count_collected_at'';
         present = (raw_hit \<noteq> None) in
     bind_sum (case raw_collected of None \<Rightarrow> Inr None
               | Some t \<Rightarrow> bind_sum (raise_time (parse_time now t)) (\<lambda>x. Inr (Some x))) (\<lambda>collected.
     bind_sum (if present \<and> collected \<noteq> None
               then bind_sum (dt_add until_dt (- COUNTER_MAX_AGE_HOURS * hour_us))
                      (\<lambda>oldest. Inr (as_utc (the collected) < as_utc oldest))
               else Inr False) (\<lambda>stale.
     let known = (present \<and> collected \<noteq> None \<and> \<not> stale) in
     bind_sum (if known then bind_sum (hit_count_of p) (\<lambda>h. Inr (case h of None \<Rightarrow> False | Some n \<Rightarrow> n > 0)) else Inr False) (\<lambda>counter_used.
     let (status, reason) = verdict coverage_ok log_used present collected stale counter_used in
     bind_sum (hit_count_of p) (\<lambda>hits.
       Inr \<lparr>rv_rule = en_name p, rv_status = status, rv_reason = reason, rv_log_coverage = coverage_ok,
            rv_log_used = log_used, rv_hit_count = hits, rv_collected_at = raw_collected\<rparr>))))))"

fun judge_all ::
  "rule_reader \<Rightarrow> int \<Rightarrow> string \<Rightarrow> pydt \<Rightarrow> pydt \<Rightarrow> bool \<Rightarrow> (string \<times> entity) list \<Rightarrow> string + rule_verdict list" where
  "judge_all c now device since_dt until_dt coverage_ok [] = Inr []"
| "judge_all c now device since_dt until_dt coverage_ok (it # its) =
     bind_sum (judge_rule c now device since_dt until_dt coverage_ok (snd it)) (\<lambda>v.
     bind_sum (judge_all c now device since_dt until_dt coverage_ok its) (\<lambda>vs. Inr (v # vs)))"

definition unused_rules ::
  "rule_reader \<Rightarrow> string \<Rightarrow> int \<Rightarrow> string \<Rightarrow> string option \<Rightarrow> string option
     \<Rightarrow> string + (string \<times> string) \<times> rule_verdict list" where
  "unused_rules c tenant now device since until =
     bind_sum (raise_time (parse_time_or now since (''now-'' @ show_int DEFAULT_UNUSED_WINDOW_HOURS @ ''h''))) (\<lambda>since_dt.
     bind_sum (raise_time (parse_time_or now until ''now'')) (\<lambda>until_dt.
     bind_sum (configured_policies_for_firewalls (store_of c) tenant [device]) (\<lambda>items.
     bind_sum (log_coverage c now device since_dt until_dt) (\<lambda>coverage_ok.
     bind_sum (judge_all c now device since_dt until_dt coverage_ok items) (\<lambda>verdicts.
       Inr ((isoformat since_dt, isoformat until_dt), verdicts))))))"

definition show_opt_int :: "int option \<Rightarrow> string" where
  "show_opt_int v = (case v of None \<Rightarrow> ''None'' | Some n \<Rightarrow> show_int n)"

record rule_explanation =
  rx_config :: configured_rule
  rx_usage :: rule_usage_answer
  rx_versions :: "event_row list"
  rx_verdict :: "rule_verdict option"
  rx_summary :: string

definition rule_summary :: "string \<Rightarrow> string \<Rightarrow> entity \<Rightarrow> rule_usage_answer \<Rightarrow> rule_verdict option \<Rightarrow> string" where
  "rule_summary device rule p usage v =
     rule @ '' on '' @ device @ '': action='' @ dget_or (en_attrs p) ''action'' [] @
     '', enabled='' @ dget_or (en_attrs p) ''enabled'' [] @
     '', sessions_in_window='' @ show_int (ru_sessions usage) @
     '', device_hit_count='' @ show_opt_int (ru_hit_count usage) @
     '', usage_status='' @ (case v of None \<Rightarrow> ''unknown'' | Some w \<Rightarrow> rv_status w) @ ''.''"

text \<open>\<open>Inl\<close> of the answer is the \<open>not_found\<close> detail.\<close>

definition explain_rule ::
  "rule_reader \<Rightarrow> string \<Rightarrow> int \<Rightarrow> string \<Rightarrow> string \<Rightarrow> string option \<Rightarrow> string option
     \<Rightarrow> string + (string + rule_explanation)" where
  "explain_rule c tenant now device rule since until =
     bind_sum (rule_policy_for c tenant device rule) (\<lambda>policy.
     case policy of
       None \<Rightarrow> Inr (Inl (''no configured rule '' @ [CHR 0x27] @ rule @ [CHR 0x27] @ '' on '' @ [CHR 0x27] @ device @ [CHR 0x27]))
     | Some p \<Rightarrow>
         bind_sum (rule_usage c tenant now now device rule since until) (\<lambda>usage.
         bind_sum (rule_history c device rule 5) (\<lambda>(versions, n).
         bind_sum (unused_rules c tenant now device since until) (\<lambda>(w, verdicts).
         let v = List.find (\<lambda>r. rv_rule r = rule) verdicts in
           Inr (Inr \<lparr>rx_config = configured_rule_of device p, rx_usage = usage, rx_versions = versions,
                     rx_verdict = v, rx_summary = rule_summary device rule p usage v\<rparr>)))))"

section \<open>What an unused rule rests on\<close>

lemma dt_add_utc: "dt_add t us = Inr t' \<Longrightarrow> as_utc t' = as_utc t + us"
  by (auto simp: dt_add_def as_utc_def split: if_splits option.splits)

lemma log_coverage_true:
  assumes "log_coverage c now device since_dt until_dt = Inr True"
  shows "\<exists>q r rs first newest. rd_coverage c q = Inr (r # rs) \<and> cv_count r \<noteq> 0
    \<and> parse_time now (cv_min r) = Inr first \<and> parse_time now (cv_max r) = Inr newest
    \<and> as_utc first \<le> as_utc since_dt + hour_us \<and> as_utc until_dt - 2 * hour_us \<le> as_utc newest"
proof -
  obtain q rows where rows: "rd_coverage c q = Inr rows"
    and body: "(case rows of [] \<Rightarrow> Inr False
       | r # rs \<Rightarrow>
           if cv_count r = 0 then Inr False
           else
             bind_sum (raise_time (parse_time now (cv_min r))) (\<lambda>min_bucket.
             bind_sum (raise_time (parse_time now (cv_max r))) (\<lambda>max_bucket.
             bind_sum (dt_add since_dt hour_us) (\<lambda>latest_start.
               if as_utc min_bucket > as_utc latest_start then Inr False
               else bind_sum (dt_add until_dt (- 2 * hour_us)) (\<lambda>earliest_end.
                 Inr (\<not> as_utc max_bucket < as_utc earliest_end)))))) = Inr True"
    using assms by (auto simp: log_coverage_def bind_sum_Inr_iff)
  then obtain r rs where r: "rows = r # rs" "cv_count r \<noteq> 0" by (cases rows) (auto split: if_splits)
  obtain a b s e where "parse_time now (cv_min r) = Inr a" "parse_time now (cv_max r) = Inr b"
      "dt_add since_dt hour_us = Inr s" "\<not> as_utc a > as_utc s" "dt_add until_dt (- 2 * hour_us) = Inr e" "\<not> as_utc b < as_utc e"
    using body r by (auto simp: bind_sum_Inr_iff raise_time_def split: sum.splits if_splits)
  then have "as_utc a \<le> as_utc since_dt + hour_us \<and> as_utc until_dt - 2 * hour_us \<le> as_utc b"
    using dt_add_utc by fastforce
  then show ?thesis using rows r \<open>parse_time now (cv_min r) = Inr a\<close> \<open>parse_time now (cv_max r) = Inr b\<close> by blast
qed

lemma verdict_unused:
  "fst (verdict cov used present collected stale hit) = ''unused'' \<longleftrightarrow>
     cov \<and> present \<and> collected \<noteq> None \<and> \<not> stale \<and> \<not> used \<and> \<not> hit"
  by (auto simp: verdict_def split: option.splits)

lemma judge_rule_unused:
  assumes "judge_rule c now device since_dt until_dt cov p = Inr v" and "rv_status v = ''unused''"
  shows "cov \<and> rv_rule v = en_name p \<and> \<not> rv_log_used v
    \<and> (\<exists>q rows. rd_usage c q = Inr rows \<and> build_rule_usage_sql now now device (en_name p) (Some (isoformat since_dt)) (Some (isoformat until_dt)) = Inr q
         \<and> (\<forall>r \<in> set rows. ur_sessions r \<le> 0))
    \<and> (\<exists>h. rv_hit_count v = Some h \<and> h \<le> 0)
    \<and> (\<exists>raw t. rv_collected_at v = Some raw \<and> parse_time now raw = Inr t
         \<and> as_utc until_dt - COUNTER_MAX_AGE_HOURS * hour_us \<le> as_utc t)"
proof -
  obtain q rows collected stale hit hits where
    q: "build_rule_usage_sql now now device (en_name p) (Some (isoformat since_dt)) (Some (isoformat until_dt)) = Inr q"
    and rows: "rd_usage c q = Inr rows"
    and coll: "(case attr_value p ''hit_count_collected_at'' of None \<Rightarrow> Inr None
               | Some t \<Rightarrow> bind_sum (raise_time (parse_time now t)) (\<lambda>x. Inr (Some x))) = Inr collected"
    and stale: "(if attr_value p ''hit_count'' \<noteq> None \<and> collected \<noteq> None
               then bind_sum (dt_add until_dt (- COUNTER_MAX_AGE_HOURS * hour_us))
                      (\<lambda>oldest. Inr (as_utc (the collected) < as_utc oldest))
               else Inr False) = Inr stale"
    and hit: "(if attr_value p ''hit_count'' \<noteq> None \<and> collected \<noteq> None \<and> \<not> stale
               then bind_sum (hit_count_of p) (\<lambda>h. Inr (case h of None \<Rightarrow> False | Some n \<Rightarrow> n > 0)) else Inr False) = Inr hit"
    and hits: "hit_count_of p = Inr hits"
    and v: "v = \<lparr>rv_rule = en_name p,
        rv_status = fst (verdict cov (list_ex (\<lambda>r. ur_sessions r > 0) rows) (attr_value p ''hit_count'' \<noteq> None) collected stale hit),
        rv_reason = snd (verdict cov (list_ex (\<lambda>r. ur_sessions r > 0) rows) (attr_value p ''hit_count'' \<noteq> None) collected stale hit),
        rv_log_coverage = cov, rv_log_used = list_ex (\<lambda>r. ur_sessions r > 0) rows, rv_hit_count = hits,
        rv_collected_at = attr_value p ''hit_count_collected_at''\<rparr>"
    using assms(1) unfolding judge_rule_def Let_def bind_sum_Inr_iff case_prod_beta raise_time_def
    by (auto split: sum.splits)
  have u: "cov" "attr_value p ''hit_count'' \<noteq> None" "collected \<noteq> None" "\<not> stale" "\<not> list_ex (\<lambda>r. ur_sessions r > 0) rows" "\<not> hit"
    using assms(2) unfolding v rule_verdict.simps verdict_unused by blast+
  have "hits \<noteq> None" using hits u(2) by (auto simp: hit_count_of_def split: option.splits) metis
  then obtain h where h: "hits = Some h" by blast
  then have "h \<le> 0" using hit u hits by (auto simp: not_less)
  moreover obtain raw t where t: "attr_value p ''hit_count_collected_at'' = Some raw" "parse_time now raw = Inr t" "collected = Some t"
    using coll u(3) by (auto simp: bind_sum_Inr_iff raise_time_def split: option.splits sum.splits)
  moreover have "as_utc until_dt - COUNTER_MAX_AGE_HOURS * hour_us \<le> as_utc t"
    using stale u t(3) by (auto simp: bind_sum_Inr_iff dest: dt_add_utc)
  moreover have "\<forall>r \<in> set rows. ur_sessions r \<le> 0"
    using u(5) by (auto simp: list_ex_iff not_less)
  ultimately show ?thesis using q rows u(1,5) h by (simp add: v)
qed

lemma judge_all_mem:
  "judge_all c now device since_dt until_dt cov items = Inr vs \<Longrightarrow> v \<in> set vs \<Longrightarrow>
     \<exists>it \<in> set items. judge_rule c now device since_dt until_dt cov (snd it) = Inr v"
  by (induction items arbitrary: vs) (auto simp: bind_sum_Inr_iff)


definition sample_rule :: entity where
  "sample_rule = (sample_end ''p'' [] [])\<lparr>en_name := ''allow-web'',
     en_attrs := [(''hit_count'', ''0''), (''hit_count_collected_at'', ''now'')]\<rparr>"

definition sample_rules :: rule_reader where
  "sample_rules = \<lparr>rd_entities = \<lambda>q. Inr [sample_end ''f'' [] [], sample_rule],
     rd_edges = \<lambda>q. Inr [new_edge ''t'' ''e'' ''f'' ''p'' GOVERNED_BY_E []], rd_events = \<lambda>q. Inr [],
     rd_usage = \<lambda>q. Inr [], rd_coverage = \<lambda>q. Inr [\<lparr>cv_count = 3, cv_min = ''now-168h'', cv_max = ''now''\<rparr>]\<rparr>"

lemma sample_unused:
  "(case unused_rules sample_rules ''t'' 1000000000000000 ''f'' (Some ''now-168h'') (Some ''now'') of
      Inr (w, [v]) \<Rightarrow> rv_status v = ''unused'' | _ \<Rightarrow> False)"
  by code_simp


end
