(* ===== verification/Signals.thy ===== *)
theory Signals
  imports GraphTools RuleTools
begin

text \<open>
  Alert rows with normalised severity (\<open>alerts.py\<close>), the ingest status of the firewalls
  (\<open>liveness_tools.py\<close>) and the status of the fabric (\<open>fabric_tools.py\<close>, \<open>fabric_manifest.py\<close>).
\<close>

section \<open>\<open>alerts.py\<close>\<close>

definition SEVERITY_NUM :: "(string, int) dict" where
  "SEVERITY_NUM = [(''critical'', 4), (''high'', 3), (''medium'', 2), (''low'', 1)]"

definition ALERT_KINDS :: "string list" where "ALERT_KINDS = [''alert'']"
definition PAN_SEVERITY_KEY :: string where "PAN_SEVERITY_KEY = ''panw.panos.severity''"

definition unifi_severity :: "string \<Rightarrow> string \<times> int" where
  "unifi_severity sev = (if sev = ''1'' then (''critical'', 4) else if sev = ''2'' then (''high'', 3) else (''medium'', 2))"

definition pan_severity :: "string \<Rightarrow> string \<times> int" where
  "pan_severity raw =
     (let s = lower raw in
      case map_of SEVERITY_NUM s of Some n \<Rightarrow> (s, n)
      | None \<Rightarrow> if s = ''informational'' then (''low'', 1) else (''medium'', 2))"

definition syslog_severity :: "int \<Rightarrow> string \<times> int" where
  "syslog_severity n =
     (if n \<le> 2 then (''critical'', 4) else if n = 3 then (''high'', 3) else if n = 4 then (''medium'', 2) else (''low'', 1))"

text \<open>\<open>Inr None\<close> is a row that is no alert, \<open>Inl\<close> the \<open>ValueError\<close> of a malformed syslog severity.\<close>

definition normalize_severity :: "string \<Rightarrow> attrs \<Rightarrow> string + (string \<times> int) option" where
  "normalize_severity event_kind ext =
     (case map_of ext ''unifi.ips.severity'' of
        Some sev \<Rightarrow> Inr (Some (unifi_severity sev))
      | None \<Rightarrow>
          (case map_of ext PAN_SEVERITY_KEY of
             Some raw \<Rightarrow> Inr (Some (pan_severity raw))
           | None \<Rightarrow>
               (case map_of ext ''syslog.severity'' of
                  Some raw \<Rightarrow> (case py_int raw of None \<Rightarrow> Inl ''ValueError'' | Some n \<Rightarrow> Inr (Some (syslog_severity n)))
                | None \<Rightarrow> Inr (if event_kind \<in> set ALERT_KINDS then Some (''medium'', 2) else None))))"

record alert_params =
  ap_since :: pydt
  ap_limit :: int
  ap_kinds :: "string list"
  ap_providers :: "string list option"

definition provider_list :: "string \<Rightarrow> string list" where
  "provider_list providers = map strip (filter (\<lambda>p. strip p \<noteq> []) (split_on CHR '','' providers))"

definition build_recent_alerts_sql :: "int \<Rightarrow> string \<Rightarrow> string \<Rightarrow> int \<Rightarrow> time_error + string \<times> alert_params" where
  "build_recent_alerts_sql now since providers limit =
     bind_sum (parse_time now since) (\<lambda>t.
       let conds = [''events.timestamp >= %(since)s'',
             ''(event_kind IN %(kinds)s OR ext['unifi.ips.signature'] != '' @ [CHR 0x27, CHR 0x27] @
             '' OR ext['panw.panos.severity'] != '' @ [CHR 0x27, CHR 0x27] @ '')'']
             @ (if providers \<noteq> [] then [''event_provider IN %(providers)s''] else [])
       in Inr (''SELECT event_id, toString(timestamp) AS timestamp, event_provider, '' @
               ''event_kind, rule_name, source_ip, source_port, destination_ip, '' @
               ''destination_port, observer_hostname, observer_ingress_zone, '' @
               ''observer_egress_zone, ext '' @
               ''FROM ssdf.events WHERE '' @ join '' AND '' conds @
               '' ORDER BY events.timestamp DESC LIMIT %(limit)s'',
               \<lparr>ap_since = t, ap_limit = max 1 (min limit 2000), ap_kinds = ALERT_KINDS,
                ap_providers = (if providers \<noteq> [] then Some (provider_list providers) else None)\<rparr>))"

record alert_event =
  ae_id :: string
  ae_time :: string
  ae_provider :: string
  ae_kind :: string
  ae_rule :: string
  ae_src :: "pyval \<times> pyval"
  ae_dst :: "pyval \<times> pyval"
  ae_observer :: string
  ae_zones :: "string \<times> string"
  ae_ext :: attrs

record alert_row =
  ar_event :: alert_event
  ar_signature :: string
  ar_severity :: string
  ar_num :: int
  ar_ext_subset :: attrs

definition alert_signature :: "alert_event \<Rightarrow> string" where
  "alert_signature r =
     opt_or (map_of (ae_ext r) ''unifi.ips.signature'') (str_or (ae_rule r) (ae_kind r))"

definition ext_subset :: "attrs \<Rightarrow> attrs" where
  "ext_subset ext =
     filter (\<lambda>(k, v). startswith k ''unifi.ips.'' \<or> startswith k ''panw.'' \<or> startswith k ''syslog.'') ext"

fun alert_rows :: "int \<Rightarrow> alert_event list \<Rightarrow> string + alert_row list" where
  "alert_rows floor_num [] = Inr []"
| "alert_rows floor_num (r # rs) =
     bind_sum (normalize_severity (ae_kind r) (ae_ext r)) (\<lambda>norm.
     bind_sum (alert_rows floor_num rs) (\<lambda>rest.
       case norm of None \<Rightarrow> Inr rest
       | Some (label, n) \<Rightarrow>
           if n < floor_num then Inr rest
           else Inr (\<lparr>ar_event = r, ar_signature = alert_signature r, ar_severity = label, ar_num = n,
                      ar_ext_subset = ext_subset (ae_ext r)\<rparr> # rest)))"

definition severity_floor :: "string \<Rightarrow> int" where
  "severity_floor min_severity = dget_or SEVERITY_NUM min_severity 3"

definition recent_alerts ::
  "(string \<times> alert_params \<Rightarrow> string + alert_event list) \<Rightarrow> int \<Rightarrow> string \<Rightarrow> string \<Rightarrow> string \<Rightarrow> int
     \<Rightarrow> string + alert_row list \<times> nat \<times> bool" where
  "recent_alerts run now since min_severity providers limit =
     bind_sum (raise_time (build_recent_alerts_sql now since providers limit)) (\<lambda>q.
     bind_sum (run q) (\<lambda>events.
     bind_sum (alert_rows (severity_floor min_severity) events) (\<lambda>rows.
       Inr (rows, length rows, int (length events) \<ge> ap_limit (snd q)))))"

section \<open>\<open>liveness_tools.py\<close>\<close>

record fw_status =
  fs_name :: string
  fs_provider :: "string option"
  fs_last :: "string option"
  fs_hours :: "real option"
  fs_stale :: bool

record observer_row =
  ob_host :: string
  ob_provider :: string
  ob_max :: string
  ob_hours :: "real option"

text \<open>Firewalls of the topology, assumed stale until an event shows otherwise.\<close>

definition topo_status :: "gnode list \<Rightarrow> (string, fw_status) dict" where
  "topo_status ns =
     foldl (\<lambda>d n. if gn_name n = [] then d
       else dset d (gn_name n) \<lparr>fs_name = gn_name n, fs_provider = map_of (gn_identifiers n) ''provider'',
              fs_last = None, fs_hours = None, fs_stale = True\<rparr>) [] ns"

definition status_of :: "real \<Rightarrow> string \<Rightarrow> observer_row \<Rightarrow> real \<Rightarrow> fw_status" where
  "status_of staleness name r h =
     \<lparr>fs_name = name, fs_provider = Some (ob_provider r), fs_last = Some (ob_max r), fs_hours = Some h,
      fs_stale = (h > staleness)\<rparr>"

definition event_step :: "real \<Rightarrow> (string, fw_status) dict \<Rightarrow> observer_row \<Rightarrow> (string, fw_status) dict" where
  "event_step staleness d r =
     (case ob_hours r of None \<Rightarrow> d
      | Some h \<Rightarrow>
          if ob_host r = [] \<or> ob_max r = [] then d
          else
            (let name = short_host (ob_host r) in
             case map_of d name of
               None \<Rightarrow> dset d name (status_of staleness name r h)
             | Some old \<Rightarrow>
                 (case fs_hours old of
                    Some h0 \<Rightarrow> if h < h0 then dset d name (status_of staleness name r h) else d
                  | None \<Rightarrow> d)))"

definition event_status :: "real \<Rightarrow> observer_row list \<Rightarrow> (string, fw_status) dict" where
  "event_status staleness rows = foldl (event_step staleness) [] rows"

text \<open>The topology firewalls with their events, then the devices only the events know.\<close>

definition merge_status :: "(string, fw_status) dict \<Rightarrow> (string, fw_status) dict \<Rightarrow> (string, fw_status) dict" where
  "merge_status topo events =
     map (\<lambda>(k, v). (k, dget_or events k v)) topo @ filter (\<lambda>(k, v). \<not> dhas topo k) events"

text \<open>Python compares \<open>(not stale, name)\<close>.\<close>

definition stale_first :: "('a \<Rightarrow> bool) \<Rightarrow> ('a \<Rightarrow> string) \<Rightarrow> 'a list \<Rightarrow> 'a list" where
  "stale_first stale name xs = sort_key (\<lambda>x. (\<not> stale x, name x)) xs"

record ingest_summary =
  is_total :: nat
  is_stale :: nat
  is_fresh :: nat

definition ingest_report :: "real \<Rightarrow> gnode list \<Rightarrow> observer_row list \<Rightarrow> fw_status list \<times> ingest_summary" where
  "ingest_report staleness nodes rows =
     (let fws = stale_first fs_stale fs_name (dvalues (merge_status (topo_status nodes) (event_status staleness rows)));
          stale = length (filter fs_stale fws)
      in (fws, \<lparr>is_total = length fws, is_stale = stale, is_fresh = length fws - stale\<rparr>))"

definition ingest_status ::
  "graph_reader \<Rightarrow> string \<Rightarrow> string \<Rightarrow> (query \<Rightarrow> string + observer_row list) \<Rightarrow> real \<Rightarrow> int \<Rightarrow> real option
     \<Rightarrow> string + fw_status list \<times> ingest_summary" where
  "ingest_status g tenant schema run default_staleness now staleness_hours =
     bind_sum (nodes_by_attr g tenant schema (Some ''firewall'') (Some ''device'') 5000) (\<lambda>nodes.
     bind_sum (since_ms now (24 * 7)) (\<lambda>since.
     bind_sum (run (build_recent_observer_hostnames_sql since ''t_main'')) (\<lambda>rows.
       Inr (ingest_report (case staleness_hours of None \<Rightarrow> default_staleness | Some h \<Rightarrow> h) nodes rows))))"

section \<open>\<open>fabric_manifest.py\<close> and \<open>fabric_tools.py\<close>\<close>

definition subject_of ::
  "string \<Rightarrow> string \<Rightarrow> string \<Rightarrow> string \<Rightarrow> (string \<times> string) option \<Rightarrow> real \<Rightarrow> string \<Rightarrow> subject" where
  "subject_of name kind table ts flt budget note =
     \<lparr>sb_name = name, sb_kind = kind, sb_table = table, sb_ts = ts, sb_filter = map_option fst flt,
      sb_value = (case flt of None \<Rightarrow> [] | Some (c, v) \<Rightarrow> v), sb_budget = budget, sb_note = note\<rparr>"

definition MANIFEST :: "subject list" where
  "MANIFEST =
     [subject_of ''juniper'' ''source'' ''ssdf.events'' ''timestamp'' (Some (''event_provider'', ''juniper'')) 1
        (''Continuous SRX security stream; quiet for an hour means something broke.''),
      subject_of ''paloalto'' ''source'' ''ssdf.events'' ''timestamp'' (Some (''event_provider'', ''paloalto'')) 1
        (''Continuous PAN-OS traffic stream.''),
      subject_of ''proxmox'' ''source'' ''ssdf.events'' ''timestamp'' (Some (''event_provider'', ''proxmox'')) 24
        (''Event-driven: auth and task events only on activity. Idle overnight is correct.''),
      subject_of ''unifi'' ''source'' ''ssdf.health_metrics'' ''timestamp'' (Some (''provider'', ''unifi'')) (1 / 2)
        (''Checked against the 5-minute collector poll, NOT ssdf.events: IPS detections are rare '' @
         ''by design, so event silence is not a fault while a dead integration is.''),
      subject_of ''ssdf-topo'' ''resolver'' ''ssdf.topo_observations'' ''observed_at'' None (1 / 4)
        (''5-minute timer; 0.25h allows three missed runs.''),
      subject_of ''ssdf-entity'' ''resolver'' ''ssdf.entity_edges'' ''last_seen'' None (1 / 4)
        (''5-minute timer. last_seen reads event-derived but is stamped by the resolver at write '' @
         ''time '' @
         [CHR 0xE2, CHR 0x80, CHR 0x94] @
         '' verified live while flow events were ~0.''),
      subject_of ''ssdf-policy'' ''resolver'' ''ssdf.entities'' ''last_seen'' (Some (''source'', ''configured'')) 2
        (''Hourly timer. This is the signal that was flat for four days while the resolver ran, '' @
         ''exited 0 and logged '0 entities upserted'.''),
      subject_of ''ssdf-health'' ''resolver'' ''ssdf.health_metrics'' ''timestamp'' None (1 / 4)
        (''5-minute timer.''),
      subject_of ''ssdf-public-metrics'' ''resolver'' ''ssdf_public.metric_timeseries'' ''inserted_at'' None (1 / 4)
        (''5-minute timer. inserted_at, not bucket_start, which lags by design.'')]"

record probe_row =
  pr_n :: int
  pr_hours :: "real option"
  pr_max :: "string option"

record probe =
  pb_subject :: subject
  pb_signal :: string
  pb_last :: "string option"
  pb_hours :: "real option"
  pb_stale :: bool
  pb_error :: "string option"

definition probe_subject :: "(query \<Rightarrow> string + probe_row list) \<Rightarrow> subject \<Rightarrow> probe" where
  "probe_subject run s =
     (let base = \<lparr>pb_subject = s, pb_signal = signal_label s, pb_last = None, pb_hours = None, pb_stale = True, pb_error = None\<rparr> in
      case run (build_subject_sql s) of
        Inl exc \<Rightarrow> base\<lparr>pb_error := Some exc\<rparr>
      | Inr [] \<Rightarrow> base
      | Inr (r # rs) \<Rightarrow>
          (case pr_hours r of None \<Rightarrow> base
           | Some h \<Rightarrow> if pr_n r = 0 then base
                       else base\<lparr>pb_last := pr_max r, pb_hours := Some h, pb_stale := (h > sb_budget s)\<rparr>))"

record fabric_report =
  fr_healthy :: bool
  fr_subjects :: "probe list"
  fr_devices :: "ingest_summary option"
  fr_devices_error :: "string option"
  fr_stale :: nat
  fr_errored :: nat

text \<open>\<open>devices\<close> is the answer of the liveness tool, when one is attached.\<close>

definition fabric_status ::
  "(query \<Rightarrow> string + probe_row list) \<Rightarrow> subject list \<Rightarrow> (string + fw_status list \<times> ingest_summary) option \<Rightarrow> fabric_report" where
  "fabric_status run manifest devices =
     (let subjects = stale_first pb_stale (\<lambda>p. sb_name (pb_subject p)) (map (probe_subject run) manifest);
          stale = length (filter pb_stale subjects);
          errored = length (filter (\<lambda>p. pb_error p \<noteq> None) subjects);
          base = \<lparr>fr_healthy = (stale = 0 \<and> errored = 0), fr_subjects = subjects, fr_devices = None,
                  fr_devices_error = None, fr_stale = stale, fr_errored = errored\<rparr>
      in case devices of
           None \<Rightarrow> base
         | Some (Inr (fws, summary)) \<Rightarrow> base\<lparr>fr_devices := Some summary\<rparr>
         | Some (Inl exc) \<Rightarrow> base\<lparr>fr_devices_error := Some exc, fr_healthy := False\<rparr>)"

section \<open>Alerts\<close>

lemma unifi_severity_num: "map_of SEVERITY_NUM (fst (unifi_severity sev)) = Some (snd (unifi_severity sev))"
  by (simp add: unifi_severity_def SEVERITY_NUM_def)

lemma syslog_severity_num: "map_of SEVERITY_NUM (fst (syslog_severity n)) = Some (snd (syslog_severity n))"
  by (simp add: syslog_severity_def SEVERITY_NUM_def)

lemma pan_severity_num: "map_of SEVERITY_NUM (fst (pan_severity raw)) = Some (snd (pan_severity raw))"
  by (cases "map_of SEVERITY_NUM (lower raw)") (simp_all add: pan_severity_def Let_def SEVERITY_NUM_def)

lemma normalize_severity_num:
  assumes "normalize_severity kind ext = Inr (Some (label, n))"
  shows "map_of SEVERITY_NUM label = Some n"
proof -
  consider sev where "unifi_severity sev = (label, n)" | raw where "pan_severity raw = (label, n)"
    | k where "syslog_severity k = (label, n)" | "label = ''medium''" "n = 2"
    using assms unfolding normalize_severity_def by (auto split: option.splits if_splits)
  then show ?thesis
  proof cases
    case (1 sev)
    then show ?thesis using unifi_severity_num [of sev] by simp
  next
    case (2 raw)
    then show ?thesis using pan_severity_num [of raw] by simp
  next
    case (3 k)
    then show ?thesis using syslog_severity_num [of k] by simp
  qed (simp add: SEVERITY_NUM_def)
qed

definition alert_at_least :: "int \<Rightarrow> alert_event \<Rightarrow> bool" where
  "alert_at_least floor_num r \<longleftrightarrow>
     (case normalize_severity (ae_kind r) (ae_ext r) of Inr (Some (label, n)) \<Rightarrow> floor_num \<le> n | _ \<Rightarrow> False)"

lemma alert_rows_spec:
  "alert_rows floor_num events = Inr rows \<Longrightarrow>
     map ar_event rows = filter (alert_at_least floor_num) events
     \<and> (\<forall>r \<in> set rows. normalize_severity (ae_kind (ar_event r)) (ae_ext (ar_event r)) = Inr (Some (ar_severity r, ar_num r)))"
proof (induction events arbitrary: rows)
  case (Cons e es)
  obtain norm rest where n: "normalize_severity (ae_kind e) (ae_ext e) = Inr norm" and rest: "alert_rows floor_num es = Inr rest"
    using Cons.prems by (auto simp: bind_sum_Inr_iff)
  show ?case
  proof (cases norm)
    case None
    then show ?thesis using Cons.prems Cons.IH [OF rest] n rest by (simp add: alert_at_least_def)
  next
    case (Some ln)
    obtain label k where "ln = (label, k)" by (cases ln)
    then show ?thesis using Cons.prems Cons.IH [OF rest] n rest Some by (auto simp: alert_at_least_def split: if_splits)
  qed
qed simp

text \<open>The alert tool reports every alert that is severe enough and nothing else.  Its rows are, in the
  order of the answer, exactly the events whose normalised severity reaches the floor that the caller
  named, or that of \<open>high\<close> for an unknown name; each carries its own severity, whose label and number
  agree; and a level is never worse than critical nor better than low.\<close>

theorem recent_alerts_exact:
  assumes "recent_alerts run now since min_severity providers limit = Inr (rows, count, truncated)"
  shows "\<exists>q events. run q = Inr events \<and> count = length rows
    \<and> map ar_event rows = filter (alert_at_least (severity_floor min_severity)) events
    \<and> (\<forall>r \<in> set rows. normalize_severity (ae_kind (ar_event r)) (ae_ext (ar_event r)) = Inr (Some (ar_severity r, ar_num r))
         \<and> map_of SEVERITY_NUM (ar_severity r) = Some (ar_num r) \<and> 1 \<le> ar_num r \<and> ar_num r \<le> 4)
    \<and> (truncated \<longleftrightarrow> int (length events) \<ge> max 1 (min limit 2000))"
proof -
  obtain q events where q: "build_recent_alerts_sql now since providers limit = Inr q" "run q = Inr events"
    and rows: "alert_rows (severity_floor min_severity) events = Inr rows"
    and t: "count = length rows" "truncated \<longleftrightarrow> int (length events) \<ge> ap_limit (snd q)"
    using assms by (auto simp: recent_alerts_def bind_sum_Inr_iff raise_time_def split: sum.splits)
  have "ap_limit (snd q) = max 1 (min limit 2000)"
    using q(1) by (auto simp: build_recent_alerts_sql_def bind_sum_Inr_iff Let_def)
  moreover have "map_of SEVERITY_NUM l = Some n \<Longrightarrow> 1 \<le> n \<and> n \<le> 4" for l n
    by (auto simp: SEVERITY_NUM_def split: if_splits)
  ultimately show ?thesis
    using q(2) t alert_rows_spec [OF rows] normalize_severity_num by metis
qed

definition sample_alert :: "string \<Rightarrow> attrs \<Rightarrow> alert_event" where
  "sample_alert i ext = \<lparr>ae_id = i, ae_time = ''1'', ae_provider = ''unifi'', ae_kind = ''alert'', ae_rule = [],
     ae_src = (PNone, PNone), ae_dst = (PNone, PNone), ae_observer = [], ae_zones = ([], []), ae_ext = ext\<rparr>"

lemma recent_alerts_exact_witness:
  "\<exists>rows q events. recent_alerts (\<lambda>q. Inr [sample_alert ''a'' [(''unifi.ips.severity'', ''1'')], sample_alert ''b'' []])
      1000000000000000 ''now'' ''high'' [] 500 = Inr (rows, 1, False) \<and> (\<forall>r \<in> set rows. ar_num r \<le> 4)"
proof -
  have "case recent_alerts (\<lambda>q. Inr [sample_alert ''a'' [(''unifi.ips.severity'', ''1'')], sample_alert ''b'' []])
      1000000000000000 ''now'' ''high'' [] 500 of Inr (rows, n, t) \<Rightarrow> n = 1 \<and> \<not> t | _ \<Rightarrow> False"
    by code_simp
  then obtain rows where r: "recent_alerts (\<lambda>q. Inr [sample_alert ''a'' [(''unifi.ips.severity'', ''1'')], sample_alert ''b'' []])
      1000000000000000 ''now'' ''high'' [] 500 = Inr (rows, 1, False)"
    by (auto split: sum.splits)
  from recent_alerts_exact [OF r] have "\<forall>r \<in> set rows. ar_num r \<le> 4" by blast
  with r show ?thesis by blast
qed

section \<open>Liveness\<close>

text \<open>The ages of the events of one device, as the query reports them.\<close>

definition event_ages :: "string \<Rightarrow> observer_row list \<Rightarrow> real set" where
  "event_ages name rows =
     {h. \<exists>r \<in> set rows. ob_hours r = Some h \<and> ob_host r \<noteq> [] \<and> ob_max r \<noteq> [] \<and> short_host (ob_host r) = name}"

definition events_ok :: "real \<Rightarrow> observer_row list \<Rightarrow> (string, fw_status) dict \<Rightarrow> bool" where
  "events_ok st rows d \<longleftrightarrow> dict_ok d \<and>
     (\<forall>k. case map_of d k of
        None \<Rightarrow> event_ages k rows = {}
      | Some v \<Rightarrow> fs_name v = k \<and> (\<exists>h. fs_hours v = Some h \<and> fs_stale v = (h > st)
                    \<and> h \<in> event_ages k rows \<and> (\<forall>h' \<in> event_ages k rows. h \<le> h')))"

lemma event_ages_snoc:
  "event_ages k (rows @ [r]) = event_ages k rows \<union>
     (case ob_hours r of None \<Rightarrow> {}
      | Some h \<Rightarrow> if ob_host r \<noteq> [] \<and> ob_max r \<noteq> [] \<and> short_host (ob_host r) = k then {h} else {})"
  by (auto simp: event_ages_def split: option.splits)

lemma event_step_ok: "events_ok st rows d \<Longrightarrow> events_ok st (rows @ [r]) (event_step st d r)"
proof -
  assume ok: "events_ok st rows d"
  show "events_ok st (rows @ [r]) (event_step st d r)"
  proof (cases "ob_hours r = None \<or> ob_host r = [] \<or> ob_max r = []")
    case True
    then have step: "event_step st d r = d" and ages: "\<And>k. event_ages k (rows @ [r]) = event_ages k rows"
      by (auto simp: event_step_def event_ages_snoc split: option.splits)
    show ?thesis using ok unfolding events_ok_def step ages .
  next
    case False
    then obtain h where h: "ob_hours r = Some h" "ob_host r \<noteq> []" "ob_max r \<noteq> []" by auto
    let ?k = "short_host (ob_host r)"
    have ages: "event_ages k (rows @ [r]) = (if k = ?k then insert h (event_ages k rows) else event_ages k rows)" for k
      using h by (auto simp: event_ages_snoc)
    have old: "case map_of d ?k of None \<Rightarrow> event_ages ?k rows = {}
      | Some v \<Rightarrow> fs_name v = ?k \<and> (\<exists>h. fs_hours v = Some h \<and> fs_stale v = (h > st)
                    \<and> h \<in> event_ages ?k rows \<and> (\<forall>h' \<in> event_ages ?k rows. h \<le> h'))"
      using ok unfolding events_ok_def by blast
    have "event_step st d r = (case map_of d ?k of
               None \<Rightarrow> dset d ?k (status_of st ?k r h)
             | Some old \<Rightarrow> (case fs_hours old of
                    Some h0 \<Rightarrow> if h < h0 then dset d ?k (status_of st ?k r h) else d | None \<Rightarrow> d))"
      using h by (simp add: event_step_def Let_def)
    then show ?thesis
      using ok old unfolding events_ok_def ages
      by (auto simp: status_of_def split: option.splits if_splits) (force+)?
  qed
qed

lemma event_status_ok: "events_ok st rows (event_status st rows)"
proof -
  have "events_ok st past d \<Longrightarrow> events_ok st (past @ rest) (foldl (event_step st) d rest)" for past rest d
  proof (induction rest arbitrary: past d)
    case (Cons r rest)
    from Cons.IH [OF event_step_ok [OF Cons.prems]] show ?case by simp
  qed simp
  from this [of "[]" "[]" rows] show ?thesis by (simp add: event_status_def events_ok_def event_ages_def)
qed

lemma topo_status_ok:
  "dict_ok (topo_status ns)
   \<and> (\<forall>k. map_of (topo_status ns) k = None \<longleftrightarrow> k = [] \<or> k \<notin> gn_name ` set ns)
   \<and> (\<forall>k v. map_of (topo_status ns) k = Some v \<longrightarrow> fs_name v = k \<and> fs_stale v)"
proof -
  let ?step = "\<lambda>d n. if gn_name n = [] then d
       else dset d (gn_name n) \<lparr>fs_name = gn_name n, fs_provider = map_of (gn_identifiers n) ''provider'',
              fs_last = None, fs_hours = None, fs_stale = True\<rparr>"
  have "dict_ok d \<Longrightarrow> (\<forall>k v. map_of d k = Some v \<longrightarrow> fs_name v = k \<and> fs_stale v) \<Longrightarrow>
     dict_ok (foldl ?step d ns)
     \<and> (\<forall>k. map_of (foldl ?step d ns) k = None \<longleftrightarrow> map_of d k = None \<and> (k = [] \<or> k \<notin> gn_name ` set ns))
     \<and> (\<forall>k v. map_of (foldl ?step d ns) k = Some v \<longrightarrow> fs_name v = k \<and> fs_stale v)" for d
  proof (induction ns arbitrary: d)
    case (Cons n ns)
    show ?case
    proof (cases "gn_name n = []")
      case True
      then have fold: "foldl ?step d (n # ns) = foldl ?step d ns" by simp
      have ext: "k = [] \<or> k \<notin> gn_name ` set (n # ns) \<longleftrightarrow> k = [] \<or> k \<notin> gn_name ` set ns" for k
        using True by auto
      show ?thesis unfolding fold ext by (rule Cons.IH [OF Cons.prems])
    next
      case False
      have "dict_ok (?step d n)" using Cons.prems(1) False by simp
      moreover have "\<forall>k v. map_of (?step d n) k = Some v \<longrightarrow> fs_name v = k \<and> fs_stale v"
        using Cons.prems(2) False by (simp split: if_splits)
      ultimately have IH: "dict_ok (foldl ?step (?step d n) ns)
         \<and> (\<forall>k. map_of (foldl ?step (?step d n) ns) k = None \<longleftrightarrow> map_of (?step d n) k = None \<and> (k = [] \<or> k \<notin> gn_name ` set ns))
         \<and> (\<forall>k v. map_of (foldl ?step (?step d n) ns) k = Some v \<longrightarrow> fs_name v = k \<and> fs_stale v)"
        by (rule Cons.IH)
      have look: "map_of (?step d n) k = None \<longleftrightarrow> map_of d k = None \<and> k \<noteq> gn_name n" for k
        using False by simp
      have ext: "(map_of d k = None \<and> k \<noteq> gn_name n) \<and> (k = [] \<or> k \<notin> gn_name ` set ns)
          \<longleftrightarrow> map_of d k = None \<and> (k = [] \<or> k \<notin> gn_name ` set (n # ns))" for k
        using False by auto
      show ?thesis using IH unfolding look ext foldl_Cons .
    qed
  qed simp
  from this [of "[]"] show ?thesis by (simp add: topo_status_def)
qed

lemma merge_status_map:
  "map_of (merge_status topo events) k =
     (case map_of events k of Some v \<Rightarrow> Some v | None \<Rightarrow> map_of topo k)"
proof -
  have 1: "map_of (map (\<lambda>(k, v). (k, dget_or events k v)) topo) k = map_option (\<lambda>v. dget_or events k v) (map_of topo k)"
    by (induction topo) auto
  have 2: "map_of (filter (\<lambda>(k, v). P k) d) k = (if P k then map_of d k else None)" for P and d :: "('x, 'y) dict" and k
    by (induction d) auto
  show ?thesis
    unfolding merge_status_def map_of_append map_add_def 1 2 [of "\<lambda>k. \<not> dhas topo k"]
    by (auto simp: dget_or_def dhas_def split: option.splits)
qed

lemma merge_status_ok: "dict_ok topo \<Longrightarrow> dict_ok events \<Longrightarrow> dict_ok (merge_status topo events)"
proof -
  assume a: "dict_ok topo" "dict_ok events"
  have keys: "map fst (map (\<lambda>(k, v). (k, dget_or events k v)) topo) = dkeys topo" by (simp add: comp_def case_prod_beta)
  have "distinct (map fst (filter (\<lambda>(k, v). \<not> dhas topo k) events))"
    using a(2) by (simp add: dict_ok_def distinct_map_filter)
  then show ?thesis
    using a(1) unfolding dict_ok_def merge_status_def map_append keys by (force simp: dhas_iff)
qed

lemma distinct_map_sort_key: "distinct (map f xs) \<Longrightarrow> distinct (map f (sort_key g xs))"
  by (simp only: distinct_map distinct_sort set_sort)

lemma status_names:
  assumes "dict_ok d" and "\<And>k v. map_of d k = Some v \<Longrightarrow> fs_name v = k"
  shows "map fs_name (dvalues d) = dkeys d"
  using assms by (auto simp: dict_ok_map_of)

text \<open>A firewall that falls silent cannot drop out of the ingest report nor look alive.  The report names
  every device once; it lists every named firewall of the topology and every device that logged in the
  last week; and a listed device is marked as fresh exactly when one of its events is no older than the
  threshold.\<close>

theorem silent_firewall_reported:
  assumes "ingest_report staleness nodes rows = (fws, summary)"
  shows "distinct (map fs_name fws)
    \<and> set (map fs_name fws) = {k \<in> gn_name ` set nodes. k \<noteq> []} \<union> {k. event_ages k rows \<noteq> {}}
    \<and> (\<forall>v \<in> set fws. fs_stale v \<longleftrightarrow> (\<forall>h \<in> event_ages (fs_name v) rows. staleness < h))
    \<and> is_total summary = length fws \<and> is_stale summary + is_fresh summary = is_total summary
    \<and> is_stale summary = length (filter fs_stale fws)"
proof -
  let ?t = "topo_status nodes" and ?e = "event_status staleness rows"
  let ?m = "merge_status ?t ?e"
  have eok: "events_ok staleness rows ?e" by (rule event_status_ok)
  have t: "dict_ok ?t" "\<And>k. map_of ?t k = None \<longleftrightarrow> k = [] \<or> k \<notin> gn_name ` set nodes"
    "\<And>k v. map_of ?t k = Some v \<longrightarrow> fs_name v = k \<and> fs_stale v"
    by (rule topo_status_ok [THEN conjunct1] topo_status_ok [THEN conjunct2, THEN conjunct1, THEN spec]
      topo_status_ok [THEN conjunct2, THEN conjunct2, THEN spec, THEN spec])+
  have e: "case map_of ?e k of None \<Rightarrow> event_ages k rows = {}
      | Some v \<Rightarrow> fs_name v = k \<and> (\<exists>h. fs_hours v = Some h \<and> fs_stale v = (h > staleness)
                    \<and> h \<in> event_ages k rows \<and> (\<forall>h' \<in> event_ages k rows. h \<le> h'))" for k
    using eok unfolding events_ok_def by blast
  have ok: "dict_ok ?m" using merge_status_ok [OF t(1)] eok by (simp add: events_ok_def)
  have val: "fs_name v = k \<and> (fs_stale v \<longleftrightarrow> (\<forall>h \<in> event_ages k rows. staleness < h))"
    if "map_of ?m k = Some v" for k v
  proof (cases "map_of ?e k")
    case None
    then show ?thesis using that e [of k] t(3) [of k v] unfolding merge_status_map by simp
  next
    case (Some w)
    then have "v = w" using that unfolding merge_status_map by simp
    moreover obtain h where "fs_name w = k" "fs_stale w = (staleness < h)" "h \<in> event_ages k rows"
        "\<forall>h' \<in> event_ages k rows. h \<le> h'"
      using e [of k] unfolding Some option.case by blast
    ultimately show ?thesis by (auto intro: less_le_trans)
  qed
  have dom: "map_of ?m k = None \<longleftrightarrow> (k = [] \<or> k \<notin> gn_name ` set nodes) \<and> event_ages k rows = {}" for k
    using e [of k] t(2) [of k] unfolding merge_status_map by (cases "map_of ?e k") auto
  have names: "map fs_name (dvalues ?m) = dkeys ?m" by (rule status_names [OF ok]) (use val in blast)
  have fws: "fws = stale_first fs_stale fs_name (dvalues ?m)" and sum: "is_total summary = length fws"
      "is_stale summary = length (filter fs_stale fws)" "is_fresh summary = length fws - length (filter fs_stale fws)"
    using assms by (auto simp: ingest_report_def Let_def)
  have set: "set fws = set (dvalues ?m)" by (simp add: fws stale_first_def)
  have "distinct (map fs_name (dvalues ?m))" using ok unfolding names dict_ok_def .
  then have names': "distinct (map fs_name fws)" "set (map fs_name fws) = set (dkeys ?m)"
    using set unfolding names [symmetric] fws stale_first_def by (blast intro: distinct_map_sort_key, simp only: set_map)
  have "k \<in> set (dkeys ?m) \<longleftrightarrow> map_of ?m k \<noteq> None" for k by (simp add: map_of_eq_None_iff)
  then have keys: "set (dkeys ?m) = {k \<in> gn_name ` set nodes. k \<noteq> []} \<union> {k. event_ages k rows \<noteq> {}}"
    unfolding dom by blast
  have stale: "fs_stale v \<longleftrightarrow> (\<forall>h \<in> event_ages (fs_name v) rows. staleness < h)" if "v \<in> set fws" for v
  proof -
    have "v \<in> set (dvalues ?m)" using that unfolding set .
    then obtain k where "(k, v) \<in> set ?m" by auto
    then have "map_of ?m k = Some v" using ok by (simp add: dict_ok_map_of)
    from val [OF this] show ?thesis by simp
  qed
  show ?thesis
    using names' keys stale sum length_filter_le [of fs_stale fws] by simp
qed

definition sample_observer :: "string \<Rightarrow> real \<Rightarrow> observer_row" where
  "sample_observer host h = \<lparr>ob_host = host, ob_provider = ''junos'', ob_max = ''2026-01-01'', ob_hours = Some h\<rparr>"

lemma silent_firewall_reported_witness:
  "\<exists>fws summary. ingest_report 24 [sample_device ''a'' ''fw1'', sample_device ''b'' ''fw2'']
       [sample_observer ''fw1.lab'' 30, sample_observer ''fw3'' 2] = (fws, summary)
     \<and> is_total summary = length fws \<and> map fs_name fws = [''fw1'', ''fw2'', ''fw3'']"
proof -
  obtain fws summary where r: "ingest_report 24 [sample_device ''a'' ''fw1'', sample_device ''b'' ''fw2'']
       [sample_observer ''fw1.lab'' 30, sample_observer ''fw3'' 2] = (fws, summary)"
    by (cases "ingest_report 24 [sample_device ''a'' ''fw1'', sample_device ''b'' ''fw2'']
       [sample_observer ''fw1.lab'' 30, sample_observer ''fw3'' 2]")
  have "map fs_name (fst (ingest_report 24 [sample_device ''a'' ''fw1'', sample_device ''b'' ''fw2'']
       [sample_observer ''fw1.lab'' 30, sample_observer ''fw3'' 2])) = [''fw1'', ''fw2'', ''fw3'']"
    by code_simp
  then show ?thesis using silent_firewall_reported [OF r] r by simp
qed

text \<open>The fabric verdict.  The report is healthy only if every subject of the manifest answered its probe with
  rows that are within its budget, and the liveness tool, where one is attached, answered too.\<close>

lemma probe_subject_fresh:
  "\<not> pb_stale (probe_subject run s) \<longleftrightarrow>
     (\<exists>r rs h. run (build_subject_sql s) = Inr (r # rs) \<and> pr_n r \<noteq> 0 \<and> pr_hours r = Some h \<and> h \<le> sb_budget s)"
  by (auto simp: probe_subject_def Let_def split: sum.splits list.splits option.splits)

lemma probe_error_stale: "pb_error (probe_subject run s) \<noteq> None \<Longrightarrow> pb_stale (probe_subject run s)"
  by (auto simp: probe_subject_def Let_def split: sum.splits list.splits option.splits if_splits)

lemma fabric_status_healthy:
  "fr_healthy (fabric_status run manifest devices) \<longleftrightarrow>
     (\<forall>s \<in> set manifest. \<not> pb_stale (probe_subject run s)) \<and> (\<forall>exc. devices \<noteq> Some (Inl exc))"
proof -
  have "filter pb_stale (stale_first pb_stale (\<lambda>p. sb_name (pb_subject p)) (map (probe_subject run) manifest)) = []
      \<longleftrightarrow> (\<forall>s \<in> set manifest. \<not> pb_stale (probe_subject run s))"
    by (auto simp: stale_first_def filter_empty_conv)
  moreover have "filter (\<lambda>p. pb_error p \<noteq> None) (stale_first pb_stale (\<lambda>p. sb_name (pb_subject p)) (map (probe_subject run) manifest)) = []"
    if "\<forall>s \<in> set manifest. \<not> pb_stale (probe_subject run s)"
    using that probe_error_stale by (fastforce simp: stale_first_def filter_empty_conv)
  ultimately show ?thesis
    by (auto simp: fabric_status_def Let_def split: option.splits sum.splits)
qed

end
