(* ===== verification/Policy.thy ===== *)
theory Policy
  imports Reconcile Sql
begin

text \<open>
  The policy resolver: normalised firewall rules become firewall and policy entities
  (\<open>models.py\<close>, \<open>resolve_policies.py\<close>), changes of their content become rows of an append-only history
  (\<open>policy_versions.py\<close>, \<open>object_book.py\<close>), and \<open>collect_resolve.py\<close> and \<open>chwriter.py\<close> run the whole.
  The digests are parameters \<open>H\<close>.  A raised exception is \<open>None\<close>, or its name where a caller catches it.
\<close>

declare split_paired_All [simp del] split_paired_Ex [simp del]

section \<open>\<open>models.py\<close>\<close>

definition FIREWALL :: string where "FIREWALL = ''firewall''"
definition CONFIGURED :: string where "CONFIGURED = ''configured''"

definition pol_hash16 :: "(string \<Rightarrow> string) \<Rightarrow> string \<Rightarrow> string" where
  "pol_hash16 H tx = take 16 (H tx)"

definition pol_entity_id :: "(string \<Rightarrow> string) \<Rightarrow> string \<Rightarrow> string \<Rightarrow> string \<Rightarrow> string" where
  "pol_entity_id H tenant kind canonical_key = pol_hash16 H (tenant @ ''|entity|'' @ kind @ ''|'' @ canonical_key)"

definition pol_edge_id :: "(string \<Rightarrow> string) \<Rightarrow> string \<Rightarrow> string \<Rightarrow> string \<Rightarrow> string \<Rightarrow> string \<Rightarrow> string" where
  "pol_edge_id H tenant src_id dst_id edge_type source =
     pol_hash16 H (tenant @ ''|entity_edge|'' @ src_id @ ''|'' @ dst_id @ ''|'' @ edge_type @ ''|'' @ source)"

text \<open>The two services share one id namespace.\<close>

lemma ids_shared: "pol_entity_id = entity_id" "pol_edge_id = ent_edge_id"
  by (simp_all add: fun_eq_iff pol_entity_id_def entity_id_def pol_edge_id_def ent_edge_id_def pol_hash16_def hash16_e_def)

section \<open>Rules\<close>

text \<open>A rule as a collector delivers it.  The keys that only some vendors deliver are options:
  \<open>pl_match_unknown\<close>, the match clauses of Junos, and the negation and schedule of PAN-OS.\<close>

record match_clauses =
  mc_source_excluded :: bool
  mc_dest_excluded :: bool
  mc_identity :: "string list"
  mc_dynamic_application :: "string list"
  mc_url_category :: "string list"
  mc_end_user_profile :: "string list"
  mc_scheduler :: string

record negation =
  ng_source :: bool
  ng_destination :: bool
  ng_schedule :: string

record fw_rule =
  pl_provider :: string
  pl_device :: string
  pl_name :: string
  pl_action :: string
  pl_from :: "string list"
  pl_to :: "string list"
  pl_sources :: "string list"
  pl_dests :: "string list"
  pl_application :: "string list"
  pl_service :: "string list"
  pl_position :: nat
  pl_enabled :: bool
  pl_extras :: "(string, pyval) dict"
  pl_at :: string
  pl_match_unknown :: "bool option"
  pl_clauses :: "match_clauses option"
  pl_negation :: "negation option"

record pol_entity =
  po_id :: string
  po_tenant :: string
  po_kind :: string
  po_name :: string
  po_identifiers :: attrs
  po_source :: string
  po_basis :: string
  po_confidence :: pyval
  po_attrs :: "(string, pyval) dict"
  po_first :: string
  po_last :: string

record pol_edge =
  pg_id :: string
  pg_tenant :: string
  pg_src :: string
  pg_dst :: string
  pg_type :: string
  pg_source :: string
  pg_confidence :: pyval
  pg_attrs :: attrs
  pg_first :: string
  pg_last :: string

section \<open>\<open>resolve_policies.py\<close>\<close>

definition join_values :: "string list \<Rightarrow> string" where
  "join_values values = join '','' (filter (\<lambda>v. v \<noteq> []) values)"

definition flag :: "bool \<Rightarrow> pyval" where
  "flag b = PStr (if b then ''true'' else ''false'')"

definition firewall_id :: "(string \<Rightarrow> string) \<Rightarrow> string \<Rightarrow> string \<Rightarrow> string" where
  "firewall_id H tenant device = pol_entity_id H tenant FIREWALL (''device:'' @ device)"

definition new_firewall :: "(string \<Rightarrow> string) \<Rightarrow> string \<Rightarrow> string \<Rightarrow> string \<Rightarrow> string \<Rightarrow> pol_entity" where
  "new_firewall H tenant provider device seen =
     \<lparr>po_id = firewall_id H tenant device, po_tenant = tenant, po_kind = FIREWALL, po_name = device,
      po_identifiers = [(''device_name'', device)], po_source = CONFIGURED, po_basis = ''device_name'',
      po_confidence = PFloat ''1.0'', po_attrs = [(''provider'', PStr provider), (''rule_count'', PStr ''0'')],
      po_first = seen, po_last = seen\<rparr>"

definition count_attr :: "(string, pyval) dict \<Rightarrow> int option" where
  "count_attr a = (case map_of a ''rule_count'' of Some (PStr s) \<Rightarrow> py_int s | _ \<Rightarrow> None)"

definition count_rule :: "pol_entity \<Rightarrow> pol_entity option" where
  "count_rule fw =
     (case count_attr (po_attrs fw) of None \<Rightarrow> None
      | Some n \<Rightarrow> Some (fw\<lparr>po_attrs := dset (po_attrs fw) ''rule_count'' (PStr (show_int (n + 1)))\<rparr>))"

definition firewall_for ::
  "(string \<Rightarrow> string) \<Rightarrow> string \<Rightarrow> string \<Rightarrow> string \<Rightarrow> string \<Rightarrow> (string, pol_entity) dict
     \<Rightarrow> (string, pol_entity) dict option" where
  "firewall_for H tenant provider device seen ens =
     (let eid = firewall_id H tenant device in
      map_option (dset ens eid) (count_rule (dget_or ens eid (new_firewall H tenant provider device seen))))"

definition base_attrs :: "fw_rule \<Rightarrow> (string, pyval) dict" where
  "base_attrs r =
     [(''provider'', PStr (pl_provider r)), (''device_name'', PStr (pl_device r)), (''action'', PStr (pl_action r)),
      (''from_zone'', PStr (join_values (pl_from r))), (''to_zone'', PStr (join_values (pl_to r))),
      (''source_addresses'', PStr (join_values (pl_sources r))), (''dest_addresses'', PStr (join_values (pl_dests r))),
      (''application'', PStr (join_values (pl_application r))), (''service'', PStr (join_values (pl_service r))),
      (''position'', PStr (show_nat (pl_position r))), (''enabled'', flag (pl_enabled r))]"

definition clause_attrs :: "bool \<Rightarrow> match_clauses \<Rightarrow> (string, pyval) dict" where
  "clause_attrs unknown c =
     [(''match_unknown'', flag unknown), (''source_address_excluded'', flag (mc_source_excluded c)),
      (''dest_address_excluded'', flag (mc_dest_excluded c)), (''source_identity'', PStr (join_values (mc_identity c))),
      (''dynamic_application'', PStr (join_values (mc_dynamic_application c))),
      (''url_category'', PStr (join_values (mc_url_category c))),
      (''source_end_user_profile'', PStr (join_values (mc_end_user_profile c))), (''scheduler_name'', PStr (mc_scheduler c))]"

definition negation_attrs :: "negation \<Rightarrow> (string, pyval) dict" where
  "negation_attrs n =
     [(''negate_source'', flag (ng_source n)), (''negate_destination'', flag (ng_destination n)),
      (''schedule'', PStr (ng_schedule n))]"

text \<open>A rule with the key \<open>match_unknown\<close> must have every key of the Junos clauses.\<close>

definition rule_attrs :: "fw_rule \<Rightarrow> (string, pyval) dict option" where
  "rule_attrs r =
     (case (case pl_match_unknown r of None \<Rightarrow> Some (base_attrs r)
            | Some u \<Rightarrow> (case pl_clauses r of None \<Rightarrow> None | Some c \<Rightarrow> Some (dupdate (base_attrs r) (clause_attrs u c)))) of
        None \<Rightarrow> None
      | Some a \<Rightarrow>
          Some (dupdate (case pl_negation r of None \<Rightarrow> a | Some n \<Rightarrow> dupdate a (negation_attrs n)) (pl_extras r)))"

definition rule_policy_id :: "(string \<Rightarrow> string) \<Rightarrow> string \<Rightarrow> fw_rule \<Rightarrow> string" where
  "rule_policy_id H tenant r =
     pol_entity_id H tenant POLICY (pl_provider r @ '':'' @ pl_device r @ '':'' @ pl_name r)"

definition policy_of :: "(string \<Rightarrow> string) \<Rightarrow> string \<Rightarrow> fw_rule \<Rightarrow> (string, pyval) dict \<Rightarrow> pol_entity" where
  "policy_of H tenant r a =
     \<lparr>po_id = rule_policy_id H tenant r, po_tenant = tenant, po_kind = POLICY, po_name = pl_name r,
      po_identifiers = [(''rule'', pl_name r), (''provider'', pl_provider r), (''device_name'', pl_device r)],
      po_source = CONFIGURED, po_basis = [], po_confidence = PFloat ''1.0'', po_attrs = a,
      po_first = pl_at r, po_last = pl_at r\<rparr>"

definition governs :: "(string \<Rightarrow> string) \<Rightarrow> string \<Rightarrow> fw_rule \<Rightarrow> pol_edge" where
  "governs H tenant r =
     (let fw = firewall_id H tenant (pl_device r); pol = rule_policy_id H tenant r in
      \<lparr>pg_id = pol_edge_id H tenant fw pol GOVERNED_BY_E CONFIGURED, pg_tenant = tenant, pg_src = fw, pg_dst = pol,
       pg_type = GOVERNED_BY_E, pg_source = CONFIGURED, pg_confidence = PFloat ''1.0'',
       pg_attrs = [(''rule'', pl_name r), (''provider'', pl_provider r)], pg_first = pl_at r, pg_last = pl_at r\<rparr>)"

type_synonym pol_graph = "(string, pol_entity) dict \<times> (string, pol_edge) dict"

definition resolve_rule :: "(string \<Rightarrow> string) \<Rightarrow> string \<Rightarrow> fw_rule \<Rightarrow> pol_graph \<Rightarrow> pol_graph option" where
  "resolve_rule H tenant r g =
     (case firewall_for H tenant (pl_provider r) (pl_device r) (pl_at r) (fst g) of
        None \<Rightarrow> None
      | Some ens \<Rightarrow>
          (case rule_attrs r of
             None \<Rightarrow> None
           | Some a \<Rightarrow>
               Some (dset ens (rule_policy_id H tenant r) (policy_of H tenant r a),
                     dset (snd g) (pg_id (governs H tenant r)) (governs H tenant r))))"

fun resolve_rules :: "(string \<Rightarrow> string) \<Rightarrow> string \<Rightarrow> fw_rule list \<Rightarrow> pol_graph \<Rightarrow> pol_graph option" where
  "resolve_rules H tenant [] g = Some g"
| "resolve_rules H tenant (r # rs) g =
     (case resolve_rule H tenant r g of None \<Rightarrow> None | Some g' \<Rightarrow> resolve_rules H tenant rs g')"

definition resolve_policies ::
  "(string \<Rightarrow> string) \<Rightarrow> string \<Rightarrow> fw_rule list \<Rightarrow> (pol_entity list \<times> pol_edge list) option" where
  "resolve_policies H tenant rules =
     map_option (\<lambda>(ens, es). (dvalues ens, dvalues es)) (resolve_rules H tenant rules ([], []))"

section \<open>\<open>policy_versions.py\<close>\<close>

definition VERSION_ATTRS :: "string list" where
  "VERSION_ATTRS = [''action'', ''from_zone'', ''to_zone'', ''enabled'', ''position'']"

definition attr_or_empty :: "(string, pyval) dict \<Rightarrow> string \<Rightarrow> pyval" where
  "attr_or_empty a k = dget_or a k (PStr [])"

definition policy_hash :: "(string \<Rightarrow> string) \<Rightarrow> pol_entity \<Rightarrow> string" where
  "policy_hash H p =
     H (json_dumps_sorted json_default (PDict (map (\<lambda>k. (k, attr_or_empty (po_attrs p) k)) VERSION_ATTRS)))"

type_synonym rule_key = "pyval \<times> pyval \<times> pyval"

definition version_key :: "pol_entity \<Rightarrow> rule_key option" where
  "version_key p =
     (case (map_of (po_attrs p) ''provider'', map_of (po_attrs p) ''device_name'') of
        (Some a, Some b) \<Rightarrow> Some (a, b, PStr (po_name p))
      | _ \<Rightarrow> None)"

definition version_row :: "pol_entity \<Rightarrow> rule_key \<Rightarrow> string \<Rightarrow> (string, pyval) dict" where
  "version_row p key hash =
     (let a = attr_or_empty (po_attrs p) in
      [(''tenant_id'', PStr (po_tenant p)), (''provider'', fst key), (''device_name'', fst (snd key)),
       (''rule_name'', PStr (po_name p)), (''valid_from'', PStr (po_last p)), (''content_hash'', PStr hash),
       (''action'', a ''action''), (''from_zone'', a ''from_zone''), (''to_zone'', a ''to_zone''),
       (''enabled'', PBool (a ''enabled'' = PStr ''true'')), (''position'', a ''position'')])"

fun diff_new_versions ::
  "(string \<Rightarrow> string) \<Rightarrow> pol_entity list \<Rightarrow> (rule_key, pyval) dict \<Rightarrow> (string, pyval) dict list option" where
  "diff_new_versions H [] known = Some []"
| "diff_new_versions H (p # ps) known =
     (if po_kind p \<noteq> POLICY then diff_new_versions H ps known
      else case version_key p of
          None \<Rightarrow> None
        | Some key \<Rightarrow>
            (if map_of known key = Some (PStr (policy_hash H p)) then diff_new_versions H ps known
             else map_option (Cons (version_row p key (policy_hash H p))) (diff_new_versions H ps known)))"

section \<open>\<open>object_book.py\<close>\<close>

record object_item =
  oi_provider :: string
  oi_device :: string
  oi_at :: string
  oi_book :: pyval

definition book_hash :: "(string \<Rightarrow> string) \<Rightarrow> pyval \<Rightarrow> string" where
  "book_hash H book = H (json_dumps_sorted json_default book)"

definition book_key :: "object_item \<Rightarrow> pyval \<times> pyval" where
  "book_key it = (PStr (oi_provider it), PStr (oi_device it))"

definition book_row :: "object_item \<Rightarrow> string \<Rightarrow> (string, pyval) dict" where
  "book_row it hash =
     [(''provider'', PStr (oi_provider it)), (''device_name'', PStr (oi_device it)), (''valid_from'', PStr (oi_at it)),
      (''content_hash'', PStr hash), (''object_book'', PStr (json_dumps_sorted json_default (oi_book it)))]"

fun diff_new_object_books ::
  "(string \<Rightarrow> string) \<Rightarrow> object_item list \<Rightarrow> (pyval \<times> pyval, pyval) dict \<Rightarrow> (string, pyval) dict list" where
  "diff_new_object_books H [] known = []"
| "diff_new_object_books H (it # its) known =
     (if map_of known (book_key it) = Some (PStr (book_hash H (oi_book it)))
      then diff_new_object_books H its known
      else book_row it (book_hash H (oi_book it)) # diff_new_object_books H its known)"

section \<open>\<open>chwriter.py\<close>\<close>

definition POL_ENTITY_COLUMNS :: "string list" where
  "POL_ENTITY_COLUMNS = [''entity_id'', ''tenant_id'', ''kind'', ''name'', ''identifiers'', ''source'',
     ''identity_basis'', ''confidence'', ''attrs'', ''first_seen'', ''last_seen'']"

definition POL_EDGE_COLUMNS :: "string list" where
  "POL_EDGE_COLUMNS = [''edge_id'', ''tenant_id'', ''src_id'', ''dst_id'', ''edge_type'', ''source'',
     ''confidence'', ''attrs'', ''first_seen'', ''last_seen'']"

text \<open>The two services write the same columns.\<close>

lemma columns_shared: "POL_ENTITY_COLUMNS = ENTITY_COLUMNS" "POL_EDGE_COLUMNS = ENTITY_EDGE_COLUMNS"
  by (simp_all add: POL_ENTITY_COLUMNS_def ENTITY_COLUMNS_def POL_EDGE_COLUMNS_def ENTITY_EDGE_COLUMNS_def)

definition POLICY_VERSION_COLUMNS :: "string list" where
  "POLICY_VERSION_COLUMNS = [''tenant_id'', ''provider'', ''device_name'', ''rule_name'', ''valid_from'',
     ''content_hash'', ''action'', ''from_zone'', ''to_zone'', ''enabled'', ''position'']"

definition OBJECT_BOOK_HASH_COLUMNS :: "string list" where
  "OBJECT_BOOK_HASH_COLUMNS = [''tenant_id'', ''provider'', ''device_name'', ''valid_from'', ''content_hash'', ''object_book'']"

definition text_map :: "attrs \<Rightarrow> pyval" where
  "text_map a = PDict (map (\<lambda>(k, v). (k, PStr v)) a)"

definition pol_entity_dict :: "pol_entity \<Rightarrow> (string, pyval) dict" where
  "pol_entity_dict e =
     [(''entity_id'', PStr (po_id e)), (''tenant_id'', PStr (po_tenant e)), (''kind'', PStr (po_kind e)),
      (''name'', PStr (po_name e)), (''identifiers'', text_map (po_identifiers e)), (''source'', PStr (po_source e)),
      (''identity_basis'', PStr (po_basis e)), (''confidence'', po_confidence e), (''attrs'', PDict (po_attrs e)),
      (''first_seen'', PStr (po_first e)), (''last_seen'', PStr (po_last e))]"

definition pol_edge_dict :: "pol_edge \<Rightarrow> (string, pyval) dict" where
  "pol_edge_dict e =
     [(''edge_id'', PStr (pg_id e)), (''tenant_id'', PStr (pg_tenant e)), (''src_id'', PStr (pg_src e)),
      (''dst_id'', PStr (pg_dst e)), (''edge_type'', PStr (pg_type e)), (''source'', PStr (pg_source e)),
      (''confidence'', pg_confidence e), (''attrs'', text_map (pg_attrs e)),
      (''first_seen'', PStr (pg_first e)), (''last_seen'', PStr (pg_last e))]"

definition pol_rows :: "string list \<Rightarrow> (string, pyval) dict list \<Rightarrow> pyval list list option" where
  "pol_rows cols ds = those (map (row_of cols) ds)"

text \<open>The client: an insert answers the exception it raised, if any, and the state it left; a query reads.\<close>

record 'db pol_client =
  pc_insert :: "string \<Rightarrow> pyval list list \<Rightarrow> string list \<Rightarrow> 'db \<Rightarrow> string option \<times> 'db"
  pc_query :: "string \<Rightarrow> (string, pyval) dict \<Rightarrow> 'db \<Rightarrow> string + pyval list list"

definition insert_dicts ::
  "'db pol_client \<Rightarrow> string \<Rightarrow> string list \<Rightarrow> (string, pyval) dict list \<Rightarrow> 'db \<Rightarrow> (string + nat) \<times> 'db" where
  "insert_dicts c table cols ds db =
     (if ds = [] then (Inr 0, db)
      else case pol_rows cols ds of
          None \<Rightarrow> (Inl ''KeyError'', db)
        | Some rows \<Rightarrow>
            (case pc_insert c table rows cols db of
               (None, db') \<Rightarrow> (Inr (length ds), db')
             | (Some exc, db') \<Rightarrow> (Inl exc, db')))"

definition pol_replace_entities :: "'db pol_client \<Rightarrow> pol_entity list \<Rightarrow> 'db \<Rightarrow> (string + nat) \<times> 'db" where
  "pol_replace_entities c es db = insert_dicts c ''entities'' POL_ENTITY_COLUMNS (map pol_entity_dict es) db"

definition pol_replace_edges :: "'db pol_client \<Rightarrow> pol_edge list \<Rightarrow> 'db \<Rightarrow> (string + nat) \<times> 'db" where
  "pol_replace_edges c es db = insert_dicts c ''entity_edges'' POL_EDGE_COLUMNS (map pol_edge_dict es) db"

definition LATEST_HASHES_SQL :: string where
  "LATEST_HASHES_SQL = ''SELECT provider, device_name, rule_name, '' @
     ''argMax(content_hash, valid_from) AS content_hash '' @ ''FROM policy_versions '' @
     ''WHERE provider IN {providers:Array(String)} '' @ ''AND device_name IN {devices:Array(String)} '' @
     ''AND rule_name IN {rules:Array(String)} '' @ ''GROUP BY provider, device_name, rule_name''"

definition LATEST_BOOKS_SQL :: string where
  "LATEST_BOOKS_SQL = ''SELECT provider, device_name, '' @ ''argMax(content_hash, valid_from) AS content_hash '' @
     ''FROM object_book_hash '' @ ''WHERE provider IN {providers:Array(String)} '' @
     ''AND device_name IN {devices:Array(String)} '' @ ''GROUP BY provider, device_name''"

text \<open>\<open>sorted\<close> of a set of texts; values of other types do not compare.\<close>

definition sorted_texts :: "pyval list \<Rightarrow> pyval option" where
  "sorted_texts vs =
     map_option (\<lambda>ts. PList (map PStr (sorted_set ts))) (those (map (\<lambda>v. case v of PStr s \<Rightarrow> Some s | _ \<Rightarrow> None) vs))"

text \<open>\<open>{(row[0], row[1], row[2]): row[3] for row in rows}\<close>, and its counterpart for object books.\<close>

definition hash_of_row :: "pyval list \<Rightarrow> (rule_key \<times> pyval) option" where
  "hash_of_row row = (case row of a # b # r # h # _ \<Rightarrow> Some ((a, b, r), h) | _ \<Rightarrow> None)"

definition book_of_row :: "pyval list \<Rightarrow> ((pyval \<times> pyval) \<times> pyval) option" where
  "book_of_row row = (case row of a # b # h # _ \<Rightarrow> Some ((a, b), h) | _ \<Rightarrow> None)"

definition fetch_latest_hashes ::
  "'db pol_client \<Rightarrow> rule_key list \<Rightarrow> 'db \<Rightarrow> string + (rule_key, pyval) dict" where
  "fetch_latest_hashes c keys db =
     (if keys = [] then Inr []
      else case (sorted_texts (map fst keys), sorted_texts (map (fst \<circ> snd) keys), sorted_texts (map (snd \<circ> snd) keys)) of
          (Some providers, Some devices, Some rules) \<Rightarrow>
            bind_sum (pc_query c LATEST_HASHES_SQL [(''providers'', providers), (''devices'', devices), (''rules'', rules)] db)
              (\<lambda>rows. case those (map hash_of_row rows) of
                  None \<Rightarrow> Inl ''IndexError'' | Some kvs \<Rightarrow> Inr (dupdate [] kvs))
        | _ \<Rightarrow> Inl ''TypeError'')"

definition fetch_latest_books ::
  "'db pol_client \<Rightarrow> (pyval \<times> pyval) list \<Rightarrow> 'db \<Rightarrow> string + (pyval \<times> pyval, pyval) dict" where
  "fetch_latest_books c keys db =
     (if keys = [] then Inr []
      else case (sorted_texts (map fst keys), sorted_texts (map snd keys)) of
          (Some providers, Some devices) \<Rightarrow>
            bind_sum (pc_query c LATEST_BOOKS_SQL [(''providers'', providers), (''devices'', devices)] db)
              (\<lambda>rows. case those (map book_of_row rows) of
                  None \<Rightarrow> Inl ''IndexError'' | Some kvs \<Rightarrow> Inr (dupdate [] kvs))
        | _ \<Rightarrow> Inl ''TypeError'')"

definition append_policy_versions ::
  "(string \<Rightarrow> string) \<Rightarrow> 'db pol_client \<Rightarrow> pol_entity list \<Rightarrow> 'db \<Rightarrow> (string + nat) \<times> 'db" where
  "append_policy_versions H c ps db =
     (if ps = [] then (Inr 0, db)
      else case those (map version_key ps) of
          None \<Rightarrow> (Inl ''KeyError'', db)
        | Some keys \<Rightarrow>
            (case fetch_latest_hashes c keys db of
               Inl exc \<Rightarrow> (Inl exc, db)
             | Inr known \<Rightarrow>
                 (case diff_new_versions H ps known of
                    None \<Rightarrow> (Inl ''KeyError'', db)
                  | Some versions \<Rightarrow> insert_dicts c ''policy_versions'' POLICY_VERSION_COLUMNS versions db)))"

definition append_object_book_hashes ::
  "(string \<Rightarrow> string) \<Rightarrow> 'db pol_client \<Rightarrow> string \<Rightarrow> object_item list \<Rightarrow> 'db \<Rightarrow> (string + nat) \<times> 'db" where
  "append_object_book_hashes H c tenant its db =
     (if its = [] then (Inr 0, db)
      else case fetch_latest_books c (map book_key its) db of
          Inl exc \<Rightarrow> (Inl exc, db)
        | Inr known \<Rightarrow>
            insert_dicts c ''object_book_hash'' OBJECT_BOOK_HASH_COLUMNS
              (map (\<lambda>d. dsetdefault d ''tenant_id'' (PStr tenant)) (diff_new_object_books H its known)) db)"

section \<open>\<open>collect_resolve.py\<close>\<close>

text \<open>A collector, its construction and its client included: the rules or the exception on the way to
  them, and its object books, if it has such a method.\<close>

record pol_source =
  so_rules :: "string + fw_rule list"
  so_objects :: "(string + object_item list) option"

fun collect_all :: "(string \<Rightarrow> pol_source) \<Rightarrow> string list \<Rightarrow> fw_rule list \<times> object_item list" where
  "collect_all src [] = ([], [])"
| "collect_all src (name # names) =
     (let (rules, books) = collect_all src names in
      case so_rules (src name) of
        Inl exc \<Rightarrow> (rules, books)
      | Inr rs \<Rightarrow> (rs @ rules, (case so_objects (src name) of Some (Inr bs) \<Rightarrow> bs | _ \<Rightarrow> []) @ books))"

definition run_resolver_once ::
  "(string \<Rightarrow> string) \<Rightarrow> 'db pol_client \<Rightarrow> bool \<Rightarrow> (string \<Rightarrow> pol_source) \<Rightarrow> string list \<Rightarrow> string \<Rightarrow> 'db
     \<Rightarrow> (string + nat \<times> nat) \<times> 'db" where
  "run_resolver_once H c versioned src enabled tenant db =
     (let (rules, books) = collect_all src enabled in
      case resolve_policies H tenant rules of
        None \<Rightarrow> (Inl ''KeyError'', db)
      | Some (entities, edges) \<Rightarrow>
          (case pol_replace_entities c entities db of
             (Inl exc, db1) \<Rightarrow> (Inl exc, db1)
           | (Inr n_ent, db1) \<Rightarrow>
               (case pol_replace_edges c edges db1 of
                  (Inl exc, db2) \<Rightarrow> (Inl exc, db2)
                | (Inr n_edge, db2) \<Rightarrow>
                    (Inr (n_ent, n_edge),
                     if \<not> versioned then db2
                     else
                       (let db3 = snd (append_policy_versions H c (filter (\<lambda>e. po_kind e = POLICY) entities) db2)
                        in snd (append_object_book_hashes H c tenant books db3))))))"

section \<open>\<open>rule_usage_rollup.py\<close>\<close>

definition ROLLUP_COLUMNS :: "string list" where
  "ROLLUP_COLUMNS = [''tenant_id'', ''bucket_start'', ''provider'', ''observer_hostname'', ''rule_name'', ''sessions'', ''bytes'']"

definition compute_window :: "pydt \<Rightarrow> int \<Rightarrow> (pydt \<times> pydt) option" where
  "compute_window now lookback_hours =
     (let until = now\<lparr>wall_us := wall_us now - wall_us now mod hour_us\<rparr>;
          start = wall_us until - lookback_hours * hour_us
      in if start < 0 \<or> 3652059 * day_us \<le> start then None else Some (now\<lparr>wall_us := start\<rparr>, until))"

definition run_rollup ::
  "'db pol_client \<Rightarrow> pydt \<Rightarrow> int \<Rightarrow> 'db \<Rightarrow> (string + nat) \<times> 'db" where
  "run_rollup c now lookback_hours db =
     (case compute_window now lookback_hours of
        None \<Rightarrow> (Inl ''OverflowError'', db)
      | Some (since, until) \<Rightarrow>
          (case pc_query c ROLLUP_SQL
                  [(''since'', PStr (isoformat since)), (''until'', PStr (isoformat until))] db of
             Inl exc \<Rightarrow> (Inl exc, db)
           | Inr [] \<Rightarrow> (Inr 0, db)
           | Inr rows \<Rightarrow>
               (case pc_insert c ''rule_usage_hourly'' rows ROLLUP_COLUMNS db of
                  (None, db') \<Rightarrow> (Inr (length rows), db')
                | (Some exc, db') \<Rightarrow> (Inl exc, db'))))"

section \<open>What the resolver computes\<close>

definition rule_ident :: "fw_rule \<Rightarrow> string \<times> string \<times> string" where
  "rule_ident r = (pl_provider r, pl_device r, pl_name r)"

text \<open>The ids of the rules do not collide.\<close>

definition ids_apart :: "(string \<Rightarrow> string) \<Rightarrow> string \<Rightarrow> fw_rule list \<Rightarrow> bool" where
  "ids_apart H tenant rules \<longleftrightarrow>
     (\<forall>r \<in> set rules. \<forall>s \<in> set rules.
        (firewall_id H tenant (pl_device r) = firewall_id H tenant (pl_device s) \<longrightarrow> pl_device r = pl_device s)
        \<and> (rule_policy_id H tenant r = rule_policy_id H tenant s \<longrightarrow> rule_ident r = rule_ident s)
        \<and> (pg_id (governs H tenant r) = pg_id (governs H tenant s) \<longrightarrow> rule_ident r = rule_ident s)
        \<and> firewall_id H tenant (pl_device r) \<noteq> rule_policy_id H tenant s)"

text \<open>The last rule of a list with a property; the rules no later rule of the same name replaces.\<close>

abbreviation last_such :: "('a \<Rightarrow> bool) \<Rightarrow> 'a list \<Rightarrow> 'a option" where
  "last_such P xs \<equiv> List.find P (rev xs)"

definition final_rules :: "fw_rule list \<Rightarrow> fw_rule set" where
  "final_rules rules = {r. last_such (\<lambda>s. rule_ident s = rule_ident r) rules = Some r}"

definition firewall_of :: "(string \<Rightarrow> string) \<Rightarrow> string \<Rightarrow> fw_rule list \<Rightarrow> string \<Rightarrow> pol_entity" where
  "firewall_of H tenant rules device =
     (let rs = filter (\<lambda>r. pl_device r = device) rules; r0 = hd rs in
      (new_firewall H tenant (pl_provider r0) device (pl_at r0))
        \<lparr>po_attrs := [(''provider'', PStr (pl_provider r0)), (''rule_count'', PStr (show_int (int (length rs))))]\<rparr>)"

lemma same_ident_ids:
  assumes "rule_ident r = rule_ident s"
  shows "rule_policy_id H tenant r = rule_policy_id H tenant s" "pg_id (governs H tenant r) = pg_id (governs H tenant s)"
    "firewall_id H tenant (pl_device r) = firewall_id H tenant (pl_device s)"
  using assms by (simp_all add: rule_ident_def rule_policy_id_def governs_def Let_def)

lemma firewall_of_snoc_other: "pl_device r \<noteq> device \<Longrightarrow> firewall_of H tenant (past @ [r]) device = firewall_of H tenant past device"
  by (simp add: firewall_of_def)

lemma count_attr_firewall: "count_attr (po_attrs (firewall_of H tenant past device)) = Some (int (length (filter (\<lambda>r. pl_device r = device) past)))"
  by (simp add: firewall_of_def count_attr_def Let_def)

lemma count_rule_firewall:
  assumes "\<exists>s \<in> set past. pl_device s = pl_device r"
  shows "count_rule (firewall_of H tenant past (pl_device r)) = Some (firewall_of H tenant (past @ [r]) (pl_device r))"
proof -
  have "filter (\<lambda>s. pl_device s = pl_device r) past \<noteq> []" using assms by (simp add: filter_empty_conv)
  then show ?thesis
    unfolding count_rule_def count_attr_firewall by (simp add: firewall_of_def Let_def hd_append ac_simps)
qed

lemma count_rule_new:
  assumes "\<forall>s \<in> set past. pl_device s \<noteq> pl_device r"
  shows "count_rule (new_firewall H tenant (pl_provider r) (pl_device r) (pl_at r))
    = Some (firewall_of H tenant (past @ [r]) (pl_device r))"
proof -
  have "filter (\<lambda>s. pl_device s = pl_device r) past = []" using assms by (simp add: filter_empty_conv)
  moreover have "count_attr [(''provider'', PStr (pl_provider r)), (''rule_count'', PStr ''0'')] = Some 0"
    by (simp add: count_attr_def) code_simp
  moreover have "show_int 1 = ''1''" by code_simp
  ultimately show ?thesis by (simp add: count_rule_def new_firewall_def firewall_of_def Let_def)
qed

definition graph_inv :: "(string \<Rightarrow> string) \<Rightarrow> string \<Rightarrow> fw_rule list \<Rightarrow> pol_graph \<Rightarrow> bool" where
  "graph_inv H tenant past g \<longleftrightarrow>
     dict_ok (fst g) \<and> dict_ok (snd g)
     \<and> set (dkeys (fst g)) = (\<lambda>r. firewall_id H tenant (pl_device r)) ` set past \<union> rule_policy_id H tenant ` set past
     \<and> (\<forall>r \<in> set past. map_of (fst g) (firewall_id H tenant (pl_device r)) = Some (firewall_of H tenant past (pl_device r)))
     \<and> (\<forall>r \<in> set past. map_of (fst g) (rule_policy_id H tenant r)
          = map_option (\<lambda>s. policy_of H tenant s (the (rule_attrs s))) (last_such (\<lambda>s. rule_ident s = rule_ident r) past))
     \<and> set (dkeys (snd g)) = (\<lambda>r. pg_id (governs H tenant r)) ` set past
     \<and> (\<forall>r \<in> set past. map_of (snd g) (pg_id (governs H tenant r))
          = map_option (governs H tenant) (last_such (\<lambda>s. rule_ident s = rule_ident r) past))"

lemma ids_apartD:
  assumes "ids_apart H tenant rules" and "r \<in> set rules" and "s \<in> set rules"
  shows "firewall_id H tenant (pl_device r) = firewall_id H tenant (pl_device s) \<longleftrightarrow> pl_device r = pl_device s"
    "rule_policy_id H tenant r = rule_policy_id H tenant s \<longleftrightarrow> rule_ident r = rule_ident s"
    "pg_id (governs H tenant r) = pg_id (governs H tenant s) \<longleftrightarrow> rule_ident r = rule_ident s"
    "firewall_id H tenant (pl_device r) \<noteq> rule_policy_id H tenant s"
proof -
  note d = assms(1) [unfolded ids_apart_def, THEN bspec, OF assms(2), THEN bspec, OF assms(3)]
  show "firewall_id H tenant (pl_device r) = firewall_id H tenant (pl_device s) \<longleftrightarrow> pl_device r = pl_device s"
    using d by metis
  show "rule_policy_id H tenant r = rule_policy_id H tenant s \<longleftrightarrow> rule_ident r = rule_ident s"
    using d same_ident_ids(1) by metis
  show "pg_id (governs H tenant r) = pg_id (governs H tenant s) \<longleftrightarrow> rule_ident r = rule_ident s"
    using d same_ident_ids(2) by metis
  show "firewall_id H tenant (pl_device r) \<noteq> rule_policy_id H tenant s" using d by blast
qed

lemma resolve_rule_inv:
  assumes inv: "graph_inv H tenant past g" and apart: "ids_apart H tenant (past @ [r])" and a: "rule_attrs r = Some a"
  obtains g' where "resolve_rule H tenant r g = Some g'" and "graph_inv H tenant (past @ [r]) g'"
proof -
  let ?fw = "firewall_id H tenant (pl_device r)" and ?pol = "rule_policy_id H tenant r" and ?gov = "pg_id (governs H tenant r)"
  let ?fw' = "firewall_of H tenant (past @ [r]) (pl_device r)"
  have r: "r \<in> set (past @ [r])" by simp
  have fid: "firewall_id H tenant (pl_device s) = ?fw \<longleftrightarrow> pl_device s = pl_device r"
    and pid: "rule_policy_id H tenant s = ?pol \<longleftrightarrow> rule_ident s = rule_ident r"
    and gid: "pg_id (governs H tenant s) = ?gov \<longleftrightarrow> rule_ident s = rule_ident r"
    and fp: "firewall_id H tenant (pl_device s) \<noteq> ?pol" "?fw \<noteq> rule_policy_id H tenant s"
    if "s \<in> set (past @ [r])" for s
    using ids_apartD [OF apart that r] ids_apartD(4) [OF apart r that] by simp_all
  have "count_rule (dget_or (fst g) ?fw (new_firewall H tenant (pl_provider r) (pl_device r) (pl_at r))) = Some ?fw'"
  proof (cases "\<exists>s \<in> set past. pl_device s = pl_device r")
    case True
    then obtain s where "s \<in> set past" "pl_device s = pl_device r" by blast
    then have "map_of (fst g) ?fw = Some (firewall_of H tenant past (pl_device r))"
      using inv unfolding graph_inv_def by metis
    then show ?thesis using count_rule_firewall [OF True] by (simp add: dget_or_def)
  next
    case False
    have "?fw \<notin> set (dkeys (fst g))"
    proof
      assume "?fw \<in> set (dkeys (fst g))"
      then obtain s where s: "s \<in> set past" "?fw = firewall_id H tenant (pl_device s) \<or> ?fw = rule_policy_id H tenant s"
        using inv unfolding graph_inv_def by blast
      then show False using False fid [of s] fp(2) [of s] by force
    qed
    then have "map_of (fst g) ?fw = None" by (simp add: map_of_eq_None_iff)
    then show ?thesis using count_rule_new [of past r] False by (simp add: dget_or_def)
  qed
  then have step: "resolve_rule H tenant r g =
      Some (dset (dset (fst g) ?fw ?fw') ?pol (policy_of H tenant r a), dset (snd g) ?gov (governs H tenant r))"
    (is "_ = Some ?g'") by (simp add: resolve_rule_def firewall_for_def Let_def a)
  have dev: "map_of (fst g) (firewall_id H tenant (pl_device s)) = Some (firewall_of H tenant past (pl_device s))"
    and pol: "map_of (fst g) (rule_policy_id H tenant s)
          = map_option (\<lambda>s. policy_of H tenant s (the (rule_attrs s))) (last_such (\<lambda>t. rule_ident t = rule_ident s) past)"
    and gov: "map_of (snd g) (pg_id (governs H tenant s))
          = map_option (governs H tenant) (last_such (\<lambda>t. rule_ident t = rule_ident s) past)"
    if "s \<in> set past" for s using inv that unfolding graph_inv_def by blast+
  have "map_of (fst ?g') (firewall_id H tenant (pl_device s)) = Some (firewall_of H tenant (past @ [r]) (pl_device s))
      \<and> map_of (fst ?g') (rule_policy_id H tenant s)
          = map_option (\<lambda>s. policy_of H tenant s (the (rule_attrs s))) (last_such (\<lambda>t. rule_ident t = rule_ident s) (past @ [r]))
      \<and> map_of (snd ?g') (pg_id (governs H tenant s))
          = map_option (governs H tenant) (last_such (\<lambda>t. rule_ident t = rule_ident s) (past @ [r]))"
    if s: "s \<in> set (past @ [r])" for s
  proof (intro conjI)
    show "map_of (fst ?g') (firewall_id H tenant (pl_device s)) = Some (firewall_of H tenant (past @ [r]) (pl_device s))"
    proof (cases "pl_device s = pl_device r")
      case True
      then show ?thesis using fp(1) [OF r] by simp
    next
      case False
      then have "s \<in> set past" using s by auto
      from dev [OF this] show ?thesis
        using False fid [OF s] fp(1) [OF s] firewall_of_snoc_other [of r "pl_device s" H tenant past] by simp
    qed
    show "map_of (fst ?g') (rule_policy_id H tenant s)
          = map_option (\<lambda>s. policy_of H tenant s (the (rule_attrs s))) (last_such (\<lambda>t. rule_ident t = rule_ident s) (past @ [r]))"
    proof (cases "rule_ident s = rule_ident r")
      case True
      then show ?thesis using same_ident_ids(1) [OF True, of H tenant] a by simp
    next
      case False
      then have "s \<in> set past" using s by auto
      from pol [OF this] show ?thesis using False pid [OF s] fp(2) [OF s] by simp
    qed
    show "map_of (snd ?g') (pg_id (governs H tenant s))
          = map_option (governs H tenant) (last_such (\<lambda>t. rule_ident t = rule_ident s) (past @ [r]))"
    proof (cases "rule_ident s = rule_ident r")
      case True
      then show ?thesis using same_ident_ids(2) [OF True, of H tenant] by simp
    next
      case False
      then have "s \<in> set past" using s by auto
      from gov [OF this] show ?thesis using False gid [OF s] by simp
    qed
  qed
  moreover have "dict_ok (fst ?g')" "dict_ok (snd ?g')" using inv by (simp_all add: graph_inv_def)
  moreover have "set (dkeys (fst ?g')) = (\<lambda>r. firewall_id H tenant (pl_device r)) ` set (past @ [r]) \<union> rule_policy_id H tenant ` set (past @ [r])"
    "set (dkeys (snd ?g')) = (\<lambda>r. pg_id (governs H tenant r)) ` set (past @ [r])"
    using inv by (auto simp: graph_inv_def keys_dset)
  ultimately have "graph_inv H tenant (past @ [r]) ?g'" unfolding graph_inv_def by blast
  with step show thesis by (rule that)
qed

lemma ids_apart_prefix: "ids_apart H tenant (xs @ ys) \<Longrightarrow> ids_apart H tenant xs"
  by (simp add: ids_apart_def)

lemma resolve_rules_inv:
  assumes "graph_inv H tenant past g" and "ids_apart H tenant (past @ rs)" and "\<forall>r \<in> set rs. rule_attrs r \<noteq> None"
  shows "\<exists>g'. resolve_rules H tenant rs g = Some g' \<and> graph_inv H tenant (past @ rs) g'"
  using assms
proof (induction rs arbitrary: past g)
  case (Cons r rs)
  obtain a where a: "rule_attrs r = Some a" using Cons.prems(3) by auto
  have "ids_apart H tenant (past @ [r])" using Cons.prems(2) ids_apart_prefix [of H tenant "past @ [r]" rs] by simp
  from resolve_rule_inv [OF Cons.prems(1) this a] obtain g1
    where "resolve_rule H tenant r g = Some g1" "graph_inv H tenant (past @ [r]) g1" .
  then show ?case using Cons.IH [of "past @ [r]" g1] Cons.prems(2,3) by simp
qed simp

lemma last_such_in:
  assumes "r \<in> set rules"
  obtains s where "last_such (\<lambda>t. rule_ident t = rule_ident r) rules = Some s" and "s \<in> final_rules rules"
    and "s \<in> set rules" and "rule_ident s = rule_ident r"
proof -
  obtain s where s: "last_such (\<lambda>t. rule_ident t = rule_ident r) rules = Some s"
    using assms find_None_iff [of "\<lambda>t. rule_ident t = rule_ident r" "rev rules"]
    by (cases "last_such (\<lambda>t. rule_ident t = rule_ident r) rules") auto
  then have i: "rule_ident s = rule_ident r" and m: "s \<in> set rules"
    by (auto simp: find_Some_iff rev_nth)
  have "s \<in> final_rules rules" using s unfolding final_rules_def mem_Collect_eq i .
  from that [OF s this m i] show thesis .
qed

lemma final_rules_in: "r \<in> final_rules rules \<Longrightarrow> r \<in> set rules"
  unfolding final_rules_def mem_Collect_eq find_Some_iff by (metis length_rev nth_mem set_rev)

lemma dict_values_iff: "dict_ok d \<Longrightarrow> v \<in> set (dvalues d) \<longleftrightarrow> (\<exists>k. map_of d k = Some v)"
  by (force simp: dict_ok_map_of image_iff)

lemma dict_ids: "dict_ok d \<Longrightarrow> (\<And>k v. map_of d k = Some v \<Longrightarrow> f v = k) \<Longrightarrow> distinct (map f (dvalues d))"
proof -
  assume d: "dict_ok d" and f: "\<And>k v. map_of d k = Some v \<Longrightarrow> f v = k"
  then have "map f (dvalues d) = dkeys d" by (auto simp: dict_ok_map_of)
  then show ?thesis using d unfolding dict_ok_def by (rule ssubst)
qed

text \<open>The rules the entities and edges come from: the firewall of a device, and the last rule of a name.\<close>

lemma graph_inv_values:
  assumes inv: "graph_inv H tenant rules g"
  shows "distinct (map po_id (dvalues (fst g)))" "distinct (map pg_id (dvalues (snd g)))"
    "set (dvalues (fst g)) = firewall_of H tenant rules ` pl_device ` set rules
        \<union> (\<lambda>r. policy_of H tenant r (the (rule_attrs r))) ` final_rules rules"
    "set (dvalues (snd g)) = governs H tenant ` final_rules rules"
proof -
  let ?pol = "\<lambda>s. policy_of H tenant s (the (rule_attrs s))"
  have ok: "dict_ok (fst g)" "dict_ok (snd g)"
    and keys: "set (dkeys (fst g)) = (\<lambda>r. firewall_id H tenant (pl_device r)) ` set rules \<union> rule_policy_id H tenant ` set rules"
      "set (dkeys (snd g)) = (\<lambda>r. pg_id (governs H tenant r)) ` set rules"
    using inv unfolding graph_inv_def by blast+
  have fw: "map_of (fst g) (firewall_id H tenant (pl_device r)) = Some (firewall_of H tenant rules (pl_device r))"
    and pol: "map_of (fst g) (rule_policy_id H tenant r) = map_option ?pol (last_such (\<lambda>s. rule_ident s = rule_ident r) rules)"
    and gov: "map_of (snd g) (pg_id (governs H tenant r)) = map_option (governs H tenant) (last_such (\<lambda>s. rule_ident s = rule_ident r) rules)"
    if "r \<in> set rules" for r using inv that unfolding graph_inv_def by blast+
  have known: "k \<in> set (dkeys d)" if "map_of d k = Some v" for d :: "('a, 'b) dict" and k v
    using that by (force dest: map_of_SomeD)
  have ent: "po_id v = k \<and> (v \<in> firewall_of H tenant rules ` pl_device ` set rules \<or> v \<in> ?pol ` final_rules rules)"
    if m: "map_of (fst g) k = Some v" for k v
  proof -
    consider r where "r \<in> set rules" "k = firewall_id H tenant (pl_device r)" | r where "r \<in> set rules" "k = rule_policy_id H tenant r"
      using known [OF m] unfolding keys by blast
    then show ?thesis
    proof cases
      case (1 r)
      then have "v = firewall_of H tenant rules (pl_device r)" using fw [OF 1(1)] m by simp
      then show ?thesis using 1 by (auto simp: firewall_of_def new_firewall_def Let_def)
    next
      case (2 r)
      obtain s where s: "last_such (\<lambda>t. rule_ident t = rule_ident r) rules = Some s" "s \<in> final_rules rules"
        "rule_ident s = rule_ident r" using last_such_in [OF 2(1)] by metis
      then have v: "v = ?pol s" using pol [OF 2(1)] m 2(2) by simp
      have "po_id v = k" unfolding v using same_ident_ids(1) [OF s(3), of H tenant] 2(2) by (simp add: policy_of_def)
      then show ?thesis using v s(2) by blast
    qed
  qed
  have edge: "pg_id v = k \<and> v \<in> governs H tenant ` final_rules rules" if m: "map_of (snd g) k = Some v" for k v
  proof -
    obtain r where r: "r \<in> set rules" "k = pg_id (governs H tenant r)" using known [OF m] unfolding keys by blast
    obtain s where s: "last_such (\<lambda>t. rule_ident t = rule_ident r) rules = Some s" "s \<in> final_rules rules"
      "rule_ident s = rule_ident r" using last_such_in [OF r(1)] by metis
    then have "v = governs H tenant s" using gov [OF r(1)] m r(2) by simp
    then show ?thesis using s(2) same_ident_ids(2) [OF s(3), of H tenant] r(2) by auto
  qed
  show "distinct (map po_id (dvalues (fst g)))" using dict_ids [OF ok(1)] ent by blast
  show "distinct (map pg_id (dvalues (snd g)))" using dict_ids [OF ok(2)] edge by blast
  have final: "last_such (\<lambda>s. rule_ident s = rule_ident r) rules = Some r" if "r \<in> final_rules rules" for r
    using that unfolding final_rules_def by simp
  show "set (dvalues (fst g)) = firewall_of H tenant rules ` pl_device ` set rules \<union> ?pol ` final_rules rules"
  proof (intro equalityI subsetI)
    fix v assume "v \<in> set (dvalues (fst g))"
    then show "v \<in> firewall_of H tenant rules ` pl_device ` set rules \<union> ?pol ` final_rules rules"
      using ent unfolding dict_values_iff [OF ok(1)] by blast
  next
    fix v assume "v \<in> firewall_of H tenant rules ` pl_device ` set rules \<union> ?pol ` final_rules rules"
    then obtain k where "map_of (fst g) k = Some v"
      using fw pol final final_rules_in by force
    then show "v \<in> set (dvalues (fst g))" unfolding dict_values_iff [OF ok(1)] by blast
  qed
  show "set (dvalues (snd g)) = governs H tenant ` final_rules rules"
  proof (intro equalityI subsetI)
    fix v assume "v \<in> set (dvalues (snd g))"
    then show "v \<in> governs H tenant ` final_rules rules" using edge unfolding dict_values_iff [OF ok(2)] by blast
  next
    fix v assume "v \<in> governs H tenant ` final_rules rules"
    then obtain k where "map_of (snd g) k = Some v" using gov final final_rules_in by force
    then show "v \<in> set (dvalues (snd g))" unfolding dict_values_iff [OF ok(2)] by blast
  qed
qed

lemma governs_ends: "pg_src (governs H tenant r) = firewall_id H tenant (pl_device r)" "pg_dst (governs H tenant r) = rule_policy_id H tenant r"
  by (simp_all add: governs_def Let_def)

lemma po_id_firewall: "po_id (firewall_of H tenant rules device) = firewall_id H tenant device"
  by (simp add: firewall_of_def new_firewall_def Let_def)

lemma po_id_policy: "po_id (policy_of H tenant r a) = rule_policy_id H tenant r"
  by (simp add: policy_of_def)


section \<open>The history of rule contents\<close>

record hist_row =
  hr_key :: rule_key
  hr_at :: string
  hr_hash :: pyval

text \<open>A row of \<open>policy_versions\<close>, in the order of its columns.\<close>

definition hist_of_row :: "pyval list \<Rightarrow> hist_row" where
  "hist_of_row row =
     \<lparr>hr_key = (row ! 1, row ! 2, row ! 3), hr_at = (case row ! 4 of PStr s \<Rightarrow> s | _ \<Rightarrow> []), hr_hash = row ! 5\<rparr>"

text \<open>The newest row of a key, and the hash it carries (\<open>argMax(content_hash, valid_from)\<close>).\<close>

fun newest :: "hist_row list \<Rightarrow> hist_row option" where
  "newest [] = None"
| "newest (x # xs) =
     (case newest xs of None \<Rightarrow> Some x | Some y \<Rightarrow> Some (if hr_at x > hr_at y then x else y))"

definition latest_hash :: "hist_row list \<Rightarrow> rule_key \<Rightarrow> pyval option" where
  "latest_hash rows k = map_option hr_hash (newest (filter (\<lambda>h. hr_key h = k) rows))"

lemma newest_snoc: "(\<forall>h \<in> set xs. hr_at h < hr_at x) \<Longrightarrow> newest (xs @ [x]) = Some x"
  by (induction xs) auto

lemma latest_hash_other: "(\<And>h. h \<in> set new \<Longrightarrow> hr_key h \<noteq> k) \<Longrightarrow> latest_hash (rows @ new) k = latest_hash rows k"
proof -
  assume "\<And>h. h \<in> set new \<Longrightarrow> hr_key h \<noteq> k"
  then have "filter (\<lambda>h. hr_key h = k) new = []" by (simp add: filter_empty_conv)
  then show ?thesis by (simp add: latest_hash_def)
qed

lemma latest_hash_new:
  assumes "filter (\<lambda>h. hr_key h = hr_key x) new = [x]" and "\<forall>h \<in> set rows. hr_key h = hr_key x \<longrightarrow> hr_at h < hr_at x"
  shows "latest_hash (rows @ new) (hr_key x) = Some (hr_hash x)"
  using assms newest_snoc [of "filter (\<lambda>h. hr_key h = hr_key x) rows" x] by (simp add: latest_hash_def)

definition text_of :: "pyval \<Rightarrow> string option" where
  "text_of v = (case v of PStr s \<Rightarrow> Some s | _ \<Rightarrow> None)"

definition in_lists :: "pyval list \<Rightarrow> pyval list \<Rightarrow> pyval list \<Rightarrow> rule_key \<Rightarrow> bool" where
  "in_lists providers devices rules k \<longleftrightarrow> fst k \<in> set providers \<and> fst (snd k) \<in> set devices \<and> snd (snd k) \<in> set rules"

text \<open>What the pure difference adds, and what a row of it says.\<close>

definition key_of :: "pol_entity \<Rightarrow> rule_key" where
  "key_of p = the (version_key p)"

definition changed :: "(string \<Rightarrow> string) \<Rightarrow> (rule_key \<Rightarrow> pyval option) \<Rightarrow> pol_entity \<Rightarrow> bool" where
  "changed H before p \<longleftrightarrow> before (key_of p) \<noteq> Some (PStr (policy_hash H p))"

lemma diff_new_versions_spec:
  assumes "\<forall>p \<in> set ps. po_kind p = POLICY \<and> version_key p \<noteq> None"
  shows "diff_new_versions H ps known =
    Some (map (\<lambda>p. version_row p (key_of p) (policy_hash H p)) (filter (changed H (map_of known)) ps))"
  using assms by (induction ps) (auto simp: key_of_def changed_def)

lemma version_key_Some: "version_key p \<noteq> None \<Longrightarrow> snd (snd (key_of p)) = PStr (po_name p)"
  by (auto simp: version_key_def key_of_def split: option.splits)

definition version_cells :: "pol_entity \<Rightarrow> string \<Rightarrow> pyval list" where
  "version_cells p hash = map (\<lambda>col. the (map_of (version_row p (key_of p) hash) col)) POLICY_VERSION_COLUMNS"

lemma version_row_cells: "row_of POLICY_VERSION_COLUMNS (version_row p (key_of p) hash) = Some (version_cells p hash)"
  by (simp add: row_of_def POLICY_VERSION_COLUMNS_def version_row_def version_cells_def Let_def)

lemma version_cells_hist:
  "version_key p \<noteq> None \<Longrightarrow>
     hist_of_row (version_cells p hash) = \<lparr>hr_key = key_of p, hr_at = po_last p, hr_hash = PStr hash\<rparr>"
  using version_key_Some [of p]
  by (simp add: hist_of_row_def version_cells_def POLICY_VERSION_COLUMNS_def version_row_def Let_def) (metis prod.collapse)

lemma those_map_id: "(\<And>x. x \<in> set xs \<Longrightarrow> f x = Some (g x)) \<Longrightarrow> those (map f xs) = Some (map g xs)"
  by (induction xs) auto

lemma those_all: "those (map f xs) = Some ys \<Longrightarrow> x \<in> set xs \<Longrightarrow> f x \<noteq> None"
  by (induction xs arbitrary: ys) (auto split: option.splits)

locale version_store =
  fixes c :: "'db pol_client" and hist :: "'db \<Rightarrow> hist_row list"
  assumes insert_appends:
      "pc_insert c ''policy_versions'' rows POLICY_VERSION_COLUMNS db = (None, db') \<Longrightarrow> hist db' = hist db @ map hist_of_row rows"
    and query_latest:
      "pc_query c LATEST_HASHES_SQL [(''providers'', PList ps), (''devices'', PList ds), (''rules'', PList rs)] db = Inr rows
        \<Longrightarrow> \<exists>kvs. those (map hash_of_row rows) = Some kvs \<and> dict_ok kvs
              \<and> (\<forall>k. in_lists ps ds rs k \<longrightarrow> map_of kvs k = latest_hash (hist db) k)"
begin

lemma fetch_is_latest:
  assumes "fetch_latest_hashes c keys db = Inr known" and "k \<in> set keys"
  shows "map_of known k = latest_hash (hist db) k"
proof -
  have "keys \<noteq> []" using assms(2) by auto
  then obtain ps ds rs rows kvs where t: "sorted_texts (map fst keys) = Some ps"
      "sorted_texts (map (fst \<circ> snd) keys) = Some ds" "sorted_texts (map (snd \<circ> snd) keys) = Some rs"
    and q: "pc_query c LATEST_HASHES_SQL [(''providers'', ps), (''devices'', ds), (''rules'', rs)] db = Inr rows"
    and kvs: "those (map hash_of_row rows) = Some kvs" "known = dupdate [] kvs"
    using assms(1) unfolding fetch_latest_hashes_def
    by (auto simp del: split_paired_Ex split_paired_All split: option.splits simp: bind_sum_Inr_iff)
  have lists: "\<exists>xs. v = PList xs \<and> set xs = set vs" if s: "sorted_texts vs = Some v" for vs v
  proof -
    obtain ts where ts: "those (map (\<lambda>v. case v of PStr s \<Rightarrow> Some s | _ \<Rightarrow> None) vs) = Some ts" "v = PList (map PStr (sorted_set ts))"
      using s unfolding sorted_texts_def by auto
    have "those (map (\<lambda>v. case v of PStr s \<Rightarrow> Some s | _ \<Rightarrow> None) vs) = Some ts \<Longrightarrow> vs = map PStr ts" for ts
      by (induction vs arbitrary: ts) (auto split: pyval.splits)
    then show ?thesis using ts by auto
  qed
  from lists [OF t(1)] lists [OF t(2)] lists [OF t(3)] obtain ps' ds' rs' where
    l: "ps = PList ps'" "set ps' = fst ` set keys" "ds = PList ds'" "set ds' = (fst \<circ> snd) ` set keys"
       "rs = PList rs'" "set rs' = (snd \<circ> snd) ` set keys" by auto
  have "in_lists ps' ds' rs' k" using assms(2) l unfolding in_lists_def by simp
  then show ?thesis using query_latest [OF q [unfolded l(1,3,5)]] kvs by (auto simp: map_of_dupdate)
qed

text \<open>What one successful append does to the history.\<close>

lemma append_history:
  assumes run: "append_policy_versions H c ps db = (Inr n, db')"
    and kinds: "\<forall>p \<in> set ps. po_kind p = POLICY"
  shows "hist db' = hist db @ map (\<lambda>p. \<lparr>hr_key = key_of p, hr_at = po_last p, hr_hash = PStr (policy_hash H p)\<rparr>)
             (filter (changed H (latest_hash (hist db))) ps)
    \<or> (\<forall>p \<in> set ps. \<not> changed H (latest_hash (hist db)) p) \<and> db' = db"
proof (cases "ps = []")
  case True
  then show ?thesis using run by (simp add: append_policy_versions_def)
next
  case False
  obtain keys known vs where keys: "those (map version_key ps) = Some keys"
    and known: "fetch_latest_hashes c keys db = Inr known" and vs: "diff_new_versions H ps known = Some vs"
    and ins: "insert_dicts c ''policy_versions'' POLICY_VERSION_COLUMNS vs db = (Inr n, db')"
    using run False unfolding append_policy_versions_def by (auto split: option.splits sum.splits)
  have some: "version_key p \<noteq> None" if "p \<in> set ps" for p using those_all [OF keys that] .
  have "keys = map key_of ps" using keys those_map_id [of ps version_key key_of] some by (auto simp: key_of_def)
  then have last: "map_of known (key_of p) = latest_hash (hist db) (key_of p)" if "p \<in> set ps" for p
    using fetch_is_latest [OF known] that by simp
  let ?new = "filter (changed H (latest_hash (hist db))) ps"
  have "filter (changed H (map_of known)) ps = ?new"
    using last by (auto simp: changed_def intro: filter_cong)
  then have v: "vs = map (\<lambda>p. version_row p (key_of p) (policy_hash H p)) ?new"
    using vs diff_new_versions_spec [of ps H known] kinds some by simp
  show ?thesis
  proof (cases "?new = []")
    case True
    then show ?thesis using ins v by (auto simp: insert_dicts_def filter_empty_conv)
  next
    case False
    have rows: "pol_rows POLICY_VERSION_COLUMNS vs = Some (map (\<lambda>p. version_cells p (policy_hash H p)) ?new)"
      unfolding v pol_rows_def map_map by (rule those_map_id) (simp add: version_row_cells)
    have "pc_insert c ''policy_versions'' (map (\<lambda>p. version_cells p (policy_hash H p)) ?new) POLICY_VERSION_COLUMNS db = (None, db')"
      using ins False v unfolding insert_dicts_def rows by (auto split: prod.splits option.splits)
    from insert_appends [OF this] show ?thesis
      using some version_cells_hist by (auto simp: comp_def)
  qed
qed

lemma append_tracks:
  assumes run: "append_policy_versions H c ps db = (Inr n, db')"
    and kinds: "\<forall>p \<in> set ps. po_kind p = POLICY" and distinct: "distinct (map key_of ps)"
    and later: "\<forall>p \<in> set ps. \<forall>h \<in> set (hist db). hr_key h = key_of p \<longrightarrow> hr_at h < po_last p"
  shows "(\<forall>p \<in> set ps. latest_hash (hist db') (key_of p) = Some (PStr (policy_hash H p)))
    \<and> (\<forall>k. k \<notin> key_of ` set ps \<longrightarrow> latest_hash (hist db') k = latest_hash (hist db) k)
    \<and> (\<exists>new. hist db' = hist db @ new \<and> hr_key ` set new = key_of ` {p \<in> set ps. changed H (latest_hash (hist db)) p})"
proof -
  let ?row = "\<lambda>p. \<lparr>hr_key = key_of p, hr_at = po_last p, hr_hash = PStr (policy_hash H p)\<rparr>"
  let ?new = "filter (changed H (latest_hash (hist db))) ps"
  have h: "hist db' = hist db @ map ?row ?new"
    using append_history [OF run kinds] by (auto simp: filter_empty_conv)
  have "latest_hash (hist db') (key_of p) = Some (PStr (policy_hash H p))" if p: "p \<in> set ps" for p
  proof (cases "changed H (latest_hash (hist db)) p")
    case True
    have "filter (\<lambda>q. key_of q = key_of p \<and> changed H (latest_hash (hist db)) q) ps = [p]"
      using distinct p True by (induction ps) (auto simp: filter_empty_conv image_iff)
    then have "filter (\<lambda>h. hr_key h = hr_key (?row p)) (map ?row ?new) = [?row p]"
      by (simp add: filter_map comp_def conj_commute)
    from latest_hash_new [OF this, of "hist db"] show ?thesis using later p unfolding h by simp
  next
    case False
    have "hr_key x \<noteq> key_of p" if x: "x \<in> set (map ?row ?new)" for x
    proof
      assume e: "hr_key x = key_of p"
      obtain q where q: "q \<in> set ps" "changed H (latest_hash (hist db)) q" "key_of q = key_of p"
        using x e by auto
      then have "q = p" using distinct p by (auto simp: distinct_map inj_on_def)
      then show False using q False by simp
    qed
    then show ?thesis using latest_hash_other [of "map ?row ?new" "key_of p" "hist db"] False unfolding h changed_def by simp
  qed
  moreover have "latest_hash (hist db') k = latest_hash (hist db) k" if "k \<notin> key_of ` set ps" for k
    unfolding h using that by (intro latest_hash_other) auto
  moreover have "hr_key ` set (map ?row ?new) = key_of ` {p \<in> set ps. changed H (latest_hash (hist db)) p}"
    unfolding set_map set_filter image_image by simp
  ultimately show ?thesis using h by blast
qed

end

text \<open>A store in memory: the rows of each table, in the order they came.\<close>

type_synonym mem_tables = "(string, pyval list list) dict"

definition table_rows :: "mem_tables \<Rightarrow> string \<Rightarrow> pyval list list" where
  "table_rows db table = dget_or db table []"

definition mem_history :: "mem_tables \<Rightarrow> hist_row list" where
  "mem_history db = map hist_of_row (table_rows db ''policy_versions'')"

definition list_param :: "(string, pyval) dict \<Rightarrow> string \<Rightarrow> pyval list" where
  "list_param params name = (case map_of params name of Some (PList vs) \<Rightarrow> vs | _ \<Rightarrow> [])"

definition mem_latest :: "hist_row list \<Rightarrow> (string, pyval) dict \<Rightarrow> pyval list list" where
  "mem_latest hist params =
     map (\<lambda>k. [fst k, fst (snd k), snd (snd k), the (latest_hash hist k)])
       (remdups (filter (in_lists (list_param params ''providers'') (list_param params ''devices'') (list_param params ''rules''))
          (map hr_key hist)))"

definition mem_store_client :: "mem_tables pol_client" where
  "mem_store_client =
     \<lparr>pc_insert = (\<lambda>table rows cols db. (None, dset db table (table_rows db table @ rows))),
      pc_query = (\<lambda>sql params db. Inr (if sql = LATEST_HASHES_SQL then mem_latest (mem_history db) params else []))\<rparr>"

lemma latest_hash_None: "latest_hash rows k = None \<longleftrightarrow> k \<notin> hr_key ` set rows"
proof -
  have "newest xs = None \<longleftrightarrow> xs = []" for xs by (cases xs) (auto split: option.splits)
  then show ?thesis by (auto simp: latest_hash_def filter_empty_conv)
qed

interpretation mem_versions: version_store mem_store_client mem_history
proof unfold_locales
  fix rows db db'
  assume "pc_insert mem_store_client ''policy_versions'' rows POLICY_VERSION_COLUMNS db = (None, db')"
  then show "mem_history db' = mem_history db @ map hist_of_row rows"
    by (auto simp: mem_store_client_def mem_history_def table_rows_def dget_or_dset)
next
  fix ps ds rs db rows
  let ?hist = "mem_history db"
  let ?keys = "remdups (filter (in_lists ps ds rs) (map hr_key ?hist))"
  let ?kvs = "map (\<lambda>k. (k, the (latest_hash ?hist k))) ?keys"
  assume "pc_query mem_store_client LATEST_HASHES_SQL [(''providers'', PList ps), (''devices'', PList ds), (''rules'', PList rs)] db = Inr rows"
  then have rows: "rows = map (\<lambda>k. [fst k, fst (snd k), snd (snd k), the (latest_hash ?hist k)]) ?keys"
    by (simp add: mem_store_client_def mem_latest_def list_param_def)
  have "those (map hash_of_row rows) = Some ?kvs"
    unfolding rows map_map by (rule those_map_id) (simp add: hash_of_row_def)
  moreover have "dict_ok ?kvs" by (simp add: dict_ok_def comp_def)
  moreover have "map_of ?kvs k = latest_hash ?hist k" if "in_lists ps ds rs k" for k
  proof (cases "k \<in> hr_key ` set ?hist")
    case True
    then have "k \<in> set ?keys" using that by auto
    then have "map_of ?kvs k = Some (the (latest_hash ?hist k))" by (simp add: map_of_map_restrict restrict_map_def)
    moreover have "latest_hash ?hist k \<noteq> None" using True by (simp add: latest_hash_None)
    ultimately show ?thesis by simp
  next
    case False
    then have "latest_hash ?hist k = None" "k \<notin> set ?keys" by (auto simp: latest_hash_None)
    then show ?thesis by (auto simp: map_of_eq_None_iff)
  qed
  ultimately show "\<exists>kvs. those (map hash_of_row rows) = Some kvs \<and> dict_ok kvs
      \<and> (\<forall>k. in_lists ps ds rs k \<longrightarrow> map_of kvs k = latest_hash ?hist k)" by blast
qed

text \<open>C13: The rule history is append-only and follows the configuration.  Against every store that appends
  rows and answers the newest hash per rule, a successful append only adds rows, exactly for the policies
  whose content hash differs from the newest recorded one; afterwards the newest hash of every policy of the
  batch is that of its content, and other rules keep theirs.\<close>

theorem history_tracks_configuration:
  assumes "version_store c hist" and "append_policy_versions H c ps db = (Inr n, db')"
    and "\<forall>p \<in> set ps. po_kind p = POLICY" and "distinct (map key_of ps)"
    and "\<forall>p \<in> set ps. \<forall>h \<in> set (hist db). hr_key h = key_of p \<longrightarrow> hr_at h < po_last p"
  shows "(\<forall>p \<in> set ps. latest_hash (hist db') (key_of p) = Some (PStr (policy_hash H p)))
    \<and> (\<forall>k. k \<notin> key_of ` set ps \<longrightarrow> latest_hash (hist db') k = latest_hash (hist db) k)
    \<and> (\<exists>new. hist db' = hist db @ new \<and> hr_key ` set new = key_of ` {p \<in> set ps. changed H (latest_hash (hist db)) p})"
  by (rule version_store.append_tracks [OF assms])

definition sample_fw_rule :: "string \<Rightarrow> string \<Rightarrow> fw_rule" where
  "sample_fw_rule name action =
     \<lparr>pl_provider = ''juniper'', pl_device = ''fw1'', pl_name = name, pl_action = action, pl_from = [''trust''],
      pl_to = [''untrust''], pl_sources = [''any''], pl_dests = [''any''], pl_application = [], pl_service = [],
      pl_position = 0, pl_enabled = True, pl_extras = [], pl_at = ''2026-01-02'', pl_match_unknown = None,
      pl_clauses = None, pl_negation = None\<rparr>"


definition sample_policy :: "string \<Rightarrow> pol_entity" where
  "sample_policy action =
     policy_of id ''t'' (sample_fw_rule ''P1'' action) (the (rule_attrs (sample_fw_rule ''P1'' action)))"

lemma history_tracks_configuration_witness:
  "\<exists>db1 db2. append_policy_versions id mem_store_client [sample_policy ''allow''] [] = (Inr 1, db1)
     \<and> append_policy_versions id mem_store_client [(sample_policy ''deny'')\<lparr>po_last := ''2026-01-03''\<rparr>] db1 = (Inr 1, db2)
     \<and> length (mem_history db2) = 2
     \<and> latest_hash (mem_history db2) (key_of (sample_policy ''deny'')) = Some (PStr (policy_hash id (sample_policy ''deny'')))"
proof -
  let ?p = "sample_policy ''allow''" and ?q = "(sample_policy ''deny'')\<lparr>po_last := ''2026-01-03''\<rparr>"
  obtain r1 db1 where r1: "append_policy_versions id mem_store_client [?p] [] = (r1, db1)" by (rule prod.exhaust)
  obtain r2 db2 where r2: "append_policy_versions id mem_store_client [?q] db1 = (r2, db2)" by (rule prod.exhaust)
  have "fst (append_policy_versions id mem_store_client [?p] []) = Inr 1"
    "fst (append_policy_versions id mem_store_client [?q] (snd (append_policy_versions id mem_store_client [?p] []))) = Inr 1"
    "length (mem_history (snd (append_policy_versions id mem_store_client [?q] (snd (append_policy_versions id mem_store_client [?p] []))))) = 2"
    "list_all (\<lambda>h. hr_at h < po_last ?q) (mem_history (snd (append_policy_versions id mem_store_client [?p] [])))"
    "po_kind ?q = POLICY" "key_of ?q = key_of (sample_policy ''deny'')" "policy_hash id ?q = policy_hash id (sample_policy ''deny'')"
    by code_simp+
  then have e: "r1 = Inr 1" "r2 = Inr 1" "length (mem_history db2) = 2" "\<forall>h \<in> set (mem_history db1). hr_at h < po_last ?q"
    and q: "po_kind ?q = POLICY" "key_of ?q = key_of (sample_policy ''deny'')" "policy_hash id ?q = policy_hash id (sample_policy ''deny'')"
    using r1 r2 by (simp_all add: list_all_iff)
  have "latest_hash (mem_history db2) (key_of ?q) = Some (PStr (policy_hash id ?q))"
    using history_tracks_configuration [OF mem_versions.version_store_axioms r2 [unfolded e(2)]] e(4) q(1) by simp
  from this [unfolded q(2,3)] show ?thesis
    using r1 [unfolded e(1)] r2 [unfolded e(2)] e(3) by blast
qed

section \<open>One run\<close>

definition delivers :: "(string \<Rightarrow> pol_source) \<Rightarrow> string \<Rightarrow> bool" where
  "delivers src name \<longleftrightarrow> (\<exists>rs. so_rules (src name) = Inr rs)"

definition rules_from :: "(string \<Rightarrow> pol_source) \<Rightarrow> string \<Rightarrow> fw_rule list" where
  "rules_from src name = (case so_rules (src name) of Inl exc \<Rightarrow> [] | Inr rs \<Rightarrow> rs)"

lemma collect_all_rules: "fst (collect_all src names) = concat (map (rules_from src) names)"
  by (induction names) (auto simp: rules_from_def case_prod_beta split: sum.splits)

lemma collect_all_delivers: "collect_all src (filter (delivers src) names) = collect_all src names"
proof (induction names)
  case (Cons name names)
  then show ?case by (cases "so_rules (src name)") (simp_all add: delivers_def case_prod_beta)
qed simp

text \<open>A failing collector costs only its own rules, and a failing history costs nothing but itself.  A run
  does the same as a run without the collectors that fail; its answer does not depend on whether the history
  is written or whether that fails; and if it answers, the counts are those of the entities and edges
  resolved from the rules of the others.\<close>

theorem resolver_failures_isolated:
  "run_resolver_once H c versioned src enabled tenant db
     = run_resolver_once H c versioned src (filter (delivers src) enabled) tenant db
   \<and> fst (run_resolver_once H c versioned src enabled tenant db) = fst (run_resolver_once H c False src enabled tenant db)
   \<and> (case fst (run_resolver_once H c versioned src enabled tenant db) of
        Inl exc \<Rightarrow> True
      | Inr (n, m) \<Rightarrow> \<exists>ents es. resolve_policies H tenant (concat (map (rules_from src) enabled)) = Some (ents, es)
          \<and> n = length ents \<and> m = length es)"
proof (intro conjI)
  show "run_resolver_once H c versioned src enabled tenant db
     = run_resolver_once H c versioned src (filter (delivers src) enabled) tenant db"
    unfolding run_resolver_once_def collect_all_delivers ..
  show "fst (run_resolver_once H c versioned src enabled tenant db) = fst (run_resolver_once H c False src enabled tenant db)"
    by (auto simp: run_resolver_once_def Let_def split: prod.splits option.splits sum.splits)
  have count: "fst (insert_dicts c table cols ds db) = Inr n \<Longrightarrow> n = length ds" for table cols ds db n
    by (auto simp: insert_dicts_def split: if_splits option.splits prod.splits)
  have n: "pol_replace_entities c ents db = (Inr n, db') \<Longrightarrow> n = length ents"
    "pol_replace_edges c es db = (Inr n, db') \<Longrightarrow> n = length es" for ents es db n db'
    using count [of "''entities''" POL_ENTITY_COLUMNS "map pol_entity_dict ents" db n]
      count [of "''entity_edges''" POL_EDGE_COLUMNS "map pol_edge_dict es" db n]
    by (simp_all add: pol_replace_entities_def pol_replace_edges_def)
  show "case fst (run_resolver_once H c versioned src enabled tenant db) of
        Inl exc \<Rightarrow> True
      | Inr (n, m) \<Rightarrow> \<exists>ents es. resolve_policies H tenant (concat (map (rules_from src) enabled)) = Some (ents, es)
          \<and> n = length ents \<and> m = length es"
    unfolding run_resolver_once_def collect_all_rules [symmetric]
    by (auto simp: Let_def dest!: n split: prod.splits option.splits sum.splits)
qed

text \<open>The rollup covers whole hours, the given number of them, up to the hour of \<open>now\<close>; so the runs of
  successive hours leave no hour out.\<close>

lemma compute_window_hours:
  assumes "compute_window now k = Some (since, until)"
  shows "wall_us until mod hour_us = 0" "wall_us until \<le> wall_us now" "wall_us now < wall_us until + hour_us"
    "wall_us until - wall_us since = k * hour_us"
proof -
  have u: "until = now\<lparr>wall_us := wall_us now - wall_us now mod hour_us\<rparr>"
      "since = now\<lparr>wall_us := wall_us now - wall_us now mod hour_us - k * hour_us\<rparr>"
    using assms by (auto simp: compute_window_def Let_def split: if_splits)
  show "wall_us until mod hour_us = 0" unfolding u(1) by (simp add: minus_mod_eq_mult_div)
  show "wall_us until \<le> wall_us now" unfolding u(1) by simp
  show "wall_us now < wall_us until + hour_us" unfolding u(1) by simp
  show "wall_us until - wall_us since = k * hour_us" unfolding u by simp
qed

end
