(* ===== verification/PyText.thy ===== *)
theory PyText
  imports Prelude
begin

text \<open>
  The string operations and the regular expressions that the collectors use on the output of devices:
  \<open>splitlines\<close>, \<open>split\<close>, prefixes and replacement, and patterns made of literals, words, digits and
  white space.  In every pattern a repeated class is followed by a character outside of it, so a
  match never has to give characters back and matching is a left-to-right scan.
\<close>

section \<open>Lines and words\<close>

text \<open>\<open>str.splitlines()\<close>\<close>

definition is_break :: "char \<Rightarrow> bool" where
  "is_break c = (let n = (of_char c :: nat) in (10 \<le> n \<and> n \<le> 13) \<or> (28 \<le> n \<and> n \<le> 30))"

fun lines_from :: "string \<Rightarrow> string \<Rightarrow> string list" where
  "lines_from acc [] = (if acc = [] then [] else [rev acc])"
| "lines_from acc (c # cs) =
     (if c = CHR 0x0D then
        (case cs of [] \<Rightarrow> [rev acc]
         | d # ds \<Rightarrow> if d = CHR 0x0A then rev acc # lines_from [] ds else rev acc # lines_from [] cs)
      else if is_break c then rev acc # lines_from [] cs
      else lines_from (c # acc) cs)"

definition splitlines :: "string \<Rightarrow> string list" where
  "splitlines s = lines_from [] s"

text \<open>\<open>str.split()\<close>: the runs of characters that are not white space.\<close>

fun words_from :: "string \<Rightarrow> string \<Rightarrow> string list" where
  "words_from acc [] = (if acc = [] then [] else [rev acc])"
| "words_from acc (c # cs) =
     (if is_space c then (if acc = [] then words_from [] cs else rev acc # words_from [] cs)
      else words_from (c # acc) cs)"

definition py_words :: "string \<Rightarrow> string list" where
  "py_words s = words_from [] s"

lemma space_is_space [simp]: "is_space CHR '' ''"
  by (simp add: is_space_def)

text \<open>A word is what \<open>\S+\<close> matches as a whole.\<close>

definition is_word :: "string \<Rightarrow> bool" where
  "is_word w \<longleftrightarrow> w \<noteq> [] \<and> list_all (\<lambda>c. \<not> is_space c) w"

lemma words_from_mem: "w \<in> set (words_from acc s) \<Longrightarrow> list_all (\<lambda>c. \<not> is_space c) acc \<Longrightarrow> is_word w"
  by (induction acc s rule: words_from.induct) (auto simp: is_word_def split: if_splits)

lemma py_words_mem: "w \<in> set (py_words s) \<Longrightarrow> is_word w"
  unfolding py_words_def by (erule words_from_mem) simp

lemma words_from_word:
  "list_all (\<lambda>c. \<not> is_space c) w \<Longrightarrow> words_from acc (w @ s) = words_from (rev w @ acc) s"
  by (induction w arbitrary: acc) auto

lemma py_words_single: "is_word w \<Longrightarrow> py_words w = [w]"
  using words_from_word [of w "[]" "[]"] by (simp add: py_words_def is_word_def)

lemma py_words_Cons: "is_word w \<Longrightarrow> py_words (w @ CHR '' '' # s) = w # py_words s"
  using words_from_word [of w "[]" "CHR '' '' # s"] by (simp add: py_words_def is_word_def)

lemma py_words_join: "list_all is_word ws \<Longrightarrow> py_words (join '' '' ws) = ws"
proof (induction "'' ''" ws rule: join.induct)
  case 1
  show ?case by (simp add: py_words_def)
next
  case (2 x)
  then show ?case by (simp add: py_words_single)
next
  case (3 x y ys)
  then show ?case using py_words_Cons [of x "join '' '' (y # ys)"] by simp
qed

lemma lines_from_line:
  "list_all (\<lambda>c. \<not> is_break c) l \<Longrightarrow> lines_from acc (l @ s) = lines_from (rev l @ acc) s"
proof (induction l arbitrary: acc)
  case (Cons c l)
  have "c \<noteq> CHR 0x0D" using Cons.prems by (auto simp: is_break_def)
  then show ?case using Cons by simp
qed simp

lemma splitlines_Cons:
  "list_all (\<lambda>c. \<not> is_break c) l \<Longrightarrow> splitlines (l @ CHR 0x0A # s) = l # splitlines s"
  by (simp add: splitlines_def lines_from_line is_break_def)

text \<open>A text of newline-terminated lines splits into those lines.\<close>

lemma splitlines_unlines:
  "list_all (list_all (\<lambda>c. \<not> is_break c)) ls \<Longrightarrow> splitlines (concat (map (\<lambda>l. l @ [CHR 0x0A]) ls)) = ls"
  by (induction ls) (simp_all add: splitlines_Cons, simp add: splitlines_def)

section \<open>Prefixes and replacement\<close>

text \<open>What follows the literal \<open>p\<close>, if the text starts with it.\<close>

fun after_prefix :: "string \<Rightarrow> string \<Rightarrow> string option" where
  "after_prefix [] s = Some s"
| "after_prefix (p # ps) [] = None"
| "after_prefix (p # ps) (c # cs) = (if p = c then after_prefix ps cs else None)"

lemma after_prefix_iff: "after_prefix p s = Some r \<longleftrightarrow> s = p @ r"
  by (induction p s rule: after_prefix.induct) auto

lemma after_prefix_append [simp]: "after_prefix p (p @ r) = Some r"
  by (simp add: after_prefix_iff)

lemma after_prefix_None: "after_prefix p s = None \<longleftrightarrow> \<not> prefix p s"
  using after_prefix_iff [of p s] by (cases "after_prefix p s") (auto simp: prefix_def)

text \<open>\<open>p in s\<close> for texts.\<close>

fun contains :: "string \<Rightarrow> string \<Rightarrow> bool" where
  "contains p [] = (p = [])"
| "contains p (c # cs) = (if startswith (c # cs) p then True else contains p cs)"

definition endswith :: "string \<Rightarrow> string \<Rightarrow> bool" where
  "endswith s p = suffix p s"

text \<open>\<open>s.replace(c, d)\<close> for a single character.\<close>

definition replace_char :: "char \<Rightarrow> string \<Rightarrow> string \<Rightarrow> string" where
  "replace_char c d s = concat (map (\<lambda>x. if x = c then d else [x]) s)"

section \<open>Patterns\<close>

datatype rx =
    Lit string \<comment> \<open>the characters themselves\<close>
  | Word \<comment> \<open>\<open>(\S+)\<close>\<close>
  | Digits \<comment> \<open>\<open>(\d+)\<close>\<close>
  | Some_ws \<comment> \<open>\<open>\s+\<close>\<close>
  | Any_ws \<comment> \<open>\<open>\s*\<close>\<close>
  | Rest \<comment> \<open>\<open>(.*)$\<close>\<close>
  | At_end \<comment> \<open>\<open>$\<close>\<close>

text \<open>\<open>re.match\<close>: the captured groups.\<close>

fun rx_match :: "rx list \<Rightarrow> string \<Rightarrow> string list option" where
  "rx_match [] s = Some []"
| "rx_match (Lit p # r) s = (case after_prefix p s of None \<Rightarrow> None | Some t \<Rightarrow> rx_match r t)"
| "rx_match (Word # r) s =
     (let w = takeWhile (\<lambda>c. \<not> is_space c) s in
      if w = [] then None else map_option (Cons w) (rx_match r (dropWhile (\<lambda>c. \<not> is_space c) s)))"
| "rx_match (Digits # r) s =
     (let w = takeWhile is_digit s in
      if w = [] then None else map_option (Cons w) (rx_match r (dropWhile is_digit s)))"
| "rx_match (Some_ws # r) s =
     (if takeWhile is_space s = [] then None else rx_match r (dropWhile is_space s))"
| "rx_match (Any_ws # r) s = rx_match r (dropWhile is_space s)"
| "rx_match (Rest # r) s =
     (let w = takeWhile (\<lambda>c. c \<noteq> CHR 0x0A) s in
      if length s \<le> length w + 1 then map_option (Cons w) (rx_match r []) else None)"
| "rx_match (At_end # r) s = (if s = [] \<or> s = [CHR 0x0A] then rx_match r s else None)"

text \<open>\<open>re.search\<close>: the leftmost match.\<close>

fun rx_search :: "rx list \<Rightarrow> string \<Rightarrow> string list option" where
  "rx_search p [] = rx_match p []"
| "rx_search p (c # cs) = (case rx_match p (c # cs) of None \<Rightarrow> rx_search p cs | Some g \<Rightarrow> Some g)"

lemma takeWhile_word:
  "list_all (\<lambda>c. \<not> is_space c) w \<Longrightarrow> takeWhile (\<lambda>c. \<not> is_space c) (w @ CHR '' '' # s) = w"
  "list_all (\<lambda>c. \<not> is_space c) w \<Longrightarrow> dropWhile (\<lambda>c. \<not> is_space c) (w @ CHR '' '' # s) = CHR '' '' # s"
  by (induction w) auto

lemma rx_match_word [simp]:
  "is_word w \<Longrightarrow> rx_match (Word # r) (w @ CHR '' '' # s) = map_option (Cons w) (rx_match r (CHR '' '' # s))"
  using takeWhile_word [of w s] by (simp add: is_word_def Let_def)

lemma rx_match_rest [simp]:
  "CHR 0x0A \<notin> set s \<Longrightarrow> rx_match [Rest] s = Some [s]"
proof -
  assume "CHR 0x0A \<notin> set s"
  then have w: "takeWhile (\<lambda>c. c \<noteq> CHR 0x0A) s = s"
    unfolding takeWhile_eq_all_conv by blast
  show ?thesis unfolding rx_match.simps Let_def w by simp
qed

end
