(* ===== verification/JunosPolicy.thy ===== *)
theory JunosPolicy
  imports Policy Access PyText
begin

text \<open>
  The Junos policy collector (\<open>ssdf_policy/collectors/junos.py\<close>): the parser of
  \<open>show configuration security policies | display set\<close>, the hit counters, the address books and
  applications, and the collection over all devices.  The answer of a device to a command is the
  parameter \<open>call\<close>, \<open>Inl\<close> when the call raises.
\<close>

section \<open>Security policies\<close>

definition JUNIPER :: string where "JUNIPER = ''juniper''"

definition ACTION_MAP :: attrs where
  "ACTION_MAP = [(''permit'', ''allow''), (''deny'', ''deny''), (''reject'', ''reject'')]"

definition ZONE_RE :: "rx list" where
  "ZONE_RE = [Lit ''security policies from-zone '', Word, Lit '' to-zone '', Word, Lit '' policy '', Word, Lit '' '', Rest]"

definition GLOBAL_RE :: "rx list" where
  "GLOBAL_RE = [Lit ''security policies global policy '', Word, Lit '' '', Rest]"

definition no_clauses :: match_clauses where
  "no_clauses = \<lparr>mc_source_excluded = False, mc_dest_excluded = False, mc_identity = [], mc_dynamic_application = [],
     mc_url_category = [], mc_end_user_profile = [], mc_scheduler = []\<rparr>"

definition new_rule :: "string \<Rightarrow> string \<Rightarrow> string list \<Rightarrow> string list \<Rightarrow> string \<Rightarrow> nat \<Rightarrow> fw_rule" where
  "new_rule name device_name from_zone to_zone now order =
     \<lparr>pl_provider = JUNIPER, pl_device = device_name, pl_name = name, pl_action = [], pl_from = from_zone,
      pl_to = to_zone, pl_sources = [], pl_dests = [], pl_application = [], pl_service = [], pl_position = order,
      pl_enabled = True, pl_extras = [], pl_at = now, pl_match_unknown = Some False, pl_clauses = Some no_clauses,
      pl_negation = None\<rparr>"

datatype junos_key = ZonePair string string string | Global string

record policy_line =
  ln_key :: junos_key
  ln_inactive :: bool
  ln_tokens :: "string list"

fun key_name :: "junos_key \<Rightarrow> string" where
  "key_name (ZonePair f t n) = n"
| "key_name (Global n) = n"

fun seed_zones :: "junos_key \<Rightarrow> string list \<times> string list" where
  "seed_zones (ZonePair f t n) = ([f], [t])"
| "seed_zones (Global n) = ([], [])"

text \<open>A line of the output: the policy it is about, if any.\<close>

definition policy_key :: "string \<Rightarrow> (junos_key \<times> string) option" where
  "policy_key line =
     (case rx_search ZONE_RE line of
        Some [f, t, n, rest] \<Rightarrow> Some (ZonePair f t n, rest)
      | _ \<Rightarrow> (case rx_search GLOBAL_RE line of Some [n, rest] \<Rightarrow> Some (Global n, rest) | _ \<Rightarrow> None))"

definition read_line :: "string \<Rightarrow> policy_line option" where
  "read_line raw =
     (let line = strip raw; inactive = startswith line ''inactive:'';
          line' = (if inactive then strip (drop 9 line) else line) in
      if line = [] then None
      else if \<not> startswith line' ''set '' then None
      else map_option (\<lambda>(k, rest). \<lparr>ln_key = k, ln_inactive = inactive, ln_tokens = py_words rest\<rparr>) (policy_key line'))"

definition add_unparsed :: "string \<Rightarrow> fw_rule \<Rightarrow> fw_rule" where
  "add_unparsed kw r =
     r\<lparr>pl_extras := dset (pl_extras r) ''unparsed_match''
         (PList ((case map_of (pl_extras r) ''unparsed_match'' of Some (PList vs) \<Rightarrow> vs | _ \<Rightarrow> []) @ [PStr kw]))\<rparr>"

abbreviation on_clauses :: "(match_clauses \<Rightarrow> match_clauses) \<Rightarrow> fw_rule \<Rightarrow> fw_rule" where
  "on_clauses f r \<equiv> r\<lparr>pl_clauses := map_option f (pl_clauses r)\<rparr>"

definition apply_match :: "string list \<Rightarrow> fw_rule \<Rightarrow> fw_rule" where
  "apply_match args r =
     (let unparsed = (add_unparsed (case args of [] \<Rightarrow> [] | kw # _ \<Rightarrow> kw) r)\<lparr>pl_match_unknown := Some True\<rparr> in
      case args of
        [] \<Rightarrow> unparsed
      | kw # vals \<Rightarrow>
          if kw = ''source-address-excluded'' then on_clauses (\<lambda>c. c\<lparr>mc_source_excluded := True\<rparr>) r
          else if kw = ''destination-address-excluded'' then on_clauses (\<lambda>c. c\<lparr>mc_dest_excluded := True\<rparr>) r
          else
            (case vals of
               [] \<Rightarrow> unparsed
             | v # _ \<Rightarrow>
                 if kw = ''source-address'' then r\<lparr>pl_sources := pl_sources r @ [v]\<rparr>
                 else if kw = ''destination-address'' then r\<lparr>pl_dests := pl_dests r @ [v]\<rparr>
                 else if kw = ''application'' then
                   r\<lparr>pl_application := pl_application r @ [v], pl_service := pl_service r @ [v]\<rparr>
                 else if kw = ''from-zone'' then r\<lparr>pl_from := pl_from r @ [v]\<rparr>
                 else if kw = ''to-zone'' then r\<lparr>pl_to := pl_to r @ [v]\<rparr>
                 else if kw = ''source-identity'' then on_clauses (\<lambda>c. c\<lparr>mc_identity := mc_identity c @ [v]\<rparr>) r
                 else if kw = ''dynamic-application'' then
                   on_clauses (\<lambda>c. c\<lparr>mc_dynamic_application := mc_dynamic_application c @ [v]\<rparr>) r
                 else if kw = ''url-category'' then on_clauses (\<lambda>c. c\<lparr>mc_url_category := mc_url_category c @ [v]\<rparr>) r
                 else if kw = ''source-end-user-profile'' then
                   on_clauses (\<lambda>c. c\<lparr>mc_end_user_profile := mc_end_user_profile c @ [v]\<rparr>) r
                 else unparsed))"

definition apply_tokens :: "string list \<Rightarrow> fw_rule \<Rightarrow> fw_rule" where
  "apply_tokens tokens r =
     (case tokens of
        [] \<Rightarrow> r
      | kw # args \<Rightarrow>
          if kw = ''match'' then apply_match args r
          else if kw = ''scheduler-name'' \<and> args \<noteq> [] then on_clauses (\<lambda>c. c\<lparr>mc_scheduler := hd args\<rparr>) r
          else if kw = ''then'' \<and> args \<noteq> [] then
            (case map_of ACTION_MAP (hd args) of None \<Rightarrow> r | Some a \<Rightarrow> r\<lparr>pl_action := a\<rparr>)
          else if kw = ''description'' then r
          else r\<lparr>pl_match_unknown := Some True\<rparr>)"

text \<open>One line of a policy: the rule is made at its first line.\<close>

definition apply_line :: "policy_line \<Rightarrow> fw_rule \<Rightarrow> fw_rule" where
  "apply_line l r = apply_tokens (ln_tokens l) (if ln_inactive l then r\<lparr>pl_enabled := False\<rparr> else r)"

definition first_rule :: "string \<Rightarrow> string \<Rightarrow> junos_key \<Rightarrow> nat \<Rightarrow> fw_rule" where
  "first_rule device_name now k order = new_rule (key_name k) device_name (fst (seed_zones k)) (snd (seed_zones k)) now order"

definition line_step ::
  "string \<Rightarrow> string \<Rightarrow> (junos_key, fw_rule) dict \<times> nat \<Rightarrow> policy_line \<Rightarrow> (junos_key, fw_rule) dict \<times> nat" where
  "line_step device_name now s l =
     (let rule = dget_or (fst s) (ln_key l) (first_rule device_name now (ln_key l) (snd s)) in
      (dset (fst s) (ln_key l) (apply_line l rule), if dhas (fst s) (ln_key l) then snd s else snd s + 1))"

definition unresolved :: "match_clauses \<Rightarrow> bool" where
  "unresolved c \<longleftrightarrow> mc_identity c \<noteq> [] \<or> mc_dynamic_application c \<noteq> [] \<or> mc_url_category c \<noteq> []
     \<or> mc_end_user_profile c \<noteq> [] \<or> mc_scheduler c \<noteq> []"

definition finish_rule :: "junos_key \<Rightarrow> fw_rule \<Rightarrow> fw_rule" where
  "finish_rule k r =
     (let r1 = (case k of
            ZonePair _ _ _ \<Rightarrow> r
          | Global _ \<Rightarrow> r\<lparr>pl_from := (if pl_from r = [] then [''any''] else pl_from r),
                           pl_to := (if pl_to r = [] then [''any''] else pl_to r)\<rparr>) in
      if (case pl_clauses r of None \<Rightarrow> False | Some c \<Rightarrow> unresolved c) then r1\<lparr>pl_match_unknown := Some True\<rparr> else r1)"

definition policy_lines :: "string \<Rightarrow> policy_line list" where
  "policy_lines tx = concat (map (\<lambda>raw. case read_line raw of None \<Rightarrow> [] | Some l \<Rightarrow> [l]) (splitlines tx))"

definition policy_table :: "string \<Rightarrow> string \<Rightarrow> string \<Rightarrow> (junos_key, fw_rule) dict" where
  "policy_table tx device_name now =
     map (\<lambda>(k, r). (k, finish_rule k r)) (fst (foldl (line_step device_name now) ([], 0) (policy_lines tx)))"

definition parse_security_policies :: "string \<Rightarrow> string \<Rightarrow> string \<Rightarrow> fw_rule list" where
  "parse_security_policies tx device_name now = dvalues (policy_table tx device_name now)"

section \<open>Hit counters\<close>

definition HITCOUNT_RE :: "rx list" where
  "HITCOUNT_RE = [Any_ws, Digits, Some_ws, Word, Some_ws, Word, Some_ws, Word, Some_ws, Digits, Some_ws, Word, Any_ws, At_end]"

definition hit_row :: "string \<Rightarrow> (string \<times> nat) option" where
  "hit_row line = (case rx_match HITCOUNT_RE line of Some [i, f, t, name, n, act] \<Rightarrow> Some (name, nat_of_digits n) | _ \<Rightarrow> None)"

text \<open>A name seen before is ambiguous, and its counter is dropped.  The PAN-OS collector counts the same way.\<close>

definition count_step :: "(string, 'n) dict \<times> string list \<Rightarrow> string \<times> 'n \<Rightarrow> (string, 'n) dict \<times> string list" where
  "count_step s row =
     (case row of (name, n) \<Rightarrow>
        if dhas (fst s) name \<or> name \<in> set (snd s) then (ddel (fst s) name, List.insert name (snd s))
        else (dset (fst s) name n, snd s))"

definition unambiguous_counts :: "(string \<times> 'n) list \<Rightarrow> (string, 'n) dict" where
  "unambiguous_counts rows = fst (foldl count_step ([], []) rows)"

definition hit_rows :: "string \<Rightarrow> (string \<times> nat) list" where
  "hit_rows tx = concat (map (\<lambda>l. case hit_row l of None \<Rightarrow> [] | Some r \<Rightarrow> [r]) (splitlines tx))"

definition parse_hit_counts :: "string \<Rightarrow> (string, nat) dict" where
  "parse_hit_counts tx = unambiguous_counts (hit_rows tx)"

section \<open>Counters are exact\<close>

lemma count_fold:
  assumes "foldl count_step ([], []) rows = (d, amb)"
  shows "dict_ok d \<and> set amb = {x. length (filter (\<lambda>r. fst r = x) rows) \<ge> 2}
    \<and> (\<forall>x n. map_of d x = Some n \<longleftrightarrow> filter (\<lambda>r. fst r = x) rows = [(x, n)])"
  using assms
proof (induction rows arbitrary: d amb rule: rev_induct)
  case Nil
  then show ?case by simp
next
  case (snoc row rows)
  obtain d0 amb0 where s: "foldl count_step ([], []) rows = (d0, amb0)" by (rule prod.exhaust)
  obtain y m where row: "row = (y, m)" by (rule prod.exhaust)
  have IH: "dict_ok d0" "set amb0 = {x. length (filter (\<lambda>r. fst r = x) rows) \<ge> 2}"
    "\<And>x n. map_of d0 x = Some n \<longleftrightarrow> filter (\<lambda>r. fst r = x) rows = [(x, n)]"
    using snoc.IH [OF s] by blast+
  have new: "(d, amb) = count_step (d0, amb0) (y, m)" using snoc.prems s row by simp
  have seen: "dhas d0 y \<or> y \<in> set amb0 \<longleftrightarrow> filter (\<lambda>r. fst r = y) rows \<noteq> []"
  proof (cases "filter (\<lambda>r. fst r = y) rows")
    case Nil
    then show ?thesis using IH(2,3) by (auto simp: dhas_def)
  next
    case (Cons r rs)
    then have "fst r = y" by (metis (mono_tags, lifting) filter_eq_ConsD)
    then obtain n where r: "r = (y, n)" by (cases r) auto
    show ?thesis
    proof (cases rs)
      case Nil
      then have "map_of d0 y = Some n" using IH(3) Cons r by simp
      then show ?thesis using Cons by (simp add: dhas_def)
    next
      case (Cons r' rs')
      then have "y \<in> set amb0" using \<open>filter (\<lambda>r. fst r = y) rows = r # rs\<close> IH(2) by simp
      then show ?thesis using \<open>filter (\<lambda>r. fst r = y) rows = r # rs\<close> by simp
    qed
  qed
  show ?case
  proof (cases "filter (\<lambda>r. fst r = y) rows = []")
    case True
    then have "d = dset d0 y m" "amb = amb0" using new seen by (auto simp: count_step_def)
    then show ?thesis using IH True row by auto
  next
    case False
    then have "d = ddel d0 y" "amb = List.insert y amb0" using new seen by (auto simp: count_step_def)
    then show ?thesis using IH False row by (auto simp: map_of_ddel Suc_le_eq)
  qed
qed

text \<open>A hit counter is never attributed by guess.  The parser reports a counter for a rule name exactly
  when one single row of the device's table carries that name, and then it is the counter of that row; a
  name that occurs twice, in two zone pairs or on two cluster nodes, has no counter.\<close>

theorem hit_counts_unambiguous:
  "map_of (parse_hit_counts tx) name = Some n \<longleftrightarrow> filter (\<lambda>r. fst r = name) (hit_rows tx) = [(name, n)]"
proof -
  obtain d amb where s: "foldl count_step ([], []) (hit_rows tx) = (d, amb)" by (rule prod.exhaust)
  from count_fold [OF this] s show ?thesis by (simp add: parse_hit_counts_def unambiguous_counts_def)
qed

section \<open>Clauses fail closed\<close>

text \<open>The lines whose meaning the collector evaluates.\<close>

definition understood :: "string list \<Rightarrow> bool" where
  "understood tokens =
     (case tokens of
        [] \<Rightarrow> True
      | kw # args \<Rightarrow>
          if kw = ''match'' then
            (case args of
               [] \<Rightarrow> False
             | m # vals \<Rightarrow> m \<in> {''source-address-excluded'', ''destination-address-excluded''}
                 \<or> vals \<noteq> [] \<and> m \<in> {''source-address'', ''destination-address'', ''application'', ''from-zone'', ''to-zone''})
          else kw = ''then'' \<and> args \<noteq> [] \<or> kw = ''description'')"

definition match_values :: "string \<Rightarrow> policy_line \<Rightarrow> string list" where
  "match_values kw l = (case ln_tokens l of m # k # v # _ \<Rightarrow> if m = ''match'' \<and> k = kw then [v] else [] | _ \<Rightarrow> [])"

definition flagged :: "fw_rule \<Rightarrow> bool" where
  "flagged r \<longleftrightarrow> pl_match_unknown r = Some True \<or> (\<exists>c. pl_clauses r = Some c \<and> unresolved c)"

lemma apply_match_frame:
  "pl_name (apply_match args r) = pl_name r" "pl_position (apply_match args r) = pl_position r"
  "pl_enabled (apply_match args r) = pl_enabled r"
  "pl_clauses (apply_match args r) = None \<longleftrightarrow> pl_clauses r = None"
  "pl_match_unknown r \<noteq> None \<Longrightarrow> pl_match_unknown (apply_match args r) \<noteq> None"
  by (cases args; cases "tl args"; simp add: apply_match_def add_unparsed_def Let_def
      if_distrib [of pl_name] if_distrib [of pl_position] if_distrib [of pl_enabled] if_distrib [of pl_clauses]
      if_distrib [of pl_match_unknown] if_distrib [of "\<lambda>x. x = None"] del: if_split cong del: if_weak_cong)+

lemma apply_tokens_frame:
  "pl_name (apply_tokens tokens r) = pl_name r" "pl_position (apply_tokens tokens r) = pl_position r"
  "pl_enabled (apply_tokens tokens r) = pl_enabled r"
  "pl_clauses (apply_tokens tokens r) = None \<longleftrightarrow> pl_clauses r = None"
  "pl_match_unknown r \<noteq> None \<Longrightarrow> pl_match_unknown (apply_tokens tokens r) \<noteq> None"
  by (cases tokens; cases "map_of ACTION_MAP (hd (tl tokens))"; simp add: apply_tokens_def apply_match_frame
      if_distrib [of pl_name] if_distrib [of pl_position] if_distrib [of pl_enabled] if_distrib [of pl_clauses]
      if_distrib [of pl_match_unknown] if_distrib [of "\<lambda>x. x = None"] del: if_split cong del: if_weak_cong)+

lemma flagged_update [simp]:
  "flagged (r\<lparr>pl_sources := a\<rparr>) = flagged r" "flagged (r\<lparr>pl_dests := a\<rparr>) = flagged r"
  "flagged (r\<lparr>pl_application := a, pl_service := b\<rparr>) = flagged r" "flagged (r\<lparr>pl_from := a\<rparr>) = flagged r"
  "flagged (r\<lparr>pl_to := a\<rparr>) = flagged r" "flagged (r\<lparr>pl_action := x\<rparr>) = flagged r"
  "flagged (r\<lparr>pl_enabled := e\<rparr>) = flagged r" "flagged (r\<lparr>pl_match_unknown := Some True\<rparr>)"
  by (simp_all add: flagged_def)

lemma flagged_clauses:
  assumes "pl_clauses r = Some c"
  shows "flagged (on_clauses f r) \<longleftrightarrow> pl_match_unknown r = Some True \<or> unresolved (f c)"
  using assms by (simp add: flagged_def)

lemma unresolved_update [simp]:
  "unresolved (c\<lparr>mc_source_excluded := b\<rparr>) = unresolved c" "unresolved (c\<lparr>mc_dest_excluded := b\<rparr>) = unresolved c"
  "unresolved (c\<lparr>mc_identity := xs @ [x]\<rparr>)" "unresolved (c\<lparr>mc_dynamic_application := xs @ [x]\<rparr>)"
  "unresolved (c\<lparr>mc_url_category := xs @ [x]\<rparr>)" "unresolved (c\<lparr>mc_end_user_profile := xs @ [x]\<rparr>)"
  "x \<noteq> [] \<Longrightarrow> unresolved (c\<lparr>mc_scheduler := x\<rparr>)"
  by (simp_all add: unresolved_def)

lemma apply_match_flagged:
  assumes c: "pl_clauses r = Some c"
  shows "flagged (apply_match args r) \<longleftrightarrow> flagged r \<or> \<not> understood (''match'' # args)"
proof -
  have f: "flagged r \<longleftrightarrow> pl_match_unknown r = Some True \<or> unresolved c" using c by (simp add: flagged_def)
  show ?thesis
  proof (cases args)
    case Nil
    then show ?thesis by (simp add: apply_match_def understood_def Let_def)
  next
    case (Cons kw vals)
    show ?thesis
    proof (cases vals)
      case Nil
      then show ?thesis using Cons
        by (simp add: apply_match_def understood_def Let_def f flagged_clauses [OF c])
    next
      case (Cons v vs)
      have "flagged (apply_match args r) \<longleftrightarrow> (if kw \<in> {''source-address-excluded'', ''destination-address-excluded'',
            ''source-address'', ''destination-address'', ''application'', ''from-zone'', ''to-zone''} then flagged r else True)"
        unfolding \<open>args = kw # vals\<close> Cons apply_match_def Let_def list.case if_distrib [of flagged]
          flagged_clauses [OF c] flagged_update unresolved_update f
        by simp
      then show ?thesis using \<open>args = kw # vals\<close> Cons by (simp add: understood_def)
    qed
  qed
qed

lemma apply_tokens_flagged:
  assumes "pl_clauses r = Some c" and "list_all is_word tokens"
  shows "flagged (apply_tokens tokens r) \<longleftrightarrow> flagged r \<or> \<not> understood tokens"
proof (cases tokens)
  case Nil
  then show ?thesis by (simp add: apply_tokens_def understood_def)
next
  case (Cons kw args)
  show ?thesis
  proof (cases "kw = ''match''")
    case True
    then show ?thesis using apply_match_flagged [OF assms(1)] Cons by (simp add: apply_tokens_def)
  next
    case False
    have "args \<noteq> [] \<Longrightarrow> hd args \<noteq> []" using assms(2) Cons by (cases args) (auto simp: is_word_def)
    then show ?thesis using assms(1) Cons False
      by (auto simp: apply_tokens_def understood_def flagged_def unresolved_def split: option.splits)
  qed
qed

lemma apply_match_values:
  "pl_sources (apply_match args r) = pl_sources r @ (case args of k # v # _ \<Rightarrow> if k = ''source-address'' then [v] else [] | _ \<Rightarrow> [])"
  "pl_dests (apply_match args r) = pl_dests r @ (case args of k # v # _ \<Rightarrow> if k = ''destination-address'' then [v] else [] | _ \<Rightarrow> [])"
  by (cases args; cases "tl args"; simp add: apply_match_def add_unparsed_def Let_def)+

lemma apply_line_values:
  "pl_sources (apply_line l r) = pl_sources r @ match_values ''source-address'' l"
  "pl_dests (apply_line l r) = pl_dests r @ match_values ''destination-address'' l"
  by (auto simp: apply_line_def apply_tokens_def match_values_def apply_match_values split: list.splits option.splits)

abbreviation run_lines :: "policy_line list \<Rightarrow> fw_rule \<Rightarrow> fw_rule" where
  "run_lines ls r \<equiv> foldl (\<lambda>r l. apply_line l r) r ls"

text \<open>The table after some lines: one rule per policy, made from the lines of that policy alone, in the order
  in which the policies appear.\<close>

lemma values_dset_same:
  "dict_ok d \<Longrightarrow> map_of d k = Some w \<Longrightarrow> f v = f w \<Longrightarrow> map f (dvalues (dset d k v)) = map f (dvalues d)"
proof (induction d)
  case (Cons p d)
  then show ?case by (cases "fst p = k") (auto simp: dict_ok_def split: if_splits)
qed simp

lemma values_dset_new: "map_of d k = None \<Longrightarrow> dvalues (dset d k v) = dvalues d @ [v]"
  by (induction d) (auto split: if_splits)

lemma length_dset: "length (dset d k v) = (if map_of d k = None then length d + 1 else length d)"
  by (induction d) auto

lemma map_of_map_values: "map_of (map (\<lambda>(k, v). (k, f k v)) d) k = map_option (f k) (map_of d k)"
  by (induction d) auto

lemma apply_line_frame:
  "pl_name (apply_line l r) = pl_name r" "pl_position (apply_line l r) = pl_position r"
  "pl_clauses (apply_line l r) = None \<longleftrightarrow> pl_clauses r = None"
  "pl_enabled (apply_line l r) \<longleftrightarrow> pl_enabled r \<and> \<not> ln_inactive l"
  "pl_match_unknown r \<noteq> None \<Longrightarrow> pl_match_unknown (apply_line l r) \<noteq> None"
  by (simp_all add: apply_line_def apply_tokens_frame del: not_None_eq)

lemma run_lines_frame:
  "pl_name (run_lines ls r) = pl_name r" "pl_position (run_lines ls r) = pl_position r"
  "pl_clauses (run_lines ls r) = None \<longleftrightarrow> pl_clauses r = None"
  "pl_match_unknown r \<noteq> None \<Longrightarrow> pl_match_unknown (run_lines ls r) \<noteq> None"
  by (induction ls arbitrary: r) (simp_all add: apply_line_frame del: not_None_eq)

lemma run_lines_values:
  "pl_sources (run_lines ls r) = pl_sources r @ concat (map (match_values ''source-address'') ls)"
  "pl_dests (run_lines ls r) = pl_dests r @ concat (map (match_values ''destination-address'') ls)"
  "pl_enabled (run_lines ls r) \<longleftrightarrow> pl_enabled r \<and> (\<forall>l \<in> set ls. \<not> ln_inactive l)"
  by (induction ls arbitrary: r) (auto simp: apply_line_values apply_line_frame)

lemma run_lines_flagged:
  assumes "pl_clauses r \<noteq> None" and "\<forall>l \<in> set ls. list_all is_word (ln_tokens l)"
  shows "flagged (run_lines ls r) \<longleftrightarrow> flagged r \<or> (\<exists>l \<in> set ls. \<not> understood (ln_tokens l))"
  using assms
proof (induction ls arbitrary: r)
  case (Cons l ls)
  let ?r = "if ln_inactive l then r\<lparr>pl_enabled := False\<rparr> else r"
  obtain c where "pl_clauses ?r = Some c" using Cons.prems(1) by auto
  from apply_tokens_flagged [OF this, of "ln_tokens l"]
  have "flagged (apply_line l r) \<longleftrightarrow> flagged r \<or> \<not> understood (ln_tokens l)"
    using Cons.prems(2) by (simp add: apply_line_def)
  moreover have "pl_clauses (apply_line l r) \<noteq> None"
    using Cons.prems(1) by (simp add: apply_line_frame del: not_None_eq)
  ultimately show ?case using Cons.IH [of "apply_line l r"] Cons.prems(2) by auto
qed simp

definition lines_of :: "junos_key \<Rightarrow> policy_line list \<Rightarrow> policy_line list" where
  "lines_of k ls = filter (\<lambda>l. ln_key l = k) ls"

definition table_inv :: "string \<Rightarrow> string \<Rightarrow> policy_line list \<Rightarrow> (junos_key, fw_rule) dict \<times> nat \<Rightarrow> bool" where
  "table_inv device now ls s \<longleftrightarrow>
     dict_ok (fst s) \<and> snd s = length (fst s) \<and> set (dkeys (fst s)) = ln_key ` set ls
     \<and> map pl_position (dvalues (fst s)) = [0 ..< length (fst s)]
     \<and> (\<forall>k r. map_of (fst s) k = Some r \<longrightarrow> (\<exists>i. r = run_lines (lines_of k ls) (first_rule device now k i)))"

lemma line_step_inv:
  assumes "table_inv device now ls s"
  shows "table_inv device now (ls @ [l]) (line_step device now s l)"
proof -
  obtain d n where s: "s = (d, n)" by (rule prod.exhaust)
  let ?k = "ln_key l"
  have inv: "dict_ok d" "n = length d" "set (dkeys d) = ln_key ` set ls" "map pl_position (dvalues d) = [0 ..< length d]"
    "\<And>k r. map_of d k = Some r \<Longrightarrow> \<exists>i. r = run_lines (lines_of k ls) (first_rule device now k i)"
    using assms unfolding table_inv_def s fst_conv snd_conv by blast+
  have other: "lines_of k (ls @ [l]) = lines_of k ls" if "k \<noteq> ?k" for k using that by (simp add: lines_of_def)
  have own: "lines_of ?k (ls @ [l]) = lines_of ?k ls @ [l]" by (simp add: lines_of_def)
  have pos: "pl_position (apply_line l r) = pl_position r" for r by (rule apply_line_frame)
  show ?thesis
  proof (cases "map_of d ?k")
    case (Some r)
    obtain i where i: "r = run_lines (lines_of ?k ls) (first_rule device now ?k i)" using inv(5) [OF Some] by blast
    have step: "line_step device now s l = (dset d ?k (apply_line l r), n)"
      using Some by (simp add: line_step_def s dget_or_def dhas_def Let_def)
    have len: "length (dset d ?k (apply_line l r)) = length d"
      using Some by (simp add: length_dset)
    have "map pl_position (dvalues (dset d ?k (apply_line l r))) = [0 ..< length d]"
      using values_dset_same [where f = pl_position, OF inv(1) Some pos] inv(4) by simp
    moreover have "\<exists>i. r' = run_lines (lines_of k (ls @ [l])) (first_rule device now k i)"
      if m: "map_of (dset d ?k (apply_line l r)) k = Some r'" for k r'
    proof (cases "k = ?k")
      case True
      have "r' = run_lines (lines_of k (ls @ [l])) (first_rule device now k i)"
        using m i own unfolding True by simp
      then show ?thesis by blast
    next
      case False
      then show ?thesis using m inv(5) other by simp
    qed
    moreover have "?k \<in> set (dkeys d)" using map_of_SomeD [OF Some] by force
    ultimately show ?thesis
      using inv len unfolding table_inv_def step by (auto simp: keys_dset)
  next
    case None
    have fresh: "lines_of ?k ls = []"
    proof -
      have "?k \<notin> ln_key ` set ls" using None inv(3) by (simp add: map_of_eq_None_iff)
      then show ?thesis unfolding lines_of_def filter_empty_conv by (metis image_eqI)
    qed
    have step: "line_step device now s l = (dset d ?k (apply_line l (first_rule device now ?k n)), n + 1)"
      using None by (simp add: line_step_def s dget_or_def dhas_def Let_def)
    let ?d = "dset d ?k (apply_line l (first_rule device now ?k n))"
    have vals: "dvalues ?d = dvalues d @ [apply_line l (first_rule device now ?k n)]"
      using None by (rule values_dset_new)
    then have len: "length ?d = length d + 1" by (metis length_map length_append_singleton Suc_eq_plus1)
    have "map pl_position (dvalues ?d) = [0 ..< length ?d]"
      unfolding vals len using inv(2,4) by (simp add: pos first_rule_def new_rule_def)
    moreover have "\<exists>i. r' = run_lines (lines_of k (ls @ [l])) (first_rule device now k i)"
      if m: "map_of ?d k = Some r'" for k r'
    proof (cases "k = ?k")
      case True
      have "r' = run_lines (lines_of k (ls @ [l])) (first_rule device now k n)"
        using m fresh own unfolding True by simp
      then show ?thesis by blast
    next
      case False
      then show ?thesis using m inv(5) other by simp
    qed
    ultimately show ?thesis
      using inv len unfolding table_inv_def step by (auto simp: keys_dset)
  qed
qed

lemma table_inv_fold: "table_inv device now ls (foldl (line_step device now) ([], 0) ls)"
proof (induction ls rule: rev_induct)
  case Nil
  show ?case by (simp add: table_inv_def)
next
  case (snoc l ls)
  then show ?case using line_step_inv by simp
qed

lemma policy_line_words: "l \<in> set (policy_lines tx) \<Longrightarrow> list_all is_word (ln_tokens l)"
proof -
  assume "l \<in> set (policy_lines tx)"
  then obtain raw where "read_line raw = Some l" by (auto simp: policy_lines_def split: option.splits)
  then obtain rest where "ln_tokens l = py_words rest"
    by (auto simp: read_line_def Let_def simp del: split_paired_Ex split: if_splits)
  then show ?thesis by (auto simp: list_all_iff dest: py_words_mem)
qed

lemma finish_rule_frame:
  "pl_name (finish_rule k r) = pl_name r" "pl_position (finish_rule k r) = pl_position r"
  "pl_sources (finish_rule k r) = pl_sources r" "pl_dests (finish_rule k r) = pl_dests r"
  "pl_enabled (finish_rule k r) = pl_enabled r"
  by (auto simp: finish_rule_def Let_def split: junos_key.splits)

lemma finish_rule_unknown:
  "pl_match_unknown r \<noteq> None \<Longrightarrow> pl_match_unknown (finish_rule k r) = Some (flagged r)"
  by (auto simp: finish_rule_def flagged_def Let_def split: junos_key.splits option.splits)

text \<open>C25: No match clause of a firewall rule is lost without a trace.  From any text the parser makes one rule
  per policy that has a line, numbered in the order of first appearance; the rule is flagged as not fully
  understood exactly when one of its lines is a clause the collector does not evaluate, so that a clause it
  drops never reads as a wildcard; it is enabled unless a line of it is inactive; and its addresses are
  those of its match lines, in their order.\<close>

theorem junos_clauses_fail_closed:
  "set (dkeys (policy_table tx device now)) = ln_key ` set (policy_lines tx)
   \<and> dict_ok (policy_table tx device now)
   \<and> map pl_position (parse_security_policies tx device now) = [0 ..< length (parse_security_policies tx device now)]
   \<and> (\<forall>k r. map_of (policy_table tx device now) k = Some r \<longrightarrow>
        pl_name r = key_name k
        \<and> pl_match_unknown r = Some (\<exists>l \<in> set (lines_of k (policy_lines tx)). \<not> understood (ln_tokens l))
        \<and> (pl_enabled r \<longleftrightarrow> (\<forall>l \<in> set (lines_of k (policy_lines tx)). \<not> ln_inactive l))
        \<and> pl_sources r = concat (map (match_values ''source-address'') (lines_of k (policy_lines tx)))
        \<and> pl_dests r = concat (map (match_values ''destination-address'') (lines_of k (policy_lines tx))))"
proof -
  let ?ls = "policy_lines tx"
  let ?s = "foldl (line_step device now) ([], 0) ?ls"
  have inv: "dict_ok (fst ?s)" "set (dkeys (fst ?s)) = ln_key ` set ?ls"
    "map pl_position (dvalues (fst ?s)) = [0 ..< length (fst ?s)]"
    "\<And>k r. map_of (fst ?s) k = Some r \<Longrightarrow> \<exists>i. r = run_lines (lines_of k ?ls) (first_rule device now k i)"
    using table_inv_fold [of device now ?ls] unfolding table_inv_def by blast+
  have keys: "dkeys (policy_table tx device now) = dkeys (fst ?s)"
    by (simp add: policy_table_def case_prod_beta comp_def)
  have pos: "map pl_position (parse_security_policies tx device now) = map pl_position (dvalues (fst ?s))"
    by (simp add: parse_security_policies_def policy_table_def case_prod_beta comp_def finish_rule_frame)
  have len: "length (parse_security_policies tx device now) = length (fst ?s)"
    by (simp add: parse_security_policies_def policy_table_def)
  have look: "map_of (policy_table tx device now) k = map_option (finish_rule k) (map_of (fst ?s) k)" for k
    unfolding policy_table_def by (rule map_of_map_values)
  have rule: "pl_name r = key_name k
        \<and> pl_match_unknown r = Some (\<exists>l \<in> set (lines_of k ?ls). \<not> understood (ln_tokens l))
        \<and> (pl_enabled r \<longleftrightarrow> (\<forall>l \<in> set (lines_of k ?ls). \<not> ln_inactive l))
        \<and> pl_sources r = concat (map (match_values ''source-address'') (lines_of k ?ls))
        \<and> pl_dests r = concat (map (match_values ''destination-address'') (lines_of k ?ls))"
    if m: "map_of (policy_table tx device now) k = Some r" for k r
  proof -
    obtain r0 i where r: "r = finish_rule k r0" and r0: "r0 = run_lines (lines_of k ?ls) (first_rule device now k i)"
      using m inv(4) [of k] unfolding look by auto
    let ?f = "first_rule device now k i"
    have f: "pl_name ?f = key_name k" "pl_clauses ?f \<noteq> None" "pl_match_unknown ?f \<noteq> None" "\<not> flagged ?f" "pl_enabled ?f"
        "pl_sources ?f = []" "pl_dests ?f = []"
      by (simp_all add: first_rule_def new_rule_def flagged_def no_clauses_def unresolved_def)
    have "list_all is_word (ln_tokens l)" if "l \<in> set (lines_of k ?ls)" for l
      using that policy_line_words [of l tx] by (simp add: lines_of_def)
    then have "flagged r0 \<longleftrightarrow> (\<exists>l \<in> set (lines_of k ?ls). \<not> understood (ln_tokens l))"
      using run_lines_flagged [of ?f "lines_of k ?ls"] f unfolding r0 by blast
    then show ?thesis
      using f run_lines_frame(1) [of ?f "lines_of k ?ls"] run_lines_frame(4) [OF f(3), of "lines_of k ?ls"]
        run_lines_values [of ?f "lines_of k ?ls"]
      unfolding r finish_rule_frame by (simp add: finish_rule_unknown flip: r0)
  qed
  have "dict_ok (policy_table tx device now)" using inv(1) by (simp add: dict_ok_def keys)
  then show ?thesis using rule inv(2,3) unfolding keys pos len by blast
qed

section \<open>Address books\<close>

text \<open>\<open>ipaddress.ip_network(s, strict=False)\<close>: whether it accepts the text.\<close>

definition ipv4_value :: "string \<Rightarrow> nat" where
  "ipv4_value s = foldl (\<lambda>n o'. n * 256 + nat_of_digits o') 0 (split_on CHR ''.'' s)"

definition digits_at_most :: "nat \<Rightarrow> string \<Rightarrow> bool" where
  "digits_at_most n s \<longleftrightarrow> s \<noteq> [] \<and> list_all is_digit s \<and> nat_of_digits s \<le> n"

definition ipv4_mask_ok :: "string \<Rightarrow> bool" where
  "ipv4_mask_ok m \<longleftrightarrow> digits_at_most 32 m
     \<or> ipv4_ok m \<and> list_ex (\<lambda>k. ipv4_value m = 2 ^ 32 - 2 ^ k \<or> ipv4_value m = 2 ^ k - 1) [0 ..< 33]"

definition is_network :: "string \<Rightarrow> bool" where
  "is_network s =
     (case split_on CHR ''/'' s of
        [a] \<Rightarrow> ipv4_ok a \<or> ipv6_ok a
      | [a, m] \<Rightarrow> ipv4_ok a \<and> ipv4_mask_ok m \<or> ipv6_ok a \<and> digits_at_most 128 m
      | _ \<Rightarrow> False)"

datatype address =
    UnknownAddress string \<comment> \<open>the reason\<close>
  | AddressRange string string
  | WildcardAddress string
  | AddressValue string

record address_book =
  ab_addresses :: "(string, address) dict"
  ab_sets :: "(string, string list) dict"
  ab_zones :: "string list"

definition empty_book :: address_book where
  "empty_book = \<lparr>ab_addresses = [], ab_sets = [], ab_zones = []\<rparr>"

definition set_address :: "string \<Rightarrow> address \<Rightarrow> address_book \<Rightarrow> address_book" where
  "set_address name a b = b\<lparr>ab_addresses := dset (ab_addresses b) name a\<rparr>"

definition apply_address :: "string \<Rightarrow> string list \<Rightarrow> address_book \<Rightarrow> address_book" where
  "apply_address name rest b =
     (let kw = hd rest in
      if kw = ''dns-name'' then set_address name (UnknownAddress ''dns-name'') b
      else if kw = ''range-address'' \<and> length rest \<ge> 3 \<and> rest ! 2 = ''to'' then
        set_address name (AddressRange (rest ! 1) (if length rest > 3 then rest ! 3 else [])) b
      else if kw = ''wildcard-address'' \<and> length rest \<ge> 2 then set_address name (WildcardAddress (rest ! 1)) b
      else if kw = ''description'' then b
      else set_address name (if is_network kw then AddressValue kw else UnknownAddress ''unparsed'') b)"

definition add_member :: "(string, string list) dict \<Rightarrow> string \<Rightarrow> string list \<Rightarrow> string \<Rightarrow> string \<Rightarrow> (string, string list) dict" where
  "add_member sets name kinds kind member =
     (let entry = dget_or sets name [] in dset sets name (if kind \<in> set kinds then entry @ [member] else entry))"

definition apply_address_tokens :: "address_book \<Rightarrow> string list \<Rightarrow> address_book" where
  "apply_address_tokens b tokens =
     (if take 1 tokens = [''address''] \<and> length tokens \<ge> 3 then apply_address (tokens ! 1) (drop 2 tokens) b
      else if take 1 tokens = [''address-set''] \<and> length tokens \<ge> 4 then
        b\<lparr>ab_sets := add_member (ab_sets b) (tokens ! 1) [''address'', ''address-set''] (tokens ! 2) (tokens ! 3)\<rparr>
      else if take 2 tokens = [''attach'', ''zone''] \<and> length tokens \<ge> 3 then b\<lparr>ab_zones := ab_zones b @ [tokens ! 2]\<rparr>
      else b)"

definition ADDR_BOOK_RE :: "rx list" where
  "ADDR_BOOK_RE = [Lit ''security address-book '', Word, Lit '' '', Rest]"

definition ZONE_ADDR_BOOK_RE :: "rx list" where
  "ZONE_ADDR_BOOK_RE = [Lit ''security zones security-zone '', Word, Lit '' address-book '', Rest]"

definition set_line :: "string \<Rightarrow> string option" where
  "set_line raw = after_prefix ''set '' (strip raw)"

definition book_line :: "string \<Rightarrow> (string \<times> string list) option" where
  "book_line raw =
     (case set_line raw of None \<Rightarrow> None
      | Some line \<Rightarrow>
          (case rx_match ZONE_ADDR_BOOK_RE line of
             Some [zone, rest] \<Rightarrow> Some (''zone:'' @ zone, py_words rest)
           | _ \<Rightarrow> (case rx_match ADDR_BOOK_RE line of Some [book, rest] \<Rightarrow> Some (book, py_words rest) | _ \<Rightarrow> None)))"

definition book_step :: "(string, address_book) dict \<Rightarrow> string \<Rightarrow> (string, address_book) dict" where
  "book_step books raw =
     (case book_line raw of None \<Rightarrow> books
      | Some (name, tokens) \<Rightarrow> dset books name (apply_address_tokens (dget_or books name empty_book) tokens))"

definition parse_address_book :: "string \<Rightarrow> (string, address_book) dict" where
  "parse_address_book tx = foldl book_step [] (splitlines tx)"

section \<open>Applications\<close>

definition APPLICATIONS_RE :: "rx list" where "APPLICATIONS_RE = [Lit ''applications '', Rest]"
definition GROUP_APPLICATIONS_RE :: "rx list" where
  "GROUP_APPLICATIONS_RE = [Lit ''groups junos-defaults applications '', Rest]"

definition ALLOWED_APPLICATION_FIELDS :: "string list" where
  "ALLOWED_APPLICATION_FIELDS = [''protocol'', ''destination-port'', ''source-port'', ''inactivity-timeout'']"

type_synonym app_catalog = "(string, attrs) dict \<times> (string, string list) dict"

definition unknown_app :: "string \<Rightarrow> attrs" where
  "unknown_app reason = [(''kind'', ''unknown''), (''reason'', reason)]"

definition apply_application_tokens :: "app_catalog \<Rightarrow> string list \<Rightarrow> app_catalog" where
  "apply_application_tokens c tokens =
     (if take 1 tokens = [''application''] \<and> length tokens \<ge> 3 then
        (let name = tokens ! 1; field = tokens ! 2; entry = dget_or (fst c) name [(''kind'', ''application'')] in
         if map_of entry ''kind'' = Some ''unknown'' then (dset (fst c) name entry, snd c)
         else if field = ''term'' then (dset (fst c) name (unknown_app ''multi-term''), snd c)
         else if field \<notin> set ALLOWED_APPLICATION_FIELDS then (dset (fst c) name (unknown_app ''unrecognized-field''), snd c)
         else (dset (fst c) name (dset entry (replace_char CHR ''-'' ''_'' field) (if length tokens > 3 then tokens ! 3 else [])), snd c))
      else if take 1 tokens = [''application-set''] \<and> length tokens \<ge> 4 then
        (fst c, add_member (snd c) (tokens ! 1) [''application'', ''application-set''] (tokens ! 2) (tokens ! 3))
      else c)"

definition parse_catalog :: "rx list \<Rightarrow> string \<Rightarrow> app_catalog" where
  "parse_catalog pat tx =
     foldl (\<lambda>c raw. case set_line raw of None \<Rightarrow> c
         | Some line \<Rightarrow> (case rx_match pat line of Some [rest] \<Rightarrow> apply_application_tokens c (py_words rest) | _ \<Rightarrow> c))
       ([], []) (splitlines tx)"

definition parse_applications :: "string \<Rightarrow> app_catalog" where
  "parse_applications tx = parse_catalog APPLICATIONS_RE tx"

definition parse_predefined_applications :: "string \<Rightarrow> app_catalog" where
  "parse_predefined_applications tx = parse_catalog GROUP_APPLICATIONS_RE tx"

section \<open>Collecting\<close>

definition POLICIES_CMD :: string where "POLICIES_CMD = ''show configuration security policies | display set''"
definition HITCOUNT_CMD :: string where "HITCOUNT_CMD = ''show security policies hit-count''"
definition BOOK_CMDS :: "string list" where
  "BOOK_CMDS = [''show configuration security address-book | display set'',
     ''show configuration security zones | display set'', ''show configuration applications | display set'',
     ''show configuration groups junos-defaults applications | display set'']"

definition add_hits :: "string \<Rightarrow> (string, nat) dict \<Rightarrow> fw_rule \<Rightarrow> fw_rule" where
  "add_hits now counts r =
     (case map_of counts (pl_name r) of None \<Rightarrow> r
      | Some n \<Rightarrow> r\<lparr>pl_extras := dset (dset (pl_extras r) ''hit_count'' (PStr (show_nat n))) ''hit_count_collected_at'' (PStr now)\<rparr>)"

definition collect_device :: "(string \<Rightarrow> string \<Rightarrow> string + string) \<Rightarrow> string \<Rightarrow> string \<Rightarrow> fw_rule list" where
  "collect_device call now dev =
     (case call dev POLICIES_CMD of
        Inl exc \<Rightarrow> []
      | Inr tx \<Rightarrow>
          (case call dev HITCOUNT_CMD of
             Inl exc \<Rightarrow> parse_security_policies tx dev now
           | Inr hc \<Rightarrow> map (add_hits now (parse_hit_counts hc)) (parse_security_policies tx dev now)))"

definition junos_collect :: "(string \<Rightarrow> string \<Rightarrow> string + string) \<Rightarrow> string \<Rightarrow> string list \<Rightarrow> fw_rule list" where
  "junos_collect call now devices = concat (map (collect_device call now) devices)"

definition texts_val :: "string list \<Rightarrow> pyval" where
  "texts_val xs = PList (map PStr xs)"

fun address_val :: "address \<Rightarrow> pyval" where
  "address_val (UnknownAddress r) = PDict [(''kind'', PStr ''unknown''), (''reason'', PStr r)]"
| "address_val (AddressRange a b) = PDict [(''kind'', PStr ''range''), (''low'', PStr a), (''high'', PStr b)]"
| "address_val (WildcardAddress v) = PDict [(''kind'', PStr ''wildcard''), (''value'', PStr v)]"
| "address_val (AddressValue v) = PDict [(''kind'', PStr ''address''), (''value'', PStr v)]"

definition sets_val :: "(string, string list) dict \<Rightarrow> pyval" where
  "sets_val d = PDict (map (\<lambda>(k, ms). (k, PDict [(''members'', texts_val ms)])) d)"

definition book_val :: "address_book \<Rightarrow> pyval" where
  "book_val b = PDict [(''addresses'', PDict (map (\<lambda>(k, a). (k, address_val a)) (ab_addresses b))),
     (''address_sets'', sets_val (ab_sets b)), (''attached_zones'', texts_val (ab_zones b))]"

definition apps_val :: "(string, attrs) dict \<Rightarrow> pyval" where
  "apps_val d = PDict (map (\<lambda>(k, a). (k, text_map a)) d)"

definition junos_object_book :: "string \<Rightarrow> string \<Rightarrow> string \<Rightarrow> string \<Rightarrow> pyval" where
  "junos_object_book addr zones app predefined =
     (let a = parse_applications app; p = parse_predefined_applications predefined in
      PDict [(''address_books'', PDict (map (\<lambda>(k, b). (k, book_val b)) (parse_address_book (addr @ [CHR 0x0A] @ zones)))),
        (''applications'', apps_val (fst a)), (''application_sets'', sets_val (snd a)),
        (''predefined_applications'', apps_val (fst p)), (''predefined_application_sets'', sets_val (snd p))])"

definition collect_book :: "(string \<Rightarrow> string \<Rightarrow> string + string) \<Rightarrow> string \<Rightarrow> string \<Rightarrow> object_item list" where
  "collect_book call now dev =
     (case map (call dev) BOOK_CMDS of
        [Inr addr, Inr zones, Inr app, Inr predefined] \<Rightarrow>
          [\<lparr>oi_provider = JUNIPER, oi_device = dev, oi_at = now, oi_book = junos_object_book addr zones app predefined\<rparr>]
      | _ \<Rightarrow> [])"

definition junos_collect_objects :: "(string \<Rightarrow> string \<Rightarrow> string + string) \<Rightarrow> string \<Rightarrow> string list \<Rightarrow> object_item list" where
  "junos_collect_objects call now devices = concat (map (collect_book call now) devices)"

section \<open>What the parsers guarantee\<close>

text \<open>A name stored as an address is one that parses as an address or a network.\<close>

definition book_valid :: "address_book \<Rightarrow> bool" where
  "book_valid b \<longleftrightarrow> (\<forall>n v. map_of (ab_addresses b) n = Some (AddressValue v) \<longrightarrow> is_network v)"

lemma set_address_valid:
  assumes "book_valid b"
  shows "book_valid (set_address name (UnknownAddress r) b)" "book_valid (set_address name (AddressRange x y) b)"
    "book_valid (set_address name (WildcardAddress w) b)"
    "book_valid (set_address name (if is_network v then AddressValue v else UnknownAddress r) b)"
  using assms by (simp_all add: book_valid_def set_address_def)

lemma apply_address_valid: "book_valid b \<Longrightarrow> book_valid (apply_address name rest b)"
  unfolding apply_address_def Let_def if_distrib [of book_valid] by (simp only: set_address_valid if_cancel)

lemma book_valid_other: "book_valid (b\<lparr>ab_sets := x\<rparr>) = book_valid b" "book_valid (b\<lparr>ab_zones := y\<rparr>) = book_valid b"
  by (simp_all add: book_valid_def)

lemma apply_address_tokens_valid: "book_valid b \<Longrightarrow> book_valid (apply_address_tokens b tokens)"
  unfolding apply_address_tokens_def if_distrib [of book_valid] by (simp only: apply_address_valid book_valid_other if_cancel)

lemma book_step_valid:
  assumes "\<forall>name b. map_of books name = Some b \<longrightarrow> book_valid b"
  shows "\<forall>name b. map_of (book_step books raw) name = Some b \<longrightarrow> book_valid b"
proof (cases "book_line raw")
  case None
  then show ?thesis using assms by (simp add: book_step_def)
next
  case (Some p)
  obtain name tokens where p: "p = (name, tokens)" by (rule prod.exhaust)
  have "book_valid (dget_or books name empty_book)"
    using assms by (cases "map_of books name") (auto simp: dget_or_def empty_book_def book_valid_def)
  from apply_address_tokens_valid [OF this] show ?thesis using assms by (simp add: book_step_def Some p)
qed

lemma parse_address_book_valid: "map_of (parse_address_book tx) name = Some b \<Longrightarrow> book_valid b"
proof -
  have "\<forall>name b. map_of (foldl book_step [] ls) name = Some b \<longrightarrow> book_valid b" for ls
  proof (induction ls rule: rev_induct)
    case (snoc l ls)
    from book_step_valid [OF snoc.IH] show ?case by simp
  qed simp
  then show "map_of (parse_address_book tx) name = Some b \<Longrightarrow> book_valid b"
    unfolding parse_address_book_def by blast
qed

text \<open>An application that one line flags as unknown stays so, whatever follows.\<close>

lemma unknown_app_stays:
  assumes "map_of (fst c) name = Some a" and "map_of a ''kind'' = Some ''unknown''"
  shows "map_of (fst (apply_application_tokens c tokens)) name = Some a"
  using assms by (auto simp: apply_application_tokens_def dget_or_def Let_def)

text \<open>The lines the device prints for a policy in a zone pair.\<close>

definition show_policy_line :: "bool \<Rightarrow> string \<Rightarrow> string \<Rightarrow> string \<Rightarrow> string list \<Rightarrow> string" where
  "show_policy_line inactive f t n tokens =
     (if inactive then ''inactive: '' else []) @ ''set security policies from-zone '' @ f @ '' to-zone '' @ t
       @ '' policy '' @ n @ '' '' @ join '' '' tokens"

lemma strip_trimmed:
  assumes "s \<noteq> []" and "\<not> is_space (hd s)" and "\<not> is_space (last s)"
  shows "strip s = s"
proof -
  have "dropWhile is_space s = s" using assms(1,2) by (cases s) auto
  moreover have "dropWhile is_space (rev s) = rev s" using assms(1,3) by (cases s rule: rev_cases) auto
  ultimately show ?thesis by (simp add: strip_def)
qed

lemma last_word: "list_all is_word tokens \<Longrightarrow> tokens \<noteq> [] \<Longrightarrow> join '' '' tokens \<noteq> [] \<and> \<not> is_space (last (join '' '' tokens))"
  by (induction "'' ''" tokens rule: join.induct) (auto simp: is_word_def list_all_iff)

lemma join_words_no_newline: "list_all is_word tokens \<Longrightarrow> CHR 0x0A \<notin> set (join '' '' tokens)"
proof (induction "'' ''" tokens rule: join.induct)
  case (3 x y ys)
  then show ?case by (auto simp: is_word_def list_all_iff is_space_def)
qed (auto simp: is_word_def list_all_iff is_space_def)

lemma rx_lit: "rx_match (Lit p # r) (p @ s) = rx_match r s"
  by simp

lemma rx_word_lit:
  "is_word w \<Longrightarrow> rx_match (Word # Lit (CHR '' '' # p) # r) (w @ (CHR '' '' # p) @ s) = map_option (Cons w) (rx_match r s)"
  using rx_match_word [of w "Lit (CHR '' '' # p) # r" "p @ s"] by (simp del: rx_match_word)

lemma rx_search_skip: "rx_match p (c # cs) = None \<Longrightarrow> rx_search p (c # cs) = rx_search p cs"
  by simp

lemma rx_search_here: "rx_match p s = Some g \<Longrightarrow> rx_search p s = Some g"
  by (cases s) simp_all

lemma policy_key_line:
  assumes "is_word f" and "is_word t" and "is_word n" and "CHR 0x0A \<notin> set rest"
  shows "policy_key (''set security policies from-zone '' @ f @ '' to-zone '' @ t @ '' policy '' @ n @ '' '' @ rest)
    = Some (ZonePair f t n, rest)"
proof -
  let ?line = "''security policies from-zone '' @ f @ '' to-zone '' @ t @ '' policy '' @ n @ '' '' @ rest"
  have "rx_match ZONE_RE ?line = Some [f, t, n, rest]"
    unfolding ZONE_RE_def
    by (simp only: rx_lit rx_word_lit [OF assms(1)] rx_word_lit [OF assms(2)] rx_word_lit [OF assms(3)]
        rx_match_rest [OF assms(4)] option.map)
  note here = rx_search_here [OF this]
  have "rx_match ZONE_RE (c # s) = None" if "c \<noteq> CHR ''s''" for c s
    using that by (simp add: ZONE_RE_def)
  moreover have "rx_match ZONE_RE (''set '' @ s) = None" for s
    by (simp add: ZONE_RE_def)
  ultimately have "rx_search ZONE_RE (''set '' @ ?line) = rx_search ZONE_RE ?line"
    by (simp add: rx_search_skip del: rx_search.simps)
  moreover have "''set security policies from-zone '' @ s = ''set '' @ ''security policies from-zone '' @ s" for s
    by simp
  ultimately show ?thesis unfolding policy_key_def by (simp only: here) simp
qed

text \<open>C26: Reading a printed line gives back what it says.  A policy line of a zone pair, printed as the device
  prints it, active or inactive, is read as the key, the state and the words it was printed from, whatever
  the names of the zones and of the policy are.\<close>

theorem policy_line_roundtrip:
  assumes "is_word f" and "is_word t" and "is_word n" and "list_all is_word tokens" and "tokens \<noteq> []"
  shows "read_line (show_policy_line inactive f t n tokens)
    = Some \<lparr>ln_key = ZonePair f t n, ln_inactive = inactive, ln_tokens = tokens\<rparr>"
proof -
  let ?body = "''set security policies from-zone '' @ f @ '' to-zone '' @ t @ '' policy '' @ n @ '' '' @ join '' '' tokens"
  note w = last_word [OF assms(4,5)]
  have last: "last ?body = last (join '' '' tokens)" using w by simp
  have body: "strip ?body = ?body" by (rule strip_trimmed) (use w last in \<open>simp_all add: is_space_def\<close>)
  have key: "policy_key ?body = Some (ZonePair f t n, join '' '' tokens)"
    by (rule policy_key_line [OF assms(1,2,3) join_words_no_newline [OF assms(4)]])
  show ?thesis
  proof (cases inactive)
    case True
    have all: "strip (''inactive: '' @ ?body) = ''inactive: '' @ ?body"
      by (rule strip_trimmed) (use w last in \<open>simp_all add: is_space_def\<close>)
    have "strip (drop 9 (''inactive: '' @ ?body)) = ?body"
      using body by (simp add: strip_def)
    then show ?thesis using True key py_words_join [OF assms(4)]
      unfolding read_line_def show_policy_line_def by (simp only: all if_True) (simp add: startswith_def)
  next
    case False
    then show ?thesis using key py_words_join [OF assms(4)]
      unfolding read_line_def show_policy_line_def by (simp only: body if_False append_Nil) (simp add: startswith_def)
  qed
qed

lemma policy_line_roundtrip_witness:
  "read_line (show_policy_line True ''trust'' ''untrust'' ''P1'' [''then'', ''deny''])
     = Some \<lparr>ln_key = ZonePair ''trust'' ''untrust'' ''P1'', ln_inactive = True, ln_tokens = [''then'', ''deny'']\<rparr>"
  by (rule policy_line_roundtrip) code_simp+

definition sample_config :: string where
  "sample_config = concat (map (\<lambda>l. l @ [CHR 0x0A])
     [show_policy_line False ''trust'' ''untrust'' ''P1'' [''match'', ''source-address'', ''web''],
      show_policy_line False ''trust'' ''untrust'' ''P1'' [''match'', ''geo-ip'', ''x'']])"

lemma junos_clauses_fail_closed_witness:
  "\<exists>r. map_of (policy_table sample_config ''fw1'' ''now'') (ZonePair ''trust'' ''untrust'' ''P1'') = Some r
     \<and> pl_match_unknown r = Some True \<and> pl_sources r = [''web'']"
proof -
  let ?k = "ZonePair ''trust'' ''untrust'' ''P1''"
  have "map_of (policy_table sample_config ''fw1'' ''now'') ?k \<noteq> None"
    "list_ex (\<lambda>l. \<not> understood (ln_tokens l)) (lines_of ?k (policy_lines sample_config))"
    "concat (map (match_values ''source-address'') (lines_of ?k (policy_lines sample_config))) = [''web'']"
    by code_simp+
  moreover from this(1) obtain r where r: "map_of (policy_table sample_config ''fw1'' ''now'') ?k = Some r" by blast
  ultimately show ?thesis
    using junos_clauses_fail_closed [of sample_config "''fw1''" "''now''"] by (auto simp: list_ex_iff)
qed

end
