(* ===== verification/Common.thy ===== *)
theory Common
  imports PyJson
begin

text \<open>
  The library that every service shares (\<open>services/common/src/ssdf_common\<close>): the envelopes of the vendors'
  MCP servers (\<open>mcp_envelope.py\<close>, \<open>mcp_client.py\<close>), the configuration helpers (\<open>config.py\<close>,
  \<open>clickhouse.py\<close>) and the runner of the collectors (\<open>collectors.py\<close>).
\<close>

section \<open>Values\<close>

text \<open>\<open>v or d\<close>, and the loop \<open>for x in xs: out.extend(f(x))\<close> that ends at the first exception.\<close>

definition or_falsy :: "pyval option \<Rightarrow> pyval \<Rightarrow> pyval" where
  "or_falsy v d = (case v of None \<Rightarrow> d | Some x \<Rightarrow> if py_truthy x then x else d)"

fun concat_sum :: "('x \<Rightarrow> 'e + 'a list) \<Rightarrow> 'x list \<Rightarrow> 'e + 'a list" where
  "concat_sum f [] = Inr []"
| "concat_sum f (x # xs) = bind_sum (f x) (\<lambda>a. bind_sum (concat_sum f xs) (\<lambda>b. Inr (a @ b)))"

section \<open>Envelopes\<close>

text \<open>\<open>mcp_envelope.py\<close>.  A text that is no JSON, or is JSON but no object, has no envelope.\<close>

definition envelope :: "string \<Rightarrow> (string, pyval) dict option" where
  "envelope tx = (case json_loads tx of Some (PDict d) \<Rightarrow> Some d | _ \<Rightarrow> None)"

definition unwrap_object :: "(string, pyval) dict \<Rightarrow> string option" where
  "unwrap_object d =
     (case map_of d ''output'' of
        Some (PDict inner) \<Rightarrow>
          (case map_of inner ''content'' of
             Some (PStr s) \<Rightarrow> Some s
           | _ \<Rightarrow> (case map_of d ''result'' of Some (PStr s) \<Rightarrow> Some s | _ \<Rightarrow> None))
      | Some (PStr s) \<Rightarrow> Some s
      | _ \<Rightarrow> (case map_of d ''result'' of Some (PStr s) \<Rightarrow> Some s | _ \<Rightarrow> None))"

definition unwrap_mcp_text :: "string \<Rightarrow> string" where
  "unwrap_mcp_text tx =
     (let stripped = strip tx in
      case json_loads stripped of
        Some (PStr s) \<Rightarrow> s
      | Some (PDict d) \<Rightarrow> (case unwrap_object d of Some s \<Rightarrow> s | None \<Rightarrow> stripped)
      | _ \<Rightarrow> stripped)"

definition envelope_truncated :: "string \<Rightarrow> bool" where
  "envelope_truncated tx =
     (case envelope tx of
        None \<Rightarrow> False
      | Some d \<Rightarrow>
          (case map_of d ''output'' of
             Some (PDict inner) \<Rightarrow> py_truthy (dget_or inner ''truncated'' (PBool False))
           | _ \<Rightarrow> py_truthy (dget_or d ''truncated'' (PBool False))))"

text \<open>\<open>extract_text\<close> of \<open>mcp_client.py\<close>: the structured content if there is one that is not empty, else
  the texts of the content blocks.\<close>

record tool_result =
  tr_structured :: pyval
  tr_blocks :: "string list"

definition extract_text :: "tool_result \<Rightarrow> string" where
  "extract_text r =
     (if py_truthy (tr_structured r) then json_dumps json_default (tr_structured r)
      else join [CHR 0x0A] (filter (\<lambda>b. b \<noteq> []) (tr_blocks r)))"

section \<open>Configuration\<close>

datatype config_error = ConfigError string

text \<open>\<open>Secret\<close>: printing it never shows the value.\<close>

datatype secret = Secret (secret_get: string)

definition secret_repr :: "secret \<Rightarrow> string" where
  "secret_repr s = ''Secret('' @ [CHR 0x27] @ ''***'' @ [CHR 0x27] @ '')''"

definition secret_str :: "secret \<Rightarrow> string" where
  "secret_str s = ''***''"

definition secret_bool :: "secret \<Rightarrow> bool" where
  "secret_bool s \<longleftrightarrow> secret_get s \<noteq> []"

definition secret_eq :: "secret \<Rightarrow> secret \<Rightarrow> bool" where
  "secret_eq a b \<longleftrightarrow> secret_get a = secret_get b"

definition LOOPBACK_HOSTS :: "string list" where
  "LOOPBACK_HOSTS = [''127.0.0.1'', ''localhost'', ''::1'']"

definition require_tls_or_loopback :: "string \<Rightarrow> bool \<Rightarrow> config_error + unit" where
  "require_tls_or_loopback host secure =
     (if secure then Inr ()
      else if lower (strip host) \<in> set LOOPBACK_HOSTS then Inr ()
      else Inl (ConfigError (''refusing a plaintext ClickHouse connection to non-loopback host '' @ repr_str host
        @ '': set ch_secure=True (CH_SECURE=1) or connect to 127.0.0.1/localhost/::1'')))"

definition truth_text :: "string \<Rightarrow> bool" where
  "truth_text s \<longleftrightarrow> lower (strip s) \<in> {''1'', ''true''}"

definition env_bool :: "attrs \<Rightarrow> string \<Rightarrow> bool \<Rightarrow> bool" where
  "env_bool env name default_value =
     (case map_of env name of None \<Rightarrow> default_value | Some v \<Rightarrow> truth_text v)"

record mcp_endpoint =
  ep_url :: string
  ep_token :: string

definition upper_char :: "char \<Rightarrow> char" where
  "upper_char c = (let n = (of_char c :: nat) in if 97 \<le> n \<and> n \<le> 122 then char_of (n - 32) else c)"

definition load_mcp_endpoint :: "attrs \<Rightarrow> string \<Rightarrow> config_error + mcp_endpoint" where
  "load_mcp_endpoint env name =
     (let pre = map upper_char name; url = dget_or env (pre @ ''_MCP_URL'') [] in
      if url = [] then Inl (ConfigError (''missing '' @ pre @ ''_MCP_URL for endpoint '' @ [CHR 0x27] @ name @ [CHR 0x27]))
      else Inr \<lparr>ep_url = url, ep_token = dget_or env (pre @ ''_MCP_TOKEN'') []\<rparr>)"

text \<open>The arguments of \<open>clickhouse_connect.get_client\<close>.\<close>

record ch_settings =
  cs_host :: string
  cs_port :: int
  cs_user :: string
  cs_password :: secret
  cs_database :: string
  cs_secure :: bool
  cs_ca_file :: string

definition client_kwargs ::
  "string \<Rightarrow> int \<Rightarrow> string \<Rightarrow> string \<Rightarrow> string \<Rightarrow> bool \<Rightarrow> string \<Rightarrow> config_error + (string, pyval) dict" where
  "client_kwargs host port user password database secure ca_file =
     bind_sum (require_tls_or_loopback host secure) (\<lambda>_.
       Inr ([(''host'', PStr host), (''port'', PInt port), (''username'', PStr user), (''password'', PStr password),
             (''database'', PStr database)]
            @ (if secure then (''interface'', PStr ''https'') # (if ca_file \<noteq> [] then [(''ca_cert'', PStr ca_file)] else [])
               else [])))"

definition client_kwargs_from_config :: "ch_settings \<Rightarrow> config_error + (string, pyval) dict" where
  "client_kwargs_from_config c =
     client_kwargs (cs_host c) (cs_port c) (cs_user c) (secret_get (cs_password c)) (cs_database c) (cs_secure c) (cs_ca_file c)"

section \<open>Running the collectors\<close>

text \<open>\<open>collectors.py\<close>.  \<open>collect\<close> is the construction of a collector and of its client and the collection
  itself, \<open>Inl\<close> the exception of any of them; \<open>ins\<close> is the insertion method of the writer.\<close>

definition register :: "(string, 'c) dict \<Rightarrow> string \<Rightarrow> 'c \<Rightarrow> (string, 'c) dict" where
  "register registry name cls = dset registry name cls"

definition get_collector :: "(string, 'c) dict \<Rightarrow> string \<Rightarrow> string + 'c" where
  "get_collector registry name =
     (case map_of registry name of None \<Rightarrow> Inl (''unknown collector: '' @ name) | Some cls \<Rightarrow> Inr cls)"

fun run_collectors ::
  "('i list \<Rightarrow> 'db \<Rightarrow> (string + nat) \<times> 'db) \<Rightarrow> (string \<Rightarrow> string + 'i list) \<Rightarrow> string list \<Rightarrow> nat \<Rightarrow> 'db \<Rightarrow> nat \<times> 'db" where
  "run_collectors ins collect [] acc db = (acc, db)"
| "run_collectors ins collect (name # names) acc db =
     (case collect name of
        Inl exc \<Rightarrow> run_collectors ins collect names acc db
      | Inr items \<Rightarrow>
          (case ins items db of
             (Inl exc, db') \<Rightarrow> run_collectors ins collect names acc db'
           | (Inr n, db') \<Rightarrow> run_collectors ins collect names (acc + n) db'))"

section \<open>What the helpers guarantee\<close>

text \<open>The shapes of an envelope that carry a payload.\<close>

datatype envelope_shape = Nested bool | Flat_output | Legacy_result | Bare

fun wrap_mcp :: "envelope_shape \<Rightarrow> string \<Rightarrow> pyval" where
  "wrap_mcp (Nested short) s = PDict [(''output'', PDict [(''content'', PStr s), (''truncated'', PBool short)])]"
| "wrap_mcp Flat_output s = PDict [(''output'', PStr s)]"
| "wrap_mcp Legacy_result s = PDict [(''result'', PStr s)]"
| "wrap_mcp Bare s = PStr s"

lemma wrap_plain:
  assumes "str_plain f s"
  shows "plain f (wrap_mcp shape s)"
  using assms by (cases shape) (auto simp: str_plain_def dict_ok_def)

lemma strip_closed:
  assumes "s = c # cs" and "\<not> is_space c" and "s = ds @ [d]" and "\<not> is_space d"
  shows "strip s = s"
proof -
  have "dropWhile is_space s = s" using assms(1,2) by simp
  moreover have "dropWhile is_space (rev s) = rev s" using assms(3,4) by simp
  ultimately show ?thesis by (simp add: strip_def)
qed

lemma strip_wrapped: "strip (json_dumps f (wrap_mcp shape s)) = json_dumps f (wrap_mcp shape s)"
proof (cases "shape = Bare")
  case True
  show ?thesis
    by (rule strip_closed [of _ quote_c _ "butlast (json_dumps f (wrap_mcp shape s))" quote_c])
      (auto simp: True json_string_def is_space_def butlast_append)
next
  case False
  then obtain es where v: "wrap_mcp shape s = PDict es" by (cases shape) auto
  show ?thesis unfolding v json_dumps_dict
    by (rule strip_closed [of _ "CHR ''{''" _ "''{'' @ join (item_sep f) (map (dump_member f) es)" "CHR ''}''"])
      (auto simp: is_space_def)
qed

text \<open>The unwrapper finds the payload in every shape of envelope that the vendor servers have used.  A
  payload that a server wraps in the nested envelope, in a plain \<open>output\<close>, in the old flat \<open>result\<close> or in a
  bare JSON string comes out as it went in, whatever it contains; and only an envelope that says that it
  was cut short counts as truncated.\<close>

theorem envelope_roundtrip:
  assumes "fmt_ok f" and "str_plain f s"
  shows "unwrap_mcp_text (json_dumps f (wrap_mcp shape s)) = s
    \<and> (envelope_truncated (json_dumps f (wrap_mcp shape s)) \<longleftrightarrow> shape = Nested True)"
proof
  note rt = json_roundtrip [OF assms(1) wrap_plain [OF assms(2), of shape]]
  show "unwrap_mcp_text (json_dumps f (wrap_mcp shape s)) = s"
    unfolding unwrap_mcp_text_def Let_def strip_wrapped rt by (cases shape) (simp_all add: unwrap_object_def)
  show "envelope_truncated (json_dumps f (wrap_mcp shape s)) \<longleftrightarrow> shape = Nested True"
    unfolding envelope_truncated_def envelope_def rt by (cases shape) (simp_all add: dget_or_def)
qed

lemma envelope_roundtrip_witness:
  "unwrap_mcp_text (json_dumps json_default (wrap_mcp (Nested True) ''<rules/>'')) = ''<rules/>''
   \<and> envelope_truncated (json_dumps json_default (wrap_mcp (Nested True) ''<rules/>''))"
proof -
  have p: "str_plain json_default ''<rules/>''" by code_simp
  show ?thesis using envelope_roundtrip [OF fmt_ok_used(1) p, of "Nested True"] by blast
qed

text \<open>A password is only ever handed to a connection that is encrypted or stays on the machine.\<close>

lemma client_kwargs_safe:
  assumes "client_kwargs_from_config c = Inr kw"
  shows "map_of kw ''interface'' = Some (PStr ''https'') \<or> lower (strip (cs_host c)) \<in> set LOOPBACK_HOSTS"
  using assms by (auto simp: client_kwargs_from_config_def client_kwargs_def require_tls_or_loopback_def split: if_splits)

lemma client_kwargs_total:
  "cs_secure c \<or> lower (strip (cs_host c)) \<in> set LOOPBACK_HOSTS \<longleftrightarrow> (\<exists>kw. client_kwargs_from_config c = Inr kw)"
  by (auto simp: client_kwargs_from_config_def client_kwargs_def require_tls_or_loopback_def split: if_splits)

text \<open>A failing collector changes nothing for the others.\<close>

definition answers :: "(string \<Rightarrow> string + 'i list) \<Rightarrow> string \<Rightarrow> bool" where
  "answers collect name \<longleftrightarrow> \<not> isl (collect name)"

lemma run_collectors_isolated:
  "run_collectors ins collect names acc db = run_collectors ins collect (filter (answers collect) names) acc db"
proof (induction names arbitrary: acc db)
  case (Cons name names)
  then show ?case
    by (cases "collect name") (auto simp: answers_def split: prod.splits sum.splits)
qed simp

lemma run_collectors_total:
  assumes "\<And>items db. ins items db = (Inr (length items), store items db)"
  shows "run_collectors ins collect names acc db
    = (acc + length (concat (map (\<lambda>n. case collect n of Inl e \<Rightarrow> [] | Inr items \<Rightarrow> items) names)),
       foldl (\<lambda>db n. case collect n of Inl e \<Rightarrow> db | Inr items \<Rightarrow> store items db) db names)"
  by (induction names arbitrary: acc db) (auto simp: assms split: sum.splits)

end
