(* ===== verification/Xml.thy ===== *)
theory Xml
  imports Prelude
begin

text \<open>
  XML elements as \<open>xml.etree.ElementTree\<close> presents them to the PAN-OS collectors: tag, attributes, text and
  children, and the search for children, descendants and paths.
\<close>

datatype xml = Elem (x_tag: string) (x_attrs: attrs) (x_text: "string option") (x_children: "xml list")

text \<open>\<open>iter()\<close>, \<open>findall(tag)\<close>, \<open>find(tag)\<close> and the paths \<open>.//t1/t2/...\<close> of ElementTree.\<close>

fun xml_iter :: "xml \<Rightarrow> xml list" where
  "xml_iter (Elem t a x cs) = Elem t a x cs # concat (map xml_iter cs)"

definition tagged :: "string \<Rightarrow> xml list \<Rightarrow> xml list" where
  "tagged t es = filter (\<lambda>e. x_tag e = t) es"

definition findall :: "xml \<Rightarrow> string \<Rightarrow> xml list" where
  "findall e t = tagged t (x_children e)"

definition first_of :: "'a list \<Rightarrow> 'a option" where
  "first_of xs = (case xs of [] \<Rightarrow> None | x # _ \<Rightarrow> Some x)"

definition find_child :: "xml \<Rightarrow> string \<Rightarrow> xml option" where
  "find_child e t = first_of (findall e t)"

definition descendants :: "xml \<Rightarrow> xml list" where
  "descendants e = concat (map xml_iter (x_children e))"

fun path_elems :: "xml list \<Rightarrow> string list \<Rightarrow> xml list" where
  "path_elems es [] = es"
| "path_elems es (t # ts) = path_elems (concat (map (\<lambda>e. findall e t) es)) ts"

fun find_below :: "xml \<Rightarrow> string list \<Rightarrow> xml option" where
  "find_below e [] = None"
| "find_below e (t # ts) = first_of (path_elems (tagged t (descendants e)) ts)"

definition x_get :: "xml \<Rightarrow> string \<Rightarrow> string" where
  "x_get e k = dget_or (x_attrs e) k []"

text \<open>The stripped text of a child, empty when there is none.\<close>

definition child_text :: "xml \<Rightarrow> string \<Rightarrow> string" where
  "child_text e t = (case find_child e t of None \<Rightarrow> [] | Some c \<Rightarrow> (case x_text c of None \<Rightarrow> [] | Some s \<Rightarrow> strip s))"

end
