(* ===== verification/PanosPolicy.thy ===== *)
theory PanosPolicy
  imports JunosPolicy Common Xml
begin

text \<open>
  The PAN-OS policy collector (\<open>ssdf_policy/collectors/panos.py\<close>): the security rulebase, the hit counters
  and the object book, read from XML.  The XML parser is the parameter \<open>parse\<close> (\<open>None\<close> when it refuses the
  text), the MCP server is the parameter \<open>call\<close>, \<open>Inl\<close> when a call raises.
\<close>

definition xml_root :: "(string \<Rightarrow> xml option) \<Rightarrow> string \<Rightarrow> xml option" where
  "xml_root parse tx = parse (unwrap_mcp_text tx)"

text \<open>\<open>_members\<close>\<close>

definition members :: "xml \<Rightarrow> string \<Rightarrow> string list" where
  "members e t =
     (case find_child e t of
        None \<Rightarrow> []
      | Some c \<Rightarrow>
          filter (\<lambda>s. s \<noteq> [])
            (map (\<lambda>m. case x_text m of None \<Rightarrow> [] | Some s \<Rightarrow> strip s) (findall c ''member'')))"

section \<open>Security rules\<close>

definition PALOALTO :: string where "PALOALTO = ''paloalto''"

definition RULES_XPATH :: string where
  "RULES_XPATH = ''/config/devices/entry/vsys/entry[@name='' @ [CHR 0x27] @ ''vsys1'' @ [CHR 0x27] @ '']/rulebase/security''"

definition rule_entries :: "xml \<Rightarrow> xml list" where
  "rule_entries e =
     (case (case find_below e [''rulebase'', ''security'', ''rules''] of
              Some r \<Rightarrow> Some r
            | None \<Rightarrow>
                (if x_tag e = ''rules'' then Some e
                 else case find_below e [''security'', ''rules''] of
                     Some r \<Rightarrow> Some r
                   | None \<Rightarrow> find_below e [''rules''])) of
        None \<Rightarrow> []
      | Some r \<Rightarrow> findall r ''entry'')"

definition restricts :: "string list \<Rightarrow> bool" where
  "restricts ms \<longleftrightarrow> ms \<noteq> [] \<and> ms \<noteq> [''any'']"

text \<open>A rule of the collector: besides the keys that every rule has, four that no one reads later.\<close>

record panos_rule = fw_rule +
  pn_source_user :: "string list"
  pn_url_category :: "string list"
  pn_source_hip :: "string list"
  pn_destination_hip :: "string list"

definition panos_rule_of :: "string \<Rightarrow> string \<Rightarrow> nat \<Rightarrow> xml \<Rightarrow> panos_rule" where
  "panos_rule_of device_name now position e =
     (let user = members e ''source-user''; category = members e ''category'';
          shp = members e ''source-hip''; dhp = members e ''destination-hip''; schedule = child_text e ''schedule'' in
      \<lparr>pl_provider = PALOALTO, pl_device = device_name, pl_name = strip (x_get e ''name''), pl_action = child_text e ''action'',
       pl_from = members e ''from'', pl_to = members e ''to'', pl_sources = members e ''source'',
       pl_dests = members e ''destination'', pl_application = members e ''application'', pl_service = members e ''service'',
       pl_position = position, pl_enabled = (lower (child_text e ''disabled'') \<noteq> ''yes''),
       pl_extras = [(''panw.panos.uuid'', PStr (x_get e ''uuid''))], pl_at = now,
       pl_match_unknown = Some (schedule \<noteq> [] \<or> restricts user \<or> restricts category \<or> restricts shp \<or> restricts dhp),
       pl_clauses = None,
       pl_negation = Some \<lparr>ng_source = (lower (child_text e ''negate-source'') = ''yes''),
                           ng_destination = (lower (child_text e ''negate-destination'') = ''yes''), ng_schedule = schedule\<rparr>,
       pn_source_user = user, pn_url_category = category, pn_source_hip = shp, pn_destination_hip = dhp\<rparr>)"

definition panos_security_rules :: "(string \<Rightarrow> xml option) \<Rightarrow> string \<Rightarrow> string \<Rightarrow> string \<Rightarrow> panos_rule list" where
  "panos_security_rules parse tx device_name now =
     (case xml_root parse tx of
        None \<Rightarrow> []
      | Some e \<Rightarrow> map (\<lambda>(i, r). panos_rule_of device_name now i r)
                     (filter (\<lambda>(i, r). strip (x_get r ''name'') \<noteq> []) (enumerate 0 (rule_entries e))))"

section \<open>Hit counters\<close>

definition hit_entry :: "xml \<Rightarrow> (string \<times> int) option" where
  "hit_entry e =
     (case find_child e ''hit-count'' of
        None \<Rightarrow> None
      | Some h \<Rightarrow>
          (case x_text h of
             None \<Rightarrow> None
           | Some s \<Rightarrow>
               (let name = strip (x_get e ''name'') in
                if name = [] then None else map_option (Pair name) (py_int (strip s)))))"

definition hit_entries :: "xml \<Rightarrow> (string \<times> int) list" where
  "hit_entries e = concat (map (\<lambda>x. case hit_entry x of None \<Rightarrow> [] | Some r \<Rightarrow> [r]) (tagged ''entry'' (xml_iter e)))"

definition parse_rule_hit_counts :: "(string \<Rightarrow> xml option) \<Rightarrow> string \<Rightarrow> (string, int) dict" where
  "parse_rule_hit_counts parse tx =
     (case xml_root parse tx of None \<Rightarrow> [] | Some e \<Rightarrow> unambiguous_counts (hit_entries e))"

definition HITCOUNT_OP_COMMAND :: string where
  "HITCOUNT_OP_COMMAND =
     (let q = [CHR 0x27] in
      ''<show><rule-hit-count><vsys><entry name='' @ q @ ''vsys1'' @ q @ ''><rule-base>'' @
      ''<entry name='' @ q @ ''security'' @ q @ ''><rules><all/></rules></entry>'' @
      ''</rule-base></entry></vsys></rule-hit-count></show>'')"

section \<open>Objects\<close>

definition object_xpath :: "string \<Rightarrow> string" where
  "object_xpath kind = ''/config/devices/entry/vsys/entry[@name='' @ [CHR 0x27] @ ''vsys1'' @ [CHR 0x27] @ '']/'' @ kind"

definition object_entries :: "xml \<Rightarrow> xml list" where
  "object_entries e =
     (if x_tag e = ''entry'' then [e]
      else if findall e ''entry'' \<noteq> [] then findall e ''entry''
      else (case first_of (filter (\<lambda>es. es \<noteq> []) (map (\<lambda>c. findall c ''entry'') (x_children e))) of
              None \<Rightarrow> [] | Some es \<Rightarrow> es))"

definition named_objects :: "(xml \<Rightarrow> pyval) \<Rightarrow> xml \<Rightarrow> (string, pyval) dict" where
  "named_objects f e =
     foldl (\<lambda>d x. let name = strip (x_get x ''name'') in if name = [] then d else dset d name (f x)) [] (object_entries e)"

definition tagged_val :: "string \<Rightarrow> string \<Rightarrow> string \<Rightarrow> pyval" where
  "tagged_val kind field v = PDict [(''kind'', PStr kind), (field, PStr v)]"

definition address_object :: "xml \<Rightarrow> pyval" where
  "address_object e =
     (if child_text e ''ip-netmask'' \<noteq> [] then tagged_val ''ip-netmask'' ''value'' (child_text e ''ip-netmask'')
      else if child_text e ''ip-range'' \<noteq> [] then tagged_val ''ip-range'' ''value'' (child_text e ''ip-range'')
      else if child_text e ''ip-wildcard'' \<noteq> [] then tagged_val ''ip-wildcard'' ''value'' (child_text e ''ip-wildcard'')
      else if child_text e ''fqdn'' \<noteq> [] then tagged_val ''unknown'' ''reason'' ''fqdn''
      else tagged_val ''unknown'' ''reason'' ''unrecognized-address-type'')"

definition address_group :: "xml \<Rightarrow> pyval" where
  "address_group e =
     (if find_child e ''dynamic'' \<noteq> None then tagged_val ''unknown'' ''reason'' ''dynamic-address-group''
      else PDict [(''kind'', PStr ''static''), (''members'', texts_val (members e ''static''))])"

definition service_protocol :: "xml \<Rightarrow> (string, pyval) dict" where
  "service_protocol e =
     (case find_child e ''protocol'' of
        None \<Rightarrow> []
      | Some p \<Rightarrow>
          (case first_of (filter (\<lambda>x. snd x \<noteq> None) (map (\<lambda>t. (t, find_child p t)) [''tcp'', ''udp''])) of
             Some (t, Some x) \<Rightarrow>
               [(''protocol'', PStr t), (''port'', PStr (child_text x ''port'')), (''source_port'', PStr (child_text x ''source-port''))]
           | _ \<Rightarrow> []))"

definition service_object :: "xml \<Rightarrow> pyval" where
  "service_object e =
     (if service_protocol e \<noteq> [] then PDict (service_protocol e) else tagged_val ''unknown'' ''reason'' ''unrecognized-protocol'')"

definition service_group :: "xml \<Rightarrow> pyval" where
  "service_group e = PDict [(''members'', texts_val (members e ''members''))]"

definition schedule_object :: "xml \<Rightarrow> pyval" where
  "schedule_object e = PDict []"

definition parse_objects :: "(string \<Rightarrow> xml option) \<Rightarrow> (xml \<Rightarrow> pyval) \<Rightarrow> string \<Rightarrow> pyval" where
  "parse_objects parse f tx =
     (case xml_root parse tx of None \<Rightarrow> PDict [] | Some e \<Rightarrow> PDict (named_objects f e))"

section \<open>Collecting\<close>

type_synonym panos_server = "string \<Rightarrow> (string, string) dict \<Rightarrow> string + string"

definition add_panos_hits :: "string \<Rightarrow> (string, int) dict \<Rightarrow> panos_rule \<Rightarrow> panos_rule" where
  "add_panos_hits now counts r =
     (case map_of counts (pl_name r) of None \<Rightarrow> r
      | Some n \<Rightarrow> r\<lparr>pl_extras := dset (dset (pl_extras r) ''hit_count'' (PStr (show_int n))) ''hit_count_collected_at'' (PStr now)\<rparr>)"

definition panos_collect :: "(string \<Rightarrow> xml option) \<Rightarrow> panos_server \<Rightarrow> string \<Rightarrow> string \<Rightarrow> string + panos_rule list" where
  "panos_collect parse call now device =
     bind_sum (call ''get_panos_config'' [(''device'', device), (''xpath'', RULES_XPATH)]) (\<lambda>tx.
       if envelope_truncated tx then Inl ''RuntimeError''
       else
         (let rules = panos_security_rules parse tx device now in
          Inr (case call ''execute_panos_op'' [(''device'', device), (''command'', HITCOUNT_OP_COMMAND)] of
                 Inl exc \<Rightarrow> rules
               | Inr hc \<Rightarrow> map (add_panos_hits now (parse_rule_hit_counts parse hc)) rules)))"

definition FETCHES :: "(string \<times> string \<times> (xml \<Rightarrow> pyval)) list" where
  "FETCHES =
     [(''addresses'', ''address'', address_object), (''address_groups'', ''address-group'', address_group),
      (''services'', ''service'', service_object), (''service_groups'', ''service-group'', service_group),
      (''schedules'', ''schedule'', schedule_object)]"

fun fetch_objects ::
  "(string \<Rightarrow> xml option) \<Rightarrow> panos_server \<Rightarrow> string \<Rightarrow> (string \<times> string \<times> (xml \<Rightarrow> pyval)) list \<Rightarrow> (string, pyval) dict
     \<Rightarrow> (string, pyval) dict option" where
  "fetch_objects parse call device [] book = Some book"
| "fetch_objects parse call device ((key, kind, f) # fs) book =
     (case call ''get_panos_config'' [(''device'', device), (''xpath'', object_xpath kind)] of
        Inl exc \<Rightarrow> None
      | Inr tx \<Rightarrow>
          (if envelope_truncated tx then None
           else if xml_root parse tx = None then None
           else fetch_objects parse call device fs (dset book key (parse_objects parse f tx))))"

definition panos_collect_objects :: "(string \<Rightarrow> xml option) \<Rightarrow> panos_server \<Rightarrow> string \<Rightarrow> string \<Rightarrow> object_item list" where
  "panos_collect_objects parse call now device =
     (case fetch_objects parse call device FETCHES [] of
        None \<Rightarrow> []
      | Some book \<Rightarrow> [\<lparr>oi_provider = PALOALTO, oi_device = device, oi_at = now, oi_book = PDict book\<rparr>])"

text \<open>The collector as the resolver sees it.\<close>

definition panos_source :: "(string \<Rightarrow> xml option) \<Rightarrow> panos_server \<Rightarrow> string \<Rightarrow> string \<Rightarrow> pol_source" where
  "panos_source parse call now device =
     \<lparr>so_rules = (case panos_collect parse call now device of Inl exc \<Rightarrow> Inl exc | Inr rs \<Rightarrow> Inr (map fw_rule.truncate rs)),
      so_objects = Some (Inr (panos_collect_objects parse call now device))\<rparr>"

definition junos_source :: "(string \<Rightarrow> string \<Rightarrow> string + string) \<Rightarrow> string \<Rightarrow> string list \<Rightarrow> pol_source" where
  "junos_source call now devices =
     \<lparr>so_rules = Inr (junos_collect call now devices), so_objects = Some (Inr (junos_collect_objects call now devices))\<rparr>"

section \<open>Counters, objects\<close>

text \<open>As for Junos, a counter belongs to the one entry that names the rule, or it is not reported.\<close>

lemma panos_counts_unambiguous:
  assumes "xml_root parse tx = Some e"
  shows "map_of (parse_rule_hit_counts parse tx) name = Some n \<longleftrightarrow> filter (\<lambda>r. fst r = name) (hit_entries e) = [(name, n)]"
proof -
  obtain d amb where s: "foldl count_step ([], []) (hit_entries e) = (d, amb)" by (rule prod.exhaust)
  from count_fold [OF this] s assms show ?thesis by (simp add: parse_rule_hit_counts_def unambiguous_counts_def)
qed

text \<open>What one of the five fetches delivers: \<open>None\<close> when it raises, is cut short or is no XML.\<close>

definition fetched :: "(string \<Rightarrow> xml option) \<Rightarrow> panos_server \<Rightarrow> string \<Rightarrow> string \<Rightarrow> xml option" where
  "fetched parse call device kind =
     (case call ''get_panos_config'' [(''device'', device), (''xpath'', object_xpath kind)] of
        Inl exc \<Rightarrow> None | Inr tx \<Rightarrow> if envelope_truncated tx then None else xml_root parse tx)"

lemma fetch_objects_spec:
  "fetch_objects parse call device fs book =
     (if list_all (\<lambda>(key, kind, f). fetched parse call device kind \<noteq> None) fs
      then Some (foldl (\<lambda>b (key, kind, f). dset b key (PDict (named_objects f (the (fetched parse call device kind))))) book fs)
      else None)"
proof (induction fs arbitrary: book)
  case (Cons fetch fs)
  obtain key kind f where fetch: "fetch = (key, kind, f)" by (rule prod_cases3)
  show ?case
    unfolding fetch by (auto simp: Cons.IH fetched_def parse_objects_def split: sum.splits option.splits if_splits)
qed simp

text \<open>An object book is complete or there is none.  If all five fetches of a device deliver XML that was
  not cut short, the collector reports one book with the objects of all five containers, empty ones included;
  if any of them raises, is truncated or does not parse, it reports nothing, and so the book recorded before
  stays the latest.\<close>

theorem panos_book_all_or_nothing:
  "panos_collect_objects parse call now device =
     (case (fetched parse call device ''address'', fetched parse call device ''address-group'',
            fetched parse call device ''service'', fetched parse call device ''service-group'',
            fetched parse call device ''schedule'') of
        (Some a, Some ag, Some s, Some sg, Some sch) \<Rightarrow>
          [\<lparr>oi_provider = PALOALTO, oi_device = device, oi_at = now,
            oi_book = PDict [(''addresses'', PDict (named_objects address_object a)),
              (''address_groups'', PDict (named_objects address_group ag)), (''services'', PDict (named_objects service_object s)),
              (''service_groups'', PDict (named_objects service_group sg)), (''schedules'', PDict (named_objects schedule_object sch))]\<rparr>]
      | _ \<Rightarrow> [])"
  by (simp add: panos_collect_objects_def fetch_objects_spec FETCHES_def split: option.splits)

section \<open>The collectors and the resolver\<close>

lemma resolve_rules_None:
  "r \<in> set rs \<Longrightarrow> rule_attrs r = None \<Longrightarrow> resolve_rules H tenant rs g = None"
proof (induction rs arbitrary: g)
  case (Cons x rs)
  show ?case
  proof (cases "x = r")
    case True
    then show ?thesis using Cons.prems(2) by (simp add: resolve_rule_def split: option.splits)
  next
    case False
    then show ?thesis using Cons by (simp split: option.splits)
  qed
qed simp

lemma panos_rule_attrs:
  assumes "panos_collect parse call now device = Inr rs" and "r \<in> set rs"
  shows "rule_attrs (fw_rule.truncate r) = None"
proof -
  have "pl_match_unknown r \<noteq> None \<and> pl_clauses r = None"
    using assms
    by (auto simp: panos_collect_def bind_sum_def panos_security_rules_def panos_rule_of_def add_panos_hits_def Let_def
        split: sum.splits if_splits option.splits)
  then show ?thesis by (auto simp: rule_attrs_def fw_rule.truncate_def)
qed

text \<open>C27: One PAN-OS rule stops the whole run.  The PAN-OS collector delivers its rules with the key
  \<open>match_unknown\<close> but without the Junos clauses that the resolver then reads, so a run in which the PAN-OS
  collector delivers any rule at all ends with a \<open>KeyError\<close> before anything is written, and the rules of
  every other vendor are lost with it.\<close>

theorem panos_rules_stop_the_run:
  assumes "name \<in> set enabled" and "src name = panos_source parse call now device"
    and "panos_collect parse call now device = Inr rs" and "rs \<noteq> []"
  shows "run_resolver_once H c versioned src enabled tenant db = (Inl ''KeyError'', db)"
proof -
  obtain r where r: "r \<in> set rs" using assms(4) by (cases rs) auto
  have "fw_rule.truncate r \<in> set (rules_from src name)"
    using assms(2,3) r by (simp add: rules_from_def panos_source_def)
  then have "fw_rule.truncate r \<in> set (fst (collect_all src enabled))"
    unfolding collect_all_rules using assms(1) by auto
  from resolve_rules_None [OF this panos_rule_attrs [OF assms(3) r]]
  have "resolve_policies H tenant (fst (collect_all src enabled)) = None" by (simp add: resolve_policies_def)
  then show ?thesis by (simp add: run_resolver_once_def case_prod_beta)
qed

definition sample_rulebase :: xml where
  "sample_rulebase = Elem ''rules'' [] None [Elem ''entry'' [(''name'', ''allow-web'')] None [Elem ''action'' [] (Some ''allow'') []]]"

definition sample_panos :: panos_server where
  "sample_panos tool args = Inr ''<rules/>''"

lemma panos_rules_stop_the_run_witness:
  "run_resolver_once id mem_store_client True (\<lambda>n. panos_source (\<lambda>tx. Some sample_rulebase) sample_panos ''now'' ''fw1'')
     [''panos''] ''t'' [] = (Inl ''KeyError'', [])"
proof -
  let ?c = "panos_collect (\<lambda>tx. Some sample_rulebase) sample_panos ''now'' ''fw1''"
  have "(case ?c of Inl e \<Rightarrow> False | Inr rs \<Rightarrow> rs \<noteq> [])" by code_simp
  then obtain rs where rs: "?c = Inr rs" "rs \<noteq> []" by (cases ?c) auto
  show ?thesis by (rule panos_rules_stop_the_run [where name = "''panos''", OF _ _ rs]) simp_all
qed

definition complete_keys :: "fw_rule \<Rightarrow> bool" where
  "complete_keys r \<longleftrightarrow> pl_match_unknown r \<noteq> None \<and> pl_clauses r \<noteq> None"

lemma complete_rule_attrs: "complete_keys r \<Longrightarrow> rule_attrs r \<noteq> None"
  by (auto simp: complete_keys_def rule_attrs_def)

lemma apply_line_complete: "complete_keys r \<Longrightarrow> complete_keys (apply_line l r)"
  using apply_tokens_frame(4,5) [where tokens = "ln_tokens l"] by (auto simp: complete_keys_def apply_line_def)

lemma finish_rule_complete: "complete_keys r \<Longrightarrow> complete_keys (finish_rule k r)"
  by (auto simp: complete_keys_def finish_rule_def Let_def split: junos_key.splits)

lemma dget_complete:
  "list_all complete_keys (dvalues d) \<Longrightarrow> complete_keys (dget_or d k (first_rule device now key i))"
  by (induction d) (auto simp: dget_or_def complete_keys_def first_rule_def new_rule_def)

lemma dvalues_dset: "set (dvalues (dset d k v)) \<subseteq> insert v (set (dvalues d))"
  using set_dset_subset [where d = d and k = k and v = v] by auto

lemma line_step_complete:
  "list_all complete_keys (dvalues (fst s)) \<Longrightarrow> list_all complete_keys (dvalues (fst (line_step device now s l)))"
  using dvalues_dset [where d = "fst s" and k = "ln_key l" and v = "apply_line l (dget_or (fst s) (ln_key l) (first_rule device now (ln_key l) (snd s)))"]
    apply_line_complete [OF dget_complete [of "fst s" "ln_key l" device now "ln_key l" "snd s"], of l]
  unfolding line_step_def Let_def fst_conv list_all_iff by blast

lemma junos_rules_complete: "r \<in> set (parse_security_policies tx device now) \<Longrightarrow> complete_keys r"
proof -
  have "list_all complete_keys (dvalues (fst (foldl (line_step device now) ([], 0) ls)))" for ls
    by (induction ls rule: rev_induct) (simp_all add: line_step_complete)
  from this [of "policy_lines tx"] show "r \<in> set (parse_security_policies tx device now) \<Longrightarrow> complete_keys r"
    by (auto simp: parse_security_policies_def policy_table_def list_all_iff intro!: finish_rule_complete)
qed

lemma add_hits_complete: "complete_keys r \<Longrightarrow> complete_keys (add_hits now counts r)"
  by (simp add: add_hits_def complete_keys_def split: option.splits)

lemma collect_device_complete: "r \<in> set (collect_device call now dev) \<Longrightarrow> complete_keys r"
  unfolding collect_device_def
  by (cases "call dev POLICIES_CMD"; cases "call dev HITCOUNT_CMD") (auto intro: junos_rules_complete add_hits_complete)

lemma junos_collect_complete: "r \<in> set (junos_collect call now devices) \<Longrightarrow> complete_keys r"
  by (auto simp: junos_collect_def intro: collect_device_complete)

lemma those_not_None: "(\<And>x. x \<in> set xs \<Longrightarrow> f x \<noteq> None) \<Longrightarrow> those (map f xs) \<noteq> None"
  using those_map_id [of xs f "\<lambda>x. the (f x)"] by fastforce

lemma pol_rows_total:
  "pol_rows POL_ENTITY_COLUMNS (map pol_entity_dict ents) \<noteq> None" "pol_rows POL_EDGE_COLUMNS (map pol_edge_dict es) \<noteq> None"
proof -
  have "row_of POL_ENTITY_COLUMNS (pol_entity_dict e) \<noteq> None" "row_of POL_EDGE_COLUMNS (pol_edge_dict g) \<noteq> None" for e g
    by (simp_all add: row_of_def POL_ENTITY_COLUMNS_def pol_entity_dict_def POL_EDGE_COLUMNS_def pol_edge_dict_def)
  then show "pol_rows POL_ENTITY_COLUMNS (map pol_entity_dict ents) \<noteq> None" "pol_rows POL_EDGE_COLUMNS (map pol_edge_dict es) \<noteq> None"
    unfolding pol_rows_def by (auto simp: those_not_None simp del: not_None_eq)
qed

lemma insert_dicts_total:
  assumes "\<And>table rows cols db. fst (pc_insert c table rows cols db) = None" and "pol_rows cols ds \<noteq> None"
  shows "fst (insert_dicts c table cols ds db) = Inr (length ds)"
  using assms(1) [of table "the (pol_rows cols ds)" cols db] assms(2)
  by (auto simp: insert_dicts_def split: prod.splits option.splits)

text \<open>A run over Junos devices always gets as far as the writer.  Whatever the devices answer, even if
  calls fail or lines make no sense, the rules that the Junos collectors deliver resolve as long as ids do
  not collide, and if the database takes the rows, the run reports how many entities and edges it wrote.\<close>

theorem junos_runs_finish:
  assumes "\<And>name. name \<in> set enabled \<Longrightarrow> src name = junos_source (call name) now (devices name)"
    and "ids_apart H tenant (concat (map (rules_from src) enabled))"
    and "\<And>table rows cols db. fst (pc_insert c table rows cols db) = None"
  shows "\<exists>ents es db'. resolve_policies H tenant (concat (map (rules_from src) enabled)) = Some (ents, es)
    \<and> run_resolver_once H c versioned src enabled tenant db = (Inr (length ents, length es), db')"
proof -
  let ?rules = "concat (map (rules_from src) enabled)"
  have "rule_attrs r \<noteq> None" if "r \<in> set ?rules" for r
    using that assms(1) junos_collect_complete complete_rule_attrs by (fastforce simp: rules_from_def junos_source_def)
  then have "\<exists>g. resolve_policies H tenant ?rules = Some g"
    using resolve_rules_inv [of H tenant "[]" "([], [])" ?rules] assms(2)
    by (auto simp: graph_inv_def resolve_policies_def)
  then obtain ents es where res: "resolve_policies H tenant ?rules = Some (ents, es)" by auto
  have "fst (pol_replace_entities c ents d) = Inr (length ents)" "fst (pol_replace_edges c es d) = Inr (length es)" for d
    using insert_dicts_total [OF assms(3)] pol_rows_total by (simp_all add: pol_replace_entities_def pol_replace_edges_def)
  then have "fst (run_resolver_once H c versioned src enabled tenant db) = Inr (length ents, length es)"
    by (auto simp: run_resolver_once_def case_prod_beta collect_all_rules res Let_def split: prod.splits sum.splits)
  then show ?thesis using res by (metis prod.collapse)
qed

definition sample_junos :: "string \<Rightarrow> string \<Rightarrow> string + string" where
  "sample_junos dev cmd = (if cmd = POLICIES_CMD then Inr sample_config else Inl ''TimeoutError'')"

lemma mem_insert_ok: "fst (pc_insert mem_store_client table rows cols db) = None"
  by (simp add: mem_store_client_def)

lemma junos_runs_finish_witness:
  "\<exists>ents es db'. run_resolver_once id mem_store_client False (\<lambda>n. junos_source sample_junos ''now'' [''fw1'']) [''junos''] ''t'' []
     = (Inr (length ents, length es), db')
   \<and> resolve_policies id ''t'' (junos_collect sample_junos ''now'' [''fw1'']) = Some (ents, es)"
proof -
  let ?src = "\<lambda>n::string. junos_source sample_junos ''now'' [''fw1'']"
  have rules: "concat (map (rules_from ?src) [''junos'']) = junos_collect sample_junos ''now'' [''fw1'']"
    by (simp add: rules_from_def junos_source_def)
  have "ids_apart id ''t'' (junos_collect sample_junos ''now'' [''fw1''])" by code_simp
  from junos_runs_finish [of "[''junos'']" ?src "\<lambda>n. sample_junos" "''now''" "\<lambda>n. [''fw1'']" id "''t''",
      unfolded rules, OF refl this mem_insert_ok, of False "[]"]
  show ?thesis by blast
qed

end
