(* ===== verification/Regex.thy ===== *)
theory Regex
  imports PyText
begin

text \<open>
  Regular expressions with backtracking, as Python's \<open>re\<close> runs them: the matches of a pattern at a position
  are listed in the order in which they are tried, and \<open>match\<close> and \<open>search\<close> answer the first.
\<close>

datatype rxi =
    Text string \<comment> \<open>the characters themselves\<close>
  | Text_i string \<comment> \<open>the characters in either case\<close>
  | Many "char \<Rightarrow> bool" nat "nat option" bool \<comment> \<open>at least and at most so many of a class, greedy or lazy\<close>
  | Maybe "rxi list" \<comment> \<open>\<open>(?:...)?\<close>\<close>
  | Group "rxi list" \<comment> \<open>\<open>(...)\<close>\<close>
  | Close string \<comment> \<open>the end of a group that began at this text\<close>
  | Eol \<comment> \<open>\<open>$\<close>\<close>

text \<open>The classes: \<open>\d\<close>, \<open>\S\<close>, \<open>\w\<close>, \<open>.\<close> and the digits of decimals and MAC addresses.\<close>

definition not_space :: "char \<Rightarrow> bool" where "not_space c \<longleftrightarrow> \<not> is_space c"
definition any_char :: "char \<Rightarrow> bool" where "any_char c \<longleftrightarrow> c \<noteq> CHR 0x0A"
definition is_alpha :: "char \<Rightarrow> bool" where
  "is_alpha c = (let n = (of_char c :: nat) in (65 \<le> n \<and> n \<le> 90) \<or> (97 \<le> n \<and> n \<le> 122))"
definition word_char :: "char \<Rightarrow> bool" where "word_char c \<longleftrightarrow> is_alpha c \<or> is_digit c \<or> c = CHR ''_''"
definition decimal_char :: "char \<Rightarrow> bool" where "decimal_char c \<longleftrightarrow> is_digit c \<or> c = CHR ''.''"
definition hex_char :: "char \<Rightarrow> bool" where
  "hex_char c = (let n = (of_char c :: nat) in is_digit c \<or> (65 \<le> n \<and> n \<le> 70) \<or> (97 \<le> n \<and> n \<le> 102))"

abbreviation Plus :: "(char \<Rightarrow> bool) \<Rightarrow> rxi" where "Plus c \<equiv> Many c 1 None True"
abbreviation Star :: "(char \<Rightarrow> bool) \<Rightarrow> rxi" where "Star c \<equiv> Many c 0 None True"
abbreviation Times :: "nat \<Rightarrow> (char \<Rightarrow> bool) \<Rightarrow> rxi" where "Times n c \<equiv> Many c n (Some n) True"
abbreviation Lazy :: "(char \<Rightarrow> bool) \<Rightarrow> rxi" where "Lazy c \<equiv> Many c 1 None False"

text \<open>The lengths that a repetition tries, in order.\<close>

definition spans :: "(char \<Rightarrow> bool) \<Rightarrow> nat \<Rightarrow> nat option \<Rightarrow> bool \<Rightarrow> string \<Rightarrow> nat list" where
  "spans c lo hi greedy s =
     (let n = length (takeWhile c s); m = (case hi of None \<Rightarrow> n | Some h \<Rightarrow> min n h); ks = [lo..<m + 1] in
      if greedy then rev ks else ks)"

fun weight :: "rxi \<Rightarrow> nat" where
  "weight (Maybe q) = 1 + sum_list (map weight q)"
| "weight (Group q) = 2 + sum_list (map weight q)"
| "weight i = 1"

text \<open>All matches at the start of a text: the groups captured and what follows the match.\<close>

function all_matches :: "rxi list \<Rightarrow> string \<Rightarrow> (string list \<times> string) list" where
  "all_matches [] s = [([], s)]"
| "all_matches (Text p # r) s = (case after_prefix p s of None \<Rightarrow> [] | Some t \<Rightarrow> all_matches r t)"
| "all_matches (Text_i p # r) s =
     (if lower (take (length p) s) = lower p then all_matches r (drop (length p) s) else [])"
| "all_matches (Many c lo hi greedy # r) s = concat (map (\<lambda>k. all_matches r (drop k s)) (spans c lo hi greedy s))"
| "all_matches (Maybe q # r) s = all_matches (q @ r) s @ all_matches r s"
| "all_matches (Group q # r) s = all_matches (q @ Close s # r) s"
| "all_matches (Close s0 # r) s = map (\<lambda>(gs, t). (take (length s0 - length s) s0 # gs, t)) (all_matches r s)"
| "all_matches (Eol # r) s = (if s = [] \<or> s = [CHR 0x0A] then all_matches r s else [])"
  by pat_completeness auto
termination by (relation "measure (\<lambda>(r, s). sum_list (map weight r))") auto

text \<open>\<open>re.match\<close>: the whole match and its groups.\<close>

definition re_match :: "rxi list \<Rightarrow> string \<Rightarrow> (string \<times> string list) option" where
  "re_match r s = (case all_matches r s of [] \<Rightarrow> None | (gs, t) # _ \<Rightarrow> Some (take (length s - length t) s, gs))"

text \<open>\<open>re.search\<close>, and the same with \<open>^\<close> in the flag \<open>(?m)\<close>: only at the beginning of a line.\<close>

fun re_search :: "rxi list \<Rightarrow> string \<Rightarrow> (string \<times> string list) option" where
  "re_search r [] = re_match r []"
| "re_search r (c # cs) = (case re_match r (c # cs) of None \<Rightarrow> re_search r cs | Some g \<Rightarrow> Some g)"

fun re_search_lines :: "rxi list \<Rightarrow> bool \<Rightarrow> string \<Rightarrow> (string \<times> string list) option" where
  "re_search_lines r bol [] = (if bol then re_match r [] else None)"
| "re_search_lines r bol (c # cs) =
     (case (if bol then re_match r (c # cs) else None) of
        None \<Rightarrow> re_search_lines r (c = CHR 0x0A) cs
      | Some g \<Rightarrow> Some g)"

section \<open>What matches\<close>

text \<open>What an item matches, whatever order it is tried in.\<close>

fun item_matches :: "rxi \<Rightarrow> string \<Rightarrow> bool" where
  "item_matches (Text p) w = (w = p)"
| "item_matches (Text_i p) w = (lower w = lower p)"
| "item_matches (Many c lo hi greedy) w =
     (list_all c w \<and> lo \<le> length w \<and> (case hi of None \<Rightarrow> True | Some h \<Rightarrow> length w \<le> h))"
| "item_matches (Group q) w = False"
| "item_matches (Maybe q) w = False"
| "item_matches (Close s) w = False"
| "item_matches Eol w = False"

lemma spans_mem: "k \<in> set (spans c lo hi greedy s) \<longleftrightarrow>
    lo \<le> k \<and> k \<le> length (takeWhile c s) \<and> (case hi of None \<Rightarrow> True | Some h \<Rightarrow> k \<le> h)"
  by (auto simp: spans_def Let_def split: option.splits)

lemma take_takeWhile: "k \<le> length (takeWhile c s) \<longleftrightarrow> k \<le> length s \<and> list_all c (take k s)"
proof (induction s arbitrary: k)
  case (Cons x s)
  then show ?case by (cases k) auto
qed auto

text \<open>A text that can be cut into pieces that match the items of a flat pattern is matched.\<close>

lemma pieces_match:
  "list_all2 item_matches r ws \<Longrightarrow> ([], rest) \<in> set (all_matches r (concat ws @ rest))"
proof (induction r ws rule: list_all2_induct)
  case (Cons i r w ws)
  show ?case
  proof (cases i)
    case (Text_i p)
    then have "length w = length p" using Cons.hyps(1) by (simp add: lower_def) (metis length_map)
    then show ?thesis using Cons Text_i by simp
  next
    case (Many c lo hi greedy)
    have "length w \<in> set (spans c lo hi greedy (w @ concat ws @ rest))"
      using Cons.hyps(1) Many by (simp add: spans_mem take_takeWhile)
    then show ?thesis using Cons Many by force
  qed (use Cons in auto)
qed simp

text \<open>Every match leaves an end of the text.\<close>

lemma suffix_of_drop: "suffix t (drop k s) \<Longrightarrow> suffix t s"
  using suffix_drop [of k s] by (rule suffix_order.trans [rotated])

lemma all_matches_suffix: "(gs, t) \<in> set (all_matches r s) \<Longrightarrow> suffix t s"
proof (induction r s arbitrary: gs rule: all_matches.induct)
  case (2 p r s)
  show ?case
  proof (cases "after_prefix p s")
    case (Some u)
    with 2 have "suffix t u" by simp
    then show ?thesis using Some by (auto simp: after_prefix_iff suffix_def)
  qed (use 2 in simp)
next
  case (3 p r s)
  then show ?case by (cases "lower (take (length p) s) = lower p") (auto dest: suffix_of_drop)
next
  case (4 c lo hi greedy r s)
  from "4.prems" obtain k where "k \<in> set (spans c lo hi greedy s)" "(gs, t) \<in> set (all_matches r (drop k s))" by auto
  from "4.IH" [OF this] show ?case by (rule suffix_of_drop)
next
  case (7 s0 r s)
  from "7.prems" obtain hs where "(hs, t) \<in> set (all_matches r s)" by auto
  then show ?case by (rule "7.IH")
qed (auto split: if_splits)

end
