(* ===== verification/PyFloat.thy ===== *)
theory PyFloat
  imports PyJson
begin

text \<open>
  Python floats as exact rationals with the two infinities and NaN: parsing, comparison, \<open>min\<close> and \<open>max\<close>, and
  printing.  Rounding to binary is not modelled, so a printed float has the digits that were read; numbers are
  printed without exponent.
\<close>

datatype pyfloat = Fin rat | PosInf | NegInf | NaN

definition decimal_digits :: "string \<Rightarrow> string \<times> string \<times> string" where
  "decimal_digits s =
     (let ip = takeWhile is_digit s; r = dropWhile is_digit s in
      case r of
        [] \<Rightarrow> (ip, [], [])
      | c # cs \<Rightarrow> if c = CHR ''.'' then (ip, takeWhile is_digit cs, dropWhile is_digit cs) else (ip, [], r))"

definition exponent :: "string \<Rightarrow> int option" where
  "exponent s =
     (case s of
        [] \<Rightarrow> Some 0
      | c # cs \<Rightarrow>
          if c \<noteq> CHR ''e'' then None
          else
            (let sgn = (if take 1 cs = ''-'' then - 1 else 1 :: int); ds = (if take 1 cs = ''-'' \<or> take 1 cs = ''+'' then drop 1 cs else cs) in
             if ds \<noteq> [] \<and> list_all is_digit ds then Some (sgn * int (nat_of_digits ds)) else None))"

definition scale10 :: "int \<Rightarrow> rat \<Rightarrow> rat" where
  "scale10 e q = (if e \<ge> 0 then q * 10 ^ nat e else q / 10 ^ nat (- e))"

definition parse_decimal :: "string \<Rightarrow> rat option" where
  "parse_decimal s =
     (case decimal_digits s of
        (ip, fp, r) \<Rightarrow>
          if ip @ fp = [] then None
          else map_option (\<lambda>e. scale10 (e - int (length fp)) (of_nat (nat_of_digits (ip @ fp)))) (exponent r))"

fun py_neg :: "pyfloat \<Rightarrow> pyfloat" where
  "py_neg (Fin q) = Fin (- q)"
| "py_neg PosInf = NegInf"
| "py_neg NegInf = PosInf"
| "py_neg NaN = NaN"

text \<open>\<open>float(s)\<close> on a string: \<open>None\<close> is \<open>ValueError\<close>.  Underscores between digits are not accepted here.\<close>

definition py_float :: "string \<Rightarrow> pyfloat option" where
  "py_float s =
     (let t = lower (strip s); neg = (take 1 t = ''-''); u = (if neg \<or> take 1 t = ''+'' then drop 1 t else t);
          v = (if u = ''inf'' \<or> u = ''infinity'' then Some PosInf else if u = ''nan'' then Some NaN
               else map_option Fin (parse_decimal u)) in
      if neg then map_option py_neg v else v)"

text \<open>\<open>float(v)\<close> on any value: \<open>None\<close> is \<open>ValueError\<close> or \<open>TypeError\<close>.\<close>

fun to_float :: "pyval \<Rightarrow> pyfloat option" where
  "to_float (PStr s) = py_float s"
| "to_float (PFloat s) = py_float s"
| "to_float (PInt i) = Some (Fin (of_int i))"
| "to_float (PBool b) = Some (Fin (if b then 1 else 0))"
| "to_float _ = None"

text \<open>Comparisons with NaN are false; \<open>min\<close> and \<open>max\<close> keep their first argument unless the second is better.\<close>

fun py_less :: "pyfloat \<Rightarrow> pyfloat \<Rightarrow> bool" where
  "py_less (Fin a) (Fin b) = (a < b)"
| "py_less NegInf (Fin b) = True"
| "py_less NegInf PosInf = True"
| "py_less (Fin a) PosInf = True"
| "py_less _ _ = False"

definition py_min :: "pyfloat \<Rightarrow> pyfloat \<Rightarrow> pyfloat" where
  "py_min a b = (if py_less b a then b else a)"

definition py_max :: "pyfloat \<Rightarrow> pyfloat \<Rightarrow> pyfloat" where
  "py_max a b = (if py_less a b then b else a)"

text \<open>\<open>repr(x)\<close>, with at most seventeen digits after the point.\<close>

fun frac_digits :: "nat \<Rightarrow> rat \<Rightarrow> string" where
  "frac_digits 0 x = []"
| "frac_digits (Suc n) x =
     (let y = 10 * x; d = \<lfloor>y\<rfloor> in
      digit_char (nat d) # (if y = of_int d then [] else frac_digits n (y - of_int d)))"

fun float_repr :: "pyfloat \<Rightarrow> string" where
  "float_repr (Fin q) =
     (let a = \<bar>q\<bar> in (if q < 0 then ''-'' else []) @ show_int \<lfloor>a\<rfloor> @ ''.'' @ frac_digits 17 (a - of_int \<lfloor>a\<rfloor>))"
| "float_repr PosInf = ''inf''"
| "float_repr NegInf = ''-inf''"
| "float_repr NaN = ''nan''"

section \<open>Clamping\<close>

definition in_percent :: "pyfloat \<Rightarrow> bool" where
  "in_percent x = (case x of Fin q \<Rightarrow> 0 \<le> q \<and> q \<le> 100 | _ \<Rightarrow> False)"

lemma clamp_in_percent: "in_percent (py_max (Fin 0) (py_min (Fin 100) x))"
  by (cases x) (auto simp: in_percent_def py_max_def py_min_def)

lemma clamp_id: "in_percent x \<Longrightarrow> py_max (Fin 0) (py_min (Fin 100) x) = x"
  by (cases x) (auto simp: in_percent_def py_max_def py_min_def)

lemma clamp_NaN: "py_max (Fin 0) (py_min (Fin 100) NaN) = Fin 100"
  by (simp add: py_max_def py_min_def)

lemma scale10_nonneg: "0 \<le> q \<Longrightarrow> 0 \<le> scale10 e q"
  by (simp add: scale10_def)

lemma parse_decimal_nonneg: "parse_decimal s = Some q \<Longrightarrow> 0 \<le> q"
  by (auto simp: parse_decimal_def scale10_nonneg split: prod.splits if_splits)

text \<open>A text of digits is read as its number.\<close>

lemma parse_decimal_digits: "list_all is_digit s \<Longrightarrow> s \<noteq> [] \<Longrightarrow> parse_decimal s = Some (of_nat (nat_of_digits s))"
proof -
  assume s: "list_all is_digit s" "s \<noteq> []"
  then have d: "takeWhile is_digit s = s" "dropWhile is_digit s = []" by (simp_all add: list_all_iff takeWhile_eq_all_conv)
  show ?thesis unfolding parse_decimal_def decimal_digits_def Let_def d using s(2) by (simp add: exponent_def scale10_def)
qed

end
