(* ===== verification/Health.thy ===== *)
theory Health
  imports Common Xml Regex PyFloat
begin

text \<open>
  The health service (\<open>services/health/src/ssdf_health\<close>): the collectors for Junos, PAN-OS, Proxmox and UniFi,
  which turn what the vendors print into gauges, and the writer.  A call of an MCP server is the parameter
  \<open>call\<close>, \<open>Inl\<close> with the text of the exception when it raises; an exception of a parser is \<open>Inl\<close> with its name.
\<close>

section \<open>Gauges\<close>

record gauge =
  hg_provider :: string
  hg_device :: string
  hg_scope :: string
  hg_class :: string
  hg_sensor :: string
  hg_metric :: string
  hg_value :: pyfloat
  hg_unit :: string
  hg_raw :: string

definition percent_gauge :: "string \<Rightarrow> string \<Rightarrow> string \<Rightarrow> string \<Rightarrow> string \<Rightarrow> pyfloat \<Rightarrow> string \<Rightarrow> gauge" where
  "percent_gauge provider device scope cls metric v raw =
     \<lparr>hg_provider = provider, hg_device = device, hg_scope = scope, hg_class = cls, hg_sensor = [], hg_metric = metric,
      hg_value = v, hg_unit = ''percent'', hg_raw = raw\<rparr>"

definition temp_gauge :: "string \<Rightarrow> string \<Rightarrow> string \<Rightarrow> pyfloat \<Rightarrow> string \<Rightarrow> gauge" where
  "temp_gauge provider device sensor v raw =
     \<lparr>hg_provider = provider, hg_device = device, hg_scope = ''device'', hg_class = ''temperature'', hg_sensor = sensor,
      hg_metric = ''temp_celsius'', hg_value = v, hg_unit = ''celsius'', hg_raw = raw\<rparr>"

definition alarm_gauge :: "string \<Rightarrow> string \<Rightarrow> string \<Rightarrow> pyfloat \<Rightarrow> string \<Rightarrow> gauge" where
  "alarm_gauge device sensor metric v raw =
     \<lparr>hg_provider = ''juniper'', hg_device = device, hg_scope = ''device'', hg_class = ''alarm'', hg_sensor = sensor,
      hg_metric = metric, hg_value = v, hg_unit = ''count'', hg_raw = raw\<rparr>"

section \<open>Junos\<close>

definition MEM_RE :: "rxi list" where
  "MEM_RE = [Text_i ''Memory utilization'', Plus is_space, Group [Plus is_digit], Plus is_space, Text_i ''percent'']"

definition IDLE_RE :: "rxi list" where
  "IDLE_RE = [Text_i ''Idle'', Plus is_space, Group [Plus is_digit], Plus is_space, Text_i ''percent'']"

definition TEMP_RE :: "rxi list" where
  "TEMP_RE = [Text_i ''Temp'', Plus is_space, Group [Lazy any_char], Plus is_space, Plus not_space, Plus is_space,
     Group [Maybe [Text ''-''], Plus is_digit], Plus is_space, Text_i ''degrees C'']"

definition digits_float :: "string \<Rightarrow> rat" where
  "digits_float s = of_nat (nat_of_digits s)"

definition parse_routing_engine :: "string \<Rightarrow> string \<Rightarrow> gauge list" where
  "parse_routing_engine tx device =
     (case re_search MEM_RE tx of
        Some (raw, [n]) \<Rightarrow> [percent_gauge ''juniper'' device ''device'' ''memory'' ''mem_util_pct'' (Fin (digits_float n)) raw]
      | _ \<Rightarrow> [])
     @ (case re_search IDLE_RE tx of
        Some (raw, [n]) \<Rightarrow>
          [percent_gauge ''juniper'' device ''device'' ''cpu'' ''cpu_util_pct'' (py_max (Fin 0) (Fin (100 - digits_float n))) raw]
      | _ \<Rightarrow> [])"

definition signed_float :: "string \<Rightarrow> rat" where
  "signed_float s = (if take 1 s = ''-'' then - digits_float (drop 1 s) else digits_float s)"

definition parse_environment :: "string \<Rightarrow> string \<Rightarrow> gauge list" where
  "parse_environment tx device =
     concat (map (\<lambda>line. case re_match TEMP_RE (strip line) of
         Some (_, [name, c]) \<Rightarrow> [temp_gauge ''juniper'' device (strip name) (Fin (signed_float c)) (strip line)]
       | _ \<Rightarrow> []) (splitlines tx))"

definition UNREACHABLE_MARKERS :: "string list" where
  "UNREACHABLE_MARKERS = [''transport error'', ''connection failed'', ''connection refused'', ''no route to host'',
     ''host key mismatch'', ''timed out'', ''timeout'']"

definition is_unreachable :: "string \<Rightarrow> bool" where
  "is_unreachable exc \<longleftrightarrow> list_ex (\<lambda>m. contains m (lower exc)) UNREACHABLE_MARKERS"

definition ALARM_RE :: "rxi list" where
  "ALARM_RE =
     (let d = Times in
      [Group ([d 4 is_digit, Text ''-'', d 2 is_digit, Text ''-'', d 2 is_digit, Text '' '', d 2 is_digit, Text '':'',
               d 2 is_digit, Text '':'', d 2 is_digit, Maybe [Text '' '', Plus word_char]]),
       Plus is_space, Group [Plus not_space], Plus is_space, Group [Lazy any_char], Star is_space, Eol])"

definition rstrip :: "string \<Rightarrow> string" where
  "rstrip s = rev (dropWhile is_space (rev s))"

definition alarm_lines :: "string \<Rightarrow> string list" where
  "alarm_lines tx = map rstrip (filter (\<lambda>l. strip l \<noteq> []) (splitlines tx))"

definition alarm_banner :: "string list \<Rightarrow> bool" where
  "alarm_banner ls \<longleftrightarrow> list_ex (\<lambda>l. contains ''alarms currently active'' (lower l) \<or> contains ''no alarms'' (lower l)) ls"

definition alarm_of :: "string \<Rightarrow> string \<Rightarrow> gauge option" where
  "alarm_of device line =
     (case re_match ALARM_RE line of
        Some (_, [raised, cls, desc]) \<Rightarrow>
          Some (alarm_gauge device (lower (strip cls)) ''alarm'' (Fin 1) (raised @ '' | '' @ strip desc))
      | _ \<Rightarrow> None)"

definition parse_alarms :: "string \<Rightarrow> string \<Rightarrow> gauge list" where
  "parse_alarms tx device =
     (let ls = alarm_lines tx; gs = concat (map (\<lambda>l. case alarm_of device l of None \<Rightarrow> [] | Some g \<Rightarrow> [g]) ls) in
      if ls = [] then []
      else if \<not> alarm_banner ls then []
      else alarm_gauge device [] ''active_alarm_count'' (Fin (of_nat (length gs))) (hd ls) # gs)"

type_synonym command_call = "string \<Rightarrow> string \<Rightarrow> string + string"

text \<open>The probes of one device, in order, until one says that the device is unreachable; whether all were run.\<close>

fun probe_device :: "command_call \<Rightarrow> string \<Rightarrow> (string \<times> (string \<Rightarrow> string \<Rightarrow> gauge list)) list \<Rightarrow> gauge list \<times> bool" where
  "probe_device call dev [] = ([], True)"
| "probe_device call dev ((cmd, parser) # ps) =
     (case call dev cmd of
        Inl exc \<Rightarrow> if is_unreachable exc then ([], False) else probe_device call dev ps
      | Inr tx \<Rightarrow> (let (gs, completed) = probe_device call dev ps in (parser tx dev @ gs, completed)))"

definition HEALTH_PROBES :: "(string \<times> (string \<Rightarrow> string \<Rightarrow> gauge list)) list" where
  "HEALTH_PROBES = [(''show chassis routing-engine'', parse_routing_engine), (''show chassis environment'', parse_environment)]"

definition ALARM_CMDS :: "string list" where
  "ALARM_CMDS = [''show system alarms'', ''show chassis alarms'']"

type_synonym alarm_table = "(string \<times> string, gauge) dict"

definition add_alarms :: "gauge list \<Rightarrow> alarm_table \<Rightarrow> alarm_table" where
  "add_alarms gs seen =
     foldl (\<lambda>d g. if hg_metric g = ''alarm'' then dsetdefault d (hg_sensor g, hg_raw g) g else d) seen gs"

definition alarm_step :: "command_call \<Rightarrow> string \<Rightarrow> alarm_table \<times> bool \<Rightarrow> string \<Rightarrow> alarm_table \<times> bool" where
  "alarm_step call dev s cmd =
     (case call dev cmd of
        Inl exc \<Rightarrow> s
      | Inr tx \<Rightarrow> (let parsed = parse_alarms tx dev in if parsed = [] then s else (add_alarms parsed (fst s), True)))"

definition collect_alarms :: "command_call \<Rightarrow> string \<Rightarrow> gauge list" where
  "collect_alarms call dev =
     (let (seen, saw) = foldl (alarm_step call dev) ([], False) ALARM_CMDS; alarms = dvalues seen in
      if \<not> saw then []
      else alarm_gauge dev [] ''active_alarm_count'' (Fin (of_nat (length alarms))) (show_nat (length alarms) @ '' active'') # alarms)"

definition junos_device_health :: "command_call \<Rightarrow> string \<Rightarrow> gauge list" where
  "junos_device_health call dev =
     (let (gs, completed) = probe_device call dev HEALTH_PROBES in gs @ (if completed then collect_alarms call dev else []))"

definition junos_health :: "command_call \<Rightarrow> string list \<Rightarrow> gauge list" where
  "junos_health call devices = concat (map (junos_device_health call) devices)"

section \<open>PAN-OS\<close>

definition PAN_IDLE_RE :: "rxi list" where
  "PAN_IDLE_RE = [Group [Plus decimal_char], Star is_space, Text_i ''id'']"

definition PAN_MEM_RE :: "rxi list" where
  "PAN_MEM_RE = [Text_i ''MiB Mem'', Star is_space, Text '':'', Star is_space, Group [Plus decimal_char], Plus is_space,
     Text_i ''total,'', Star is_space, Plus decimal_char, Plus is_space, Text_i ''free,'', Star is_space,
     Group [Plus decimal_char], Plus is_space, Text_i ''used'']"

text \<open>\<open>float\<close> of a run of digits and points, which raises when there are two points or no digit.\<close>

definition decimal_value :: "string \<Rightarrow> string + rat" where
  "decimal_value s = (case parse_decimal s of None \<Rightarrow> Inl ''ValueError'' | Some q \<Rightarrow> Inr q)"

definition pan_cpu :: "string \<Rightarrow> string \<Rightarrow> string + gauge list" where
  "pan_cpu body device =
     (case re_search PAN_IDLE_RE body of
        Some (raw, [n]) \<Rightarrow>
          bind_sum (decimal_value n) (\<lambda>q. Inr [percent_gauge ''paloalto'' device ''device'' ''cpu'' ''cpu_util_pct''
            (py_max (Fin 0) (Fin (100 - q))) raw])
      | _ \<Rightarrow> Inr [])"

definition pan_memory :: "string \<Rightarrow> string \<Rightarrow> string + gauge list" where
  "pan_memory body device =
     (case re_search PAN_MEM_RE body of
        Some (raw, [t, u]) \<Rightarrow>
          bind_sum (decimal_value t) (\<lambda>total. bind_sum (decimal_value u) (\<lambda>used. Inr
            (if total = 0 then []
             else [percent_gauge ''paloalto'' device ''device'' ''memory'' ''mem_util_pct''
                     (py_max (Fin 0) (py_min (Fin 100) (Fin (used / total * 100)))) raw])))
      | _ \<Rightarrow> Inr [])"

definition parse_resources :: "string \<Rightarrow> string \<Rightarrow> string + gauge list" where
  "parse_resources tx device =
     (let body = unwrap_mcp_text tx in
      bind_sum (pan_cpu body device) (\<lambda>cpu. bind_sum (pan_memory body device) (\<lambda>mem. Inr (cpu @ mem))))"

definition environmental_gauge :: "string \<Rightarrow> xml \<Rightarrow> gauge list" where
  "environmental_gauge device e =
     (let deg = child_text e ''DegreesC'' in
      case (case find_child e ''DegreesC'' of None \<Rightarrow> None | Some d \<Rightarrow> (case x_text d of None \<Rightarrow> None | Some s \<Rightarrow> if s = [] then None else py_float (strip s))) of
        None \<Rightarrow> []
      | Some v \<Rightarrow> [temp_gauge ''paloalto'' device (child_text e ''description'') v deg])"

definition parse_environmentals :: "(string \<Rightarrow> xml option) \<Rightarrow> string \<Rightarrow> string \<Rightarrow> gauge list" where
  "parse_environmentals parse tx device =
     (case parse (unwrap_mcp_text tx) of
        None \<Rightarrow> []
      | Some e \<Rightarrow> concat (map (environmental_gauge device) (tagged ''entry'' (descendants e))))"

definition RESOURCES_CMD :: string where "RESOURCES_CMD = ''<show><system><resources></resources></system></show>''"
definition ENVIRONMENTALS_CMD :: string where
  "ENVIRONMENTALS_CMD = ''<show><system><environmentals></environmentals></system></show>''"

definition panos_health :: "(string \<Rightarrow> xml option) \<Rightarrow> command_call \<Rightarrow> string \<Rightarrow> string + gauge list" where
  "panos_health parse call device =
     bind_sum (call device RESOURCES_CMD) (\<lambda>res. bind_sum (call device ENVIRONMENTALS_CMD) (\<lambda>env.
       bind_sum (parse_resources res device) (\<lambda>gs. Inr (gs @ parse_environmentals parse env device))))"

section \<open>Proxmox\<close>

definition clamp_pct :: "rat \<Rightarrow> pyfloat" where
  "clamp_pct v = py_max (Fin 0) (py_min (Fin 100) (Fin v))"

definition not_paren :: "char \<Rightarrow> bool" where "not_paren c \<longleftrightarrow> c \<noteq> CHR ''('' \<and> c \<noteq> CHR '')''"

definition MEM_PCT :: "rxi list" where
  "MEM_PCT = [Text ''Memory:'', Star not_paren, Text ''('', Group [Plus decimal_char], Text ''%)'']"
definition CPU_PCT :: "rxi list" where
  "CPU_PCT = [Star is_space, Text ''-'', Star is_space, Text ''CPU:'', Star is_space, Group [Plus decimal_char], Text ''%'']"
definition STATUS_RE :: "rxi list" where
  "STATUS_RE = [Text ''Status:'', Star is_space, Group [Plus not_space]]"

text \<open>\<open>re.sub(pattern, "", s)\<close> for a pattern that matches at most once, at the beginning or anywhere.\<close>

definition cut_start :: "rxi list \<Rightarrow> string \<Rightarrow> string" where
  "cut_start r s = (case all_matches r s of [] \<Rightarrow> s | (gs, t) # _ \<Rightarrow> t)"

fun cut_first :: "rxi list \<Rightarrow> string \<Rightarrow> string" where
  "cut_first r [] = cut_start r []"
| "cut_first r (c # cs) = (if all_matches r (c # cs) = [] then c # cut_first r cs else cut_start r (c # cs))"

definition name_from_header :: "string \<Rightarrow> string" where
  "name_from_header header =
     (let a = strip (cut_start [Text ''['', Plus word_char, Text '']'', Star is_space] header);
          b = strip (cut_start [Text ''Node:'', Star is_space] a) in
      strip (cut_first [Star is_space, Text ''(ID:'', Star (\<lambda>c. c \<noteq> CHR '')''), Text '')'', Star is_space, Eol] b))"

text \<open>\<open>text.split("\n\n")\<close>\<close>

fun split_blank :: "string \<Rightarrow> string \<Rightarrow> string list" where
  "split_blank acc (c # d # s) =
     (if c = CHR 0x0A \<and> d = CHR 0x0A then rev acc # split_blank [] s else split_blank (c # acc) (d # s))"
| "split_blank acc s = [rev acc @ s]"

definition stanzas :: "string \<Rightarrow> (string \<times> string) list" where
  "stanzas tx =
     map (\<lambda>b. (name_from_header (strip (hd (splitlines b))), b)) (filter (\<lambda>b. b \<noteq> []) (map strip (split_blank [] tx)))"

definition found_pct :: "(string \<times> string list) option \<Rightarrow> string + rat option" where
  "found_pct m = (case m of Some (_, [n]) \<Rightarrow> bind_sum (decimal_value n) (\<lambda>q. Inr (Some q)) | _ \<Rightarrow> Inr None)"

definition mem_pct :: "string \<Rightarrow> string + rat option" where "mem_pct block = found_pct (re_search MEM_PCT block)"
definition cpu_pct :: "string \<Rightarrow> string + rat option" where "cpu_pct block = found_pct (re_search_lines CPU_PCT True block)"

definition stanza_status :: "string \<Rightarrow> string" where
  "stanza_status block = (case re_search STATUS_RE block of Some (_, [s]) \<Rightarrow> s | _ \<Rightarrow> [])"

definition pct_reading :: "string \<Rightarrow> string \<Rightarrow> string \<Rightarrow> string \<Rightarrow> string \<Rightarrow> rat option \<Rightarrow> gauge list" where
  "pct_reading scope name cls metric label v =
     (case v of None \<Rightarrow> []
      | Some q \<Rightarrow> [percent_gauge ''proxmox'' name scope cls metric (clamp_pct q) (label @ ''='' @ float_repr (Fin q) @ ''%'')])"

definition node_gauges :: "string \<times> string \<Rightarrow> string + gauge list" where
  "node_gauges st =
     (case st of (name, block) \<Rightarrow>
        if name = [] \<or> map upper_char (stanza_status block) \<noteq> ''ONLINE'' then Inr []
        else bind_sum (mem_pct block) (\<lambda>m. Inr (pct_reading ''node'' name ''memory'' ''mem_util_pct'' ''mem'' m)))"

definition parse_nodes :: "string \<Rightarrow> string + gauge list" where
  "parse_nodes tx = concat_sum node_gauges (stanzas tx)"

definition guest_gauges :: "string \<times> string \<Rightarrow> string + gauge list" where
  "guest_gauges st =
     (case st of (name, block) \<Rightarrow>
        if name = [] \<or> map upper_char (stanza_status block) \<noteq> ''RUNNING'' then Inr []
        else bind_sum (cpu_pct block) (\<lambda>c. bind_sum (mem_pct block) (\<lambda>m.
          Inr (pct_reading ''guest'' name ''cpu'' ''cpu_util_pct'' ''cpu'' c @ pct_reading ''guest'' name ''memory'' ''mem_util_pct'' ''mem'' m))))"

definition parse_guests :: "string \<Rightarrow> string + gauge list" where
  "parse_guests tx = concat_sum guest_gauges (stanzas tx)"

definition proxmox_health :: "(string \<Rightarrow> string + string) \<Rightarrow> string + gauge list" where
  "proxmox_health call =
     bind_sum (call ''get_nodes'') (\<lambda>a. bind_sum (parse_nodes a) (\<lambda>ns.
       bind_sum (call ''get_vms'') (\<lambda>b. bind_sum (parse_guests b) (\<lambda>vs.
         bind_sum (call ''get_containers'') (\<lambda>c. bind_sum (parse_guests c) (\<lambda>cs. Inr (ns @ vs @ cs)))))))"

section \<open>UniFi\<close>

definition DEVICE_ENVELOPE_KEYS :: "string list" where
  "DEVICE_ENVELOPE_KEYS = [''result'', ''data'', ''device'', ''item'']"

definition first_dict :: "string list \<Rightarrow> (string, pyval) dict \<Rightarrow> (string, pyval) dict" where
  "first_dict keys d =
     (case concat (map (\<lambda>k. case map_of d k of Some (PDict e) \<Rightarrow> [e] | _ \<Rightarrow> []) keys) of [] \<Rightarrow> d | e # _ \<Rightarrow> e)"

definition device_object :: "string \<Rightarrow> string + (string, pyval) dict" where
  "device_object tx =
     (case json_loads tx of
        None \<Rightarrow> Inl ''JSONDecodeError''
      | Some (PDict d) \<Rightarrow> Inr (first_dict DEVICE_ENVELOPE_KEYS d)
      | _ \<Rightarrow> Inr [])"

definition unifi_pct :: "pyval \<Rightarrow> string \<Rightarrow> string \<Rightarrow> string \<Rightarrow> gauge list" where
  "unifi_pct v device cls metric =
     (case to_float v of
        None \<Rightarrow> []
      | Some x \<Rightarrow> [percent_gauge ''unifi'' device ''device'' cls metric (py_max (Fin 0) (py_min (Fin 100) x)) (py_str v)])"

definition unifi_temp :: "string \<Rightarrow> pyval \<Rightarrow> string + gauge list" where
  "unifi_temp device t =
     (case t of
        PDict d \<Rightarrow>
          Inr (case to_float (dget_or d ''value'' PNone) of
                 None \<Rightarrow> []
               | Some x \<Rightarrow> [temp_gauge ''unifi'' device (py_str (or_falsy (map_of d ''name'') (PStr []))) x (json_dumps json_default t)])
      | _ \<Rightarrow> Inl ''AttributeError'')"

definition unifi_stats :: "(string, pyval) dict \<Rightarrow> string + (string, pyval) dict" where
  "unifi_stats d = (case or_falsy (map_of d ''system-stats'') (PDict []) of PDict s \<Rightarrow> Inr s | _ \<Rightarrow> Inl ''AttributeError'')"

definition unifi_temps :: "string \<Rightarrow> (string, pyval) dict \<Rightarrow> string + gauge list" where
  "unifi_temps device d =
     (case or_falsy (map_of d ''temperatures'') (PList []) of
        PList ts \<Rightarrow> concat_sum (unifi_temp device) ts
      | PDict e \<Rightarrow> Inl ''AttributeError''
      | PStr s \<Rightarrow> Inl ''AttributeError''
      | _ \<Rightarrow> Inl ''TypeError'')"

definition parse_unifi_device :: "(string, pyval) dict \<Rightarrow> string \<Rightarrow> string + gauge list" where
  "parse_unifi_device d device =
     bind_sum (unifi_stats d) (\<lambda>stats. bind_sum (unifi_temps device d) (\<lambda>temps.
       Inr (unifi_pct (dget_or stats ''cpu'' PNone) device ''cpu'' ''cpu_util_pct''
            @ unifi_pct (dget_or stats ''mem'' PNone) device ''memory'' ''mem_util_pct'' @ temps)))"

definition unifi_one :: "(string \<Rightarrow> string + string) \<Rightarrow> string \<Rightarrow> string + gauge list" where
  "unifi_one call mac =
     bind_sum (call mac) (\<lambda>tx. bind_sum (device_object tx) (\<lambda>d.
       parse_unifi_device d (py_str (or_falsy (map_of d ''name'') (PStr mac)))))"

definition unifi_health :: "(string \<Rightarrow> string + string) \<Rightarrow> string list \<Rightarrow> string + gauge list" where
  "unifi_health call macs = concat_sum (unifi_one call) macs"

section \<open>Writing\<close>

definition HEALTH_COLUMNS :: "string list" where
  "HEALTH_COLUMNS = [''timestamp'', ''tenant_id'', ''provider'', ''device'', ''scope'', ''metric_class'', ''sensor'', ''metric_name'',
     ''metric_value'', ''unit'', ''raw'']"

definition health_row :: "string \<Rightarrow> string \<Rightarrow> gauge \<Rightarrow> pyval list" where
  "health_row now tenant g =
     [PStr now, PStr tenant, PStr (hg_provider g), PStr (hg_device g), PStr (hg_scope g), PStr (hg_class g), PStr (hg_sensor g),
      PStr (hg_metric g), PFloat (float_repr (hg_value g)), PStr (hg_unit g), PStr (hg_raw g)]"

definition health_rows :: "string \<Rightarrow> string \<Rightarrow> gauge list \<Rightarrow> pyval list list" where
  "health_rows now tenant gs = map (health_row now tenant) gs"

type_synonym 'db row_insert = "string \<Rightarrow> pyval list list \<Rightarrow> string list \<Rightarrow> 'db \<Rightarrow> string option \<times> 'db"

definition insert_gauges :: "'db row_insert \<Rightarrow> string \<Rightarrow> string \<Rightarrow> gauge list \<Rightarrow> 'db \<Rightarrow> (string + nat) \<times> 'db" where
  "insert_gauges ins now tenant gs db =
     (if gs = [] then (Inr 0, db)
      else case ins ''ssdf.health_metrics'' (health_rows now tenant gs) HEALTH_COLUMNS db of
          (None, db') \<Rightarrow> (Inr (length gs), db')
        | (Some exc, db') \<Rightarrow> (Inl exc, db'))"

definition run_health ::
  "'db row_insert \<Rightarrow> string \<Rightarrow> string \<Rightarrow> (string \<Rightarrow> string + gauge list) \<Rightarrow> string list \<Rightarrow> 'db \<Rightarrow> nat \<times> 'db" where
  "run_health ins now tenant collect enabled db = run_collectors (insert_gauges ins now tenant) collect enabled 0 db"

section \<open>Percentages\<close>

definition pct_ok :: "gauge \<Rightarrow> bool" where
  "pct_ok g \<longleftrightarrow> (hg_unit g = ''percent'' \<longrightarrow> in_percent (hg_value g))"

definition all_pct_ok :: "string + gauge list \<Rightarrow> bool" where
  "all_pct_ok r = (case r of Inl e \<Rightarrow> True | Inr gs \<Rightarrow> list_all pct_ok gs)"

lemma percent_gauge_ok: "pct_ok (percent_gauge p d s c m v raw) \<longleftrightarrow> in_percent v"
  by (simp add: pct_ok_def percent_gauge_def)

lemma temp_gauge_ok: "pct_ok (temp_gauge p d s v raw)"
  by (simp add: pct_ok_def temp_gauge_def)

lemma alarm_gauge_ok: "pct_ok (alarm_gauge d s m v raw)"
  by (simp add: pct_ok_def alarm_gauge_def)

lemmas gauge_ok = percent_gauge_ok temp_gauge_ok alarm_gauge_ok clamp_in_percent

lemma idle_ok: "0 \<le> q \<Longrightarrow> in_percent (py_max (Fin 0) (Fin (100 - q)))"
  by (simp add: in_percent_def py_max_def)

lemma bind_pct_ok: "(\<And>x. m = Inr x \<Longrightarrow> all_pct_ok (f x)) \<Longrightarrow> all_pct_ok (bind_sum m f)"
  by (cases m) (simp_all add: all_pct_ok_def)

lemma concat_pct_ok: "(\<And>x. x \<in> set xs \<Longrightarrow> all_pct_ok (f x)) \<Longrightarrow> all_pct_ok (concat_sum f xs)"
proof (induction xs)
  case (Cons x xs)
  then have "all_pct_ok (f x)" "all_pct_ok (concat_sum f xs)" by simp_all
  then show ?case by (cases "f x"; cases "concat_sum f xs") (simp_all add: all_pct_ok_def)
qed (simp add: all_pct_ok_def)

lemma bind_append_ok:
  "all_pct_ok m \<Longrightarrow> all_pct_ok n \<Longrightarrow> all_pct_ok (bind_sum m (\<lambda>a. bind_sum n (\<lambda>b. Inr (a @ b))))"
  by (cases m; cases n) (simp_all add: all_pct_ok_def)

lemma decimal_value_nonneg: "decimal_value s = Inr q \<Longrightarrow> 0 \<le> q"
  by (auto simp: decimal_value_def dest: parse_decimal_nonneg split: option.splits)

lemma pan_cpu_ok: "all_pct_ok (pan_cpu body device)"
  by (auto simp: pan_cpu_def bind_sum_def all_pct_ok_def gauge_ok idle_ok decimal_value_nonneg
      split: option.splits prod.splits list.splits sum.splits)

lemma pan_memory_ok: "all_pct_ok (pan_memory body device)"
  by (auto simp: pan_memory_def bind_sum_def all_pct_ok_def gauge_ok split: option.splits prod.splits list.splits sum.splits)

lemma environmentals_ok: "list_all pct_ok (parse_environmentals parse tx device)"
proof -
  have "list_all pct_ok (environmental_gauge device e)" for e
    by (simp add: environmental_gauge_def Let_def gauge_ok split: option.splits)
  then show ?thesis by (auto simp: parse_environmentals_def list_all_iff split: option.splits)
qed

lemma panos_pct_ok: "all_pct_ok (panos_health parse call device)"
proof -
  have "all_pct_ok (parse_resources tx device)" for tx
    unfolding parse_resources_def Let_def by (rule bind_append_ok [OF pan_cpu_ok pan_memory_ok])
  then show ?thesis unfolding panos_health_def
    by (intro bind_pct_ok) (metis (mono_tags, lifting) all_pct_ok_def environmentals_ok list_all_append sum.simps(6))
qed

lemma reading_ok: "list_all pct_ok (pct_reading scope name cls metric label v)"
  by (simp add: pct_reading_def clamp_pct_def gauge_ok split: option.splits)

lemma all_pct_ok_simps [simp]: "all_pct_ok (Inl e)" "all_pct_ok (Inr gs) = list_all pct_ok gs"
  by (simp_all add: all_pct_ok_def)

lemma proxmox_pct_ok: "all_pct_ok (proxmox_health call)"
proof -
  have "all_pct_ok (node_gauges st)" "all_pct_ok (guest_gauges st)" for st
    by (auto simp: node_gauges_def guest_gauges_def reading_ok split: prod.splits intro!: bind_pct_ok)
  then have n: "all_pct_ok (parse_nodes tx)" and g: "all_pct_ok (parse_guests tx)" for tx
    unfolding parse_nodes_def parse_guests_def by (simp_all add: concat_pct_ok)
  show ?thesis unfolding proxmox_health_def
  proof (intro bind_pct_ok)
    fix a ns b vs c cs
    assume "parse_nodes a = Inr ns" "parse_guests b = Inr vs" "parse_guests c = Inr cs"
    then show "all_pct_ok (Inr (ns @ vs @ cs))" using n [of a] g [of b] g [of c] by simp
  qed
qed

lemma unifi_pct_ok: "list_all pct_ok (unifi_pct v device cls metric)"
  by (simp add: unifi_pct_def gauge_ok split: option.splits)

lemma unifi_all_ok: "all_pct_ok (unifi_health call macs)"
proof -
  have "all_pct_ok (unifi_temp device t)" for device t
    by (cases t) (auto simp: unifi_temp_def gauge_ok split: option.splits)
  then have l: "all_pct_ok (concat_sum (unifi_temp device) ts)" for device ts by (rule concat_pct_ok)
  have t: "all_pct_ok (unifi_temps device d)" for device d
    by (cases "or_falsy (map_of d ''temperatures'') (PList [])") (simp_all add: unifi_temps_def l)
  have "all_pct_ok (parse_unifi_device d device)" for d device
    unfolding parse_unifi_device_def
    by (intro bind_pct_ok) (use t [of device d] in \<open>simp add: all_pct_ok_def unifi_pct_ok\<close>)
  then show ?thesis unfolding unifi_health_def by (intro concat_pct_ok) (auto simp: unifi_one_def intro!: bind_pct_ok)
qed

lemma digits_float_nonneg: "0 \<le> digits_float s"
  by (simp add: digits_float_def)

lemma percent_class: "hg_class (percent_gauge p d s c m v raw) = c"
  by (simp add: percent_gauge_def)

lemma routing_engine_ok: "g \<in> set (parse_routing_engine tx device) \<Longrightarrow> hg_class g = ''memory'' \<or> pct_ok g"
  by (auto simp: parse_routing_engine_def percent_class gauge_ok idle_ok digits_float_nonneg
      split: option.splits prod.splits list.splits)

lemma environment_ok: "g \<in> set (parse_environment tx device) \<Longrightarrow> pct_ok g"
  by (auto simp: parse_environment_def gauge_ok split: option.splits prod.splits list.splits)

text \<open>An alarm is fully described by its device, class and text.\<close>

definition is_alarm :: "string \<Rightarrow> gauge \<Rightarrow> bool" where
  "is_alarm device g \<longleftrightarrow> g = alarm_gauge device (hg_sensor g) ''alarm'' (Fin 1) (hg_raw g)"

lemma is_alarm_new: "is_alarm device (alarm_gauge device s ''alarm'' (Fin 1) raw)"
  by (simp add: is_alarm_def alarm_gauge_def)

lemma is_alarm_fields: "is_alarm device g \<Longrightarrow> hg_metric g = ''alarm'' \<and> pct_ok g"
  unfolding is_alarm_def by (erule ssubst) (simp add: gauge_ok, simp add: alarm_gauge_def)

lemma is_alarm_same: "is_alarm device g \<Longrightarrow> is_alarm device h \<Longrightarrow> hg_sensor g = hg_sensor h \<Longrightarrow> hg_raw g = hg_raw h \<Longrightarrow> g = h"
  unfolding is_alarm_def by metis

lemma alarm_of_alarm: "alarm_of device l = Some g \<Longrightarrow> is_alarm device g"
  by (auto simp: alarm_of_def is_alarm_new split: option.splits prod.splits list.splits)

text \<open>The alarms of one answer.\<close>

definition alarms_in :: "string \<Rightarrow> string \<Rightarrow> gauge list" where
  "alarms_in tx device =
     (if alarm_banner (alarm_lines tx)
      then concat (map (\<lambda>l. case alarm_of device l of None \<Rightarrow> [] | Some g \<Rightarrow> [g]) (alarm_lines tx)) else [])"

lemma alarms_in_alarm: "g \<in> set (alarms_in tx device) \<Longrightarrow> is_alarm device g"
  using alarm_of_alarm by (fastforce simp: alarms_in_def split: if_splits option.splits)

lemma parse_alarms_in:
  "parse_alarms tx device =
     (if alarm_banner (alarm_lines tx)
      then alarm_gauge device [] ''active_alarm_count'' (Fin (of_nat (length (alarms_in tx device)))) (hd (alarm_lines tx)) # alarms_in tx device
      else [])"
  by (auto simp: parse_alarms_def alarms_in_def alarm_banner_def Let_def)

definition alarm_ok :: "string \<Rightarrow> alarm_table \<Rightarrow> gauge set \<Rightarrow> bool" where
  "alarm_ok dev d S \<longleftrightarrow> dict_ok d \<and> set (dvalues d) = S
     \<and> (\<forall>e \<in> set d. fst e = (hg_sensor (snd e), hg_raw (snd e)) \<and> is_alarm dev (snd e))"

lemma add_alarm_ok:
  assumes "alarm_ok dev d S" and g: "is_alarm dev g"
  shows "alarm_ok dev (dsetdefault d (hg_sensor g, hg_raw g) g) (insert g S)"
proof (cases "dhas d (hg_sensor g, hg_raw g)")
  case True
  then obtain h where h: "((hg_sensor g, hg_raw g), h) \<in> set d" by (auto simp: dhas_iff)
  then have "h = g" using assms is_alarm_same [OF _ g, of h] by (auto simp: alarm_ok_def)
  then have "g \<in> S" using h assms(1) by (force simp: alarm_ok_def)
  then show ?thesis using True assms(1) by (simp add: dsetdefault_def insert_absorb)
next
  case False
  then have "{p \<in> set d. fst p \<noteq> (hg_sensor g, hg_raw g)} = set d" by (force simp: dhas_iff)
  then have "set (dset d (hg_sensor g, hg_raw g) g) = insert ((hg_sensor g, hg_raw g), g) (set d)"
    using set_dset [of d] assms(1) by (simp add: alarm_ok_def)
  then show ?thesis using False assms unfolding alarm_ok_def dsetdefault_def set_map by simp
qed

lemma add_alarms_ok:
  assumes "alarm_ok dev d S" and "\<forall>g \<in> set gs. is_alarm dev g"
  shows "alarm_ok dev (add_alarms gs d) (S \<union> set gs)"
  using assms
proof (induction gs arbitrary: d S)
  case (Cons g gs)
  then have g: "is_alarm dev g" "\<forall>g \<in> set gs. is_alarm dev g" by simp_all
  from Cons.IH [OF add_alarm_ok [OF Cons.prems(1) g(1)] g(2)] show ?case
    using is_alarm_fields [OF g(1)] by (simp add: add_alarms_def)
qed (simp add: add_alarms_def)

lemma parse_alarms_add: "add_alarms (parse_alarms tx dev) d = add_alarms (alarms_in tx dev) d"
  by (simp add: parse_alarms_in add_alarms_def alarm_gauge_def) (simp add: alarms_in_def)

text \<open>What the device says in answer to one of the two commands: nothing, or a set of alarms.\<close>

definition alarms_shown :: "command_call \<Rightarrow> string \<Rightarrow> string \<Rightarrow> gauge set option" where
  "alarms_shown call dev cmd =
     (case call dev cmd of
        Inl exc \<Rightarrow> None
      | Inr tx \<Rightarrow> if alarm_banner (alarm_lines tx) then Some (set (alarms_in tx dev)) else None)"

lemma alarm_step_ok:
  assumes "alarm_ok dev (fst s) S"
  shows "alarm_ok dev (fst (alarm_step call dev s cmd)) (S \<union> (case alarms_shown call dev cmd of None \<Rightarrow> {} | Some T \<Rightarrow> T))
    \<and> snd (alarm_step call dev s cmd) = (snd s \<or> alarms_shown call dev cmd \<noteq> None)"
proof (cases "call dev cmd")
  case (Inr tx)
  show ?thesis
  proof (cases "alarm_banner (alarm_lines tx)")
    case True
    then have "parse_alarms tx dev \<noteq> []" by (simp add: parse_alarms_in)
    then show ?thesis
      using Inr True add_alarms_ok [OF assms, of "alarms_in tx dev"] alarms_in_alarm
      by (auto simp: alarm_step_def alarms_shown_def parse_alarms_add)
  qed (use Inr assms in \<open>simp add: alarm_step_def alarms_shown_def parse_alarms_in\<close>)
qed (use assms in \<open>simp add: alarm_step_def alarms_shown_def\<close>)

lemma alarm_ok_distinct: "alarm_ok dev d S \<Longrightarrow> distinct (dvalues d) \<and> length (dvalues d) = card S"
proof -
  assume d: "alarm_ok dev d S"
  then have "map fst d = map (\<lambda>g. (hg_sensor g, hg_raw g)) (dvalues d)" by (simp add: alarm_ok_def)
  then have "distinct (dvalues d)" using d by (metis alarm_ok_def dict_ok_def distinct_map)
  then show ?thesis using distinct_card [of "dvalues d"] d by (simp add: alarm_ok_def)
qed

text \<open>Alarms are counted once and never guessed.  If neither command answers with alarm output, no count is
  reported; otherwise the collector reports exactly the alarms that either command shows, an alarm shown by
  both commands once, and its count is the number of these alarms, zero included.\<close>

theorem alarm_count_exact:
  "(case (alarms_shown call dev ''show system alarms'', alarms_shown call dev ''show chassis alarms'') of
      (None, None) \<Rightarrow> collect_alarms call dev = []
    | (a, b) \<Rightarrow>
        let shown = (case a of None \<Rightarrow> {} | Some A \<Rightarrow> A) \<union> (case b of None \<Rightarrow> {} | Some B \<Rightarrow> B) in
        set (tl (collect_alarms call dev)) = shown \<and> distinct (tl (collect_alarms call dev))
        \<and> hd (collect_alarms call dev) = alarm_gauge dev [] ''active_alarm_count'' (Fin (of_nat (card shown))) (show_nat (card shown) @ '' active''))"
proof -
  let ?s = "foldl (alarm_step call dev) ([], False) ALARM_CMDS"
  let ?U = "\<lambda>x. case x of None \<Rightarrow> {} | Some T \<Rightarrow> T"
  let ?a = "alarms_shown call dev ''show system alarms''" and ?b = "alarms_shown call dev ''show chassis alarms''"
  have "alarm_ok dev (fst ([], False)) {}" by (simp add: alarm_ok_def)
  from alarm_step_ok [OF this, of call "''show system alarms''"]
  have s1: "alarm_ok dev (fst (alarm_step call dev ([], False) ''show system alarms'')) (?U ?a)"
    "snd (alarm_step call dev ([], False) ''show system alarms'') = (?a \<noteq> None)" by simp_all
  from alarm_step_ok [OF s1(1), of call "''show chassis alarms''"]
  have s: "alarm_ok dev (fst ?s) (?U ?a \<union> ?U ?b)" "snd ?s = (?a \<noteq> None \<or> ?b \<noteq> None)"
    using s1(2) by (simp_all add: ALARM_CMDS_def)
  have c: "collect_alarms call dev = (if \<not> snd ?s then []
      else alarm_gauge dev [] ''active_alarm_count'' (Fin (of_nat (length (dvalues (fst ?s))))) (show_nat (length (dvalues (fst ?s))) @ '' active'')
        # dvalues (fst ?s))"
    by (simp add: collect_alarms_def case_prod_beta Let_def)
  note d = alarm_ok_distinct [OF s(1)]
  have v: "set (dvalues (fst ?s)) = ?U ?a \<union> ?U ?b" using s(1) by (simp only: alarm_ok_def)
  show ?thesis unfolding c s(2) Let_def using d v by (cases ?a; cases ?b) simp_all
qed

section \<open>What reaches the table\<close>

lemma probe_device_all:
  "(\<And>cmd parser tx. (cmd, parser) \<in> set ps \<Longrightarrow> list_all P (parser tx dev)) \<Longrightarrow> list_all P (fst (probe_device call dev ps))"
proof (induction ps)
  case (Cons p ps)
  obtain cmd parser where p: "p = (cmd, parser)" by (rule prod.exhaust)
  have "list_all P (fst (probe_device call dev ps))" using Cons by auto
  moreover have "list_all P (parser tx dev)" for tx using Cons.prems [of cmd parser tx] by (simp add: p)
  ultimately show ?case by (simp add: p case_prod_beta split: sum.splits)
qed simp

lemma collect_alarms_ok: "list_all pct_ok (collect_alarms call dev)"
proof -
  have step: "list_all pct_ok (dvalues (fst s)) \<Longrightarrow> list_all pct_ok (dvalues (fst (alarm_step call dev s cmd)))" for s cmd
  proof -
    have gs: "\<forall>g \<in> set gs. is_alarm dev g \<Longrightarrow> list_all pct_ok (dvalues d) \<Longrightarrow> list_all pct_ok (dvalues (add_alarms gs d))" for gs d
    proof (induction gs arbitrary: d)
      case (Cons g gs)
      then have "pct_ok g" "hg_metric g = ''alarm''" using is_alarm_fields by auto
      moreover have "list_all pct_ok (dvalues (dsetdefault d k g))" for k
        using Cons.prems(2) \<open>pct_ok g\<close> set_dset_subset [where d = d and k = k and v = g]
        by (auto simp: dsetdefault_def list_all_iff)
      ultimately show ?case using Cons.IH Cons.prems(1) by (simp add: add_alarms_def)
    qed (simp add: add_alarms_def)
    show "list_all pct_ok (dvalues (fst s)) \<Longrightarrow> list_all pct_ok (dvalues (fst (alarm_step call dev s cmd)))"
      using gs [of "alarms_in tx dev" for tx] alarms_in_alarm
      by (auto simp: alarm_step_def parse_alarms_add Let_def split: sum.splits)
  qed
  then have "list_all pct_ok (dvalues (fst (foldl (alarm_step call dev) ([], False) cmds)))" for cmds
    by (induction cmds rule: rev_induct) simp_all
  from this [of ALARM_CMDS] show ?thesis by (simp add: collect_alarms_def case_prod_beta Let_def gauge_ok)
qed

text \<open>A percentage in the health table is a percentage.  Whatever the vendors answer, every gauge with the unit
  percent that a collector reports for PAN-OS, Proxmox or UniFi lies between 0 and 100, and so does every such
  gauge for Junos other than the memory of the routing engine, which is passed on as the device prints it.\<close>

theorem percentages_in_range:
  "all_pct_ok (panos_health parse pan_call device) \<and> all_pct_ok (proxmox_health pve_call) \<and> all_pct_ok (unifi_health unifi_call macs)
   \<and> list_all (\<lambda>g. hg_class g = ''memory'' \<or> pct_ok g) (junos_health junos_call devices)"
proof (intro conjI panos_pct_ok proxmox_pct_ok unifi_all_ok)
  have "list_all (\<lambda>g. hg_class g = ''memory'' \<or> pct_ok g) (fst (probe_device junos_call dev HEALTH_PROBES))" for dev
    by (rule probe_device_all) (auto simp: HEALTH_PROBES_def list_all_iff dest: routing_engine_ok environment_ok)
  moreover have "list_all (\<lambda>g. hg_class g = ''memory'' \<or> pct_ok g) (collect_alarms junos_call dev)" for dev
    using collect_alarms_ok by (auto simp: list_all_iff)
  ultimately show "list_all (\<lambda>g. hg_class g = ''memory'' \<or> pct_ok g) (junos_health junos_call devices)"
    by (auto simp: junos_health_def junos_device_health_def case_prod_beta list_all_iff)
qed

text \<open>A reading that is not a number is clamped to a full percentage.\<close>

lemma unifi_nan_reads_full:
  "unifi_pct (PStr ''NaN'') device cls metric = [percent_gauge ''unifi'' device ''device'' cls metric (Fin 100) ''NaN'']"
proof -
  have "to_float (PStr ''NaN'') = Some NaN" "py_str (PStr ''NaN'') = ''NaN''" by code_simp+
  then show ?thesis by (simp add: unifi_pct_def clamp_NaN)
qed

text \<open>One run of the service writes as many rows as it reports, and a collector that raises costs only its own.\<close>

lemma run_health_isolated:
  "run_health ins now tenant collect enabled db = run_health ins now tenant collect (filter (answers collect) enabled) db"
  unfolding run_health_def by (rule run_collectors_isolated)

end
