(* ===== verification/UnionFind.thy ===== *)
theory UnionFind
  imports Prelude
begin

text \<open>
  \<open>resolver/unionfind.py\<close>: union-find over string tokens with path compression.  The state is the
  dictionary \<open>_parent\<close>.  The two loops of \<open>find\<close> are recursive functions into \<open>option\<close>: \<open>None\<close> is
  a loop that does not end or a \<open>KeyError\<close>, and under the invariant \<open>uf_ok\<close> it does not happen.
  The smaller of two roots becomes the parent, so a root is the least member of its class.
\<close>

type_synonym union_find = "(string, string) dict"

section \<open>Operations\<close>

definition uf_add :: "string \<Rightarrow> union_find \<Rightarrow> union_find" where
  "uf_add x d = dsetdefault d x x"

partial_function (option) root_loop :: "union_find \<Rightarrow> string \<Rightarrow> string option" where
  "root_loop d rt =
     (case map_of d rt of None \<Rightarrow> None | Some p \<Rightarrow> if p = rt then Some rt else root_loop d p)"

partial_function (option) compress_loop :: "union_find \<Rightarrow> string \<Rightarrow> string \<Rightarrow> union_find option" where
  "compress_loop d x rt =
     (case map_of d x of None \<Rightarrow> None | Some p \<Rightarrow> if p = rt then Some d else compress_loop (dset d x rt) p rt)"

definition uf_find :: "string \<Rightarrow> union_find \<Rightarrow> (string \<times> union_find) option" where
  "uf_find x d =
     (let d1 = uf_add x d in
      case root_loop d1 x of None \<Rightarrow> None
      | Some rt \<Rightarrow> (case compress_loop d1 x rt of None \<Rightarrow> None | Some d2 \<Rightarrow> Some (rt, d2)))"

definition uf_union :: "string \<Rightarrow> string \<Rightarrow> union_find \<Rightarrow> union_find option" where
  "uf_union a b d =
     (case uf_find a (uf_add b (uf_add a d)) of None \<Rightarrow> None
      | Some (ra, d1) \<Rightarrow>
         (case uf_find b d1 of None \<Rightarrow> None
          | Some (rb, d2) \<Rightarrow> if ra \<noteq> rb then Some (dset d2 (max ra rb) (min ra rb)) else Some d2))"

fun groups_loop :: "string list \<Rightarrow> union_find \<Rightarrow> (string, string list) dict \<Rightarrow> ((string, string list) dict \<times> union_find) option" where
  "groups_loop [] d out = Some (out, d)"
| "groups_loop (t # ts) d out =
     (case uf_find t d of None \<Rightarrow> None
      | Some (r, d') \<Rightarrow> groups_loop ts d' (dset out r (dget_or out r [] @ [t])))"

definition uf_groups :: "union_find \<Rightarrow> ((string, string list) dict \<times> union_find) option" where
  "uf_groups d = groups_loop (dkeys d) d []"

section \<open>The invariant\<close>

text \<open>Every parent is a token of the dictionary and is not greater than its child.\<close>

definition uf_ok :: "union_find \<Rightarrow> bool" where
  "uf_ok d \<longleftrightarrow> dict_ok d \<and> (\<forall>x p. map_of d x = Some p \<longrightarrow> p \<le> x \<and> p \<in> dom (map_of d))"

lemma uf_okD: "uf_ok d \<Longrightarrow> map_of d x = Some p \<Longrightarrow> p \<le> x \<and> p \<in> dom (map_of d)"
  by (simp add: uf_ok_def)

definition below :: "union_find \<Rightarrow> string \<Rightarrow> nat" where
  "below d x = card {y \<in> dom (map_of d). y < x}"

lemma below_less: "p \<in> dom (map_of d) \<Longrightarrow> p < x \<Longrightarrow> below d p < below d x"
proof -
  assume a: "p \<in> dom (map_of d)" "p < x"
  have "{y \<in> dom (map_of d). y < p} \<subset> {y \<in> dom (map_of d). y < x}"
    using a by auto
  then show ?thesis
    unfolding below_def by (intro psubset_card_mono) (simp_all add: finite_dom_map_of)
qed

lemma uf_induct [consumes 2]:
  assumes ok: "uf_ok d" and x: "x \<in> dom (map_of d)"
    and step: "\<And>x p. map_of d x = Some p \<Longrightarrow> p \<le> x \<Longrightarrow> (p \<noteq> x \<Longrightarrow> P p) \<Longrightarrow> P x"
  shows "P x"
  using x
proof (induction "below d x" arbitrary: x rule: less_induct)
  case less
  then obtain p where p: "map_of d x = Some p" by blast
  have "P p" if "p \<noteq> x"
    using less.hyps [of p] below_less [of p d x] uf_okD [OF ok p] that by (simp add: order.strict_iff_order)
  then show ?case using step [OF p] uf_okD [OF ok p] by blast
qed

lemma root_loop_total:
  assumes "uf_ok d" and "x \<in> dom (map_of d)"
  shows "\<exists>r. root_loop d x = Some r \<and> map_of d r = Some r \<and> r \<le> x"
  using assms
proof (induction rule: uf_induct)
  case (1 x p)
  show ?case
  proof (cases "p = x")
    case True
    then show ?thesis using 1(1) by (simp add: root_loop.simps [of d x])
  next
    case False
    then have "root_loop d x = root_loop d p" using 1(1) by (simp add: root_loop.simps [of d x])
    then show ?thesis using 1(2) 1(3) [OF False] by auto
  qed
qed

lemma root_loop_None: "x \<notin> dom (map_of d) \<Longrightarrow> root_loop d x = None"
  by (subst root_loop.simps) (auto simp: dom_def)

lemma root_loop_Some:
  assumes "uf_ok d" and "root_loop d x = Some r"
  shows "x \<in> dom (map_of d)" and "map_of d r = Some r" and "r \<le> x" and "root_loop d r = Some r"
proof -
  show x: "x \<in> dom (map_of d)" using assms(2) by (metis root_loop_None option.distinct(1))
  show r: "map_of d r = Some r" and "r \<le> x" using root_loop_total [OF assms(1) x] assms(2) by auto
  show "root_loop d r = Some r" using r by (subst root_loop.simps) simp
qed

lemma root_loop_parent: "map_of d x = Some p \<Longrightarrow> root_loop d p = root_loop d x"
  by (cases "p = x") (simp_all add: root_loop.simps [of d x])

section \<open>What the operations do to the roots\<close>

definition same_roots :: "union_find \<Rightarrow> union_find \<Rightarrow> bool" where
  "same_roots d d' \<longleftrightarrow> dkeys d' = dkeys d \<and> root_loop d' = root_loop d"

lemma dkeys_dset_present: "k \<in> dom (map_of d) \<Longrightarrow> dkeys (dset d k v) = dkeys d"
  by (simp add: update_keys dom_map_of_conv_image_fst)

lemma redirect_root:
  assumes ok: "uf_ok d" and r: "root_loop d x = Some r"
  shows "uf_ok (dset d x r) \<and> same_roots d (dset d x r)"
proof -
  note R = root_loop_Some [OF ok r]
  have ok': "uf_ok (dset d x r)"
    using ok R by (auto simp: uf_ok_def dict_ok_dset)
  have "root_loop (dset d x r) y = root_loop d y" if "y \<in> dom (map_of d)" for y
    using ok that
  proof (induction rule: uf_induct)
    case (1 y p)
    show ?case
    proof (cases "y = x")
      case True
      have "root_loop (dset d x r) r = Some r" using R(2) by (subst root_loop.simps) simp
      then show ?thesis using True r by (subst root_loop.simps) simp
    next
      case False
      then show ?thesis using 1 by (subst (1 2) root_loop.simps) simp
    qed
  qed
  moreover have "root_loop (dset d x r) y = root_loop d y" if "y \<notin> dom (map_of d)" for y
  proof -
    have "y \<noteq> x" using that R(1) by blast
    then have "y \<notin> dom (map_of (dset d x r))" using that by simp
    then show ?thesis using that by (simp add: root_loop_None)
  qed
  ultimately have "root_loop (dset d x r) = root_loop d" by blast
  then show ?thesis using ok' dkeys_dset_present [OF R(1)] by (simp add: same_roots_def)
qed

lemma same_roots_trans: "same_roots d e \<Longrightarrow> same_roots e f \<Longrightarrow> same_roots d f"
  by (simp add: same_roots_def)

lemma compress_total:
  assumes "uf_ok d" and "root_loop d x = Some r"
  shows "\<exists>d'. compress_loop d x r = Some d' \<and> uf_ok d' \<and> same_roots d d'"
  using assms
proof (induction "below d x" arbitrary: d x rule: less_induct)
  case less
  note R = root_loop_Some [OF less.prems]
  from R(1) obtain p where p: "map_of d x = Some p" by blast
  show ?case
  proof (cases "p = r")
    case True
    then have "compress_loop d x r = Some d" using p by (subst compress_loop.simps) simp
    then show ?thesis using less.prems by (simp add: same_roots_def)
  next
    case False
    let ?d = "dset d x r"
    have red: "uf_ok ?d" "same_roots d ?d" using redirect_root [OF less.prems] by auto
    have "p \<noteq> x" using False p less.prems(2) by (auto simp: root_loop.simps)
    then have "below ?d p < below d x"
      using below_less [of p d x] uf_okD [OF less.prems(1) p] R(1) by (auto simp: below_def insert_absorb)
    moreover have "root_loop ?d p = Some r"
      using root_loop_parent [OF p] less.prems(2) red(2) by (simp add: same_roots_def)
    ultimately obtain d' where "compress_loop ?d p r = Some d'" "uf_ok d'" "same_roots ?d d'"
      using less.hyps red(1) by blast
    moreover have "compress_loop d x r = compress_loop ?d p r"
      using p False by (subst compress_loop.simps) simp
    ultimately show ?thesis using red(2) same_roots_trans by metis
  qed
qed

lemma uf_add_ok: "uf_ok d \<Longrightarrow> uf_ok (uf_add x d)"
  by (auto simp: uf_ok_def uf_add_def dsetdefault_def dhas_def dict_ok_dset)

lemma dom_uf_add [simp]: "dom (map_of (uf_add x d)) = insert x (dom (map_of d))"
  by (auto simp: uf_add_def dsetdefault_def dhas_def)

lemma uf_add_root:
  assumes ok: "uf_ok d"
  shows "root_loop (uf_add x d) y = (if y = x \<and> root_loop d x = None then Some x else root_loop d y)"
proof (cases "x \<in> dom (map_of d)")
  case True
  then show ?thesis
    using root_loop_total [OF ok True] by (auto simp: uf_add_def dsetdefault_def dhas_def)
next
  case False
  then have d': "map_of (uf_add x d) = (map_of d)(x \<mapsto> x)"
    by (auto simp: uf_add_def dsetdefault_def dhas_def)
  have x: "root_loop (uf_add x d) x = Some x" by (subst root_loop.simps) (simp add: d')
  have "root_loop (uf_add x d) y = root_loop d y" if "y \<in> dom (map_of d)" for y
    using ok that
  proof (induction rule: uf_induct)
    case (1 y p)
    then have "y \<noteq> x" using False by blast
    then show ?case using 1 by (subst (1 2) root_loop.simps) (simp add: d')
  qed
  moreover have "root_loop (uf_add x d) y = root_loop d y" if "y \<notin> dom (map_of d)" "y \<noteq> x" for y
    using that by (simp add: root_loop_None)
  ultimately have "root_loop (uf_add x d) y = root_loop d y" if "y \<noteq> x" for y
    using that by blast
  then show ?thesis using x False by (auto simp: root_loop_None)
qed

lemma uf_find_total:
  assumes "uf_ok d"
  shows "\<exists>r d'. uf_find x d = Some (r, d') \<and> uf_ok d' \<and> root_loop (uf_add x d) x = Some r
    \<and> same_roots (uf_add x d) d'"
proof -
  have ok: "uf_ok (uf_add x d)" using uf_add_ok [OF assms] .
  obtain r where r: "root_loop (uf_add x d) x = Some r" using root_loop_total [OF ok, of x] by auto
  then show ?thesis using compress_total [OF ok r] by (auto simp: uf_find_def Let_def)
qed

lemma link_roots:
  assumes ok: "uf_ok d" and roots: "map_of d lo = Some lo" "map_of d hi = Some hi" and "lo < hi"
  shows "uf_ok (dset d hi lo) \<and>
    root_loop (dset d hi lo) y = (if root_loop d y = Some hi then Some lo else root_loop d y)"
proof -
  have ok': "uf_ok (dset d hi lo)"
    using assms by (auto simp: uf_ok_def dict_ok_dset)
  have lo: "root_loop (dset d hi lo) lo = Some lo" using roots \<open>lo < hi\<close> by (subst root_loop.simps) simp
  have "root_loop (dset d hi lo) y = (if root_loop d y = Some hi then Some lo else root_loop d y)"
    if "y \<in> dom (map_of d)" for y
    using ok that
  proof (induction rule: uf_induct)
    case (1 y p)
    show ?case
    proof (cases "y = hi")
      case True
      have "root_loop (dset d hi lo) y = Some lo" using True \<open>lo < hi\<close> lo by (subst root_loop.simps) simp
      moreover have "root_loop d y = Some hi" using True roots(2) by (subst root_loop.simps) simp
      ultimately show ?thesis by simp
    next
      case False
      then show ?thesis using 1 by (subst (1 2 3) root_loop.simps) simp
    qed
  qed
  moreover have "root_loop (dset d hi lo) y = root_loop d y" if "y \<notin> dom (map_of d)" for y
  proof -
    have "y \<noteq> hi" using that roots(2) by blast
    then show ?thesis using that by (simp add: root_loop_None)
  qed
  ultimately show ?thesis using ok' by (cases "y \<in> dom (map_of d)") (auto simp: root_loop_None)
qed

lemma uf_union_total:
  assumes ok: "uf_ok d" and ra: "root_loop (uf_add b (uf_add a d)) a = Some ra"
    and rb: "root_loop (uf_add b (uf_add a d)) b = Some rb"
  shows "\<exists>d'. uf_union a b d = Some d' \<and> uf_ok d' \<and>
    (\<forall>y. root_loop d' y = (let r = root_loop (uf_add b (uf_add a d)) y
       in if r = Some ra \<or> r = Some rb then Some (min ra rb) else r))"
proof -
  let ?d = "uf_add b (uf_add a d)"
  have okd: "uf_ok ?d" using ok by (simp add: uf_add_ok)
  have add_again: "same_roots e (uf_add z e)" if "z \<in> dom (map_of e)" for e z
    using that by (auto simp: same_roots_def uf_add_def dsetdefault_def dhas_def)
  obtain d1 where d1: "uf_find a ?d = Some (ra, d1)" "uf_ok d1" "same_roots ?d d1"
    using uf_find_total [OF okd, of a] add_again [of a ?d] ra by (force simp: same_roots_def)
  have "set (dkeys d1) = set (dkeys ?d)" using d1(3) by (simp add: same_roots_def)
  then have "dom (map_of d1) = dom (map_of ?d)" by (simp add: dom_map_of_conv_image_fst)
  then have b1: "b \<in> dom (map_of d1)" by simp
  obtain d2 where d2: "uf_find b d1 = Some (rb, d2)" "uf_ok d2" "same_roots ?d d2"
    using uf_find_total [OF d1(2), of b] add_again [OF b1] rb d1(3) by (force simp: same_roots_def)
  have roots: "map_of d2 ra = Some ra" "map_of d2 rb = Some rb"
    using root_loop_Some(2) [OF d2(2)] ra rb d2(3) by (auto simp: same_roots_def)
  show ?thesis
  proof (cases "ra = rb")
    case True
    then show ?thesis using d1 d2 by (auto simp: uf_union_def same_roots_def Let_def)
  next
    case False
    have "min ra rb < max ra rb" using False less_linear [of ra rb] by (auto simp: min_def max_def)
    moreover have "map_of d2 (min ra rb) = Some (min ra rb)" "map_of d2 (max ra rb) = Some (max ra rb)"
      using roots by (simp_all add: min_def max_def)
    ultimately have "uf_ok (dset d2 (max ra rb) (min ra rb)) \<and> root_loop (dset d2 (max ra rb) (min ra rb)) y =
        (if root_loop d2 y = Some (max ra rb) then Some (min ra rb) else root_loop d2 y)" for y
      using link_roots [OF d2(2)] by blast
    then show ?thesis
      using d1 d2 False by (auto simp: uf_union_def same_roots_def Let_def min_def max_def)
  qed
qed

section \<open>The interface\<close>

text \<open>What a client relies on: adding a token gives it a class of its own, and a union never fails and
  merges exactly the classes of its two tokens under the lesser representative.\<close>

locale partition_store =
  fixes store_ok :: "'s \<Rightarrow> bool"
    and rep :: "'s \<Rightarrow> string \<Rightarrow> string option"
    and add :: "string \<Rightarrow> 's \<Rightarrow> 's"
    and unite :: "string \<Rightarrow> string \<Rightarrow> 's \<Rightarrow> 's option"
  assumes add_ok: "store_ok s \<Longrightarrow> store_ok (add x s)"
    and rep_add: "store_ok s \<Longrightarrow> rep (add x s) y = (if y = x \<and> rep s x = None then Some x else rep s y)"
    and union_law: "store_ok s \<Longrightarrow> rep (add b (add a s)) a = Some ra \<Longrightarrow> rep (add b (add a s)) b = Some rb \<Longrightarrow>
      \<exists>s'. unite a b s = Some s' \<and> store_ok s' \<and>
        (\<forall>y. rep s' y = (let r = rep (add b (add a s)) y in if r = Some ra \<or> r = Some rb then Some (min ra rb) else r))"

text \<open>A client's calls, and the relation they describe.\<close>

datatype uf_op = Add string | Unite string string

fun run_ops :: "(string \<Rightarrow> 's \<Rightarrow> 's) \<Rightarrow> (string \<Rightarrow> string \<Rightarrow> 's \<Rightarrow> 's option) \<Rightarrow> uf_op list \<Rightarrow> 's \<Rightarrow> 's option" where
  "run_ops add unite [] s = Some s"
| "run_ops add unite (Add x # ops) s = run_ops add unite ops (add x s)"
| "run_ops add unite (Unite a b # ops) s =
     (case unite a b s of None \<Rightarrow> None | Some s' \<Rightarrow> run_ops add unite ops s')"

fun op_tokens :: "uf_op list \<Rightarrow> string set" where
  "op_tokens [] = {}"
| "op_tokens (Add x # ops) = insert x (op_tokens ops)"
| "op_tokens (Unite a b # ops) = insert a (insert b (op_tokens ops))"

inductive linked_by :: "uf_op list \<Rightarrow> string \<Rightarrow> string \<Rightarrow> bool" for ops where
  direct: "Unite a b \<in> set ops \<Longrightarrow> linked_by ops a b"
| self: "x \<in> op_tokens ops \<Longrightarrow> linked_by ops x x"
| flip: "linked_by ops x y \<Longrightarrow> linked_by ops y x"
| through: "linked_by ops x y \<Longrightarrow> linked_by ops y z \<Longrightarrow> linked_by ops x z"

lemma op_tokens_append [simp]: "op_tokens (ops @ ops') = op_tokens ops \<union> op_tokens ops'"
  by (induction ops rule: op_tokens.induct) auto

lemma linked_by_append: "linked_by ops x y \<Longrightarrow> linked_by (ops @ more) x y"
  by (induction rule: linked_by.induct) (auto intro: linked_by.direct linked_by.self linked_by.flip linked_by.through)

lemma union_tokens: "Unite a b \<in> set ops \<Longrightarrow> a \<in> op_tokens ops \<and> b \<in> op_tokens ops"
  by (induction ops rule: op_tokens.induct) auto

lemma linked_by_tokens: "linked_by ops x y \<Longrightarrow> x \<in> op_tokens ops \<and> y \<in> op_tokens ops"
  by (induction rule: linked_by.induct) (auto dest: union_tokens)

text \<open>The state describes a list of calls: its tokens have representatives, a representative is
  connected to its token and not greater, and connected tokens share it.\<close>

definition represents :: "('s \<Rightarrow> string \<Rightarrow> string option) \<Rightarrow> 's \<Rightarrow> uf_op list \<Rightarrow> bool" where
  "represents rep s ops \<longleftrightarrow>
     (\<forall>x. (rep s x \<noteq> None) = (x \<in> op_tokens ops))
     \<and> (\<forall>x r. rep s x = Some r \<longrightarrow> linked_by ops x r \<and> r \<le> x)
     \<and> (\<forall>a b. Unite a b \<in> set ops \<longrightarrow> rep s a = rep s b)"

lemma represents_connected:
  assumes "represents rep s ops" and "x \<in> op_tokens ops" and "y \<in> op_tokens ops"
  shows "rep s x = rep s y \<longleftrightarrow> linked_by ops x y"
proof
  assume eq: "rep s x = rep s y"
  have "rep s x \<noteq> None" using assms by (simp add: represents_def)
  then obtain r where "rep s x = Some r" "rep s y = Some r" using eq by auto
  then show "linked_by ops x y"
    using assms(1) by (meson linked_by.flip linked_by.through represents_def)
next
  assume "linked_by ops x y"
  then show "rep s x = rep s y"
    using assms(1) by (induction rule: linked_by.induct) (auto simp: represents_def)
qed

lemma represents_least:
  assumes "represents rep s ops" and "rep s x = Some r" and "linked_by ops x y"
  shows "linked_by ops x r \<and> r \<le> y"
proof -
  have "rep s y = Some r"
    using represents_connected [OF assms(1)] linked_by_tokens [OF assms(3)] assms(2,3) by metis
  then show ?thesis using assms(1,2) by (auto simp: represents_def)
qed

context partition_store
begin

lemma add_represents:
  assumes "store_ok s" and "represents rep s ops"
  shows "represents rep (add x s) (ops @ [Add x])"
proof -
  have keep: "rep (add x s) z = rep s z" if "z \<in> op_tokens ops" for z
    using that assms by (auto simp: represents_def rep_add)
  show ?thesis
    unfolding represents_def
  proof (intro conjI allI impI)
    fix z
    show "(rep (add x s) z \<noteq> None) = (z \<in> op_tokens (ops @ [Add x]))"
      using assms by (auto simp: represents_def rep_add)
  next
    fix z r assume r: "rep (add x s) z = Some r"
    show "linked_by (ops @ [Add x]) z r"
      using r assms linked_by_append [of ops z r "[Add x]"] linked_by.self [of x "ops @ [Add x]"]
      by (auto simp: represents_def rep_add split: if_splits)
    show "r \<le> z" using r assms by (auto simp: represents_def rep_add split: if_splits)
  next
    fix a b assume "Unite a b \<in> set (ops @ [Add x])"
    then have "Unite a b \<in> set ops" by simp
    then show "rep (add x s) a = rep (add x s) b"
      using keep union_tokens assms(2) by (metis represents_def)
  qed
qed

lemma union_represents:
  assumes ok: "store_ok s" and rep: "represents rep s ops"
  shows "\<exists>s'. unite a b s = Some s' \<and> store_ok s' \<and> represents rep s' (ops @ [Unite a b])"
proof -
  let ?s = "add b (add a s)" and ?ops = "ops @ [Unite a b]"
  have r2: "represents rep ?s ((ops @ [Add a]) @ [Add b])"
    by (intro add_represents add_ok ok rep)
  obtain ra rb where r: "rep ?s a = Some ra" "rep ?s b = Some rb"
    using r2 by (fastforce simp: represents_def)
  obtain s' where s': "unite a b s = Some s'" "store_ok s'"
    "\<And>y. rep s' y = (let r = rep ?s y in if r = Some ra \<or> r = Some rb then Some (min ra rb) else r)"
    using union_law [OF ok r] by blast
  have lift: "linked_by ((ops @ [Add a]) @ [Add b]) x y \<Longrightarrow> linked_by ?ops x y" for x y
    by (induction rule: linked_by.induct)
      (auto intro: linked_by.direct linked_by.self linked_by.flip linked_by.through)
  have ab: "linked_by ?ops a b" by (rule linked_by.direct) simp
  have old: "rep ?s x = Some r' \<Longrightarrow> linked_by ?ops x r' \<and> r' \<le> x" for x r'
    using r2 lift by (simp add: represents_def)
  have "linked_by ?ops ra rb"
    using old [OF r(1)] old [OF r(2)] ab by (meson linked_by.flip linked_by.through)
  then have m: "linked_by ?ops ra (min ra rb) \<and> linked_by ?ops rb (min ra rb)"
    by (metis linked_by.flip linked_by.through min_def)
  have "represents rep s' ?ops"
    unfolding represents_def
  proof (intro conjI allI impI)
    fix x
    show "(rep s' x \<noteq> None) = (x \<in> op_tokens ?ops)"
      using r2 by (auto simp: represents_def s'(3) Let_def)
  next
    fix x t assume t: "rep s' x = Some t"
    show "linked_by ?ops x t"
      using t old [of x] m by (auto simp: s'(3) Let_def split: if_splits dest: linked_by.through)
    show "t \<le> x"
      using t old [of x] by (auto simp: s'(3) Let_def min_le_iff_disj split: if_splits)
  next
    fix c d assume "Unite c d \<in> set ?ops"
    then show "rep s' c = rep s' d"
      using r2 r by (auto simp: represents_def s'(3) Let_def)
  qed
  then show ?thesis using s' by blast
qed

lemma run_represents:
  "store_ok s \<Longrightarrow> represents rep s done_ops \<Longrightarrow>
     \<exists>s'. run_ops add unite ops s = Some s' \<and> store_ok s' \<and> represents rep s' (done_ops @ ops)"
proof (induction ops arbitrary: s done_ops)
  case (Cons e ops)
  show ?case
  proof (cases e)
    case (Add x)
    then show ?thesis using Cons.IH [OF add_ok add_represents] Cons.prems by simp
  next
    case (Unite a b)
    obtain s1 where "unite a b s = Some s1" "store_ok s1" "represents rep s1 (done_ops @ [Unite a b])"
      using union_represents [OF Cons.prems] by blast
    then show ?thesis using Cons.IH [of s1 "done_ops @ [Unite a b]"] Unite by simp
  qed
qed simp

end

interpretation dict_partition: partition_store uf_ok root_loop uf_add uf_union
  by unfold_locales (rule uf_add_ok uf_add_root uf_union_total; assumption)+

lemma uf_empty: "uf_ok []" "represents root_loop [] []"
proof -
  show "uf_ok []" by (simp add: uf_ok_def dict_ok_def)
  have "root_loop [] x = None" for x by (rule root_loop_None) simp
  then show "represents root_loop [] []" by (simp add: represents_def)
qed

section \<open>Groups\<close>

lemma groups_loop_total:
  "uf_ok d \<Longrightarrow> set ts \<subseteq> dom (map_of d) \<Longrightarrow>
     \<exists>out' d'. groups_loop ts d out = Some (out', d') \<and> uf_ok d' \<and> same_roots d d'
       \<and> (\<forall>r. dget_or out' r [] = dget_or out r [] @ filter (\<lambda>t. root_loop d t = Some r) ts)"
proof (induction ts arbitrary: d out)
  case Nil
  then show ?case by (simp add: same_roots_def)
next
  case (Cons t ts)
  obtain r d1 where f: "uf_find t d = Some (r, d1)" "uf_ok d1" "root_loop (uf_add t d) t = Some r" "same_roots (uf_add t d) d1"
    using uf_find_total [OF Cons.prems(1)] by blast
  have "uf_add t d = d" using Cons.prems(2) by (auto simp: uf_add_def dsetdefault_def dhas_def)
  then have f': "same_roots d d1" "root_loop d t = Some r" using f by simp_all
  then have "set (dkeys d1) = set (dkeys d)" by (simp add: same_roots_def)
  then have "set ts \<subseteq> dom (map_of d1)" using Cons.prems(2) by (simp add: dom_map_of_conv_image_fst)
  then obtain out' d' where o: "groups_loop ts d1 (dset out r (dget_or out r [] @ [t])) = Some (out', d')"
    "uf_ok d'" "same_roots d1 d'"
    "\<And>q. dget_or out' q [] = dget_or (dset out r (dget_or out r [] @ [t])) q [] @ filter (\<lambda>x. root_loop d1 x = Some q) ts"
    using Cons.IH [OF f(2)] by blast
  then show ?case
    using f(1) f' same_roots_trans by (fastforce simp: dget_or_dset same_roots_def)
qed

section \<open>Properties\<close>

text \<open>C10: Unite-find is total and computes connectivity.  However tokens are added and united, no loop runs
  forever and no lookup fails; afterwards \<open>find\<close> returns, two tokens have the same representative
  exactly when the unions connect them, and the representative is the least token of the class.\<close>

theorem union_find_correct:
  assumes "x \<in> op_tokens ops" and "y \<in> op_tokens ops"
  shows "\<exists>d. run_ops uf_add uf_union ops [] = Some d
    \<and> (\<exists>r d1 q d2. uf_find x d = Some (r, d1) \<and> uf_find y d1 = Some (q, d2)
         \<and> (r = q \<longleftrightarrow> linked_by ops x y) \<and> linked_by ops x r \<and> (\<forall>z. linked_by ops x z \<longrightarrow> r \<le> z))"
proof -
  obtain d where d: "run_ops uf_add uf_union ops [] = Some d" "uf_ok d" "represents root_loop d ops"
    using dict_partition.run_represents [OF uf_empty, of ops] by auto
  have add: "uf_add z e = e" if "root_loop e z \<noteq> None" for e z
  proof -
    have "z \<in> dom (map_of e)" using that root_loop_None by metis
    then show ?thesis by (auto simp: uf_add_def dsetdefault_def dhas_def)
  qed
  have dom: "root_loop d x \<noteq> None" "root_loop d y \<noteq> None" using d(3) assms by (simp_all add: represents_def)
  obtain r d1 where f1: "uf_find x d = Some (r, d1)" "uf_ok d1" "root_loop d x = Some r" "same_roots d d1"
    using uf_find_total [OF d(2), of x] add [OF dom(1)] by auto
  have "root_loop d1 y \<noteq> None" using f1(4) dom by (simp add: same_roots_def)
  then obtain q d2 where f2: "uf_find y d1 = Some (q, d2)" "root_loop d1 y = Some q"
    using uf_find_total [OF f1(2), of y] add [of d1 y] by auto
  have "r = q \<longleftrightarrow> linked_by ops x y"
    using represents_connected [OF d(3) assms] f1 f2 by (simp add: same_roots_def)
  moreover have "linked_by ops x r \<and> (\<forall>z. linked_by ops x z \<longrightarrow> r \<le> z)"
    using represents_least [OF d(3) f1(3)] linked_by.self [OF assms(1)] by blast
  ultimately have "uf_find x d = Some (r, d1) \<and> uf_find y d1 = Some (q, d2)
      \<and> (r = q \<longleftrightarrow> linked_by ops x y) \<and> linked_by ops x r \<and> (\<forall>z. linked_by ops x z \<longrightarrow> r \<le> z)"
    using f1(1) f2(1) by blast
  then show ?thesis using d(1) by metis
qed

lemma union_find_correct_witness:
  "\<exists>d r d1. run_ops uf_add uf_union [Unite ''c'' ''b'', Add ''d'', Unite ''a'' ''c''] [] = Some d
     \<and> uf_find ''b'' d = Some (r, d1) \<and> linked_by [Unite ''c'' ''b'', Add ''d'', Unite ''a'' ''c''] ''b'' r"
  using union_find_correct [of "''b''" "[Unite ''c'' ''b'', Add ''d'', Unite ''a'' ''c'']" "''d''"] by fastforce

text \<open>\<open>groups\<close> partitions the tokens: it returns, and the entry of a representative lists exactly the
  tokens with that representative, in insertion order.\<close>

theorem groups_partition:
  assumes "uf_ok d"
  shows "\<exists>out d'. uf_groups d = Some (out, d') \<and> uf_ok d' \<and> dkeys d' = dkeys d
    \<and> (\<forall>r. dget_or out r [] = filter (\<lambda>t. root_loop d t = Some r) (dkeys d))"
proof -
  have "set (dkeys d) \<subseteq> dom (map_of d)" by (simp add: dom_map_of_conv_image_fst)
  then show ?thesis
    using groups_loop_total [OF assms, of "dkeys d" "[]"]
    by (simp add: uf_groups_def same_roots_def dget_or_def [of "[]"]) blast
qed

lemma groups_partition_witness:
  "\<exists>out d'. uf_groups [(''a'', ''a''), (''b'', ''a'')] = Some (out, d')
     \<and> dget_or out ''a'' [] = filter (\<lambda>t. root_loop [(''a'', ''a''), (''b'', ''a'')] t = Some ''a'') [''a'', ''b'']"
proof -
  have "uf_ok [(''a'', ''a''), (''b'', ''a'')]"
    by (auto simp: uf_ok_def dict_ok_def split: if_splits)
  from groups_partition [OF this] show ?thesis
    by (simp only: list.map fst_conv) blast
qed

end
