(* ===== verification/Topo.thy ===== *)
theory Topo
  imports UnionFind
begin

text \<open>
  The topology resolver: \<open>models.py\<close> (ids), \<open>resolver/flows.py\<close> (flow edges) and
  \<open>resolver/resolve.py\<close> (observations to nodes and edges, fusing of devices).  The digest of the ids
  (\<open>hashlib.sha1(\<dots>).hexdigest()\<close>) is a parameter \<open>H\<close>.  The dictionaries of the resolver are the
  fields of a record, a node that Python mutates through a reference is updated under its key, and
  a set of evidence is a list without repetition.
\<close>

section \<open>models.py\<close>

definition DEVICE :: string where "DEVICE = ''device''"
definition INTERFACE :: string where "INTERFACE = ''interface''"
definition HOST :: string where "HOST = ''host''"
definition ZONE :: string where "ZONE = ''zone''"
definition RULE :: string where "RULE = ''rule''"
definition PHYSICAL_LINK :: string where "PHYSICAL_LINK = ''physical_link''"
definition ATTACHES_TO :: string where "ATTACHES_TO = ''attaches_to''"
definition HAS_ADDRESS :: string where "HAS_ADDRESS = ''has_address''"
definition HOSTS :: string where "HOSTS = ''hosts''"
definition TALKED_TO :: string where "TALKED_TO = ''talked_to''"
definition GOVERNED_BY :: string where "GOVERNED_BY = ''governed_by''"
definition IN_ZONE :: string where "IN_ZONE = ''in_zone''"

record observation =
  o_observed_at :: string
  o_collector :: string
  o_source_device :: string
  o_layer :: string
  o_type :: string
  o_subj_kind :: string
  o_subj_id :: string
  o_obj_kind :: string
  o_obj_id :: string
  o_attrs :: attrs
  o_raw :: string
  o_tenant_id :: string

definition hash16 :: "(string \<Rightarrow> string) \<Rightarrow> string \<Rightarrow> string" where
  "hash16 H text = take 16 (H text)"

definition node_id :: "(string \<Rightarrow> string) \<Rightarrow> string \<Rightarrow> string \<Rightarrow> string \<Rightarrow> string" where
  "node_id H tenant kind canonical_key = hash16 H (tenant @ ''|'' @ kind @ ''|'' @ canonical_key)"

definition edge_id :: "(string \<Rightarrow> string) \<Rightarrow> string \<Rightarrow> string \<Rightarrow> string \<Rightarrow> string \<Rightarrow> string \<Rightarrow> string" where
  "edge_id H tenant src_id dst_id edge_type layer =
     hash16 H (tenant @ ''|'' @ src_id @ ''|'' @ dst_id @ ''|'' @ edge_type @ ''|'' @ layer)"

record topo_node =
  n_id :: string
  n_tenant :: string
  n_kind :: string
  n_name :: string
  n_identifiers :: attrs
  n_first :: string
  n_last :: string
  n_attrs :: attrs

record topo_edge =
  e_id :: string
  e_tenant :: string
  e_src :: string
  e_dst :: string
  e_type :: string
  e_layer :: string
  e_first :: string
  e_last :: string
  e_confidence :: real
  e_attrs :: attrs

section \<open>resolver/flows.py\<close>

text \<open>A row of the aggregate; an absent or null text field is empty, which the code does not
  distinguish, and the two counters are their decimal texts.\<close>

record flow_row =
  f_src_ip :: string
  f_dst_ip :: string
  f_bytes :: string
  f_flows :: string
  f_rule :: string
  f_ingress :: string
  f_egress :: string
  f_provider :: string
  f_first :: string
  f_last :: string

definition flow_edge ::
  "(string \<Rightarrow> string) \<Rightarrow> string \<Rightarrow> flow_row \<Rightarrow> string \<Rightarrow> string \<Rightarrow> string \<Rightarrow> attrs \<Rightarrow> topo_edge" where
  "flow_edge H tenant row src dst etype a =
     \<lparr>e_id = edge_id H tenant src dst etype ''flow'', e_tenant = tenant, e_src = src, e_dst = dst,
      e_type = etype, e_layer = ''flow'', e_first = f_first row, e_last = f_last row,
      e_confidence = 1, e_attrs = a\<rparr>"

definition zone_edges :: "(string \<Rightarrow> string) \<Rightarrow> string \<Rightarrow> flow_row \<Rightarrow> string \<times> string \<Rightarrow> topo_edge list" where
  "zone_edges H tenant row iz =
     (case iz of (ip, zone) \<Rightarrow>
        if zone = [] then []
        else [flow_edge H tenant row (node_id H tenant HOST (''ip:'' @ ip))
                (node_id H tenant ZONE (f_provider row @ '':'' @ zone)) IN_ZONE
                [(''zone'', zone), (''evidence'', ''ssdf.events'')]])"

definition row_edges :: "(string \<Rightarrow> string) \<Rightarrow> string \<Rightarrow> flow_row \<Rightarrow> topo_edge list" where
  "row_edges H tenant row =
     (let src = node_id H tenant HOST (''ip:'' @ f_src_ip row);
          dst = node_id H tenant HOST (''ip:'' @ f_dst_ip row);
          rule = f_rule row;
          talked = flow_edge H tenant row src dst TALKED_TO
            [(''bytes'', f_bytes row), (''flows'', f_flows row), (''provider'', f_provider row),
             (''evidence'', ''ssdf.events'')]
      in [talked]
         @ (if rule = [] then []
            else [flow_edge H tenant row (e_id talked) (node_id H tenant RULE (f_provider row @ '':'' @ rule)) GOVERNED_BY
                    [(''rule_name'', rule), (''evidence'', ''ssdf.events'')]])
         @ concat (map (zone_edges H tenant row) [(f_src_ip row, f_ingress row), (f_dst_ip row, f_egress row)]))"

definition flow_to_edges :: "(string \<Rightarrow> string) \<Rightarrow> flow_row list \<Rightarrow> string \<Rightarrow> topo_edge list" where
  "flow_to_edges H agg tenant = concat (map (row_edges H tenant) agg)"

section \<open>resolver/resolve.py: texts\<close>

text \<open>\<open>s.split(sep, 1)\<close>: the parts before and after the first occurrence, if there is one.\<close>

fun split_first :: "string \<Rightarrow> string \<Rightarrow> (string \<times> string) option" where
  "split_first sep [] = (if sep = [] then Some ([], []) else None)"
| "split_first sep (c # cs) =
     (if startswith (c # cs) sep then Some ([], drop (length sep) (c # cs))
      else case split_first sep cs of None \<Rightarrow> None | Some (a, b) \<Rightarrow> Some (c # a, b))"

definition after_first :: "string \<Rightarrow> string \<Rightarrow> string" where
  "after_first sep s = (case split_first sep s of None \<Rightarrow> s | Some (a, b) \<Rightarrow> b)"

definition before_first :: "string \<Rightarrow> string \<Rightarrow> string" where
  "before_first sep s = (case split_first sep s of None \<Rightarrow> s | Some (a, b) \<Rightarrow> a)"

definition is_hex :: "char \<Rightarrow> bool" where
  "is_hex c = (let n = (of_char c :: nat) in (48 \<le> n \<and> n \<le> 57) \<or> (65 \<le> n \<and> n \<le> 70) \<or> (97 \<le> n \<and> n \<le> 102))"

text \<open>\<open>_MAC_RE.match\<close> and \<open>_MAC_RE.fullmatch\<close>, for the definition of \<open>_MAC_RE\<close> that is in force.\<close>

definition mac_match :: "string \<Rightarrow> bool" where
  "mac_match s \<longleftrightarrow> 17 \<le> length s \<and> (\<forall>i \<in> set [0..<17]. if i mod 3 = 2 then s ! i = CHR '':'' else is_hex (s ! i))"

definition mac_fullmatch :: "string \<Rightarrow> bool" where
  "mac_fullmatch s \<longleftrightarrow> length s = 17 \<and> mac_match s"

section \<open>resolver/resolve.py: the graph under construction\<close>

record graph =
  g_nodes :: "(string, topo_node) dict"
  g_edges :: "(string, topo_edge) dict"
  g_evidence :: "(string, string list) dict"

definition empty_graph :: graph where
  "empty_graph = \<lparr>g_nodes = [], g_edges = [], g_evidence = []\<rparr>"

definition touch_node :: "string \<Rightarrow> string \<Rightarrow> string \<Rightarrow> string \<Rightarrow> string \<Rightarrow> graph \<Rightarrow> graph" where
  "touch_node tenant nid kind name t g =
     (case map_of (g_nodes g) nid of
        None \<Rightarrow> g\<lparr>g_nodes := dset (g_nodes g) nid
          \<lparr>n_id = nid, n_tenant = tenant, n_kind = kind, n_name = name, n_identifiers = [],
           n_first = t, n_last = t, n_attrs = []\<rparr>\<rparr>
      | Some n \<Rightarrow> g\<lparr>g_nodes := dset (g_nodes g) nid
          (n\<lparr>n_first := min (n_first n) t, n_last := max (n_last n) t,
             n_name := if name \<noteq> [] \<and> n_name n = [] then name else n_name n\<rparr>)\<rparr>)"

definition upd_node :: "string \<Rightarrow> (topo_node \<Rightarrow> topo_node) \<Rightarrow> graph \<Rightarrow> graph" where
  "upd_node nid f g =
     (case map_of (g_nodes g) nid of None \<Rightarrow> g | Some n \<Rightarrow> g\<lparr>g_nodes := dset (g_nodes g) nid (f n)\<rparr>)"

definition set_ident :: "string \<Rightarrow> string \<Rightarrow> topo_node \<Rightarrow> topo_node" where
  "set_ident k v n = n\<lparr>n_identifiers := dset (n_identifiers n) k v\<rparr>"

definition set_attr :: "string \<Rightarrow> string \<Rightarrow> topo_node \<Rightarrow> topo_node" where
  "set_attr k v n = n\<lparr>n_attrs := dset (n_attrs n) k v\<rparr>"

definition default_ident :: "string \<Rightarrow> string \<Rightarrow> topo_node \<Rightarrow> topo_node" where
  "default_ident k v n = n\<lparr>n_identifiers := dsetdefault (n_identifiers n) k v\<rparr>"

definition host_node :: "(string \<Rightarrow> string) \<Rightarrow> string \<Rightarrow> string \<Rightarrow> string \<Rightarrow> graph \<Rightarrow> string \<times> graph" where
  "host_node H tenant mac t g =
     (let nid = node_id H tenant HOST (''mac:'' @ mac)
      in (nid, upd_node nid (set_ident ''mac'' mac) (touch_node tenant nid HOST mac t g)))"

definition device_node :: "(string \<Rightarrow> string) \<Rightarrow> string \<Rightarrow> string \<Rightarrow> string \<Rightarrow> graph \<Rightarrow> string \<times> graph" where
  "device_node H tenant name t g =
     (let nid = node_id H tenant DEVICE name
      in (nid, upd_node nid (set_ident ''name'' name) (touch_node tenant nid DEVICE name t g)))"

definition add_edge ::
  "(string \<Rightarrow> string) \<Rightarrow> string \<Rightarrow> string \<Rightarrow> string \<Rightarrow> string \<Rightarrow> string \<Rightarrow> string \<Rightarrow> attrs \<Rightarrow> string \<Rightarrow> graph \<Rightarrow> graph" where
  "add_edge H tenant src dst etype layer t a evidence g =
     (let eid = edge_id H tenant src dst etype layer;
          e' = (case map_of (g_edges g) eid of
             None \<Rightarrow> \<lparr>e_id = eid, e_tenant = tenant, e_src = src, e_dst = dst, e_type = etype, e_layer = layer,
                      e_first = t, e_last = t, e_confidence = 0.7, e_attrs = a\<rparr>
           | Some e \<Rightarrow> e\<lparr>e_first := min (e_first e) t, e_last := max (e_last e) t, e_attrs := dupdate (e_attrs e) a\<rparr>)
      in g\<lparr>g_edges := dset (g_edges g) eid e',
           g_evidence := dset (g_evidence g) eid (List.insert evidence (dget_or (g_evidence g) eid []))\<rparr>)"

section \<open>resolver/resolve.py: one observation\<close>

definition oattr :: "observation \<Rightarrow> string \<Rightarrow> string" where
  "oattr ob k = dget_or (o_attrs ob) k []"

definition resolve_arp :: "(string \<Rightarrow> string) \<Rightarrow> string \<Rightarrow> observation \<Rightarrow> graph \<Rightarrow> graph" where
  "resolve_arp H tenant ob g =
     (let t = o_observed_at ob;
          ip = after_first ''ip:'' (o_subj_id ob);
          mac = after_first ''mac:'' (o_obj_id ob);
          (host, g1) = host_node H tenant mac t g;
          g2 = upd_node host (set_ident ''ip'' ip) g1
      in add_edge H tenant host (node_id H tenant HOST (''ip:'' @ ip)) HAS_ADDRESS ''l3'' t
           [(''ip'', ip), (''evidence'', o_collector ob)] (o_collector ob) g2)"

definition resolve_attach :: "(string \<Rightarrow> string) \<Rightarrow> string \<Rightarrow> observation \<Rightarrow> graph \<Rightarrow> graph" where
  "resolve_attach H tenant ob g =
     (let t = o_observed_at ob;
          mac = after_first ''mac:'' (o_subj_id ob);
          (host, g1) = host_node H tenant mac t g;
          dev_name = (if o_obj_id ob \<noteq> [] then after_first '':'' (o_obj_id ob) else o_source_device ob);
          (dev, g2) = device_node H tenant dev_name t g1;
          g3 = (if mac_fullmatch dev_name then upd_node dev (default_ident ''mac'' (lower dev_name)) g2 else g2)
      in add_edge H tenant host dev ATTACHES_TO ''l2'' t
           [(''port'', oattr ob ''port''), (''vlan'', oattr ob ''vlan''), (''evidence'', o_collector ob)]
           (o_collector ob) g3)"

definition resolve_vm_nic :: "(string \<Rightarrow> string) \<Rightarrow> string \<Rightarrow> observation \<Rightarrow> graph \<Rightarrow> graph" where
  "resolve_vm_nic H tenant ob g =
     (let t = o_observed_at ob;
          mac = after_first ''mac:'' (o_subj_id ob);
          (host, g1) = host_node H tenant mac t g;
          g2 = upd_node host (set_attr ''virtual'' ''true'') g1;
          (dev, g3) = device_node H tenant (o_source_device ob) t g2
      in add_edge H tenant host dev ATTACHES_TO ''l2'' t
           [(''bridge'', oattr ob ''bridge''), (''vlan'', oattr ob ''vlan''), (''evidence'', ''proxmox'')]
           ''proxmox'' g3)"

definition resolve_vm_host :: "(string \<Rightarrow> string) \<Rightarrow> string \<Rightarrow> observation \<Rightarrow> graph \<Rightarrow> graph" where
  "resolve_vm_host H tenant ob g =
     (let t = o_observed_at ob;
          (dev, g1) = device_node H tenant (o_source_device ob) t g;
          g2 = upd_node dev (set_attr ''role'' ''hypervisor'') g1;
          vm_key = o_obj_id ob;
          vm = node_id H tenant HOST vm_key;
          g3 = touch_node tenant vm HOST (dget_or (o_attrs ob) ''name'' vm_key) t g2;
          g4 = upd_node vm (set_ident ''vmid'' (oattr ob ''vmid'')) g3;
          g5 = upd_node vm (set_attr ''virtual'' ''true'') g4
      in add_edge H tenant dev vm HOSTS ''virt'' t
           [(''vmid'', oattr ob ''vmid''), (''evidence'', ''proxmox'')] ''proxmox'' g5)"

definition resolve_lldp :: "(string \<Rightarrow> string) \<Rightarrow> string \<Rightarrow> observation \<Rightarrow> graph \<Rightarrow> graph" where
  "resolve_lldp H tenant ob g =
     (let t = o_observed_at ob;
          local_sys = o_source_device ob;
          remote_sys = str_or (oattr ob ''remote_system'') (before_first '':'' (after_first ''if:'' (o_obj_id ob)));
          (dev_a, g1) = device_node H tenant local_sys t g;
          (dev_b, g2) = device_node H tenant remote_sys t g1;
          remote_chassis = oattr ob ''remote_chassis'';
          g3 = (if mac_match remote_chassis then upd_node dev_b (set_ident ''mac'' (lower remote_chassis)) g2 else g2);
          if_a = node_id H tenant INTERFACE (o_subj_id ob);
          g4 = touch_node tenant if_a INTERFACE (oattr ob ''local_port'') t g3;
          if_b = node_id H tenant INTERFACE (o_obj_id ob);
          g5 = touch_node tenant if_b INTERFACE (oattr ob ''remote_port'') t g4;
          g6 = upd_node if_a (set_attr ''device'' local_sys) g5;
          g7 = upd_node if_b (set_attr ''device'' remote_sys) g6
      in add_edge H tenant if_a if_b PHYSICAL_LINK ''l2'' t
           [(''local_port'', oattr ob ''local_port''), (''remote_port'', oattr ob ''remote_port''),
            (''device_a'', local_sys), (''device_b'', remote_sys), (''evidence'', o_collector ob)]
           (o_collector ob @ '':'' @ local_sys) g7)"

definition resolve_inventory :: "(string \<Rightarrow> string) \<Rightarrow> string \<Rightarrow> observation \<Rightarrow> graph \<Rightarrow> graph" where
  "resolve_inventory H tenant ob g =
     (let t = o_observed_at ob;
          mac = lower (oattr ob ''mac'');
          (dev, g1) = device_node H tenant (str_or (oattr ob ''name'') (''dev:'' @ mac)) t g;
          g2 = upd_node dev (set_attr ''role'' (dget_or (o_attrs ob) ''role'' ''device'')) g1;
          g3 = (if mac \<noteq> [] then upd_node dev (set_ident ''mac'' mac) g2 else g2)
      in if oattr ob ''ip'' \<noteq> [] then upd_node dev (set_ident ''mgmt_ip'' (oattr ob ''ip'')) g3 else g3)"

definition resolve_obs :: "(string \<Rightarrow> string) \<Rightarrow> string \<Rightarrow> observation \<Rightarrow> graph \<Rightarrow> graph" where
  "resolve_obs H tenant ob g =
     (if o_type ob = ''arp_entry'' then resolve_arp H tenant ob g
      else if o_type ob = ''mac_entry'' \<or> o_type ob = ''wlan_assoc'' then resolve_attach H tenant ob g
      else if o_type ob = ''vm_nic'' then resolve_vm_nic H tenant ob g
      else if o_type ob = ''vm_host'' then resolve_vm_host H tenant ob g
      else if o_type ob = ''lldp_neighbor'' then resolve_lldp H tenant ob g
      else if o_type ob = ''device_inventory'' then resolve_inventory H tenant ob g
      else g)"

section \<open>resolver/resolve.py: fusing devices\<close>

definition device_identity_tokens :: "topo_node \<Rightarrow> string list" where
  "device_identity_tokens n =
     (let ids = n_identifiers n in
      (if dget_or ids ''mac'' [] \<noteq> [] then [''mac:'' @ lower (dget_or ids ''mac'' [])] else [])
      @ (if dget_or ids ''name'' [] \<noteq> [] then [''name:'' @ dget_or ids ''name'' []] else [])
      @ (if dget_or ids ''mgmt_ip'' [] \<noteq> [] then [''mgmt_ip:'' @ dget_or ids ''mgmt_ip'' []] else []))"

text \<open>The tokens of one device, then of all devices: the first device with a token owns it.\<close>

fun claim_tokens ::
  "string \<Rightarrow> string list \<Rightarrow> union_find \<times> (string, string) dict \<Rightarrow> (union_find \<times> (string, string) dict) option" where
  "claim_tokens nid [] s = Some s"
| "claim_tokens nid (tok # toks) (uf, owners) =
     (let owners' = dsetdefault owners tok nid;
          owner = dget_or owners' tok nid
      in if owner \<noteq> nid
         then (case uf_union owner nid uf of None \<Rightarrow> None | Some uf' \<Rightarrow> claim_tokens nid toks (uf', owners'))
         else claim_tokens nid toks (uf, owners'))"

fun fuse_devices ::
  "(string, topo_node) dict \<Rightarrow> string list \<Rightarrow> union_find \<times> (string, string) dict \<Rightarrow> (union_find \<times> (string, string) dict) option" where
  "fuse_devices nodes [] s = Some s"
| "fuse_devices nodes (nid # nids) (uf, owners) =
     (case map_of nodes nid of None \<Rightarrow> None
      | Some n \<Rightarrow>
         (case claim_tokens nid (device_identity_tokens n) (uf_add nid uf, owners) of None \<Rightarrow> None
          | Some s \<Rightarrow> fuse_devices nodes nids s))"

fun canonical_ids :: "string list \<Rightarrow> union_find \<Rightarrow> (string, string) dict \<Rightarrow> (string, string) dict option" where
  "canonical_ids [] uf canon = Some canon"
| "canonical_ids (nid # nids) uf canon =
     (case uf_find nid uf of None \<Rightarrow> None
      | Some (r, uf') \<Rightarrow> canonical_ids nids uf' (dset canon nid r))"

definition merge_node :: "topo_node \<Rightarrow> topo_node \<Rightarrow> topo_node" where
  "merge_node src dst =
     dst\<lparr>n_first := min (n_first dst) (n_first src), n_last := max (n_last dst) (n_last src),
         n_name := (if n_name src \<noteq> [] \<and> (n_name dst = [] \<or> (mac_fullmatch (n_name dst) \<and> \<not> mac_fullmatch (n_name src)))
                    then n_name src else n_name dst),
         n_identifiers := foldl (\<lambda>d p. dsetdefault d (fst p) (snd p)) (n_identifiers dst) (n_identifiers src),
         n_attrs := foldl (\<lambda>d p. dsetdefault d (fst p) (snd p)) (n_attrs dst) (n_attrs src)\<rparr>"

fun merge_nodes :: "(string, string) dict \<Rightarrow> string list \<Rightarrow> (string, topo_node) dict \<Rightarrow> (string, topo_node) dict option" where
  "merge_nodes canon [] nodes = Some nodes"
| "merge_nodes canon (nid # nids) nodes =
     (let r = dget_or canon nid nid in
      if r = nid then merge_nodes canon nids nodes
      else case (map_of nodes nid, map_of nodes r) of
          (Some src, Some dst) \<Rightarrow> merge_nodes canon nids (ddel (dset nodes r (merge_node src dst)) nid)
        | _ \<Rightarrow> None)"

definition redirect_edge :: "(string \<Rightarrow> string) \<Rightarrow> string \<Rightarrow> (string, string) dict \<Rightarrow> topo_edge \<Rightarrow> topo_edge" where
  "redirect_edge H tenant canon e =
     (let s = dget_or canon (e_src e) (e_src e); d = dget_or canon (e_dst e) (e_dst e)
      in e\<lparr>e_src := s, e_dst := d, e_id := edge_id H tenant s d (e_type e) (e_layer e)\<rparr>)"

fun merge_edges ::
  "(string \<Rightarrow> string) \<Rightarrow> string \<Rightarrow> (string, string) dict \<Rightarrow> (string, string list) dict \<Rightarrow> (string, topo_edge) dict
     \<Rightarrow> (string, topo_edge) dict \<times> (string, string list) dict \<Rightarrow> (string, topo_edge) dict \<times> (string, string list) dict" where
  "merge_edges H tenant canon old_evidence [] acc = acc"
| "merge_edges H tenant canon old_evidence ((old_eid, edge) # rest) (new_edges, new_evidence) =
     (let e = redirect_edge H tenant canon edge in
      if e_src e = e_dst e then merge_edges H tenant canon old_evidence rest (new_edges, new_evidence)
      else
        (let merged = (case map_of new_edges (e_id e) of
               None \<Rightarrow> e
             | Some x \<Rightarrow> x\<lparr>e_first := min (e_first x) (e_first e), e_last := max (e_last x) (e_last e),
                           e_attrs := dupdate (e_attrs x) (e_attrs e)\<rparr>)
         in merge_edges H tenant canon old_evidence rest
              (dset new_edges (e_id e) merged,
               dset new_evidence (e_id e)
                 (List.union (dget_or new_evidence (e_id e) []) (dget_or old_evidence old_eid [])))))"

definition device_ids :: "(string, topo_node) dict \<Rightarrow> string list" where
  "device_ids nodes = map fst (filter (\<lambda>(nid, n). n_kind n = DEVICE) nodes)"

definition merge_devices :: "(string \<Rightarrow> string) \<Rightarrow> string \<Rightarrow> graph \<Rightarrow> graph option" where
  "merge_devices H tenant g =
     (let ids = device_ids (g_nodes g) in
      case fuse_devices (g_nodes g) ids ([], []) of None \<Rightarrow> None
      | Some (uf, owners) \<Rightarrow>
         (case canonical_ids ids uf [] of None \<Rightarrow> None
          | Some canon \<Rightarrow>
             if (\<forall>p \<in> set canon. snd p = fst p) then Some g
             else
               (case merge_nodes canon ids (g_nodes g) of None \<Rightarrow> None
                | Some nodes \<Rightarrow>
                   (let (es, ev) = merge_edges H tenant canon (g_evidence g) (g_edges g) ([], [])
                    in Some \<lparr>g_nodes = nodes, g_edges = es, g_evidence = ev\<rparr>))))"

section \<open>resolver/resolve.py: the result\<close>

definition finish_edge :: "graph \<Rightarrow> string \<Rightarrow> topo_edge \<Rightarrow> topo_edge" where
  "finish_edge g eid e =
     (let ev = dget_or (g_evidence g) eid []
      in e\<lparr>e_confidence := (if 2 \<le> length ev then 1 else e_confidence e),
           e_attrs := dset (e_attrs e) ''evidence'' (join '','' (sort ev))\<rparr>)"

definition finish_edges :: "graph \<Rightarrow> graph" where
  "finish_edges g = g\<lparr>g_edges := map (\<lambda>(eid, e). (eid, finish_edge g eid e)) (g_edges g)\<rparr>"

definition touch_endpoint :: "string \<Rightarrow> string \<Rightarrow> string \<Rightarrow> graph \<Rightarrow> graph" where
  "touch_endpoint tenant t endpoint g =
     (if dhas (g_nodes g) endpoint then g
      else upd_node endpoint (set_attr ''unresolved'' ''l3_only'') (touch_node tenant endpoint HOST [] t g))"

definition add_flow_edge :: "string \<Rightarrow> graph \<Rightarrow> topo_edge \<Rightarrow> graph" where
  "add_flow_edge tenant g fe =
     (let g1 = touch_endpoint tenant (e_first fe) (e_src fe) g;
          g2 = touch_endpoint tenant (e_first fe) (e_dst fe) g1
      in g2\<lparr>g_edges := dset (g_edges g2) (e_id fe) fe\<rparr>)"

definition resolve_graph ::
  "(string \<Rightarrow> string) \<Rightarrow> observation list \<Rightarrow> topo_edge list \<Rightarrow> string \<Rightarrow> (topo_node list \<times> topo_edge list) option" where
  "resolve_graph H observations flow_edges tenant =
     (case merge_devices H tenant (foldl (\<lambda>g ob. resolve_obs H tenant ob g) empty_graph observations) of
        None \<Rightarrow> None
      | Some g \<Rightarrow>
         (let g' = foldl (add_flow_edge tenant) (finish_edges g) flow_edges
          in Some (dvalues (g_nodes g'), dvalues (g_edges g'))))"

section \<open>The graph invariant\<close>

definition has_node :: "graph \<Rightarrow> string \<Rightarrow> bool" where
  "has_node g k \<longleftrightarrow> map_of (g_nodes g) k \<noteq> None"

definition node_ok :: "string \<Rightarrow> topo_node \<Rightarrow> bool" where
  "node_ok k n \<longleftrightarrow> n_id n = k \<and> n_first n \<le> n_last n"

definition edge_ok :: "(string \<Rightarrow> string) \<Rightarrow> string \<Rightarrow> string \<Rightarrow> topo_edge \<Rightarrow> bool" where
  "edge_ok H tenant k e \<longleftrightarrow> e_id e = k \<and> k = edge_id H tenant (e_src e) (e_dst e) (e_type e) (e_layer e)
     \<and> e_first e \<le> e_last e"

text \<open>Every edge leaves a node and, unless it is a \<open>has_address\<close> edge, enters one.\<close>

definition anchored :: "graph \<Rightarrow> topo_edge \<Rightarrow> bool" where
  "anchored g e \<longleftrightarrow> has_node g (e_src e) \<and> (e_type e \<noteq> HAS_ADDRESS \<longrightarrow> has_node g (e_dst e))"

definition graph_ok :: "(string \<Rightarrow> string) \<Rightarrow> string \<Rightarrow> graph \<Rightarrow> bool" where
  "graph_ok H tenant g \<longleftrightarrow> dict_ok (g_nodes g) \<and> dict_ok (g_edges g)
     \<and> (\<forall>k n. map_of (g_nodes g) k = Some n \<longrightarrow> node_ok k n)
     \<and> (\<forall>k e. map_of (g_edges g) k = Some e \<longrightarrow>
          edge_ok H tenant k e \<and> anchored g e \<and> dget_or (g_evidence g) k [] \<noteq> [])"

lemma graph_ok_empty: "graph_ok H tenant empty_graph"
  by (simp add: graph_ok_def empty_graph_def dict_ok_def)

lemma has_node_touch [simp]: "has_node (touch_node tenant nid kind name t g) k \<longleftrightarrow> k = nid \<or> has_node g k"
  by (auto simp: touch_node_def has_node_def split: option.splits)

lemma has_node_upd [simp]: "has_node (upd_node nid f g) k \<longleftrightarrow> has_node g k"
  by (auto simp: upd_node_def has_node_def split: option.splits)

lemma has_node_edges [simp]: "has_node (g\<lparr>g_edges := x\<rparr>) k \<longleftrightarrow> has_node g k"
  "has_node (g\<lparr>g_evidence := y\<rparr>) k \<longleftrightarrow> has_node g k"
  by (simp_all add: has_node_def)

lemma has_node_add_edge [simp]: "has_node (add_edge H tenant s d et l t a ev g) k \<longleftrightarrow> has_node g k"
  by (simp add: add_edge_def Let_def)

lemma edges_touch [simp]:
  "g_edges (touch_node tenant nid kind name t g) = g_edges g"
  "g_evidence (touch_node tenant nid kind name t g) = g_evidence g"
  by (simp_all add: touch_node_def split: option.split)

lemma edges_upd [simp]: "g_edges (upd_node nid f g) = g_edges g" "g_evidence (upd_node nid f g) = g_evidence g"
  by (simp_all add: upd_node_def split: option.split)

lemma anchored_mono: "anchored g e \<Longrightarrow> (\<And>k. has_node g k \<Longrightarrow> has_node g' k) \<Longrightarrow> anchored g' e"
  by (auto simp: anchored_def)

lemma graph_ok_touch: "graph_ok H tenant g \<Longrightarrow> graph_ok H tenant (touch_node tenant' nid kind name t g)"
proof -
  assume ok: "graph_ok H tenant g"
  let ?g = "touch_node tenant' nid kind name t g"
  have "anchored g e \<Longrightarrow> anchored ?g e" for e by (rule anchored_mono) auto
  moreover have "dict_ok (g_nodes ?g)"
    using ok by (auto simp: touch_node_def graph_ok_def dict_ok_dset split: option.split)
  moreover have "map_of (g_nodes ?g) k = Some n \<Longrightarrow> node_ok k n" for k n
    using ok by (auto simp: touch_node_def graph_ok_def node_ok_def min_le_iff_disj le_max_iff_disj
        split: option.splits if_splits)
  ultimately show ?thesis using ok by (simp add: graph_ok_def)
qed

lemma graph_ok_upd:
  assumes ok: "graph_ok H tenant g" and f: "\<And>n. n_id (f n) = n_id n \<and> n_first (f n) = n_first n \<and> n_last (f n) = n_last n"
  shows "graph_ok H tenant (upd_node nid f g)"
proof -
  let ?g = "upd_node nid f g"
  have "anchored g e \<Longrightarrow> anchored ?g e" for e by (rule anchored_mono) auto
  moreover have "dict_ok (g_nodes ?g)"
    using ok by (auto simp: upd_node_def graph_ok_def dict_ok_dset split: option.split)
  moreover have "map_of (g_nodes ?g) k = Some n \<Longrightarrow> node_ok k n" for k n
    using ok f by (auto simp: upd_node_def graph_ok_def node_ok_def split: option.splits if_splits)
  ultimately show ?thesis using ok by (simp add: graph_ok_def)
qed

lemma upd_fields [simp]:
  "n_id (set_ident k v n) = n_id n" "n_first (set_ident k v n) = n_first n" "n_last (set_ident k v n) = n_last n"
  "n_id (set_attr k v n) = n_id n" "n_first (set_attr k v n) = n_first n" "n_last (set_attr k v n) = n_last n"
  "n_id (default_ident k v n) = n_id n" "n_first (default_ident k v n) = n_first n" "n_last (default_ident k v n) = n_last n"
  by (simp_all add: set_ident_def set_attr_def default_ident_def)

lemma graph_ok_add_edge:
  assumes ok: "graph_ok H tenant g" and src: "has_node g s" and dst: "et \<noteq> HAS_ADDRESS \<Longrightarrow> has_node g d"
  shows "graph_ok H tenant (add_edge H tenant s d et l t a ev g)"
proof -
  let ?g = "add_edge H tenant s d et l t a ev g"
  have "dict_ok (g_edges ?g)" and "g_nodes ?g = g_nodes g"
    using ok by (simp_all add: add_edge_def Let_def graph_ok_def dict_ok_dset)
  moreover have "edge_ok H tenant k e \<and> anchored ?g e \<and> dget_or (g_evidence ?g) k [] \<noteq> []"
    if e: "map_of (g_edges ?g) k = Some e" for k e
  proof (cases "k = edge_id H tenant s d et l")
    case True
    have "anchored g e" and "edge_ok H tenant k e"
      using e ok src dst True
      by (auto simp: add_edge_def Let_def graph_ok_def edge_ok_def anchored_def min_le_iff_disj le_max_iff_disj
          split: option.splits)
    moreover have "List.insert ev xs \<noteq> []" for xs by (auto simp: List.insert_def)
    ultimately show ?thesis
      using True anchored_mono [of g e ?g] by (auto simp: add_edge_def Let_def dget_or_dset)
  next
    case False
    then show ?thesis
      using e ok anchored_mono [of g e ?g] by (auto simp: add_edge_def Let_def graph_ok_def dget_or_dset)
  qed
  ultimately show ?thesis using ok by (simp add: graph_ok_def)
qed

lemma host_node_ok:
  assumes "graph_ok H tenant g"
  shows "graph_ok H tenant (snd (host_node H tenant mac t g))"
    and "has_node (snd (host_node H tenant mac t g)) k \<longleftrightarrow> k = fst (host_node H tenant mac t g) \<or> has_node g k"
  using assms by (simp_all add: host_node_def Let_def graph_ok_upd graph_ok_touch)

lemma device_node_ok:
  assumes "graph_ok H tenant g"
  shows "graph_ok H tenant (snd (device_node H tenant name t g))"
    and "has_node (snd (device_node H tenant name t g)) k \<longleftrightarrow> k = fst (device_node H tenant name t g) \<or> has_node g k"
  using assms by (simp_all add: device_node_def Let_def graph_ok_upd graph_ok_touch)

lemmas graph_steps = host_node_def device_node_def Let_def case_prod_conv graph_ok_upd graph_ok_touch

lemma resolve_kinds_ok:
  assumes "graph_ok H tenant g"
  shows "graph_ok H tenant (resolve_arp H tenant ob g)" and "graph_ok H tenant (resolve_attach H tenant ob g)"
    and "graph_ok H tenant (resolve_vm_nic H tenant ob g)" and "graph_ok H tenant (resolve_vm_host H tenant ob g)"
    and "graph_ok H tenant (resolve_lldp H tenant ob g)" and "graph_ok H tenant (resolve_inventory H tenant ob g)"
proof -
  show "graph_ok H tenant (resolve_arp H tenant ob g)"
    unfolding resolve_arp_def by (simp add: graph_steps assms graph_ok_add_edge)
  show "graph_ok H tenant (resolve_attach H tenant ob g)"
    unfolding resolve_attach_def by (simp add: graph_steps assms graph_ok_add_edge)
  show "graph_ok H tenant (resolve_vm_nic H tenant ob g)"
    unfolding resolve_vm_nic_def by (simp add: graph_steps assms graph_ok_add_edge)
  show "graph_ok H tenant (resolve_vm_host H tenant ob g)"
    unfolding resolve_vm_host_def by (simp add: graph_steps assms graph_ok_add_edge)
  show "graph_ok H tenant (resolve_lldp H tenant ob g)"
    unfolding resolve_lldp_def by (simp add: graph_steps assms graph_ok_add_edge)
  show "graph_ok H tenant (resolve_inventory H tenant ob g)"
    unfolding resolve_inventory_def by (simp add: graph_steps assms)
qed

lemma resolve_obs_ok: "graph_ok H tenant g \<Longrightarrow> graph_ok H tenant (resolve_obs H tenant ob g)"
  by (simp add: resolve_obs_def resolve_kinds_ok)

lemma resolve_all_ok:
  "graph_ok H tenant g \<Longrightarrow> graph_ok H tenant (foldl (\<lambda>g ob. resolve_obs H tenant ob g) g obs)"
  by (induction obs arbitrary: g) (simp_all add: resolve_obs_ok)

section \<open>Which devices are fused\<close>

definition tokens_at :: "(string, topo_node) dict \<Rightarrow> string \<Rightarrow> string set" where
  "tokens_at nodes k = (case map_of nodes k of None \<Rightarrow> {} | Some n \<Rightarrow> set (device_identity_tokens n))"

text \<open>Two devices are one when a chain of shared identity tokens leads from one to the other.\<close>

inductive same_device :: "(string, topo_node) dict \<Rightarrow> string set \<Rightarrow> string \<Rightarrow> string \<Rightarrow> bool" for nodes ids where
  shared: "a \<in> ids \<Longrightarrow> b \<in> ids \<Longrightarrow> tokens_at nodes a \<inter> tokens_at nodes b \<noteq> {} \<Longrightarrow> same_device nodes ids a b"
| itself: "a \<in> ids \<Longrightarrow> same_device nodes ids a a"
| swap: "same_device nodes ids a b \<Longrightarrow> same_device nodes ids b a"
| chain: "same_device nodes ids a b \<Longrightarrow> same_device nodes ids b c \<Longrightarrow> same_device nodes ids a c"

lemma same_device_ids: "same_device nodes ids a b \<Longrightarrow> a \<in> ids \<and> b \<in> ids"
  by (induction rule: same_device.induct) auto

lemma linked_by_mono:
  "linked_by ops x y \<Longrightarrow> set ops \<subseteq> set ops' \<Longrightarrow> op_tokens ops \<subseteq> op_tokens ops' \<Longrightarrow> linked_by ops' x y"
  by (induction rule: linked_by.induct) (auto intro: linked_by.intros)

lemma claim_tokens_spec:
  assumes "uf_ok uf" and "represents root_loop uf ops" and "nid \<in> op_tokens ops"
    and "\<forall>tok own. map_of owners tok = Some own \<longrightarrow> own \<in> op_tokens ops"
  shows "\<exists>uf' owners' ops'. claim_tokens nid toks (uf, owners) = Some (uf', owners')
    \<and> uf_ok uf' \<and> represents root_loop uf' ops' \<and> op_tokens ops' = op_tokens ops \<and> set ops \<subseteq> set ops'
    \<and> (\<forall>a b. Unite a b \<in> set ops' \<longrightarrow> Unite a b \<in> set ops \<or> (b = nid \<and> (\<exists>tok \<in> set toks. map_of owners' tok = Some a)))
    \<and> (\<forall>tok. map_of owners' tok = (if map_of owners tok = None \<and> tok \<in> set toks then Some nid else map_of owners tok))
    \<and> (\<forall>tok \<in> set toks. \<exists>own. map_of owners' tok = Some own \<and> linked_by ops' own nid)"
  using assms
proof (induction toks arbitrary: uf owners ops)
  case Nil
  then show ?case by auto
next
  case (Cons tok toks)
  let ?o1 = "dsetdefault owners tok nid"
  let ?own = "dget_or ?o1 tok nid"
  have o1: "map_of ?o1 q = (if q = tok \<and> map_of owners tok = None then Some nid else map_of owners q)" for q
    by (auto simp: map_of_dsetdefault dhas_def)
  have own: "map_of ?o1 tok = Some ?own"
    by (cases "map_of owners tok") (auto simp: dget_or_def map_of_dsetdefault dhas_def)
  have own_in: "?own \<in> op_tokens ops"
    using Cons.prems(3,4) own o1 [of tok] by (cases "map_of owners tok") auto
  show ?case
  proof (cases "?own = nid")
    case True
    have "\<forall>tok own. map_of ?o1 tok = Some own \<longrightarrow> own \<in> op_tokens ops"
      using Cons.prems(3,4) o1 by auto
    from Cons.IH [OF Cons.prems(1-3) this] obtain uf' owners' ops' where
      IH: "claim_tokens nid toks (uf, ?o1) = Some (uf', owners')" "uf_ok uf'" "represents root_loop uf' ops'"
        "op_tokens ops' = op_tokens ops" "set ops \<subseteq> set ops'"
        "\<And>a b. Unite a b \<in> set ops' \<Longrightarrow> Unite a b \<in> set ops \<or> (b = nid \<and> (\<exists>tok \<in> set toks. map_of owners' tok = Some a))"
        "\<And>q. map_of owners' q = (if map_of ?o1 q = None \<and> q \<in> set toks then Some nid else map_of ?o1 q)"
        "\<And>q. q \<in> set toks \<Longrightarrow> \<exists>own. map_of owners' q = Some own \<and> linked_by ops' own nid"
      by blast
    have "linked_by ops' nid nid" using IH(4) Cons.prems(3) by (auto intro: linked_by.self)
    moreover have "map_of owners' tok = Some nid" using IH(7) [of tok] own True by simp
    ultimately have "\<forall>q \<in> set (tok # toks). \<exists>own. map_of owners' q = Some own \<and> linked_by ops' own nid"
      using IH(8) by auto
    moreover have "\<forall>q. map_of owners' q = (if map_of owners q = None \<and> q \<in> set (tok # toks) then Some nid else map_of owners q)"
      using IH(7) o1 by auto
    moreover have "claim_tokens nid (tok # toks) (uf, owners) = Some (uf', owners')"
      using IH(1) True by (simp add: Let_def)
    moreover have "\<forall>a b. Unite a b \<in> set ops' \<longrightarrow>
        Unite a b \<in> set ops \<or> (b = nid \<and> (\<exists>q \<in> set (tok # toks). map_of owners' q = Some a))"
      using IH(6) by fastforce
    ultimately show ?thesis
      using IH(2-5) by (rule_tac exI [of _ uf'], rule_tac exI [of _ owners'], rule_tac exI [of _ ops']) blast
  next
    case False
    let ?ops1 = "ops @ [Unite ?own nid]"
    obtain uf1 where uf1: "uf_union ?own nid uf = Some uf1" "uf_ok uf1" "represents root_loop uf1 ?ops1"
      using dict_partition.union_represents [OF Cons.prems(1,2)] by blast
    have toks1: "op_tokens ?ops1 = op_tokens ops" using own_in Cons.prems(3) by auto
    have "\<forall>tok own. map_of ?o1 tok = Some own \<longrightarrow> own \<in> op_tokens ?ops1" "nid \<in> op_tokens ?ops1"
      using Cons.prems(3,4) o1 toks1 by auto
    from Cons.IH [OF uf1(2,3) this(2,1)] obtain uf' owners' ops' where
      IH: "claim_tokens nid toks (uf1, ?o1) = Some (uf', owners')" "uf_ok uf'" "represents root_loop uf' ops'"
        "op_tokens ops' = op_tokens ?ops1" "set ?ops1 \<subseteq> set ops'"
        "\<And>a b. Unite a b \<in> set ops' \<Longrightarrow> Unite a b \<in> set ?ops1 \<or> (b = nid \<and> (\<exists>tok \<in> set toks. map_of owners' tok = Some a))"
        "\<And>q. map_of owners' q = (if map_of ?o1 q = None \<and> q \<in> set toks then Some nid else map_of ?o1 q)"
        "\<And>q. q \<in> set toks \<Longrightarrow> \<exists>own. map_of owners' q = Some own \<and> linked_by ops' own nid"
      by blast
    have "linked_by ops' ?own nid" using IH(5) by (intro linked_by.direct) simp
    moreover have own': "map_of owners' tok = Some ?own" using IH(7) [of tok] own by simp
    ultimately have "\<forall>q \<in> set (tok # toks). \<exists>own. map_of owners' q = Some own \<and> linked_by ops' own nid"
      using IH(8) by auto
    moreover have "\<forall>q. map_of owners' q = (if map_of owners q = None \<and> q \<in> set (tok # toks) then Some nid else map_of owners q)"
      using IH(7) o1 by auto
    moreover have "claim_tokens nid (tok # toks) (uf, owners) = Some (uf', owners')"
      using IH(1) uf1(1) False by (simp add: Let_def)
    moreover have "\<forall>a b. Unite a b \<in> set ops' \<longrightarrow>
        Unite a b \<in> set ops \<or> (b = nid \<and> (\<exists>q \<in> set (tok # toks). map_of owners' q = Some a))"
      using IH(6) own' by fastforce
    ultimately show ?thesis
      using IH(2-5) toks1 by (rule_tac exI [of _ uf'], rule_tac exI [of _ owners'], rule_tac exI [of _ ops']) auto
  qed
qed

text \<open>The state after some devices: the owner of a token has the token, the tokens of a device belong to
  devices it is united with, and only devices that share a token are united.\<close>

definition fuse_inv :: "(string, topo_node) dict \<Rightarrow> union_find \<Rightarrow> (string, string) dict \<Rightarrow> uf_op list \<Rightarrow> bool" where
  "fuse_inv nodes uf owners ops \<longleftrightarrow> uf_ok uf \<and> represents root_loop uf ops
     \<and> (\<forall>tok own. map_of owners tok = Some own \<longrightarrow> own \<in> op_tokens ops \<and> tok \<in> tokens_at nodes own)
     \<and> (\<forall>i \<in> op_tokens ops. \<forall>tok \<in> tokens_at nodes i. \<exists>own. map_of owners tok = Some own \<and> linked_by ops own i)
     \<and> (\<forall>a b. Unite a b \<in> set ops \<longrightarrow> tokens_at nodes a \<inter> tokens_at nodes b \<noteq> {})"

lemma fuse_inv_same_device:
  assumes inv: "fuse_inv nodes uf owners ops"
  shows "linked_by ops x y \<longleftrightarrow> same_device nodes (op_tokens ops) x y"
proof
  assume "linked_by ops x y"
  then show "same_device nodes (op_tokens ops) x y"
  proof (induction rule: linked_by.induct)
    case (direct a b)
    then show ?case using inv union_tokens [OF direct] by (auto simp: fuse_inv_def intro: same_device.shared)
  qed (auto intro: same_device.intros)
next
  assume "same_device nodes (op_tokens ops) x y"
  then show "linked_by ops x y"
  proof (induction rule: same_device.induct)
    case (shared a b)
    then obtain tok where "tok \<in> tokens_at nodes a" "tok \<in> tokens_at nodes b" by blast
    then have "\<exists>own. map_of owners tok = Some own \<and> linked_by ops own a"
      and "\<exists>own. map_of owners tok = Some own \<and> linked_by ops own b"
      using inv shared(1,2) unfolding fuse_inv_def by blast+
    then show ?case by (metis linked_by.flip linked_by.through option.inject)
  qed (auto intro: linked_by.intros)
qed

lemma fuse_devices_spec:
  assumes "fuse_inv nodes uf owners ops" and "set nids \<subseteq> dom (map_of nodes)"
  shows "\<exists>uf' owners' ops'. fuse_devices nodes nids (uf, owners) = Some (uf', owners')
    \<and> fuse_inv nodes uf' owners' ops' \<and> op_tokens ops' = op_tokens ops \<union> set nids"
  using assms
proof (induction nids arbitrary: uf owners ops)
  case Nil
  then show ?case by auto
next
  case (Cons nid nids)
  obtain n where n: "map_of nodes nid = Some n" using Cons.prems(2) by auto
  let ?ops1 = "ops @ [Add nid]"
  have inv: "uf_ok uf" "represents root_loop uf ops" using Cons.prems(1) by (simp_all add: fuse_inv_def)
  have a: "uf_ok (uf_add nid uf)" "represents root_loop (uf_add nid uf) ?ops1"
    using inv by (simp_all add: uf_add_ok dict_partition.add_represents)
  have "nid \<in> op_tokens ?ops1" and "\<forall>tok own. map_of owners tok = Some own \<longrightarrow> own \<in> op_tokens ?ops1"
    using Cons.prems(1) by (auto simp: fuse_inv_def)
  from claim_tokens_spec [OF a this, of "device_identity_tokens n"] obtain uf1 owners1 ops1 where
    c: "claim_tokens nid (device_identity_tokens n) (uf_add nid uf, owners) = Some (uf1, owners1)" "uf_ok uf1"
      "represents root_loop uf1 ops1" "op_tokens ops1 = op_tokens ?ops1" "set ?ops1 \<subseteq> set ops1"
      "\<And>a b. Unite a b \<in> set ops1 \<Longrightarrow> Unite a b \<in> set ?ops1 \<or>
         (b = nid \<and> (\<exists>tok \<in> set (device_identity_tokens n). map_of owners1 tok = Some a))"
      "\<And>tok. map_of owners1 tok =
         (if map_of owners tok = None \<and> tok \<in> set (device_identity_tokens n) then Some nid else map_of owners tok)"
      "\<And>tok. tok \<in> set (device_identity_tokens n) \<Longrightarrow> \<exists>own. map_of owners1 tok = Some own \<and> linked_by ops1 own nid"
    by blast
  have tok_n: "tokens_at nodes nid = set (device_identity_tokens n)" using n by (simp add: tokens_at_def)
  have mono: "linked_by ops x y \<Longrightarrow> linked_by ops1 x y" for x y
    by (erule linked_by_mono) (use c(4,5) in auto)
  have own1: "own \<in> op_tokens ops1 \<and> tok \<in> tokens_at nodes own" if "map_of owners1 tok = Some own" for tok own
    using that c(4,7) Cons.prems(1) tok_n by (auto simp: fuse_inv_def split: if_splits)
  have "fuse_inv nodes uf1 owners1 ops1"
    unfolding fuse_inv_def
  proof (intro conjI allI impI ballI)
    fix i tok assume i: "i \<in> op_tokens ops1" and t: "tok \<in> tokens_at nodes i"
    show "\<exists>own. map_of owners1 tok = Some own \<and> linked_by ops1 own i"
    proof (cases "i = nid")
      case True
      then show ?thesis using c(8) t tok_n by simp
    next
      case False
      then have "i \<in> op_tokens ops" using i c(4) by simp
      then obtain own where "map_of owners tok = Some own" "linked_by ops own i"
        using t Cons.prems(1) unfolding fuse_inv_def by blast
      then show ?thesis using c(7) [of tok] mono by auto
    qed
  next
    fix x y assume "Unite x y \<in> set ops1"
    then show "tokens_at nodes x \<inter> tokens_at nodes y \<noteq> {}"
      using c(6) [of x y] Cons.prems(1) own1 [of _ x] tok_n by (simp add: fuse_inv_def) blast
  qed (use c(2,3) own1 in auto)
  from Cons.IH [OF this] Cons.prems(2) obtain uf' owners' ops' where
    "fuse_devices nodes nids (uf1, owners1) = Some (uf', owners')" "fuse_inv nodes uf' owners' ops'"
    "op_tokens ops' = op_tokens ops1 \<union> set nids"
    by auto
  then show ?case using n c(1,4) by auto
qed

section \<open>What fusing does to nodes and edges\<close>

lemma canonical_ids_spec:
  assumes "uf_ok uf" and "\<forall>x \<in> set nids. root_loop uf x \<noteq> None"
  shows "\<exists>canon'. canonical_ids nids uf canon = Some canon'
    \<and> (\<forall>x. map_of canon' x = (if x \<in> set nids then root_loop uf x else map_of canon x))
    \<and> fst ` set canon' = fst ` set canon \<union> set nids"
  using assms
proof (induction nids arbitrary: uf canon)
  case (Cons nid nids)
  have "nid \<in> dom (map_of uf)" using Cons.prems(2) root_loop_None by (metis list.set_intros(1))
  then have "uf_add nid uf = uf" by (auto simp: uf_add_def dsetdefault_def dhas_def)
  then obtain r uf' where f: "uf_find nid uf = Some (r, uf')" "uf_ok uf'" "root_loop uf nid = Some r" "same_roots uf uf'"
    using uf_find_total [OF Cons.prems(1), of nid] by auto
  have "\<forall>x \<in> set nids. root_loop uf' x \<noteq> None" using Cons.prems(2) f(4) by (simp add: same_roots_def)
  from Cons.IH [OF f(2) this, of "dset canon nid r"] obtain canon' where
    "canonical_ids nids uf' (dset canon nid r) = Some canon'"
    "\<And>x. map_of canon' x = (if x \<in> set nids then root_loop uf' x else map_of (dset canon nid r) x)"
    "fst ` set canon' = fst ` set (dset canon nid r) \<union> set nids"
    by blast
  then show ?case using f by (auto simp: same_roots_def keys_dset)
qed simp

lemma map_of_setdefaults:
  "map_of (foldl (\<lambda>d p. dsetdefault d (fst p) (snd p)) d e) k =
     (case map_of d k of None \<Rightarrow> map_of e k | Some v \<Rightarrow> Some v)"
  by (induction e arbitrary: d) (auto simp: map_of_dsetdefault dhas_def split: option.splits)

lemma dget_or_Some: "dget_or d k [] \<noteq> [] \<Longrightarrow> map_of d k = Some (dget_or d k [])"
  by (simp add: dget_or_def split: option.splits)

lemma dget_or_known: "map_of d k = Some v \<Longrightarrow> dget_or d k w = v"
  by (simp add: dget_or_def)

lemma token_source:
  assumes "tok \<in> set (device_identity_tokens n)"
  shows "\<exists>key v. map_of (n_identifiers n) key = Some v
    \<and> (\<forall>m. map_of (n_identifiers m) key = Some v \<longrightarrow> tok \<in> set (device_identity_tokens m))"
proof -
  let ?v = "\<lambda>key. dget_or (n_identifiers n) key []"
  consider "?v ''mac'' \<noteq> []" "tok = ''mac:'' @ lower (?v ''mac'')"
    | "?v ''name'' \<noteq> []" "tok = ''name:'' @ ?v ''name''"
    | "?v ''mgmt_ip'' \<noteq> []" "tok = ''mgmt_ip:'' @ ?v ''mgmt_ip''"
    using assms by (auto simp: device_identity_tokens_def Let_def split: if_splits)
  then show ?thesis
  proof cases
    case 1
    have "tok \<in> set (device_identity_tokens m)" if "map_of (n_identifiers m) ''mac'' = Some (?v ''mac'')" for m
      using 1 dget_or_known [OF that, of "[]"] by (simp add: device_identity_tokens_def Let_def)
    then show ?thesis using dget_or_Some [OF 1(1)] by blast
  next
    case 2
    have "tok \<in> set (device_identity_tokens m)" if "map_of (n_identifiers m) ''name'' = Some (?v ''name'')" for m
      using 2 dget_or_known [OF that, of "[]"] by (simp add: device_identity_tokens_def Let_def)
    then show ?thesis using dget_or_Some [OF 2(1)] by blast
  next
    case 3
    have "tok \<in> set (device_identity_tokens m)" if "map_of (n_identifiers m) ''mgmt_ip'' = Some (?v ''mgmt_ip'')" for m
      using 3 dget_or_known [OF that, of "[]"] by (simp add: device_identity_tokens_def Let_def)
    then show ?thesis using dget_or_Some [OF 3(1)] by blast
  qed
qed

text \<open>\<open>from_class\<close>: every identifier of a node comes from a device with the same representative.\<close>

definition from_class :: "(string, topo_node) dict \<Rightarrow> string set \<Rightarrow> (string \<Rightarrow> string) \<Rightarrow> string \<Rightarrow> topo_node \<Rightarrow> bool" where
  "from_class nodes0 ids rt k n \<longleftrightarrow> n_kind n = DEVICE \<and> node_ok k n \<and>
     (\<forall>key v. map_of (n_identifiers n) key = Some v \<longrightarrow>
        (\<exists>m n0. m \<in> ids \<and> rt m = rt k \<and> map_of nodes0 m = Some n0 \<and> map_of (n_identifiers n0) key = Some v))"

definition merging :: "(string, topo_node) dict \<Rightarrow> string set \<Rightarrow> (string \<Rightarrow> string) \<Rightarrow> string set \<Rightarrow> (string, topo_node) dict \<Rightarrow> bool" where
  "merging nodes0 ids rt todo nodes \<longleftrightarrow> dict_ok nodes
     \<and> (\<forall>k. k \<notin> ids \<longrightarrow> map_of nodes k = map_of nodes0 k)
     \<and> (\<forall>k \<in> ids. if rt k = k \<or> k \<in> todo then \<exists>n. map_of nodes k = Some n \<and> from_class nodes0 ids rt k n
                    else map_of nodes k = None)"

lemma from_class_merge:
  assumes "from_class nodes0 ids rt a src" and "from_class nodes0 ids rt r dst" and "rt a = rt r"
  shows "from_class nodes0 ids rt r (merge_node src dst)"
  using assms unfolding from_class_def
  by (auto simp: merge_node_def node_ok_def map_of_setdefaults min_le_iff_disj le_max_iff_disj split: option.splits)

lemma merge_nodes_spec:
  assumes "merging nodes0 ids rt (set nids) nodes" and "distinct nids" and "set nids \<subseteq> ids"
    and "\<And>k. k \<in> ids \<Longrightarrow> map_of canon k = Some (rt k) \<and> rt k \<in> ids \<and> rt (rt k) = rt k"
  shows "\<exists>nodes'. merge_nodes canon nids nodes = Some nodes' \<and> merging nodes0 ids rt {} nodes'"
  using assms(1-3)
proof (induction nids arbitrary: nodes)
  case (Cons nid nids)
  note canon = assms(4)
  have nid: "nid \<in> ids" "dget_or canon nid nid = rt nid" "rt nid \<in> ids" "rt (rt nid) = rt nid"
    using Cons.prems(3) canon [of nid] by (auto simp: dget_or_def)
  show ?case
  proof (cases "rt nid = nid")
    case True
    have "merging nodes0 ids rt (set nids) nodes"
      using Cons.prems(1) True by (auto simp: merging_def split: if_splits)
    then show ?thesis using Cons.IH Cons.prems True nid(2) by simp
  next
    case False
    have at: "\<forall>k \<in> ids. if rt k = k \<or> k \<in> set (nid # nids) then \<exists>n. map_of nodes k = Some n \<and> from_class nodes0 ids rt k n
        else map_of nodes k = None"
      using Cons.prems(1) unfolding merging_def by blast
    obtain src dst where sd: "map_of nodes nid = Some src" "map_of nodes (rt nid) = Some dst"
      "from_class nodes0 ids rt nid src" "from_class nodes0 ids rt (rt nid) dst"
      using bspec [OF at nid(1)] bspec [OF at nid(3)] nid(4) by auto
    have fc: "from_class nodes0 ids rt (rt nid) (merge_node src dst)"
      using from_class_merge [OF sd(3,4)] nid(4) by simp
    let ?n = "ddel (dset nodes (rt nid) (merge_node src dst)) nid"
    have look: "map_of ?n k = (if k = nid then None else if k = rt nid then Some (merge_node src dst) else map_of nodes k)" for k
      using False by (simp add: map_of_ddel)
    have "merging nodes0 ids rt (set nids) ?n"
      using Cons.prems(1,2) nid False fc unfolding merging_def look by (auto split: if_splits)
    then show ?thesis using Cons.IH Cons.prems False nid(2) sd(1,2) by simp
  qed
qed simp

definition new_edges_ok :: "(string \<Rightarrow> string) \<Rightarrow> string \<Rightarrow> graph \<Rightarrow> (string, topo_edge) dict \<times> (string, string list) dict \<Rightarrow> bool" where
  "new_edges_ok H tenant g acc \<longleftrightarrow> dict_ok (fst acc) \<and>
     (\<forall>k e. map_of (fst acc) k = Some e \<longrightarrow>
        edge_ok H tenant k e \<and> e_src e \<noteq> e_dst e \<and> anchored g e \<and> dget_or (snd acc) k [] \<noteq> [])"

lemma merge_edges_spec:
  assumes "new_edges_ok H tenant g acc"
    and "\<And>k e. (k, e) \<in> set es \<Longrightarrow> e_first e \<le> e_last e \<and> dget_or old k [] \<noteq> []
           \<and> anchored g (redirect_edge H tenant canon e)"
  shows "new_edges_ok H tenant g (merge_edges H tenant canon old es acc)"
  using assms
proof (induction es arbitrary: acc)
  case (Cons p es)
  obtain k0 e0 where p: "p = (k0, e0)" by (cases p)
  obtain ne nv where acc: "acc = (ne, nv)" by (cases acc)
  let ?e = "redirect_edge H tenant canon e0"
  have e: "e_id ?e = edge_id H tenant (e_src ?e) (e_dst ?e) (e_type ?e) (e_layer ?e)" "e_first ?e \<le> e_last ?e"
    "anchored g ?e" "dget_or old k0 [] \<noteq> []"
    using Cons.prems(2) [of k0 e0] p by (simp_all add: redirect_edge_def Let_def)
  show ?case
  proof (cases "e_src ?e = e_dst ?e")
    case True
    have "new_edges_ok H tenant g (merge_edges H tenant canon old es acc)"
      using Cons.prems by (intro Cons.IH) auto
    then show ?thesis using True p acc by (simp add: Let_def)
  next
    case False
    let ?m = "case map_of ne (e_id ?e) of None \<Rightarrow> ?e
      | Some x \<Rightarrow> x\<lparr>e_first := min (e_first x) (e_first ?e), e_last := max (e_last x) (e_last ?e),
                    e_attrs := dupdate (e_attrs x) (e_attrs ?e)\<rparr>"
    let ?acc = "(dset ne (e_id ?e) ?m, dset nv (e_id ?e) (List.union (dget_or nv (e_id ?e) []) (dget_or old k0 [])))"
    have "edge_ok H tenant (e_id ?e) ?m \<and> e_src ?m \<noteq> e_dst ?m \<and> anchored g ?m"
      using Cons.prems(1) acc e False
      by (auto simp: new_edges_ok_def edge_ok_def anchored_def min_le_iff_disj le_max_iff_disj split: option.split)
    moreover have "List.union xs ys \<noteq> []" if "ys \<noteq> []" for xs ys :: "string list"
      using that by (metis Un_empty set_empty set_union)
    ultimately have "new_edges_ok H tenant g ?acc"
      using Cons.prems(1) acc e(4) by (auto simp: new_edges_ok_def dget_or_dset)
    then have "new_edges_ok H tenant g (merge_edges H tenant canon old es ?acc)"
      using Cons.prems(2) by (intro Cons.IH) auto
    then show ?thesis using False p acc by (simp add: Let_def)
  qed
qed simp

lemma device_ids_iff:
  "dict_ok nodes \<Longrightarrow> k \<in> set (device_ids nodes) \<longleftrightarrow> (\<exists>n. map_of nodes k = Some n \<and> n_kind n = DEVICE)"
  by (force simp: device_ids_def dict_ok_map_of)

lemma device_ids_distinct: "dict_ok nodes \<Longrightarrow> distinct (device_ids nodes)"
  by (auto simp: device_ids_def dict_ok_def distinct_map intro: inj_on_subset)

lemma fused_ids:
  assumes ok: "dict_ok nodes"
  defines "ids \<equiv> device_ids nodes"
  shows "\<exists>uf owners canon rt. fuse_devices nodes ids ([], []) = Some (uf, owners) \<and> canonical_ids ids uf [] = Some canon
    \<and> fst ` set canon = set ids
    \<and> (\<forall>k. map_of canon k = (if k \<in> set ids then Some (rt k) else None))
    \<and> (\<forall>k \<in> set ids. rt k \<in> set ids \<and> rt (rt k) = rt k \<and> same_device nodes (set ids) k (rt k))
    \<and> (\<forall>k \<in> set ids. \<forall>m. same_device nodes (set ids) k m \<longrightarrow> rt m = rt k \<and> rt k \<le> m)"
proof -
  have "fuse_inv nodes [] [] []"
    using uf_empty by (simp add: fuse_inv_def)
  moreover have sub: "set ids \<subseteq> dom (map_of nodes)"
    using ok by (auto simp: ids_def device_ids_iff)
  ultimately obtain uf owners ops where f: "fuse_devices nodes ids ([], []) = Some (uf, owners)"
    "fuse_inv nodes uf owners ops" "op_tokens ops = set ids"
    using fuse_devices_spec [of nodes "[]" "[]" "[]" ids] by auto
  have rep: "uf_ok uf" "represents root_loop uf ops" using f(2) by (simp_all add: fuse_inv_def)
  define rt where "rt k = the (root_loop uf k)" for k
  have root: "root_loop uf k = Some (rt k)" if "k \<in> set ids" for k
    using that rep(2) f(3) by (auto simp: represents_def rt_def)
  obtain canon where c: "canonical_ids ids uf [] = Some canon" "fst ` set canon = set ids"
    "\<And>x. map_of canon x = (if x \<in> set ids then root_loop uf x else None)"
    using canonical_ids_spec [OF rep(1), of ids "[]"] root by auto
  have same: "linked_by ops x y \<longleftrightarrow> same_device nodes (set ids) x y" for x y
    using fuse_inv_same_device [OF f(2)] f(3) by simp
  have cls: "same_device nodes (set ids) k (rt k)" if "k \<in> set ids" for k
    using rep(2) root [OF that] same by (auto simp: represents_def)
  have least: "rt m = rt k \<and> rt k \<le> m" if "k \<in> set ids" "same_device nodes (set ids) k m" for k m
    using represents_least [OF rep(2) root [OF that(1)]] that same_device_ids [OF that(2)] same
      represents_connected [OF rep(2), of k m] f(3) root by (metis option.inject)
  have "\<forall>k. map_of canon k = (if k \<in> set ids then Some (rt k) else None)"
    using c(3) root by simp
  moreover have "\<forall>k \<in> set ids. rt k \<in> set ids \<and> rt (rt k) = rt k \<and> same_device nodes (set ids) k (rt k)"
    using cls least same_device_ids by blast
  moreover have "\<forall>k \<in> set ids. \<forall>m. same_device nodes (set ids) k m \<longrightarrow> rt m = rt k \<and> rt k \<le> m"
    using least by blast
  ultimately show ?thesis
    using f(1) c(1,2) by (rule_tac exI [of _ uf], rule_tac exI [of _ owners], rule_tac exI [of _ canon], rule_tac exI [of _ rt]) blast
qed

text \<open>The contract of fusing.\<close>

definition fused :: "graph \<Rightarrow> graph \<Rightarrow> bool" where
  "fused g g' \<longleftrightarrow>
     (let ids = set (device_ids (g_nodes g)) in
      (\<forall>k. k \<notin> ids \<longrightarrow> map_of (g_nodes g') k = map_of (g_nodes g) k)
      \<and> (\<forall>k \<in> ids. has_node g' k \<longleftrightarrow> (\<forall>m. same_device (g_nodes g) ids k m \<longrightarrow> k \<le> m))
      \<and> (\<forall>k \<in> ids. \<forall>m \<in> ids. has_node g' k \<and> has_node g' m \<and> k \<noteq> m \<longrightarrow>
            tokens_at (g_nodes g') k \<inter> tokens_at (g_nodes g') m = {}))"

lemma merging_tokens:
  assumes m: "merging nodes ids rt {} nodes'" and k: "k \<in> ids" and tok: "tok \<in> tokens_at nodes' k"
  shows "\<exists>m \<in> ids. rt m = rt k \<and> tok \<in> tokens_at nodes m"
proof -
  obtain n where n: "map_of nodes' k = Some n" "tok \<in> set (device_identity_tokens n)"
    using tok by (auto simp: tokens_at_def split: option.splits)
  then have "from_class nodes ids rt k n"
    using m k by (auto simp: merging_def split: if_splits)
  moreover obtain key v where kv: "map_of (n_identifiers n) key = Some v"
    "\<And>m. map_of (n_identifiers m) key = Some v \<Longrightarrow> tok \<in> set (device_identity_tokens m)"
    using token_source [OF n(2)] by blast
  ultimately obtain m n0 where "m \<in> ids" "rt m = rt k" "map_of nodes m = Some n0" "map_of (n_identifiers n0) key = Some v"
    unfolding from_class_def by blast
  then show ?thesis using kv(2) by (auto simp: tokens_at_def)
qed

lemma merging_start:
  assumes ok: "graph_ok H tenant g" and ids: "ids = device_ids (g_nodes g)"
  shows "merging (g_nodes g) (set ids) rt (set ids) (g_nodes g)"
proof -
  have "\<exists>n. map_of (g_nodes g) k = Some n \<and> from_class (g_nodes g) (set ids) rt k n" if "k \<in> set ids" for k
    using that ok ids unfolding from_class_def by (fastforce simp: graph_ok_def device_ids_iff)
  then show ?thesis using ok by (simp add: merging_def graph_ok_def)
qed

lemma merge_devices_spec:
  assumes ok: "graph_ok H tenant g"
  shows "\<exists>g'. merge_devices H tenant g = Some g' \<and> graph_ok H tenant g' \<and> fused g g'"
proof -
  let ?nodes = "g_nodes g" and ?ids = "device_ids (g_nodes g)"
  have dok: "dict_ok ?nodes" using ok by (simp add: graph_ok_def)
  obtain uf owners canon rt where f0: "fuse_devices ?nodes ?ids ([], []) = Some (uf, owners)
      \<and> canonical_ids ?ids uf [] = Some canon \<and> fst ` set canon = set ?ids
      \<and> (\<forall>k. map_of canon k = (if k \<in> set ?ids then Some (rt k) else None))
      \<and> (\<forall>k \<in> set ?ids. rt k \<in> set ?ids \<and> rt (rt k) = rt k \<and> same_device ?nodes (set ?ids) k (rt k))
      \<and> (\<forall>k \<in> set ?ids. \<forall>m. same_device ?nodes (set ?ids) k m \<longrightarrow> rt m = rt k \<and> rt k \<le> m)"
    using fused_ids [OF dok] by (elim exE) (rule that)
  then have f: "fuse_devices ?nodes ?ids ([], []) = Some (uf, owners)"
    "canonical_ids ?ids uf [] = Some canon" "fst ` set canon = set ?ids"
    "\<And>k. map_of canon k = (if k \<in> set ?ids then Some (rt k) else None)"
    "\<And>k. k \<in> set ?ids \<Longrightarrow> rt k \<in> set ?ids \<and> rt (rt k) = rt k \<and> same_device ?nodes (set ?ids) k (rt k)"
    "\<And>k m. k \<in> set ?ids \<Longrightarrow> same_device ?nodes (set ?ids) k m \<Longrightarrow> rt m = rt k \<and> rt k \<le> m"
    by simp_all
  have share: "rt a = rt b" if "a \<in> set ?ids" "b \<in> set ?ids" "tok \<in> tokens_at ?nodes a" "tok \<in> tokens_at ?nodes b" for a b tok
    using f(6) [OF that(1), of b] same_device.shared [of a "set ?ids" b ?nodes] that by fastforce
  have kept: "rt k = k \<longleftrightarrow> (\<forall>m. same_device ?nodes (set ?ids) k m \<longrightarrow> k \<le> m)" if "k \<in> set ?ids" for k
    using f(5) [OF that] f(6) [OF that] same_device.itself [OF that, of ?nodes] by (metis order_antisym)
  obtain nodes where n: "merge_nodes canon ?ids ?nodes = Some nodes" "merging ?nodes (set ?ids) rt {} nodes"
    using merge_nodes_spec [OF merging_start [OF ok refl] device_ids_distinct [OF dok] subset_refl, of canon rt] f(4,5)
    by auto
  have look: "map_of nodes k = None \<longleftrightarrow> rt k \<noteq> k" if "k \<in> set ?ids" for k
    using n(2) that by (auto simp: merging_def split: if_splits)
  have disjoint: "tokens_at nodes k \<inter> tokens_at nodes m = {}"
    if "k \<in> set ?ids" "m \<in> set ?ids" "rt k = k" "rt m = m" "k \<noteq> m" for k m
    using merging_tokens [OF n(2)] that share by (metis disjoint_iff)
  show ?thesis
  proof (cases "\<forall>p \<in> set canon. snd p = fst p")
    case True
    have id: "rt k = k" if "k \<in> set ?ids" for k
      using True f(4) [of k] that map_of_SomeD [of canon k "rt k"] by force
    have "fused g g"
      unfolding fused_def Let_def
      using kept id share by (auto simp: has_node_def device_ids_iff [OF dok])
    then show ?thesis using True f(1,2) ok by (auto simp: merge_devices_def Let_def)
  next
    case False
    obtain es ev where e: "merge_edges H tenant canon (g_evidence g) (g_edges g) ([], []) = (es, ev)"
      by (cases "merge_edges H tenant canon (g_evidence g) (g_edges g) ([], [])")
    let ?g = "\<lparr>g_nodes = nodes, g_edges = es, g_evidence = ev\<rparr>"
    have target: "has_node ?g (dget_or canon k k)" if "has_node g k" for k
    proof (cases "k \<in> set ?ids")
      case True
      then show ?thesis using f(4,5) [of k] look [of "rt k"] by (simp add: has_node_def dget_or_def)
    next
      case out: False
      then show ?thesis using that n(2) f(4) [of k] by (simp add: has_node_def dget_or_def merging_def)
    qed
    have edges: "new_edges_ok H tenant ?g (es, ev)"
    proof (subst e [symmetric], rule merge_edges_spec)
      show "new_edges_ok H tenant ?g ([], [])" by (simp add: new_edges_ok_def)
      fix k edge assume "(k, edge) \<in> set (g_edges g)"
      then have "map_of (g_edges g) k = Some edge" using ok by (simp add: graph_ok_def dict_ok_def)
      then have "edge_ok H tenant k edge" "anchored g edge" "dget_or (g_evidence g) k [] \<noteq> []"
        using ok by (simp_all add: graph_ok_def)
      then show "e_first edge \<le> e_last edge \<and> dget_or (g_evidence g) k [] \<noteq> []
          \<and> anchored ?g (redirect_edge H tenant canon edge)"
        using target by (simp add: edge_ok_def anchored_def redirect_edge_def Let_def)
    qed
    have "node_ok k nd" if "map_of nodes k = Some nd" for k nd
      using that n(2) ok by (cases "k \<in> set ?ids") (auto simp: merging_def from_class_def graph_ok_def split: if_splits)
    then have "graph_ok H tenant ?g"
      using edges n(2) by (simp add: graph_ok_def new_edges_ok_def merging_def)
    moreover have "fused g ?g"
      unfolding fused_def Let_def
      using kept look disjoint n(2) by (auto simp: has_node_def merging_def)
    moreover have "merge_devices H tenant g = Some ?g"
      using False f(1,2) n(1) e by (auto simp: merge_devices_def Let_def)
    ultimately show ?thesis by blast
  qed
qed

section \<open>The result\<close>

definition out_ok :: "graph \<Rightarrow> bool" where
  "out_ok g \<longleftrightarrow> dict_ok (g_nodes g) \<and> dict_ok (g_edges g)
     \<and> (\<forall>k n. map_of (g_nodes g) k = Some n \<longrightarrow> n_id n = k)
     \<and> (\<forall>k e. map_of (g_edges g) k = Some e \<longrightarrow> e_id e = k \<and> anchored g e)"

lemma map_of_keyed: "map_of (map (\<lambda>(k, v). (k, f k v)) d) k = map_option (f k) (map_of d k)"
  by (induction d) auto

lemma finish_out_ok:
  assumes "graph_ok H tenant g"
  shows "out_ok (finish_edges g)"
proof -
  have look: "map_of (g_edges (finish_edges g)) k = map_option (finish_edge g k) (map_of (g_edges g) k)" for k
    using map_of_keyed [of "finish_edge g"] by (simp add: finish_edges_def)
  have "map fst (g_edges (finish_edges g)) = map fst (g_edges g)" by (simp add: finish_edges_def case_prod_unfold)
  then have "dict_ok (g_edges (finish_edges g))" using assms by (simp add: graph_ok_def dict_ok_def)
  moreover have "e_id e = k \<and> anchored (finish_edges g) e" if e: "map_of (g_edges (finish_edges g)) k = Some e" for k e
  proof -
    obtain e0 where e0: "map_of (g_edges g) k = Some e0" "e = finish_edge g k e0"
      using e unfolding look by blast
    then have "e_id e0 = k" "anchored g e0" using assms by (simp_all add: graph_ok_def edge_ok_def)
    then show ?thesis
      unfolding e0(2) by (simp add: finish_edge_def Let_def anchored_def has_node_def finish_edges_def)
  qed
  moreover have "g_nodes (finish_edges g) = g_nodes g" by (simp add: finish_edges_def)
  ultimately show ?thesis using assms by (simp add: out_ok_def graph_ok_def node_ok_def)
qed

lemma touch_endpoint_node [simp]: "has_node (touch_endpoint tenant t k g) x \<longleftrightarrow> x = k \<or> has_node g x"
  by (auto simp: touch_endpoint_def dhas_def) (simp add: has_node_def)

lemma touch_endpoint_edges [simp]: "g_edges (touch_endpoint tenant t k g) = g_edges g"
  by (simp add: touch_endpoint_def)

text \<open>Touching an end point adds a node or does nothing.\<close>

lemma touch_endpoint_lookup:
  "map_of (g_nodes (touch_endpoint tenant t k g)) x =
     (if x = k \<and> map_of (g_nodes g) k = None
      then Some \<lparr>n_id = k, n_tenant = tenant, n_kind = HOST, n_name = [], n_identifiers = [], n_first = t, n_last = t,
             n_attrs = [(''unresolved'', ''l3_only'')]\<rparr>
      else map_of (g_nodes g) x)"
  by (auto simp: touch_endpoint_def dhas_def touch_node_def upd_node_def set_attr_def)

lemma touch_endpoint_dict: "dict_ok (g_nodes g) \<Longrightarrow> dict_ok (g_nodes (touch_endpoint tenant t k g))"
  by (auto simp: touch_endpoint_def touch_node_def upd_node_def split: option.split)

lemma touch_endpoint_ok: "out_ok g \<Longrightarrow> out_ok (touch_endpoint tenant t k g)"
  using anchored_mono [of g _ "touch_endpoint tenant t k g"]
  by (auto simp: out_ok_def touch_endpoint_dict touch_endpoint_lookup split: if_splits)

lemma add_flow_edge_ok: "out_ok g \<Longrightarrow> out_ok (add_flow_edge tenant g fe)"
proof -
  assume ok: "out_ok g"
  let ?g = "touch_endpoint tenant (e_first fe) (e_dst fe) (touch_endpoint tenant (e_first fe) (e_src fe) g)"
  have "out_ok ?g" using ok by (simp add: touch_endpoint_ok)
  moreover have "anchored ?g fe" by (simp add: anchored_def)
  ultimately show ?thesis
    unfolding add_flow_edge_def Let_def out_ok_def by (auto simp: anchored_def split: if_splits)
qed

lemma add_flow_edges_ok: "out_ok g \<Longrightarrow> out_ok (foldl (add_flow_edge tenant) g fes)"
  by (induction fes arbitrary: g) (simp_all add: add_flow_edge_ok)

lemma add_flow_edges_devices:
  "(\<forall>k n. map_of (g_nodes (foldl (add_flow_edge tenant) g fes)) k = Some n \<longrightarrow>
      n_kind n = HOST \<or> map_of (g_nodes g) k = Some n)
   \<and> (\<forall>k n. map_of (g_nodes g) k = Some n \<longrightarrow> map_of (g_nodes (foldl (add_flow_edge tenant) g fes)) k = Some n)"
proof (induction fes arbitrary: g)
  case (Cons fe fes)
  have "map_of (g_nodes (add_flow_edge tenant g fe)) k = Some n \<Longrightarrow> n_kind n = HOST \<or> map_of (g_nodes g) k = Some n"
    and "map_of (g_nodes g) k = Some n \<Longrightarrow> map_of (g_nodes (add_flow_edge tenant g fe)) k = Some n" for k n
    by (auto simp: add_flow_edge_def Let_def touch_endpoint_lookup split: if_splits)
  then show ?case using Cons.IH [of "add_flow_edge tenant g fe"] by (metis foldl_Cons)
qed simp

lemma add_flow_edge_key: "fst ` set (g_edges (add_flow_edge tenant g fe)) = insert (e_id fe) (fst ` set (g_edges g))"
  by (simp add: add_flow_edge_def Let_def keys_dset)

lemma add_flow_edges_keys:
  "fst ` set (g_edges (foldl (add_flow_edge tenant) g fes)) = fst ` set (g_edges g) \<union> e_id ` set fes"
  by (induction fes arbitrary: g) (auto simp: add_flow_edge_key)

lemma add_flow_edge_has: "has_node (add_flow_edge tenant g fe) k \<longleftrightarrow> k = e_src fe \<or> k = e_dst fe \<or> has_node g k"
  by (auto simp: add_flow_edge_def Let_def)

lemma flow_edge_nodes:
  "fe \<in> set fes \<Longrightarrow> has_node (foldl (add_flow_edge tenant) g fes) (e_src fe)
     \<and> has_node (foldl (add_flow_edge tenant) g fes) (e_dst fe)"
proof (induction fes arbitrary: g)
  case (Cons f fes)
  have "has_node g k \<Longrightarrow> has_node (foldl (add_flow_edge tenant) g fes) k" for g k
    by (induction fes arbitrary: g) (simp_all add: add_flow_edge_has)
  then show ?case using Cons by (auto simp: add_flow_edge_has)
qed simp

lemma values_by_key:
  "dict_ok d \<Longrightarrow> (\<And>k v. map_of d k = Some v \<Longrightarrow> f v = k) \<Longrightarrow> map f (dvalues d) = dkeys d"
  by (auto simp: dict_ok_def)

lemma value_known: "dict_ok d \<Longrightarrow> v \<in> set (dvalues d) \<Longrightarrow> \<exists>k. map_of d k = Some v"
  by (auto simp: dict_ok_def)

lemma out_node: "out_ok g \<Longrightarrow> has_node g k \<Longrightarrow> k \<in> n_id ` set (dvalues (g_nodes g))"
proof -
  assume ok: "out_ok g" and "has_node g k"
  then obtain n where n: "map_of (g_nodes g) k = Some n" by (auto simp: has_node_def)
  have "n_id n = k" using ok n by (simp add: out_ok_def)
  moreover have "n \<in> set (dvalues (g_nodes g))" using map_of_SomeD [OF n] by force
  ultimately show ?thesis by blast
qed

lemma resolve_graph_spec:
  "\<exists>g g'. merge_devices H tenant (foldl (\<lambda>g ob. resolve_obs H tenant ob g) empty_graph obs) = Some g
     \<and> g' = foldl (add_flow_edge tenant) (finish_edges g) fes
     \<and> resolve_graph H obs fes tenant = Some (dvalues (g_nodes g'), dvalues (g_edges g'))
     \<and> out_ok g' \<and> fused (foldl (\<lambda>g ob. resolve_obs H tenant ob g) empty_graph obs) g"
proof -
  obtain g where g: "merge_devices H tenant (foldl (\<lambda>g ob. resolve_obs H tenant ob g) empty_graph obs) = Some g"
    "graph_ok H tenant g" "fused (foldl (\<lambda>g ob. resolve_obs H tenant ob g) empty_graph obs) g"
    using merge_devices_spec [OF resolve_all_ok [OF graph_ok_empty]] by blast
  then show ?thesis
    by (simp add: resolve_graph_def Let_def add_flow_edges_ok [OF finish_out_ok [OF g(2)]])
qed

section \<open>Properties\<close>


definition sample_obs :: "string \<Rightarrow> string \<Rightarrow> string \<Rightarrow> observation" where
  "sample_obs ty name mac = \<lparr>o_observed_at = ''2026-01-01'', o_collector = ''unifi'', o_source_device = ''gw'',
     o_layer = ''l2'', o_type = ty, o_subj_kind = ''host'', o_subj_id = ''mac:aa'', o_obj_kind = ''device'',
     o_obj_id = ''dev:'' @ name, o_attrs = [(''name'', name), (''mac'', mac)], o_raw = [], o_tenant_id = ''t''\<rparr>"

definition sample_graph :: graph where
  "sample_graph = foldl (\<lambda>g ob. resolve_obs (\<lambda>x. x) ''t'' ob g) empty_graph
     [sample_obs ''device_inventory'' ''sw1'' ''M1'', sample_obs ''device_inventory'' ''sw2'' ''m1'',
      sample_obs ''mac_entry'' ''sw2'' []]"




text \<open>The end points of flow edges enter the graph as hosts, whatever they are.  From flows alone every
  node the resolver returns has the kind \<open>host\<close>, although a flow with a rule or a zone contributes
  edges to a rule or zone node, and an edge that leaves the id of the \<open>talked_to\<close> edge.\<close>

theorem flow_endpoints_become_hosts:
  assumes "resolve_graph H [] (flow_to_edges H rows tenant) tenant = Some (ns, es)"
  shows "(\<forall>n \<in> set ns. n_kind n = HOST)
    \<and> (\<forall>row \<in> set rows. f_rule row \<noteq> [] \<longrightarrow>
         node_id H tenant RULE (f_provider row @ '':'' @ f_rule row) \<in> n_id ` set ns
       \<and> e_id (hd (row_edges H tenant row)) \<in> n_id ` set ns)"
proof -
  obtain g g' where g: "merge_devices H tenant empty_graph = Some g"
    "g' = foldl (add_flow_edge tenant) (finish_edges g) (flow_to_edges H rows tenant)"
    "ns = dvalues (g_nodes g')" "es = dvalues (g_edges g')" "out_ok g'"
    using resolve_graph_spec [of H tenant "[]" "flow_to_edges H rows tenant"] assms by auto
  have nodes: "g_nodes (finish_edges g) = []"
    using g(1) by (simp add: merge_devices_def empty_graph_def device_ids_def finish_edges_def Let_def)
      (metis graph.select_convs(1))
  have "n_kind n = HOST" if "n \<in> set ns" for n
    using that g(2,3,5) value_known [of "g_nodes g'" n] nodes
      add_flow_edges_devices [of tenant "finish_edges g" "flow_to_edges H rows tenant"] by (auto simp: out_ok_def)
  moreover have "e_src e \<in> n_id ` set ns \<and> e_dst e \<in> n_id ` set ns"
    if "row \<in> set rows" "e \<in> set (row_edges H tenant row)" for row e
  proof -
    have "e \<in> set (flow_to_edges H rows tenant)" using that by (auto simp: flow_to_edges_def)
    then have "has_node g' (e_src e) \<and> has_node g' (e_dst e)"
      unfolding g(2) by (rule flow_edge_nodes)
    then show ?thesis unfolding g(3) using out_node [OF g(5)] by blast
  qed
  ultimately show ?thesis
    by (fastforce simp: row_edges_def Let_def flow_edge_def)
qed

definition sample_flow :: flow_row where
  "sample_flow = \<lparr>f_src_ip = ''10.0.0.1'', f_dst_ip = ''10.0.0.2'', f_bytes = ''10'', f_flows = ''1'', f_rule = ''allow-web'',
     f_ingress = [], f_egress = [], f_provider = ''junos'', f_first = ''a'', f_last = ''b''\<rparr>"

lemma flow_endpoints_become_hosts_witness:
  "\<exists>ns es. resolve_graph (\<lambda>x. x) [] (flow_to_edges (\<lambda>x. x) [sample_flow] ''t'') ''t'' = Some (ns, es)
     \<and> node_id (\<lambda>x. x) ''t'' RULE ''junos:allow-web'' \<in> n_id ` set ns \<and> (\<forall>n \<in> set ns. n_kind n = HOST)"
proof -
  obtain ns es where r: "resolve_graph (\<lambda>x. x) [] (flow_to_edges (\<lambda>x. x) [sample_flow] ''t'') ''t'' = Some (ns, es)"
    using resolve_graph_spec [of "\<lambda>x. x" "''t''" "[]" "flow_to_edges (\<lambda>x. x) [sample_flow] ''t''"] by blast
  from flow_endpoints_become_hosts [OF r] r show ?thesis by (auto simp: sample_flow_def)
qed

end
