(* ===== verification/TopoCollectors.thy ===== *)
theory TopoCollectors
  imports Topo Sql Common Xml Regex
begin

text \<open>
  The topology collectors (\<open>ssdf_topo/collectors\<close>), which turn what the vendors answer into observations, and
  the resolver's run over the stored observations (\<open>chwriter.py\<close>, \<open>resolve_main.py\<close>).  A call of an MCP server is
  a parameter, \<open>Inl\<close> when it raises; an exception of a parser is \<open>Inl\<close> with its name.
\<close>

section \<open>Observations\<close>

definition new_obs ::
  "string \<Rightarrow> string \<Rightarrow> string \<Rightarrow> string \<Rightarrow> string \<Rightarrow> string \<times> string \<Rightarrow> string \<times> string \<Rightarrow> attrs \<Rightarrow> string \<Rightarrow> observation" where
  "new_obs now collector device layer otype subj obj a raw =
     \<lparr>o_observed_at = now, o_collector = collector, o_source_device = device, o_layer = layer, o_type = otype,
      o_subj_kind = fst subj, o_subj_id = snd subj, o_obj_kind = fst obj, o_obj_id = snd obj, o_attrs = a, o_raw = raw,
      o_tenant_id = ''t_main''\<rparr>"

definition firewall_inventory :: "string \<Rightarrow> string \<Rightarrow> string \<Rightarrow> observation" where
  "firewall_inventory collector device now =
     new_obs now collector device ''l2'' ''device_inventory'' (''device'', ''device:'' @ device) ([], [])
       [(''role'', ''firewall''), (''name'', device)] []"

section \<open>Junos\<close>

definition trimmed_lines :: "string \<Rightarrow> string list" where
  "trimmed_lines tx = filter (\<lambda>l. strip l \<noteq> []) (splitlines tx)"

definition arp_line :: "string \<Rightarrow> string \<Rightarrow> string \<Rightarrow> observation list" where
  "arp_line device now line =
     (let s = strip line; tokens = py_words s in
      if startswith s ''MAC Address'' \<or> startswith s ''Total entries'' \<or> length tokens < 3 then []
      else [new_obs now ''junos'' device ''l3'' ''arp_entry'' (''host'', ''ip:'' @ tokens ! 1) (''host'', ''mac:'' @ lower (tokens ! 0))
              [(''interface'', tokens ! 2)] line])"

definition parse_arp :: "string \<Rightarrow> string \<Rightarrow> string \<Rightarrow> observation list" where
  "parse_arp tx device now = concat (map (arp_line device now) (trimmed_lines tx))"

definition lldp_line :: "string \<Rightarrow> string \<Rightarrow> string \<Rightarrow> observation list" where
  "lldp_line device now line =
     (let s = strip line; tokens = py_words s in
      if startswith s ''Local Interface'' \<or> length tokens < 4 then []
      else
        (let remote_system = last (drop 3 tokens); remote_port = join '' '' (butlast (drop 3 tokens)) in
         [new_obs now ''junos'' device ''l2'' ''lldp_neighbor'' (''interface'', ''if:'' @ device @ '':'' @ tokens ! 0)
            (''interface'', ''if:'' @ remote_system @ '':'' @ str_or remote_port ''unknown'')
            [(''local_port'', tokens ! 0), (''remote_port'', remote_port), (''remote_system'', remote_system),
             (''remote_chassis'', tokens ! 2)] line]))"

definition parse_lldp_neighbors :: "string \<Rightarrow> string \<Rightarrow> string \<Rightarrow> observation list" where
  "parse_lldp_neighbors tx device now = concat (map (lldp_line device now) (trimmed_lines tx))"

definition MAC_ITEMS :: "rxi list" where
  "MAC_ITEMS = Times 2 hex_char # concat (replicate 5 [Text '':'', Times 2 hex_char])"

definition mac_line :: "string \<Rightarrow> string \<Rightarrow> string \<Rightarrow> observation list" where
  "mac_line device now line =
     (let tokens = py_words (strip line) in
      if length tokens < 5 then []
      else if re_match (MAC_ITEMS @ [Eol]) (tokens ! 1) = None then []
      else [new_obs now ''junos'' device ''l2'' ''mac_entry'' (''host'', ''mac:'' @ lower (tokens ! 1)) (''device'', ''device:'' @ device)
              [(''vlan'', tokens ! 0), (''port'', tokens ! 4)] line])"

definition parse_mac_table :: "string \<Rightarrow> string \<Rightarrow> string \<Rightarrow> observation list" where
  "parse_mac_table tx device now = concat (map (mac_line device now) (trimmed_lines tx))"

definition LLDP_CMD :: string where "LLDP_CMD = ''show lldp neighbors''"

definition JUNOS_PROBES :: "(string \<times> (string \<Rightarrow> string \<Rightarrow> string \<Rightarrow> observation list)) list" where
  "JUNOS_PROBES = [(''show ethernet-switching table'', parse_mac_table), (''show arp no-resolve'', parse_arp)]"

definition collect_junos_device :: "(string \<Rightarrow> string \<Rightarrow> string + string) \<Rightarrow> string \<Rightarrow> string \<Rightarrow> observation list" where
  "collect_junos_device call now dev =
     (case call dev LLDP_CMD of
        Inl exc \<Rightarrow> []
      | Inr lldp \<Rightarrow>
          firewall_inventory ''junos'' dev now # parse_lldp_neighbors lldp dev now
          @ concat (map (\<lambda>(cmd, parser). case call dev cmd of Inl exc \<Rightarrow> [] | Inr tx \<Rightarrow> parser tx dev now) JUNOS_PROBES))"

definition collect_junos_topo :: "(string \<Rightarrow> string \<Rightarrow> string + string) \<Rightarrow> string \<Rightarrow> string list \<Rightarrow> observation list" where
  "collect_junos_topo call now devices = concat (map (collect_junos_device call now) devices)"

section \<open>PAN-OS\<close>

text \<open>The parser and the serialiser of XML are parameters.\<close>

record xml_codec =
  xc_parse :: "string \<Rightarrow> xml option"
  xc_print :: "xml \<Rightarrow> string"

definition MAX_OUTPUT_BYTES :: int where "MAX_OUTPUT_BYTES = 5 * 1024 * 1024"

definition topo_entries :: "xml_codec \<Rightarrow> string \<Rightarrow> xml list" where
  "topo_entries xc tx = (case xc_parse xc (unwrap_mcp_text tx) of None \<Rightarrow> [] | Some e \<Rightarrow> tagged ''entry'' (descendants e))"

definition arp_entry :: "xml_codec \<Rightarrow> string \<Rightarrow> string \<Rightarrow> xml \<Rightarrow> observation list" where
  "arp_entry xc device now e =
     (let ip = child_text e ''ip''; mac = lower (child_text e ''mac'') in
      if ip = [] \<or> mac = [] \<or> mac = ''(incomplete)'' \<or> mac = ''incomplete'' then []
      else [new_obs now ''panos'' device ''l3'' ''arp_entry'' (''host'', ''ip:'' @ ip) (''host'', ''mac:'' @ mac)
              [(''interface'', child_text e ''interface'')] (xc_print xc e)])"

definition parse_arp_xml :: "xml_codec \<Rightarrow> string \<Rightarrow> string \<Rightarrow> string \<Rightarrow> observation list" where
  "parse_arp_xml xc tx device now = concat (map (arp_entry xc device now) (topo_entries xc tx))"

definition lldp_entry :: "xml_codec \<Rightarrow> string \<Rightarrow> string \<Rightarrow> xml \<Rightarrow> observation list" where
  "lldp_entry xc device now e =
     (let local_port = str_or (child_text e ''local-port'') (x_get e ''name''); remote_sys = child_text e ''system-name'';
          remote_port = str_or (child_text e ''port-id'') (child_text e ''port-description'') in
      if local_port = [] \<or> remote_sys = [] \<and> remote_port = [] then []
      else [new_obs now ''panos'' device ''l2'' ''lldp_neighbor'' (''interface'', ''if:'' @ device @ '':'' @ local_port)
              (''interface'', ''if:'' @ str_or remote_sys ''unknown'' @ '':'' @ remote_port)
              [(''local_port'', local_port), (''remote_port'', remote_port), (''remote_system'', remote_sys)] (xc_print xc e)])"

definition parse_lldp_xml :: "xml_codec \<Rightarrow> string \<Rightarrow> string \<Rightarrow> string \<Rightarrow> observation list" where
  "parse_lldp_xml xc tx device now = concat (map (lldp_entry xc device now) (topo_entries xc tx))"

definition PANOS_PROBES :: "(string \<times> (xml_codec \<Rightarrow> string \<Rightarrow> string \<Rightarrow> string \<Rightarrow> observation list)) list" where
  "PANOS_PROBES =
     [(''<show><lldp><neighbors>all</neighbors></lldp></show>'', parse_lldp_xml),
      (''<show><arp><entry name='' @ [CHR 0x27] @ ''all'' @ [CHR 0x27] @ ''/></arp></show>'', parse_arp_xml)]"

type_synonym tool_call = "string \<Rightarrow> (string, pyval) dict \<Rightarrow> string + string"

definition panos_probe ::
  "xml_codec \<Rightarrow> tool_call \<Rightarrow> string \<Rightarrow> string \<Rightarrow> string \<times> (xml_codec \<Rightarrow> string \<Rightarrow> string \<Rightarrow> string \<Rightarrow> observation list) \<Rightarrow> string + observation list" where
  "panos_probe xc call now device probe =
     bind_sum (call ''execute_panos_op'' [(''device'', PStr device), (''command'', PStr (fst probe)), (''max_bytes'', PInt MAX_OUTPUT_BYTES)])
       (\<lambda>tx. Inr (if envelope_truncated tx then [] else snd probe xc tx device now))"

definition collect_panos_topo :: "xml_codec \<Rightarrow> tool_call \<Rightarrow> string \<Rightarrow> string \<Rightarrow> string + observation list" where
  "collect_panos_topo xc call now device =
     bind_sum (concat_sum (panos_probe xc call now device) PANOS_PROBES) (\<lambda>obs. Inr (obs @ [firewall_inventory ''panos'' device now]))"

section \<open>Proxmox\<close>

text \<open>A VM of the listing; its configuration is fetched afterwards, when its node is known.\<close>

record pve_vm =
  vm_name :: string
  vm_vmid :: string
  vm_node :: string
  vm_status :: string
  vm_config :: "pyval option"

definition VM_HEADER_RE :: "rxi list" where
  "VM_HEADER_RE = [Text ''[vm]'', Plus is_space, Group [Lazy any_char], Plus is_space, Text ''(ID:'', Star is_space,
     Group [Plus is_digit], Text '')'']"
definition NODE_RE :: "rxi list" where "NODE_RE = [Text ''-'', Star is_space, Text ''Node:'', Star is_space, Group [Plus not_space]]"
definition VM_STATUS_RE :: "rxi list" where
  "VM_STATUS_RE = [Text ''-'', Star is_space, Text ''Status:'', Star is_space, Group [Plus not_space]]"

definition vm_line :: "pve_vm list \<times> pve_vm option \<Rightarrow> string \<Rightarrow> pve_vm list \<times> pve_vm option" where
  "vm_line s line =
     (case s of (vms, current) \<Rightarrow>
        case re_match VM_HEADER_RE line of
          Some (_, [name, vmid]) \<Rightarrow>
            (vms @ (case current of None \<Rightarrow> [] | Some vm \<Rightarrow> [vm]),
             Some \<lparr>vm_name = name, vm_vmid = vmid, vm_node = [], vm_status = [], vm_config = None\<rparr>)
        | _ \<Rightarrow>
            (case current of
               None \<Rightarrow> s
             | Some vm \<Rightarrow>
                 (case re_search NODE_RE line of
                    Some (_, [n]) \<Rightarrow> (vms, Some (vm\<lparr>vm_node := n\<rparr>))
                  | _ \<Rightarrow>
                      (case re_search VM_STATUS_RE line of
                         Some (_, [st]) \<Rightarrow> (vms, Some (vm\<lparr>vm_status := st\<rparr>))
                       | _ \<Rightarrow> s))))"

definition vms_from_text :: "string \<Rightarrow> pve_vm list" where
  "vms_from_text tx =
     (case foldl vm_line ([], None) (splitlines tx) of (vms, current) \<Rightarrow> vms @ (case current of None \<Rightarrow> [] | Some vm \<Rightarrow> [vm]))"

definition vm_summary :: "pve_vm \<Rightarrow> pyval" where
  "vm_summary vm = PDict [(''vmid'', PStr (vm_vmid vm)), (''name'', PStr (vm_name vm)), (''node'', PStr (vm_node vm)), (''status'', PStr (vm_status vm))]"

definition nic_step :: "string \<times> string \<Rightarrow> string \<Rightarrow> string \<times> string" where
  "nic_step s part =
     (case split_first ''='' part of
        None \<Rightarrow> s
      | Some (key, val) \<Rightarrow>
          if strip key = ''bridge'' then (strip val, snd s)
          else if strip key = ''tag'' then (fst s, strip val) else s)"

text \<open>\<open>parse_vm_nic\<close>: MAC, bridge and VLAN.\<close>

definition parse_vm_nic :: "string \<Rightarrow> string \<times> string \<times> string" where
  "parse_vm_nic nic =
     ((case re_search [Group MAC_ITEMS] nic of Some (_, [mac]) \<Rightarrow> lower mac | _ \<Rightarrow> []),
      foldl nic_step ([], []) (split_on CHR '','' nic))"

definition nic_obs :: "string \<Rightarrow> pve_vm \<Rightarrow> string \<times> pyval \<Rightarrow> observation list" where
  "nic_obs now vm kv =
     (if \<not> startswith (fst kv) ''net'' then []
      else
        (let val = py_str (snd kv); (mac, bridge, vlan) = parse_vm_nic val; vmid = strip (vm_vmid vm) in
         if mac = [] then []
         else [new_obs now ''proxmox'' (vm_node vm) ''l2'' ''vm_nic'' (''host'', ''mac:'' @ mac)
                 (''device'', ''device:'' @ vm_node vm @ '':'' @ bridge)
                 [(''bridge'', bridge), (''vlan'', vlan), (''vmid'', vmid), (''vm'', ''vm:'' @ vm_node vm @ ''/'' @ vmid), (''name'', vm_name vm)]
                 val]))"

definition vm_items :: "pve_vm \<Rightarrow> string + (string \<times> pyval) list" where
  "vm_items vm = (case or_falsy (vm_config vm) (PDict []) of PDict d \<Rightarrow> Inr d | _ \<Rightarrow> Inl ''AttributeError'')"

definition vm_obs :: "string \<Rightarrow> pve_vm \<Rightarrow> string + observation list" where
  "vm_obs now vm =
     (let vmid = strip (vm_vmid vm) in
      if vmid = [] then Inr []
      else bind_sum (vm_items vm) (\<lambda>items. Inr (
          new_obs now ''proxmox'' (vm_node vm) ''virt'' ''vm_host'' (''device'', ''device:'' @ vm_node vm)
            (''host'', ''vm:'' @ vm_node vm @ ''/'' @ vmid) [(''vmid'', vmid), (''name'', vm_name vm)] (json_dumps json_default (vm_summary vm))
          # concat (map (nic_obs now vm) items))))"

definition parse_vms :: "pve_vm list \<Rightarrow> string \<Rightarrow> string + observation list" where
  "parse_vms vms now = concat_sum (vm_obs now) vms"

definition fetch_config :: "tool_call \<Rightarrow> pve_vm \<Rightarrow> string + pve_vm" where
  "fetch_config call vm =
     (if vm_node vm = [] then Inr vm
      else bind_sum (call ''get_vm_config'' [(''node'', PStr (vm_node vm)), (''vmid'', PStr (vm_vmid vm))]) (\<lambda>tx.
        Inr (vm\<lparr>vm_config := Some (case json_loads tx of None \<Rightarrow> PDict [] | Some v \<Rightarrow> v)\<rparr>)))"

definition collect_proxmox :: "tool_call \<Rightarrow> string \<Rightarrow> string + observation list" where
  "collect_proxmox call now =
     bind_sum (call ''get_vms'' []) (\<lambda>tx.
       bind_sum (concat_sum (\<lambda>vm. bind_sum (fetch_config call vm) (\<lambda>v. Inr [v])) (vms_from_text tx)) (\<lambda>vms. parse_vms vms now))"

section \<open>UniFi\<close>

definition ENVELOPE_KEYS :: "string list" where
  "ENVELOPE_KEYS = [''result'', ''data'', ''clients'', ''devices'', ''items'']"

definition CLIENT_RAW_FIELDS :: "string list" where
  "CLIENT_RAW_FIELDS = [''mac'', ''ip'', ''hostname'', ''is_wired'', ''is_guest'', ''sw_mac'', ''ap_mac'', ''vlan'', ''sw_port'',
     ''network'', ''essid'', ''oui'']"

definition DEVICE_RAW_FIELDS :: "string list" where
  "DEVICE_RAW_FIELDS = [''id'', ''mac'', ''ip'', ''name'', ''model'', ''type'', ''state'', ''adopted'']"

definition allowlisted :: "(string, pyval) dict \<Rightarrow> string list \<Rightarrow> (string, pyval) dict" where
  "allowlisted row names = concat (map (\<lambda>f. case map_of row f of None \<Rightarrow> [] | Some v \<Rightarrow> [(f, v)]) names)"

definition unifi_rows :: "string \<Rightarrow> string + pyval list" where
  "unifi_rows tx =
     (case json_loads tx of
        None \<Rightarrow> Inl ''JSONDecodeError''
      | Some (PList l) \<Rightarrow> Inr l
      | Some (PDict d) \<Rightarrow>
          Inr (case concat (map (\<lambda>k. case map_of d k of Some (PList l) \<Rightarrow> [l] | _ \<Rightarrow> []) ENVELOPE_KEYS) of
                 [] \<Rightarrow> [PDict d] | l # _ \<Rightarrow> l)
      | Some v \<Rightarrow> Inr [v])"

definition text_or_empty :: "(string, pyval) dict \<Rightarrow> string \<Rightarrow> string" where
  "text_or_empty row k = py_str (or_falsy (map_of row k) (PStr []))"

definition unifi_mac :: "(string, pyval) dict \<Rightarrow> string \<Rightarrow> string" where
  "unifi_mac row k = lower (strip (text_or_empty row k))"

definition client_obs :: "string \<Rightarrow> string \<Rightarrow> (string, pyval) dict \<Rightarrow> observation list" where
  "client_obs device now row =
     (let mac = unifi_mac row ''mac''; wired = py_truthy (dget_or row ''is_wired'' (PBool True));
          uplink = str_or (unifi_mac row ''sw_mac'') (unifi_mac row ''ap_mac'');
          vlan = (case map_of row ''vlan'' of None \<Rightarrow> [] | Some PNone \<Rightarrow> [] | Some v \<Rightarrow> py_str v);
          ip = strip (text_or_empty row ''ip'') in
      if mac = [] then []
      else
        (if uplink = [] then []
         else [new_obs now ''unifi'' device ''l2'' (if wired then ''mac_entry'' else ''wlan_assoc'') (''host'', ''mac:'' @ mac)
                 (''device'', ''device:'' @ uplink)
                 [(''vlan'', vlan), (''port'', text_or_empty row ''sw_port''), (''wired'', py_str (PBool wired))]
                 (json_dumps json_default (PDict (allowlisted row CLIENT_RAW_FIELDS)))])
        @ (if ip = [] then []
           else [new_obs now ''unifi'' device ''l3'' ''arp_entry'' (''host'', ''ip:'' @ ip) (''host'', ''mac:'' @ mac)
                   [(''source'', ''unifi_client'')] []]))"

text \<open>A row that is no object has no \<open>get\<close>.\<close>

definition on_row :: "((string, pyval) dict \<Rightarrow> observation list) \<Rightarrow> pyval \<Rightarrow> string + observation list" where
  "on_row f v = (case v of PDict row \<Rightarrow> Inr (f row) | _ \<Rightarrow> Inl ''AttributeError'')"

definition parse_clients :: "string \<Rightarrow> string \<Rightarrow> string \<Rightarrow> string + observation list" where
  "parse_clients tx device now = bind_sum (unifi_rows tx) (concat_sum (on_row (client_obs device now)))"

definition ROLE_MAP :: attrs where
  "ROLE_MAP = [(''usw'', ''switch''), (''uap'', ''ap''), (''uxg'', ''gateway''), (''ugw'', ''gateway''), (''udm'', ''gateway'')]"

definition role_of :: "string \<Rightarrow> string" where
  "role_of model = (case filter (\<lambda>(k, r). contains k model) ROLE_MAP of [] \<Rightarrow> ''device'' | (k, r) # _ \<Rightarrow> r)"

definition device_obs :: "string \<Rightarrow> string \<Rightarrow> (string, pyval) dict \<Rightarrow> observation list" where
  "device_obs device now row =
     (let mac = unifi_mac row ''mac'';
          model = lower (py_str (or_falsy (map_of row ''type'') (or_falsy (map_of row ''model'') (PStr [])))) in
      if mac = [] then []
      else [new_obs now ''unifi'' device ''l2'' ''device_inventory'' (''device'', ''device:'' @ mac) ([], [])
              [(''role'', role_of model), (''name'', text_or_empty row ''name''), (''mac'', mac), (''ip'', text_or_empty row ''ip'')]
              (json_dumps json_default (PDict (allowlisted row DEVICE_RAW_FIELDS)))])"

definition parse_devices :: "string \<Rightarrow> string \<Rightarrow> string \<Rightarrow> string + observation list" where
  "parse_devices tx device now = bind_sum (unifi_rows tx) (concat_sum (on_row (device_obs device now)))"

definition DEVICE_TYPES :: "string list" where
  "DEVICE_TYPES = [''uxg'', ''ugw'', ''udm'', ''usw'', ''uap'']"

definition caught :: "string + observation list \<Rightarrow> observation list" where
  "caught r = (case r of Inl exc \<Rightarrow> [] | Inr obs \<Rightarrow> obs)"

definition collect_unifi :: "tool_call \<Rightarrow> string \<Rightarrow> string \<Rightarrow> observation list" where
  "collect_unifi call site now =
     concat (map (\<lambda>ty. caught (bind_sum (call ''list_devices_by_type'' [(''site_id'', PStr site), (''device_type'', PStr ty)])
         (\<lambda>tx. parse_devices tx ''unifi-site'' now))) DEVICE_TYPES)
     @ caught (bind_sum (call ''list_active_clients'' [(''site_id'', PStr site)]) (\<lambda>tx. parse_clients tx ''unifi-site'' now))"

section \<open>What is never stored\<close>

lemma map_of_allowlisted: "map_of (allowlisted row names) k = (if k \<in> set names then map_of row k else None)"
proof (induction names)
  case (Cons n names)
  then show ?case by (cases "map_of row n") (auto simp: allowlisted_def)
qed (simp add: allowlisted_def)

lemma allowlisted_idem: "allowlisted (allowlisted row names) names = allowlisted row names"
proof -
  have "allowlisted (allowlisted row names) names
      = concat (map (\<lambda>f. case map_of (allowlisted row names) f of None \<Rightarrow> [] | Some v \<Rightarrow> [(f, v)]) names)"
    by (rule allowlisted_def)
  also have "\<dots> = concat (map (\<lambda>f. case map_of row f of None \<Rightarrow> [] | Some v \<Rightarrow> [(f, v)]) names)"
    by (rule arg_cong [where f = concat], rule map_cong [OF refl]) (simp only: map_of_allowlisted if_True)
  also have "\<dots> = allowlisted row names" by (rule allowlisted_def [symmetric])
  finally show ?thesis .
qed

lemma allowlisted_client:
  "map_of (allowlisted row CLIENT_RAW_FIELDS) k = map_of row k"
  if "k \<in> {''mac'', ''ip'', ''is_wired'', ''sw_mac'', ''ap_mac'', ''vlan'', ''sw_port''}" for k
proof -
  have "set CLIENT_RAW_FIELDS \<supseteq> {''mac'', ''ip'', ''is_wired'', ''sw_mac'', ''ap_mac'', ''vlan'', ''sw_port''}" by code_simp
  then show ?thesis using that by (simp only: map_of_allowlisted subset_iff if_True)
qed

lemma allowlisted_device:
  "map_of (allowlisted row DEVICE_RAW_FIELDS) k = map_of row k" if "k \<in> {''mac'', ''ip'', ''name'', ''type'', ''model''}" for k
proof -
  have "set DEVICE_RAW_FIELDS \<supseteq> {''mac'', ''ip'', ''name'', ''type'', ''model''}" by code_simp
  then show ?thesis using that by (simp only: map_of_allowlisted subset_iff if_True)
qed

text \<open>The part of a configuration that the collector may look at.\<close>

definition nets_only :: "pve_vm \<Rightarrow> pve_vm" where
  "nets_only vm = vm\<lparr>vm_config := (case vm_config vm of
     Some (PDict d) \<Rightarrow> Some (PDict (filter (\<lambda>kv. startswith (fst kv) ''net'') d)) | c \<Rightarrow> c)\<rparr>"

lemma nic_obs_filter:
  "concat (map (nic_obs now vm) (filter (\<lambda>kv. startswith (fst kv) ''net'') d)) = concat (map (nic_obs now vm) d)"
  by (induction d) (simp_all add: nic_obs_def)

lemma vm_obs_nets_only: "vm_obs now (nets_only vm) = vm_obs now vm"
proof -
  have frame: "vm_node (nets_only vm) = vm_node vm" "vm_vmid (nets_only vm) = vm_vmid vm" "vm_name (nets_only vm) = vm_name vm"
    "vm_summary (nets_only vm) = vm_summary vm"
    by (simp_all add: nets_only_def vm_summary_def)
  have nic: "nic_obs now (nets_only vm) = nic_obs now vm"
    by (rule ext) (simp only: nic_obs_def frame)
  show ?thesis
  proof (cases "vm_config vm")
    case None
    then show ?thesis by (cases vm) (simp add: nets_only_def)
  next
    case (Some c)
    show ?thesis
    proof (cases c)
      case (PDict d)
      have "vm_items vm = Inr d" "vm_items (nets_only vm) = Inr (filter (\<lambda>kv. startswith (fst kv) ''net'') d)"
        using Some PDict by (auto simp: vm_items_def or_falsy_def nets_only_def)
      then show ?thesis by (simp add: vm_obs_def frame nic nic_obs_filter Let_def)
    qed (use Some in \<open>cases vm; simp add: nets_only_def\<close>)+
  qed
qed

text \<open>Secrets of the vendors are never stored.  What the collectors report of a UniFi client or device depends
  only on the fields of its allowlist, and what they report of a VM only on the entries of its configuration
  whose keys begin with \<open>net\<close>: replacing or removing anything else, such as notes, keys, passwords or
  cloud-init data, changes no observation, the raw text included.\<close>

theorem vendor_secrets_never_stored:
  "client_obs device now row = client_obs device now (allowlisted row CLIENT_RAW_FIELDS)
   \<and> device_obs device now row = device_obs device now (allowlisted row DEVICE_RAW_FIELDS)
   \<and> vm_obs now vm = vm_obs now (nets_only vm)"
proof (intro conjI)
  let ?c = "allowlisted row CLIENT_RAW_FIELDS"
  have "map_of ?c ''mac'' = map_of row ''mac''" "map_of ?c ''ip'' = map_of row ''ip''" "map_of ?c ''is_wired'' = map_of row ''is_wired''"
    "map_of ?c ''sw_mac'' = map_of row ''sw_mac''" "map_of ?c ''ap_mac'' = map_of row ''ap_mac''"
    "map_of ?c ''vlan'' = map_of row ''vlan''" "map_of ?c ''sw_port'' = map_of row ''sw_port''"
    by (rule allowlisted_client; simp)+
  then show "client_obs device now row = client_obs device now ?c"
    unfolding client_obs_def unifi_mac_def text_or_empty_def dget_or_def allowlisted_idem by (simp only:)
  let ?d = "allowlisted row DEVICE_RAW_FIELDS"
  have "map_of ?d ''mac'' = map_of row ''mac''" "map_of ?d ''ip'' = map_of row ''ip''" "map_of ?d ''name'' = map_of row ''name''"
    "map_of ?d ''type'' = map_of row ''type''" "map_of ?d ''model'' = map_of row ''model''"
    by (rule allowlisted_device; simp)+
  then show "device_obs device now row = device_obs device now ?d"
    unfolding device_obs_def unifi_mac_def text_or_empty_def allowlisted_idem by (simp only:)
qed (rule vm_obs_nets_only [symmetric])

end
