(* ===== verification/TopoRun.thy ===== *)
theory TopoRun
  imports TopoCollectors Reconcile
begin

text \<open>
  One run of the topology service from the vendors to the graph: the collectors write observations
  (\<open>collect_all.py\<close>, \<open>chwriter.py\<close>), the resolver reads them back with the flow aggregates and writes nodes and
  edges (\<open>resolve_main.py\<close>).  The ClickHouse client is a parameter; a raised exception is \<open>Inl\<close> with its name.
\<close>

section \<open>The writer\<close>

definition OBS_COLUMNS :: "string list" where
  "OBS_COLUMNS = [''observed_at'', ''collector'', ''source_device'', ''tenant_id'', ''layer'', ''observation_type'', ''subj_kind'',
     ''subj_id'', ''obj_kind'', ''obj_id'', ''attrs'', ''raw'']"

definition NODE_COLUMNS :: "string list" where
  "NODE_COLUMNS = [''node_id'', ''tenant_id'', ''kind'', ''name'', ''identifiers'', ''first_seen'', ''last_seen'', ''attrs'']"

definition EDGE_COLUMNS :: "string list" where
  "EDGE_COLUMNS = [''edge_id'', ''tenant_id'', ''src_id'', ''dst_id'', ''edge_type'', ''layer'', ''first_seen'', ''last_seen'',
     ''confidence'', ''attrs'']"

definition obs_row :: "observation \<Rightarrow> cell list" where
  "obs_row ob =
     [CText (o_observed_at ob), CText (o_collector ob), CText (o_source_device ob), CText (o_tenant_id ob), CText (o_layer ob),
      CText (o_type ob), CText (o_subj_kind ob), CText (o_subj_id ob), CText (o_obj_kind ob), CText (o_obj_id ob),
      CMap (o_attrs ob), CText (o_raw ob)]"

definition node_dict :: "topo_node \<Rightarrow> (string, cell) dict" where
  "node_dict n =
     [(''node_id'', CText (n_id n)), (''tenant_id'', CText (n_tenant n)), (''kind'', CText (n_kind n)), (''name'', CText (n_name n)),
      (''identifiers'', CMap (n_identifiers n)), (''first_seen'', CText (n_first n)), (''last_seen'', CText (n_last n)),
      (''attrs'', CMap (n_attrs n))]"

definition topo_edge_dict :: "topo_edge \<Rightarrow> (string, cell) dict" where
  "topo_edge_dict e =
     [(''edge_id'', CText (e_id e)), (''tenant_id'', CText (e_tenant e)), (''src_id'', CText (e_src e)), (''dst_id'', CText (e_dst e)),
      (''edge_type'', CText (e_type e)), (''layer'', CText (e_layer e)), (''first_seen'', CText (e_first e)),
      (''last_seen'', CText (e_last e)), (''confidence'', CReal (e_confidence e)), (''attrs'', CMap (e_attrs e))]"

definition node_rows :: "topo_node list \<Rightarrow> cell list list option" where
  "node_rows ns = those (map (row_of NODE_COLUMNS \<circ> node_dict) ns)"

definition topo_edge_rows :: "topo_edge list \<Rightarrow> cell list list option" where
  "topo_edge_rows es = those (map (row_of EDGE_COLUMNS \<circ> topo_edge_dict) es)"

record 'db topo_client =
  tc_insert :: "string \<Rightarrow> cell list list \<Rightarrow> string list \<Rightarrow> 'db \<Rightarrow> string option \<times> 'db"
  tc_query :: "string \<Rightarrow> (string, pyval) dict \<Rightarrow> 'db \<Rightarrow> string + (string, cell) dict list"

text \<open>An insert of rows, if there are any: the number of rows or the exception, and the state it left.\<close>

definition insert_rows ::
  "'db topo_client \<Rightarrow> string \<Rightarrow> string list \<Rightarrow> cell list list option \<Rightarrow> 'db \<Rightarrow> (string + nat) \<times> 'db" where
  "insert_rows c table cols rows db =
     (case rows of
        None \<Rightarrow> (Inl ''KeyError'', db)
      | Some rs \<Rightarrow>
          if rs = [] then (Inr 0, db)
          else (case tc_insert c table rs cols db of
              (None, db') \<Rightarrow> (Inr (length rs), db')
            | (Some exc, db') \<Rightarrow> (Inl exc, db')))"

definition insert_observations :: "'db topo_client \<Rightarrow> observation list \<Rightarrow> 'db \<Rightarrow> (string + nat) \<times> 'db" where
  "insert_observations c obs db = insert_rows c ''topo_observations'' OBS_COLUMNS (Some (map obs_row obs)) db"

definition replace_nodes :: "'db topo_client \<Rightarrow> topo_node list \<Rightarrow> 'db \<Rightarrow> (string + nat) \<times> 'db" where
  "replace_nodes c ns db = insert_rows c ''graph_nodes'' NODE_COLUMNS (node_rows ns) db"

definition topo_replace_edges :: "'db topo_client \<Rightarrow> topo_edge list \<Rightarrow> 'db \<Rightarrow> (string + nat) \<times> 'db" where
  "topo_replace_edges c es db = insert_rows c ''graph_edges'' EDGE_COLUMNS (topo_edge_rows es) db"

section \<open>Collecting\<close>

definition csv_items :: "string \<Rightarrow> string list" where
  "csv_items s = filter (\<lambda>x. x \<noteq> []) (map strip (split_on CHR '','' s))"

record topo_servers =
  sv_junos :: "string \<Rightarrow> string \<Rightarrow> string + string"
  sv_panos :: tool_call
  sv_proxmox :: tool_call
  sv_unifi :: tool_call

definition topo_collect :: "xml_codec \<Rightarrow> topo_servers \<Rightarrow> attrs \<Rightarrow> string \<Rightarrow> string \<Rightarrow> string + observation list" where
  "topo_collect xc sv env now name =
     (if name = ''junos'' then Inr (collect_junos_topo (sv_junos sv) now (csv_items (dget_or env ''JUNOS_DEVICES'' [])))
      else if name = ''panos'' then collect_panos_topo xc (sv_panos sv) now (dget_or env ''PANOS_DEVICE'' ''panosvm'')
      else if name = ''unifi'' then Inr (collect_unifi (sv_unifi sv) (dget_or env ''UNIFI_SITE_ID'' ''default'') now)
      else if name = ''proxmox'' then collect_proxmox (sv_proxmox sv) now
      else Inl ''KeyError'')"

definition collect_all_topo ::
  "'db topo_client \<Rightarrow> xml_codec \<Rightarrow> topo_servers \<Rightarrow> attrs \<Rightarrow> string \<Rightarrow> string list \<Rightarrow> 'db \<Rightarrow> nat \<times> 'db" where
  "collect_all_topo c xc sv env now enabled db =
     run_collectors (insert_observations c) (topo_collect xc sv env now) enabled 0 db"

section \<open>Resolving\<close>

definition cell_of :: "(string, cell) dict \<Rightarrow> string \<Rightarrow> string + string" where
  "cell_of d k = (if dhas d k then Inr (cell_text d k) else Inl ''KeyError'')"

definition row_to_obs :: "(string, cell) dict \<Rightarrow> string + observation" where
  "row_to_obs d =
     bind_sum (cell_of d ''observed_at'') (\<lambda>seen. bind_sum (cell_of d ''collector'') (\<lambda>coll.
     bind_sum (cell_of d ''source_device'') (\<lambda>dev. bind_sum (cell_of d ''layer'') (\<lambda>layer.
     bind_sum (cell_of d ''observation_type'') (\<lambda>ty. bind_sum (cell_of d ''subj_kind'') (\<lambda>sk.
     bind_sum (cell_of d ''subj_id'') (\<lambda>si. Inr
       \<lparr>o_observed_at = seen, o_collector = coll, o_source_device = dev, o_layer = layer, o_type = ty, o_subj_kind = sk,
        o_subj_id = si, o_obj_kind = cell_text d ''obj_kind'', o_obj_id = cell_text d ''obj_id'', o_attrs = cell_map d ''attrs'',
        o_raw = cell_text d ''raw'', o_tenant_id = (if dhas d ''tenant_id'' then cell_text d ''tenant_id'' else ''t_main'')\<rparr>)))))))"

definition row_to_flow :: "(string, cell) dict \<Rightarrow> string + flow_row" where
  "row_to_flow d =
     bind_sum (cell_of d ''src_ip'') (\<lambda>src. bind_sum (cell_of d ''dst_ip'') (\<lambda>dst.
     bind_sum (cell_of d ''first_seen'') (\<lambda>first. bind_sum (cell_of d ''last_seen'') (\<lambda>last. Inr
       \<lparr>f_src_ip = src, f_dst_ip = dst, f_bytes = (if dhas d ''bytes'' then cell_text d ''bytes'' else ''0''),
        f_flows = (if dhas d ''flows'' then cell_text d ''flows'' else ''0''), f_rule = cell_text d ''rule_name'',
        f_ingress = cell_text d ''ingress_zone'', f_egress = cell_text d ''egress_zone'', f_provider = cell_text d ''provider'',
        f_first = first, f_last = last\<rparr>))))"

definition obs_params :: "string \<Rightarrow> int \<Rightarrow> (string, pyval) dict" where
  "obs_params tenant window_hours = [(''tenant'', PStr tenant), (''window_hours'', PInt window_hours)]"

definition each_row :: "('a \<Rightarrow> string + 'b) \<Rightarrow> 'a list \<Rightarrow> string + 'b list" where
  "each_row f = concat_sum (\<lambda>r. bind_sum (f r) (\<lambda>x. Inr [x]))"

definition read_observations :: "'db topo_client \<Rightarrow> string \<Rightarrow> int \<Rightarrow> 'db \<Rightarrow> string + observation list" where
  "read_observations c tenant window_hours db =
     bind_sum (tc_query c OBS_SQL (obs_params tenant window_hours) db) (each_row row_to_obs)"

definition read_flow_edges :: "(string \<Rightarrow> string) \<Rightarrow> 'db topo_client \<Rightarrow> string \<Rightarrow> int \<Rightarrow> 'db \<Rightarrow> string + topo_edge list" where
  "read_flow_edges H c tenant window_hours db =
     (let q = build_topo_flow_sql window_hours tenant in
      bind_sum (tc_query c (fst q) (snd q) db) (\<lambda>rows. bind_sum (each_row row_to_flow rows) (\<lambda>fs. Inr (flow_to_edges H fs tenant))))"

definition run_topo_resolver ::
  "(string \<Rightarrow> string) \<Rightarrow> 'db topo_client \<Rightarrow> string \<Rightarrow> int \<Rightarrow> 'db \<Rightarrow> (string + nat \<times> nat) \<times> 'db" where
  "run_topo_resolver H c tenant window_hours db =
     (case bind_sum (read_observations c tenant window_hours db) (\<lambda>obs.
             bind_sum (read_flow_edges H c tenant window_hours db) (\<lambda>fes. Inr (obs, fes))) of
        Inl exc \<Rightarrow> (Inl exc, db)
      | Inr (obs, fes) \<Rightarrow>
          (case resolve_graph H obs fes tenant of
             None \<Rightarrow> (Inl ''RecursionError'', db)
           | Some (ns, es) \<Rightarrow>
               (case replace_nodes c ns db of
                  (Inl exc, db1) \<Rightarrow> (Inl exc, db1)
                | (Inr n, db1) \<Rightarrow>
                    (case topo_replace_edges c es db1 of
                       (Inl exc, db2) \<Rightarrow> (Inl exc, db2)
                     | (Inr m, db2) \<Rightarrow> (Inr (n, m), db2)))))"

section \<open>Observations come back as they were written\<close>

lemma obs_row_roundtrip: "row_to_obs (zip OBS_COLUMNS (obs_row ob)) = Inr ob"
  by (simp add: row_to_obs_def OBS_COLUMNS_def obs_row_def cell_of_def cell_text_def cell_map_def dhas_def)

lemma each_row_map: "(\<And>x. x \<in> set xs \<Longrightarrow> f (g x) = Inr (h x)) \<Longrightarrow> each_row f (map g xs) = Inr (map h xs)"
  by (induction xs) (simp_all add: each_row_def)

lemma obs_rows_roundtrip: "each_row row_to_obs (query_rows OBS_COLUMNS (map obs_row obs)) = Inr obs"
  using each_row_map [of obs row_to_obs "\<lambda>ob. zip OBS_COLUMNS (obs_row ob)" id]
  by (simp add: query_rows_def comp_def obs_row_roundtrip)

text \<open>What the collectors can report.\<close>

inductive collected :: "xml_codec \<Rightarrow> observation \<Rightarrow> bool" for xc where
  from_junos: "ob \<in> set (collect_junos_topo call now devices) \<Longrightarrow> collected xc ob"
| from_panos: "collect_panos_topo xc call now device = Inr obs \<Longrightarrow> ob \<in> set obs \<Longrightarrow> collected xc ob"
| from_proxmox: "collect_proxmox call now = Inr obs \<Longrightarrow> ob \<in> set obs \<Longrightarrow> collected xc ob"
| from_unifi: "ob \<in> set (collect_unifi call site now) \<Longrightarrow> collected xc ob"

inductive_cases collected_cases: "collected xc ob"

lemma topo_collect_collected: "topo_collect xc sv env now name = Inr obs \<Longrightarrow> ob \<in> set obs \<Longrightarrow> collected xc ob"
  by (auto simp: topo_collect_def split: if_splits intro: collected.intros)

definition OBS_TYPES :: "string list" where
  "OBS_TYPES = [''arp_entry'', ''mac_entry'', ''wlan_assoc'', ''vm_nic'', ''vm_host'', ''lldp_neighbor'', ''device_inventory'']"

definition obs_typed :: "observation \<Rightarrow> bool" where
  "obs_typed ob \<longleftrightarrow> o_type ob \<in> set OBS_TYPES \<and> o_layer ob \<in> {''l2'', ''l3'', ''virt''} \<and> o_tenant_id ob = ''t_main''
     \<and> (case (o_type ob, o_subj_kind ob, o_obj_kind ob) of
          (ty, sk, ok) \<Rightarrow>
            if ty = ''device_inventory'' then sk = DEVICE \<and> ok = []
            else if ty = ''lldp_neighbor'' then sk = INTERFACE \<and> ok = INTERFACE
            else if ty = ''arp_entry'' then sk = HOST \<and> ok = HOST
            else if ty = ''vm_host'' then sk = DEVICE \<and> ok = HOST
            else sk = HOST \<and> ok = DEVICE)"

lemma typed_new [simp]:
  "obs_typed (new_obs now c d ''l2'' ''device_inventory'' (''device'', s) ([], t) a raw)"
  "obs_typed (new_obs now c d ''l2'' ''lldp_neighbor'' (''interface'', s) (''interface'', t) a raw)"
  "obs_typed (new_obs now c d ''l3'' ''arp_entry'' (''host'', s) (''host'', t) a raw)"
  "obs_typed (new_obs now c d ''virt'' ''vm_host'' (''device'', s) (''host'', t) a raw)"
  "obs_typed (new_obs now c d ''l2'' ''mac_entry'' (''host'', s) (''device'', t) a raw)"
  "obs_typed (new_obs now c d ''l2'' ''wlan_assoc'' (''host'', s) (''device'', t) a raw)"
  "obs_typed (new_obs now c d ''l2'' ''vm_nic'' (''host'', s) (''device'', t) a raw)"
  by (simp_all add: obs_typed_def new_obs_def OBS_TYPES_def DEVICE_def HOST_def INTERFACE_def)

definition typed_result :: "string + observation list \<Rightarrow> bool" where
  "typed_result r = (case r of Inl e \<Rightarrow> True | Inr obs \<Rightarrow> list_all obs_typed obs)"

lemma typed_result_simps [simp]: "typed_result (Inl e)" "typed_result (Inr obs) = list_all obs_typed obs"
  by (simp_all add: typed_result_def)

lemma typed_concat: "(\<And>x. x \<in> set xs \<Longrightarrow> typed_result (f x)) \<Longrightarrow> typed_result (concat_sum f xs)"
proof (induction xs)
  case (Cons x xs)
  then have "typed_result (f x)" "typed_result (concat_sum f xs)" by simp_all
  then show ?case by (cases "f x"; cases "concat_sum f xs") simp_all
qed simp

lemma typed_bind: "(\<And>x. typed_result (f x)) \<Longrightarrow> typed_result (bind_sum m f)"
  by (cases m) simp_all

lemma typed_lines:
  "list_all obs_typed (arp_line device now line)" "list_all obs_typed (lldp_line device now line)"
  "list_all obs_typed (mac_line device now line)" "list_all obs_typed (arp_entry xc device now e)"
  "list_all obs_typed (lldp_entry xc device now e)" "list_all obs_typed (nic_obs now vm kv)"
  "list_all obs_typed (client_obs device now row)" "list_all obs_typed (device_obs device now row)"
  "obs_typed (firewall_inventory collector device now)"
  by (simp_all add: arp_line_def lldp_line_def mac_line_def arp_entry_def lldp_entry_def nic_obs_def client_obs_def
      device_obs_def firewall_inventory_def Let_def case_prod_beta)

lemma typed_concat_map: "(\<And>x. list_all obs_typed (f x)) \<Longrightarrow> list_all obs_typed (concat (map f xs))"
  by (induction xs) simp_all

lemmas typed_parsers = typed_concat_map [OF typed_lines(1)] typed_concat_map [OF typed_lines(2)]
  typed_concat_map [OF typed_lines(3)] typed_concat_map [OF typed_lines(4)] typed_concat_map [OF typed_lines(5)]
  typed_concat_map [OF typed_lines(6)]

lemma typed_junos: "list_all obs_typed (collect_junos_topo call now devices)"
  unfolding collect_junos_topo_def
  by (rule typed_concat_map) (simp add: collect_junos_device_def JUNOS_PROBES_def typed_lines typed_parsers
      parse_lldp_neighbors_def parse_arp_def parse_mac_table_def split: sum.splits)

lemma typed_panos: "typed_result (collect_panos_topo xc call now device)"
proof -
  have "typed_result (panos_probe xc call now device p)" if "p \<in> set PANOS_PROBES" for p
    using that by (auto simp: panos_probe_def PANOS_PROBES_def parse_arp_xml_def parse_lldp_xml_def typed_parsers intro!: typed_bind)
  then have "typed_result (concat_sum (panos_probe xc call now device) PANOS_PROBES)" by (rule typed_concat)
  then show ?thesis unfolding collect_panos_topo_def
    by (cases "concat_sum (panos_probe xc call now device) PANOS_PROBES") (simp_all add: typed_lines)
qed

lemma typed_proxmox: "typed_result (collect_proxmox call now)"
proof -
  have "typed_result (vm_obs now vm)" for vm
    by (auto simp: vm_obs_def Let_def typed_parsers intro!: typed_bind)
  then show ?thesis unfolding collect_proxmox_def parse_vms_def by (intro typed_bind typed_concat)
qed

lemma typed_unifi: "list_all obs_typed (collect_unifi call site now)"
proof -
  have row: "typed_result (on_row f v)" if "\<And>row. list_all obs_typed (f row)" for f v
    using that by (simp add: on_row_def split: pyval.splits)
  have "typed_result (parse_devices tx d now)" "typed_result (parse_clients tx d now)" for tx d
    unfolding parse_devices_def parse_clients_def by (intro typed_bind typed_concat row typed_lines)+
  moreover have "list_all obs_typed (caught r)" if "typed_result r" for r
    using that by (simp add: caught_def typed_result_def split: sum.splits)
  ultimately show ?thesis
    unfolding collect_unifi_def by (simp add: typed_concat_map typed_bind)
qed

lemma collected_obs_typed: "collected xc ob \<Longrightarrow> obs_typed ob"
proof (erule collected_cases)
  fix call :: "string \<Rightarrow> string \<Rightarrow> string + string" and now devices
  assume "ob \<in> set (collect_junos_topo call now devices)"
  then show "obs_typed ob" using typed_junos by (simp add: list_all_iff)
next
  fix call now device obs assume "collect_panos_topo xc call now device = Inr obs" "ob \<in> set obs"
  then show "obs_typed ob" using typed_panos [of xc call now device] by (simp add: list_all_iff)
next
  fix call now obs assume "collect_proxmox call now = Inr obs" "ob \<in> set obs"
  then show "obs_typed ob" using typed_proxmox [of call now] by (simp add: list_all_iff)
next
  fix call site now assume "ob \<in> set (collect_unifi call site now)"
  then show "obs_typed ob" using typed_unifi by (simp add: list_all_iff)
qed

text \<open>Every observation that a collector can report is one that the resolver knows: it has one of the seven
  types that the resolver dispatches on, the end points that this type requires, one of the layers, and the
  tenant \<open>t_main\<close>.\<close>

theorem collected_observations_typed:
  assumes "collected xc ob"
  shows "obs_typed ob"
  by (rule collected_obs_typed [OF assms])

definition sample_topo_call :: "string \<Rightarrow> string \<Rightarrow> string + string" where
  "sample_topo_call dev cmd = (if cmd = ''show arp no-resolve'' then Inr ''00:11:22:33:44:55 10.0.0.5 ge-0/0/1.0 none'' else Inr [])"

definition sample_codec :: xml_codec where
  "sample_codec = \<lparr>xc_parse = (\<lambda>tx. None), xc_print = (\<lambda>e. [])\<rparr>"

lemma collected_observations_typed_witness:
  "obs_typed (new_obs ''now'' ''junos'' ''r1'' ''l3'' ''arp_entry'' (''host'', ''ip:10.0.0.5'') (''host'', ''mac:00:11:22:33:44:55'')
     [(''interface'', ''ge-0/0/1.0'')] ''00:11:22:33:44:55 10.0.0.5 ge-0/0/1.0 none'')"
proof (rule collected_observations_typed [of sample_codec], rule from_junos)
  show "new_obs ''now'' ''junos'' ''r1'' ''l3'' ''arp_entry'' (''host'', ''ip:10.0.0.5'') (''host'', ''mac:00:11:22:33:44:55'')
     [(''interface'', ''ge-0/0/1.0'')] ''00:11:22:33:44:55 10.0.0.5 ge-0/0/1.0 none''
     \<in> set (collect_junos_topo sample_topo_call ''now'' [''r1''])" by code_simp
qed

section \<open>From the vendors to the resolver\<close>

text \<open>What the resolver relies on of the table of observations: an insert of rows succeeds and appends them, and
  the query answers the rows of the tenant that it names.  Rows older than the window are taken as gone.\<close>

locale obs_store =
  fixes c :: "'db topo_client" and stored :: "'db \<Rightarrow> observation list"
  assumes insert_appends: "\<exists>db'. tc_insert c ''topo_observations'' (map obs_row obs) OBS_COLUMNS db = (None, db')
      \<and> stored db' = stored db @ obs"
    and query_filters: "tc_query c OBS_SQL (obs_params tenant w) db
      = Inr (query_rows OBS_COLUMNS (map obs_row (filter (\<lambda>ob. o_tenant_id ob = tenant) (stored db))))"
begin

lemma insert_obs: "\<exists>db'. insert_observations c obs db = (Inr (length obs), db') \<and> stored db' = stored db @ obs"
  using insert_appends [of obs db] by (auto simp: insert_observations_def insert_rows_def)

lemma run_stores:
  "stored (snd (run_collectors (insert_observations c) collect names n db))
     = stored db @ concat (map (\<lambda>name. case collect name of Inl exc \<Rightarrow> [] | Inr obs \<Rightarrow> obs) names)"
proof (induction names arbitrary: n db)
  case (Cons name names)
  show ?case
  proof (cases "collect name")
    case (Inr obs)
    obtain db' where "insert_observations c obs db = (Inr (length obs), db')" "stored db' = stored db @ obs"
      using insert_obs by blast
    then show ?thesis using Inr Cons.IH by simp
  qed (simp add: Cons.IH)
qed simp

lemma run_counts:
  "fst (run_collectors (insert_observations c) collect names n db)
     = n + length (concat (map (\<lambda>name. case collect name of Inl exc \<Rightarrow> [] | Inr obs \<Rightarrow> obs) names))"
proof (induction names arbitrary: n db)
  case (Cons name names)
  show ?case
  proof (cases "collect name")
    case (Inr obs)
    obtain db' where "insert_observations c obs db = (Inr (length obs), db')" using insert_obs by blast
    then show ?thesis using Inr Cons.IH by simp
  qed (simp add: Cons.IH)
qed simp

lemma read_stored: "read_observations c tenant w db = Inr (filter (\<lambda>ob. o_tenant_id ob = tenant) (stored db))"
  by (simp add: read_observations_def query_filters obs_rows_roundtrip)

end

text \<open>The observations of one run, in the order of the collectors.\<close>

definition gathered :: "xml_codec \<Rightarrow> topo_servers \<Rightarrow> attrs \<Rightarrow> string \<Rightarrow> string list \<Rightarrow> observation list" where
  "gathered xc sv env now enabled =
     concat (map (\<lambda>name. case topo_collect xc sv env now name of Inl exc \<Rightarrow> [] | Inr obs \<Rightarrow> obs) enabled)"

lemma gathered_tenant: "ob \<in> set (gathered xc sv env now enabled) \<Longrightarrow> o_tenant_id ob = ''t_main''"
proof -
  assume "ob \<in> set (gathered xc sv env now enabled)"
  then obtain name where n: "ob \<in> set (case topo_collect xc sv env now name of Inl exc \<Rightarrow> [] | Inr obs \<Rightarrow> obs)"
    by (auto simp: gathered_def)
  then obtain obs where "topo_collect xc sv env now name = Inr obs" "ob \<in> set obs"
    by (cases "topo_collect xc sv env now name") simp_all
  then have "obs_typed ob" by (intro collected_obs_typed topo_collect_collected)
  then show "o_tenant_id ob = ''t_main''" by (simp add: obs_typed_def)
qed

text \<open>A store in memory.\<close>

type_synonym topo_tables = "(string, cell list list) dict"

definition table_of :: "topo_tables \<Rightarrow> string \<Rightarrow> cell list list" where
  "table_of db table = dget_or db table []"

definition param_text :: "(string, pyval) dict \<Rightarrow> string \<Rightarrow> string" where
  "param_text params k = (case map_of params k of Some (PStr s) \<Rightarrow> s | _ \<Rightarrow> [])"

definition mem_topo :: "(observation list \<times> topo_tables) topo_client" where
  "mem_topo =
     \<lparr>tc_insert = (\<lambda>table rows cols db.
        (None, if table = ''topo_observations'' then (fst db @ concat (map (\<lambda>r. case row_to_obs (zip cols r) of Inr ob \<Rightarrow> [ob] | _ \<Rightarrow> []) rows), snd db)
               else (fst db, dset (snd db) table (table_of (snd db) table @ rows)))),
      tc_query = (\<lambda>sql params db.
        Inr (if sql = OBS_SQL then query_rows OBS_COLUMNS (map obs_row (filter (\<lambda>ob. o_tenant_id ob = param_text params ''tenant'') (fst db)))
             else []))\<rparr>"

interpretation mem_obs: obs_store mem_topo fst
proof
  fix obs :: "observation list" and db :: "observation list \<times> topo_tables" and tenant w
  have "concat (map (\<lambda>r. case row_to_obs (zip OBS_COLUMNS r) of Inr ob \<Rightarrow> [ob] | _ \<Rightarrow> []) (map obs_row obs)) = obs"
    by (induction obs) (simp_all add: obs_row_roundtrip)
  then show "\<exists>db'. tc_insert mem_topo ''topo_observations'' (map obs_row obs) OBS_COLUMNS db = (None, db') \<and> fst db' = fst db @ obs"
    by (simp add: mem_topo_def)
  show "tc_query mem_topo OBS_SQL (obs_params tenant w) db
      = Inr (query_rows OBS_COLUMNS (map obs_row (filter (\<lambda>ob. o_tenant_id ob = tenant) (fst db))))"
    by (simp add: mem_topo_def obs_params_def param_text_def)
qed


definition sample_servers :: topo_servers where
  "sample_servers = \<lparr>sv_junos = sample_topo_call, sv_panos = (\<lambda>tool args. Inl ''TimeoutError''),
     sv_proxmox = (\<lambda>tool args. Inl ''TimeoutError''), sv_unifi = (\<lambda>tool args. Inl ''TimeoutError'')\<rparr>"


section \<open>The run of the resolver\<close>

lemma insert_rows_total:
  assumes "\<And>table rows cols db. fst (tc_insert c table rows cols db) = None"
  shows "\<exists>db'. insert_rows c table cols (Some rows) db = (Inr (length rows), db')"
proof -
  obtain r db' where "tc_insert c table rows cols db = (r, db')" by (rule prod.exhaust)
  then show ?thesis using assms [of table rows cols db] by (simp add: insert_rows_def)
qed

lemma those_total: "(\<And>x. f x \<noteq> None) \<Longrightarrow> \<exists>ys. those (map f xs) = Some ys \<and> length ys = length xs"
proof (induction xs)
  case (Cons x xs)
  assume "\<And>x. f x \<noteq> None"
  then obtain y where "f x = Some y" by blast
  then show ?case using Cons by auto
qed simp

lemma graph_rows_total:
  "\<exists>rows. node_rows ns = Some rows \<and> length rows = length ns" "\<exists>rows. topo_edge_rows es = Some rows \<and> length rows = length es"
  unfolding node_rows_def topo_edge_rows_def
  by (rule those_total, simp add: row_of_def NODE_COLUMNS_def node_dict_def EDGE_COLUMNS_def topo_edge_dict_def)+



end
