(* ===== verification/Metrics.thy ===== *)
theory Metrics
  imports Sql Common PyTime PyText
begin

text \<open>
  The public metrics (\<open>services/public-metrics/src/ssdf_pubmetrics\<close>): keyed pseudonyms (\<open>pseudonym.py\<close>), the
  catalogue of measures and its queries (\<open>measures.py\<close>), reading (\<open>chreader.py\<close>), planning and one run
  (\<open>resolve.py\<close>), and the writer (\<open>chwriter.py\<close>).  The keyed digest and the ClickHouse client are parameters;
  numbers are exact.  A computation that may not return is an option, \<open>None\<close> when it does not; a raised exception
  is \<open>Inl\<close> with its name.
\<close>

type_synonym 'a attempt = "(string + 'a) option"

definition bind_run :: "'a attempt \<Rightarrow> ('a \<Rightarrow> 'b attempt) \<Rightarrow> 'b attempt" where
  "bind_run m f = (case m of None \<Rightarrow> None | Some (Inl e) \<Rightarrow> Some (Inl e) | Some (Inr x) \<Rightarrow> f x)"

lemma bind_run_simps [simp]: "bind_run None f = None" "bind_run (Some (Inl e)) f = Some (Inl e)" "bind_run (Some (Inr x)) f = f x"
  by (simp_all add: bind_run_def)

fun fold_run :: "('x \<Rightarrow> 's \<Rightarrow> 's attempt) \<Rightarrow> 'x list \<Rightarrow> 's \<Rightarrow> 's attempt" where
  "fold_run f [] s = Some (Inr s)"
| "fold_run f (x # xs) s = bind_run (f x s) (fold_run f xs)"

section \<open>Pseudonyms\<close>

definition PREFIXES :: attrs where
  "PREFIXES = [(''host'', ''h_''), (''firewall'', ''fw_''), (''segment'', ''seg_''), (''port'', ''p_''), (''vmid'', ''vm_'')]"

definition BASE_LENGTH :: nat where "BASE_LENGTH = 10"

text \<open>The keyed digest of a message under a key, in hexadecimal.\<close>

type_synonym keyed_digest = "string \<Rightarrow> string \<Rightarrow> string"

definition surrogate :: "keyed_digest \<Rightarrow> string \<Rightarrow> string \<Rightarrow> string \<Rightarrow> nat \<Rightarrow> string + string" where
  "surrogate mac key kind real_value n =
     (case map_of PREFIXES kind of
        None \<Rightarrow> Inl ''ValueError''
      | Some pre \<Rightarrow> Inr (pre @ take n (mac key (kind @ '':'' @ real_value))))"

type_synonym pseudonym_map = "(string \<times> string, string) dict"

definition taken_by :: "pseudonym_map \<Rightarrow> string \<Rightarrow> attrs" where
  "taken_by existing kind = foldl (\<lambda>d ((k, rv), sur). if k = kind then dset d sur rv else d) [] existing"

partial_function (option) mint_loop :: "keyed_digest \<Rightarrow> attrs \<Rightarrow> string \<Rightarrow> string \<Rightarrow> string \<Rightarrow> nat \<Rightarrow> string attempt" where
  "mint_loop mac taken key kind real_value n =
     (case surrogate mac key kind real_value n of
        Inl e \<Rightarrow> Some (Inl e)
      | Inr candidate \<Rightarrow>
          (case map_of taken candidate of
             None \<Rightarrow> Some (Inr candidate)
           | Some owner \<Rightarrow> if owner = real_value then Some (Inr candidate) else mint_loop mac taken key kind real_value (n + 2)))"

declare mint_loop.simps [code]

definition mint_surrogate :: "keyed_digest \<Rightarrow> pseudonym_map \<Rightarrow> string \<Rightarrow> string \<Rightarrow> string \<Rightarrow> string attempt" where
  "mint_surrogate mac existing key kind real_value =
     (case map_of existing (kind, real_value) of
        Some prior \<Rightarrow> Some (Inr prior)
      | None \<Rightarrow> mint_loop mac (taken_by existing kind) key kind real_value BASE_LENGTH)"

section \<open>Measures\<close>

definition DENY_ACTIONS :: "string list" where "DENY_ACTIONS = [''deny'', ''drop'', ''block'', ''reject'']"
definition VOLUME_METRICS :: "string list" where "VOLUME_METRICS = [''bytes'', ''flows'', ''connections'']"

definition AGG_VALUE_EXPR :: attrs where
  "AGG_VALUE_EXPR =
     [(''bytes'', ''sum(ifNull(network_bytes, 0))''), (''flows'', ''count()''),
      (''connections'', ''uniqExact((source_ip, source_port, destination_ip, destination_port, network_transport))'')]"

record measure =
  ms_metric :: string
  ms_enabled :: bool
  ms_per_entity :: bool
  ms_kind :: string

definition CATALOG :: "measure list" where
  "CATALOG =
     [\<lparr>ms_metric = ''bytes'', ms_enabled = True, ms_per_entity = True, ms_kind = ''aggregate''\<rparr>,
      \<lparr>ms_metric = ''flows'', ms_enabled = True, ms_per_entity = False, ms_kind = ''aggregate''\<rparr>,
      \<lparr>ms_metric = ''connections'', ms_enabled = True, ms_per_entity = False, ms_kind = ''aggregate''\<rparr>,
      \<lparr>ms_metric = ''deny_rate_index'', ms_enabled = True, ms_per_entity = False, ms_kind = ''index''\<rparr>,
      \<lparr>ms_metric = ''ips_volume_index'', ms_enabled = True, ms_per_entity = False, ms_kind = ''index''\<rparr>,
      \<lparr>ms_metric = ''mem_util_pct'', ms_enabled = False, ms_per_entity = False, ms_kind = ''aggregate''\<rparr>,
      \<lparr>ms_metric = ''cpu_util_pct'', ms_enabled = False, ms_per_entity = False, ms_kind = ''aggregate''\<rparr>,
      \<lparr>ms_metric = ''iface_error_rate'', ms_enabled = False, ms_per_entity = False, ms_kind = ''aggregate''\<rparr>,
      \<lparr>ms_metric = ''port_flap_count'', ms_enabled = False, ms_per_entity = False, ms_kind = ''aggregate''\<rparr>,
      \<lparr>ms_metric = ''proto_flap_count'', ms_enabled = False, ms_per_entity = False, ms_kind = ''aggregate''\<rparr>]"

definition enabled_measures :: "measure list" where
  "enabled_measures = filter ms_enabled CATALOG"

definition ratio_to_baseline :: "rat \<Rightarrow> rat \<Rightarrow> rat" where
  "ratio_to_baseline current_rate baseline_rate = (if baseline_rate = 0 then 0 else current_rate / baseline_rate)"

definition flow_filter_text :: "string \<Rightarrow> string" where
  "flow_filter_text metric =
     (if metric \<in> set VOLUME_METRICS then ''AND event_action LIKE '' @ [CHR 0x27] @ ''flow_%'' @ [CHR 0x27] @ '' '' else [])"

definition build_aggregate_sql :: "string \<Rightarrow> string \<Rightarrow> int \<Rightarrow> string \<Rightarrow> string + query" where
  "build_aggregate_sql metric since_iso bucket_secs tenant =
     (case map_of AGG_VALUE_EXPR metric of
        None \<Rightarrow> Inl ''KeyError''
      | Some expr \<Rightarrow> Inr
          (''SELECT toStartOfInterval(timestamp, INTERVAL '' @ show_int bucket_secs @ '' SECOND) '' @
           ''AS bucket_start, toFloat64('' @ expr @ '') AS value FROM ssdf.events '' @
           ''WHERE tenant_id = {tenant:String} '' @ flow_filter_text metric @
           ''AND timestamp >= parseDateTimeBestEffort({since:String}) GROUP BY bucket_start ORDER BY bucket_start'',
           [(''tenant'', PStr tenant), (''since'', PStr since_iso)]))"

definition build_entity_bucket_sql :: "string \<Rightarrow> string \<Rightarrow> int \<Rightarrow> string \<Rightarrow> string + query" where
  "build_entity_bucket_sql metric since_iso bucket_secs tenant =
     (case map_of AGG_VALUE_EXPR metric of
        None \<Rightarrow> Inl ''KeyError''
      | Some expr \<Rightarrow> Inr
          (''SELECT toStartOfInterval(timestamp, INTERVAL '' @ show_int bucket_secs @ '' SECOND) '' @
           ''AS bucket_start, toString(source_ip) AS ip, toFloat64('' @ expr @ '') AS value '' @
           ''FROM ssdf.events WHERE tenant_id = {tenant:String} AND source_ip IS NOT NULL '' @ flow_filter_text metric @
           ''AND timestamp >= parseDateTimeBestEffort({since:String}) GROUP BY bucket_start, ip ORDER BY bucket_start'',
           [(''tenant'', PStr tenant), (''since'', PStr since_iso)]))"

definition build_deny_counts_sql :: "string \<Rightarrow> string \<Rightarrow> query" where
  "build_deny_counts_sql since_iso tenant =
     (''SELECT toFloat64(countIf(event_action IN {deny:Array(String)})) AS deny, toFloat64(count()) AS total FROM ssdf.events '' @
      ''WHERE tenant_id = {tenant:String} AND event_provider IN ('' @ [CHR 0x27] @ ''paloalto'' @ [CHR 0x27] @ '', '' @
      [CHR 0x27] @ ''juniper'' @ [CHR 0x27] @ '') AND event_action LIKE '' @ [CHR 0x27] @ ''flow_%'' @ [CHR 0x27] @
      '' AND timestamp >= parseDateTimeBestEffort({since:String})'',
      [(''tenant'', PStr tenant), (''since'', PStr since_iso), (''deny'', PList (map PStr DENY_ACTIONS))])"

definition build_alert_count_sql :: "string \<Rightarrow> string \<Rightarrow> query" where
  "build_alert_count_sql since_iso tenant =
     (''SELECT toFloat64(count()) AS c FROM ssdf.events WHERE tenant_id = {tenant:String} AND event_provider = '' @
      [CHR 0x27] @ ''unifi'' @ [CHR 0x27] @ '' AND event_kind = '' @ [CHR 0x27] @ ''alert'' @ [CHR 0x27] @
      '' AND timestamp >= parseDateTimeBestEffort({since:String})'',
      [(''tenant'', PStr tenant), (''since'', PStr since_iso)])"

section \<open>Reading\<close>

text \<open>A cell of a row, read or written.\<close>

datatype mcell = MText string | MNum rat | MInt int | MTime pydt

type_synonym mrow = "(string, mcell) dict"

text \<open>The client answers a query with rows, or raises.\<close>

type_synonym metrics_query = "query \<Rightarrow> string + mrow list"

definition need_cell :: "mrow \<Rightarrow> string \<Rightarrow> string + mcell" where
  "need_cell row k = (case map_of row k of None \<Rightarrow> Inl ''KeyError'' | Some c \<Rightarrow> Inr c)"

definition cell_float :: "mcell \<Rightarrow> string + rat" where
  "cell_float c = (case c of MNum q \<Rightarrow> Inr q | MInt i \<Rightarrow> Inr (of_int i) | MText s \<Rightarrow> Inl ''ValueError'' | MTime d \<Rightarrow> Inl ''TypeError'')"

definition need_float :: "mrow \<Rightarrow> string \<Rightarrow> string + rat" where
  "need_float row k = bind_sum (need_cell row k) cell_float"

text \<open>\<open>row["ip"]\<close>, a text by the query.\<close>

definition need_ip :: "mrow \<Rightarrow> string + string" where
  "need_ip row = bind_sum (need_cell row ''ip'') (\<lambda>c. case c of MText s \<Rightarrow> Inr s | _ \<Rightarrow> Inl ''TypeError'')"

definition aggregate_series :: "metrics_query \<Rightarrow> string \<Rightarrow> string \<Rightarrow> string \<Rightarrow> int \<Rightarrow> string + mrow list" where
  "aggregate_series run tenant metric since_iso bucket_secs = bind_sum (build_aggregate_sql metric since_iso bucket_secs tenant) run"

definition entity_bucket_series :: "metrics_query \<Rightarrow> string \<Rightarrow> string \<Rightarrow> string \<Rightarrow> int \<Rightarrow> string + mrow list" where
  "entity_bucket_series run tenant metric since_iso bucket_secs = bind_sum (build_entity_bucket_sql metric since_iso bucket_secs tenant) run"

definition deny_counts :: "metrics_query \<Rightarrow> string \<Rightarrow> string \<Rightarrow> string + mrow" where
  "deny_counts run tenant since_iso =
     bind_sum (run (build_deny_counts_sql since_iso tenant)) (\<lambda>rows.
       Inr (case rows of [] \<Rightarrow> [(''deny'', MNum 0), (''total'', MNum 0)] | r # rs \<Rightarrow> r))"

definition alert_count :: "metrics_query \<Rightarrow> string \<Rightarrow> string \<Rightarrow> string + rat" where
  "alert_count run tenant since_iso =
     bind_sum (run (build_alert_count_sql since_iso tenant)) (\<lambda>rows. case rows of [] \<Rightarrow> Inr 0 | r # rs \<Rightarrow> need_float r ''c'')"

definition LOAD_MAP_SQL :: string where
  "LOAD_MAP_SQL = ''SELECT kind, real_value, surrogate FROM ssdf.pseudonym_map FINAL WHERE kind IN {kinds:Array(String)}''"

definition map_entry :: "mrow \<Rightarrow> string + (string \<times> string) \<times> string" where
  "map_entry row =
     bind_sum (need_cell row ''kind'') (\<lambda>k. bind_sum (need_cell row ''real_value'') (\<lambda>v. bind_sum (need_cell row ''surrogate'') (\<lambda>s.
       case (k, v, s) of (MText k', MText v', MText s') \<Rightarrow> Inr ((k', v'), s') | _ \<Rightarrow> Inl ''TypeError'')))"

definition load_pseudonym_map :: "metrics_query \<Rightarrow> string list \<Rightarrow> string + pseudonym_map" where
  "load_pseudonym_map run kinds =
     (if kinds = [] then Inr []
      else bind_sum (run (LOAD_MAP_SQL, [(''kinds'', PList (map PStr kinds))])) (\<lambda>rows.
        bind_sum (concat_sum (\<lambda>r. bind_sum (map_entry r) (\<lambda>e. Inr [e])) rows) (\<lambda>es. Inr (dupdate [] es))))"

section \<open>Planning\<close>

definition HOST_KIND :: string where "HOST_KIND = ''host''"

record write_plan =
  wp_metric :: "mrow list"
  wp_entity :: "mrow list"
  wp_map :: "mrow list"

definition metric_row :: "mcell \<Rightarrow> string \<Rightarrow> rat \<Rightarrow> string \<Rightarrow> mrow" where
  "metric_row bucket metric v tenant =
     [(''bucket_start'', bucket), (''metric'', MText metric), (''dim'', MText []), (''value'', MNum v), (''tenant_id'', MText tenant)]"

definition entity_row :: "mcell \<Rightarrow> string \<Rightarrow> string \<Rightarrow> rat \<Rightarrow> string \<Rightarrow> mrow" where
  "entity_row bucket sur metric v tenant =
     [(''bucket_start'', bucket), (''surrogate'', MText sur), (''metric'', MText metric), (''value'', MNum v), (''tenant_id'', MText tenant)]"

definition map_row :: "string \<Rightarrow> string \<Rightarrow> int \<Rightarrow> string \<Rightarrow> mrow" where
  "map_row ip sur key_version now_iso =
     [(''kind'', MText HOST_KIND), (''real_value'', MText ip), (''surrogate'', MText sur), (''key_version'', MInt key_version),
      (''first_seen'', MText now_iso), (''last_seen'', MText now_iso)]"

text \<open>What a run is given: the reader, the key and the parameters of the plan.\<close>

record metrics_job =
  mj_run :: metrics_query
  mj_mac :: keyed_digest
  mj_key :: string
  mj_pmap :: pseudonym_map
  mj_since :: string
  mj_baseline :: string
  mj_bucket :: int
  mj_top :: int
  mj_version :: int
  mj_tenant :: string
  mj_now :: string

definition deny_ratio :: "metrics_job \<Rightarrow> string \<Rightarrow> string + rat" where
  "deny_ratio j since_iso =
     bind_sum (deny_counts (mj_run j) (mj_tenant j) since_iso) (\<lambda>c. bind_sum (need_float c ''deny'') (\<lambda>d.
       bind_sum (need_float c ''total'') (\<lambda>t. Inr (ratio_to_baseline d t))))"

definition index_value :: "metrics_job \<Rightarrow> string \<Rightarrow> string + rat" where
  "index_value j metric =
     (let reading = (if metric = ''deny_rate_index'' then deny_ratio j else alert_count (mj_run j) (mj_tenant j)) in
      bind_sum (reading (mj_since j)) (\<lambda>cur. bind_sum (reading (mj_baseline j)) (\<lambda>base. Inr (ratio_to_baseline cur base))))"

definition add_total :: "(string, rat) dict \<Rightarrow> string \<times> rat \<Rightarrow> (string, rat) dict" where
  "add_total d r = dset d (fst r) (dget_or d (fst r) 0 + snd r)"

definition ip_value :: "mrow \<Rightarrow> string + (string \<times> rat)" where
  "ip_value row = bind_sum (need_ip row) (\<lambda>ip. bind_sum (need_float row ''value'') (\<lambda>v. Inr (ip, v)))"

definition slice_to :: "int \<Rightarrow> 'a list \<Rightarrow> 'a list" where
  "slice_to n xs = take (nat (if n < 0 then int (length xs) + n else n)) xs"

definition top_ips :: "int \<Rightarrow> (string \<times> rat) list \<Rightarrow> string list" where
  "top_ips top_n rs = map fst (slice_to top_n (sort_key (\<lambda>kv. - snd kv) (foldl add_total [] rs)))"

definition mapped_ip :: "mrow list \<Rightarrow> string \<Rightarrow> bool" where
  "mapped_ip rows ip \<longleftrightarrow> list_ex (\<lambda>m. map_of m ''kind'' = Some (MText HOST_KIND) \<and> map_of m ''real_value'' = Some (MText ip)) rows"

definition publish :: "metrics_job \<Rightarrow> string \<Rightarrow> mcell \<Rightarrow> string \<Rightarrow> rat \<Rightarrow> string \<Rightarrow> write_plan \<Rightarrow> write_plan" where
  "publish j metric bucket ip v sur plan =
     plan\<lparr>wp_map := wp_map plan @ (if mapped_ip (wp_map plan) ip then [] else [map_row ip sur (mj_version j) (mj_now j)]),
          wp_entity := wp_entity plan @ [entity_row bucket sur metric v (mj_tenant j)]\<rparr>"

definition entity_step :: "metrics_job \<Rightarrow> string \<Rightarrow> string list \<Rightarrow> mrow \<Rightarrow> write_plan \<Rightarrow> write_plan attempt" where
  "entity_step j metric best row plan =
     bind_run (Some (ip_value row)) (\<lambda>(ip, v).
       if ip \<notin> set best then Some (Inr plan)
       else bind_run (mint_surrogate (mj_mac j) (mj_pmap j) (mj_key j) HOST_KIND ip) (\<lambda>sur.
         bind_run (Some (need_cell row ''bucket_start'')) (\<lambda>b. Some (Inr (publish j metric b ip v sur plan)))))"

definition entity_part :: "metrics_job \<Rightarrow> string \<Rightarrow> write_plan \<Rightarrow> write_plan attempt" where
  "entity_part j metric plan =
     bind_run (Some (entity_bucket_series (mj_run j) (mj_tenant j) metric (mj_since j) (mj_bucket j))) (\<lambda>rows.
       bind_run (Some (concat_sum (\<lambda>r. bind_sum (ip_value r) (\<lambda>x. Inr [x])) rows)) (\<lambda>rs.
         fold_run (entity_step j metric (top_ips (mj_top j) rs)) rows plan))"

definition series_row :: "metrics_job \<Rightarrow> string \<Rightarrow> mrow \<Rightarrow> string + mrow list" where
  "series_row j metric row =
     bind_sum (need_cell row ''bucket_start'') (\<lambda>b. bind_sum (need_float row ''value'') (\<lambda>v.
       Inr [metric_row b metric v (mj_tenant j)]))"

definition add_metrics :: "mrow list \<Rightarrow> write_plan \<Rightarrow> write_plan" where
  "add_metrics rows plan = plan\<lparr>wp_metric := wp_metric plan @ rows\<rparr>"

definition series_part :: "metrics_job \<Rightarrow> string \<Rightarrow> write_plan \<Rightarrow> write_plan attempt" where
  "series_part j metric plan =
     bind_run (Some (bind_sum (aggregate_series (mj_run j) (mj_tenant j) metric (mj_since j) (mj_bucket j)) (concat_sum (series_row j metric))))
       (\<lambda>rows. Some (Inr (add_metrics rows plan)))"

definition measure_step :: "metrics_job \<Rightarrow> measure \<Rightarrow> write_plan \<Rightarrow> write_plan attempt" where
  "measure_step j m plan =
     (if ms_kind m = ''index'' then
        bind_run (Some (index_value j (ms_metric m))) (\<lambda>v.
          Some (Inr (add_metrics [metric_row (MText (mj_since j)) (ms_metric m) v (mj_tenant j)] plan)))
      else
        bind_run (if ms_per_entity m then entity_part j (ms_metric m) plan else Some (Inr plan)) (series_part j (ms_metric m)))"

definition plan_writes :: "metrics_job \<Rightarrow> write_plan attempt" where
  "plan_writes j = fold_run (measure_step j) enabled_measures \<lparr>wp_metric = [], wp_entity = [], wp_map = []\<rparr>"

section \<open>Writing\<close>

definition METRIC_COLUMNS :: "string list" where "METRIC_COLUMNS = [''bucket_start'', ''metric'', ''dim'', ''value'', ''tenant_id'']"
definition SERIES_COLUMNS :: "string list" where "SERIES_COLUMNS = [''bucket_start'', ''surrogate'', ''metric'', ''value'', ''tenant_id'']"
definition MAP_COLUMNS :: "string list" where
  "MAP_COLUMNS = [''kind'', ''real_value'', ''surrogate'', ''key_version'', ''first_seen'', ''last_seen'']"

definition DATETIME_COLUMNS :: "string list" where "DATETIME_COLUMNS = [''bucket_start'', ''first_seen'', ''last_seen'']"

definition coerce :: "string \<Rightarrow> mcell \<Rightarrow> string + mcell" where
  "coerce column value =
     (if column \<in> set DATETIME_COLUMNS then
        (case value of
           MText s \<Rightarrow> (case fromisoformat s of None \<Rightarrow> Inl ''ValueError'' | Some d \<Rightarrow> Inr (MTime d))
         | _ \<Rightarrow> Inr value)
      else Inr value)"

definition written_row :: "string list \<Rightarrow> mrow \<Rightarrow> string + mcell list" where
  "written_row cols item = concat_sum (\<lambda>c. bind_sum (need_cell item c) (\<lambda>v. bind_sum (coerce c v) (\<lambda>w. Inr [w]))) cols"

definition written_rows :: "mrow list \<Rightarrow> string list \<Rightarrow> string + mcell list list" where
  "written_rows items cols = concat_sum (\<lambda>item. bind_sum (written_row cols item) (\<lambda>r. Inr [r])) items"

text \<open>The table, the columns and the rows of one insert; the client raises, or answers the new state.\<close>

type_synonym 'db metrics_insert = "string \<Rightarrow> mcell list list \<Rightarrow> string list \<Rightarrow> 'db \<Rightarrow> string option \<times> 'db"

definition write_items :: "'db metrics_insert \<Rightarrow> string \<Rightarrow> string list \<Rightarrow> mrow list \<Rightarrow> 'db \<Rightarrow> (string + nat) \<times> 'db" where
  "write_items ins table cols items db =
     (if items = [] then (Inr 0, db)
      else
        (case written_rows items cols of
           Inl exc \<Rightarrow> (Inl exc, db)
         | Inr rows \<Rightarrow>
             (case ins table rows cols db of
                (Some exc, db') \<Rightarrow> (Inl exc, db')
              | (None, db') \<Rightarrow> (Inr (length items), db'))))"

definition write_metric_timeseries :: "'db metrics_insert \<Rightarrow> mrow list \<Rightarrow> 'db \<Rightarrow> (string + nat) \<times> 'db" where
  "write_metric_timeseries ins = write_items ins ''ssdf_public.metric_timeseries'' METRIC_COLUMNS"
definition write_entity_series :: "'db metrics_insert \<Rightarrow> mrow list \<Rightarrow> 'db \<Rightarrow> (string + nat) \<times> 'db" where
  "write_entity_series ins = write_items ins ''ssdf_public.entity_series'' SERIES_COLUMNS"
definition write_pseudonym_map :: "'db metrics_insert \<Rightarrow> mrow list \<Rightarrow> 'db \<Rightarrow> (string + nat) \<times> 'db" where
  "write_pseudonym_map ins = write_items ins ''ssdf.pseudonym_map'' MAP_COLUMNS"

definition then_write :: "(string + nat) \<times> 'db \<Rightarrow> ('db \<Rightarrow> (string + nat) \<times> 'db) \<Rightarrow> (string + nat) \<times> 'db" where
  "then_write r f = (case r of (Inl exc, db) \<Rightarrow> (Inl exc, db) | (Inr n, db) \<Rightarrow> (case f db of (Inl exc, db') \<Rightarrow> (Inl exc, db') | (Inr m, db') \<Rightarrow> (Inr (n + m), db')))"

text \<open>\<open>run\<close>: the map is read, the plan made, and its rows written; the answer is the number of rows.\<close>

definition write_plan_rows :: "'db metrics_insert \<Rightarrow> write_plan \<Rightarrow> 'db \<Rightarrow> (string + nat) \<times> 'db" where
  "write_plan_rows ins plan db =
     then_write (then_write (write_metric_timeseries ins (wp_metric plan) db) (write_entity_series ins (wp_entity plan)))
       (write_pseudonym_map ins (wp_map plan))"

definition run_metrics :: "'db metrics_insert \<Rightarrow> metrics_job \<Rightarrow> 'db \<Rightarrow> ((string + nat) \<times> 'db) option" where
  "run_metrics ins j db =
     (case load_pseudonym_map (mj_run j) [''host''] of
        Inl exc \<Rightarrow> Some (Inl exc, db)
      | Inr pmap \<Rightarrow>
          map_option (\<lambda>p. case p of Inl exc \<Rightarrow> (Inl exc, db) | Inr plan \<Rightarrow> write_plan_rows ins plan db)
            (plan_writes (j\<lparr>mj_pmap := pmap\<rparr>)))"

section \<open>Pseudonyms are minted at the first free length\<close>

definition candidate :: "keyed_digest \<Rightarrow> string \<Rightarrow> string \<Rightarrow> string \<Rightarrow> nat \<Rightarrow> string" where
  "candidate mac key kind rv k = dget_or PREFIXES kind [] @ take (BASE_LENGTH + 2 * k) (mac key (kind @ '':'' @ rv))"

definition free_for :: "attrs \<Rightarrow> string \<Rightarrow> string \<Rightarrow> bool" where
  "free_for taken rv c \<longleftrightarrow> (case map_of taken c of None \<Rightarrow> True | Some owner \<Rightarrow> owner = rv)"

lemma mint_loop_step:
  assumes "dhas PREFIXES kind"
  shows "mint_loop mac taken key kind rv (BASE_LENGTH + 2 * k) =
    (if free_for taken rv (candidate mac key kind rv k) then Some (Inr (candidate mac key kind rv k))
     else mint_loop mac taken key kind rv (BASE_LENGTH + 2 * Suc k))"
  using assms by (subst mint_loop.simps)
    (auto simp: surrogate_def candidate_def free_for_def dget_or_def dhas_def split: option.splits)

lemma mint_loop_finds:
  assumes k: "dhas PREFIXES kind" and "\<forall>i < n. \<not> free_for taken rv (candidate mac key kind rv i)"
  shows "mint_loop mac taken key kind rv BASE_LENGTH = mint_loop mac taken key kind rv (BASE_LENGTH + 2 * n)"
  using assms(2)
proof (induction n)
  case (Suc n)
  then have "mint_loop mac taken key kind rv BASE_LENGTH = mint_loop mac taken key kind rv (BASE_LENGTH + 2 * n)" by simp
  then show ?case using mint_loop_step [OF k, of mac taken key rv n] Suc.prems by simp
qed simp

definition some_free :: "keyed_digest \<Rightarrow> attrs \<Rightarrow> string \<Rightarrow> string \<Rightarrow> string \<Rightarrow> nat \<Rightarrow> bool" where
  "some_free mac taken key kind rv n \<longleftrightarrow>
     (\<forall>i. n = BASE_LENGTH + 2 * i \<and> dhas PREFIXES kind \<longrightarrow> (\<exists>m. free_for taken rv (candidate mac key kind rv m)))"

lemma some_free_step:
  assumes "\<And>n r. loop mac taken key kind rv n = Some r \<Longrightarrow> some_free mac taken key kind rv n"
    and "(case surrogate mac key kind rv n of Inl e \<Rightarrow> Some (Inl e)
      | Inr c \<Rightarrow> (case map_of taken c of None \<Rightarrow> Some (Inr c)
          | Some owner \<Rightarrow> if owner = rv then Some (Inr c) else loop mac taken key kind rv (n + 2))) = Some r"
  shows "some_free mac taken key kind rv n"
  unfolding some_free_def
proof (intro allI impI)
  fix i assume n: "n = BASE_LENGTH + 2 * i \<and> dhas PREFIXES kind"
  then have s: "surrogate mac key kind rv n = Inr (candidate mac key kind rv i)"
    by (auto simp: surrogate_def candidate_def dget_or_def dhas_def)
  show "\<exists>m. free_for taken rv (candidate mac key kind rv m)"
  proof (cases "free_for taken rv (candidate mac key kind rv i)")
    case False
    then have "loop mac taken key kind rv (n + 2) = Some r" using assms(2) s by (auto simp: free_for_def split: option.splits if_splits)
    from assms(1) [OF this] show ?thesis using n unfolding some_free_def by (metis add.assoc mult_Suc_right add.commute)
  qed auto
qed

lemma mint_loop_returns:
  assumes "mint_loop mac taken key kind rv n = Some r"
  shows "some_free mac taken key kind rv n"
  by (rule mint_loop.raw_induct [of "\<lambda>mac taken key kind rv n r. some_free mac taken key kind rv n", OF some_free_step assms]) assumption+

definition first_free :: "keyed_digest \<Rightarrow> attrs \<Rightarrow> string \<Rightarrow> string \<Rightarrow> string \<Rightarrow> string option" where
  "first_free mac taken key kind rv =
     (if \<exists>k. free_for taken rv (candidate mac key kind rv k)
      then Some (candidate mac key kind rv (LEAST k. free_for taken rv (candidate mac key kind rv k))) else None)"

lemma mint_loop_exact:
  assumes k: "dhas PREFIXES kind"
  shows "mint_loop mac taken key kind rv BASE_LENGTH = map_option Inr (first_free mac taken key kind rv)"
proof (cases "\<exists>k. free_for taken rv (candidate mac key kind rv k)")
  case True
  let ?n = "LEAST k. free_for taken rv (candidate mac key kind rv k)"
  have "free_for taken rv (candidate mac key kind rv ?n)" using True by (rule LeastI_ex)
  moreover have "\<forall>i < ?n. \<not> free_for taken rv (candidate mac key kind rv i)" using not_less_Least by blast
  ultimately show ?thesis
    using mint_loop_finds [OF k, where n = ?n and mac = mac and taken = taken and key = key and rv = rv]
      mint_loop_step [OF k, where k = ?n and mac = mac and taken = taken and key = key and rv = rv] True
    by (simp only: first_free_def if_True option.map)
next
  case False
  then have "mint_loop mac taken key kind rv BASE_LENGTH = None"
    using mint_loop_returns [of mac taken key kind rv BASE_LENGTH] k unfolding some_free_def
    by (metis add.right_neutral mult_zero_right option.exhaust)
  then show ?thesis using False by (simp add: first_free_def)
qed

text \<open>The surrogates that the map already uses for values of a kind.\<close>

definition surrogates_of :: "pseudonym_map \<Rightarrow> string \<Rightarrow> string set" where
  "surrogates_of existing kind = {s. \<exists>v. ((kind, v), s) \<in> set existing}"

lemma taken_by_rev:
  "taken_by (existing @ [((k, v), s)]) kind = (if k = kind then dset (taken_by existing kind) s v else taken_by existing kind)"
  by (simp add: taken_by_def)

lemma taken_by_spec:
  "(map_of (taken_by existing kind) s = None \<longleftrightarrow> s \<notin> surrogates_of existing kind)
   \<and> (\<forall>v. map_of (taken_by existing kind) s = Some v \<longrightarrow> ((kind, v), s) \<in> set existing)"
proof (induction existing rule: rev_induct)
  case (snoc e existing)
  obtain k v s' where "e = ((k, v), s')" by (metis prod.exhaust)
  then have "surrogates_of (existing @ [e]) kind = (if k = kind then insert s' (surrogates_of existing kind) else surrogates_of existing kind)"
    by (auto simp: surrogates_of_def)
  then show ?case using snoc \<open>e = _\<close> by (auto simp: taken_by_rev)
qed (simp add: taken_by_def surrogates_of_def)

lemma new_value_free:
  assumes "map_of existing (kind, rv) = None"
  shows "free_for (taken_by existing kind) rv c \<longleftrightarrow> c \<notin> surrogates_of existing kind"
proof -
  have "((kind, rv), c) \<notin> set existing" using assms by (force simp: map_of_eq_None_iff)
  then show ?thesis using taken_by_spec [of existing kind c] by (auto simp: free_for_def split: option.splits)
qed

text \<open>C30: Minting is exact.  A value of the map keeps its surrogate for ever.  A new value gets the shortest prefix of
  its keyed digest, from ten digits on in steps of two, that no value of its kind has; minting does not return
  exactly when every one of them is taken.\<close>

theorem mint_surrogate_exact:
  assumes "dhas PREFIXES kind"
  shows "mint_surrogate mac existing key kind rv =
    (case map_of existing (kind, rv) of
       Some prior \<Rightarrow> Some (Inr prior)
     | None \<Rightarrow>
         (if \<exists>k. candidate mac key kind rv k \<notin> surrogates_of existing kind
          then Some (Inr (candidate mac key kind rv (LEAST k. candidate mac key kind rv k \<notin> surrogates_of existing kind)))
          else None))"
  by (simp add: mint_surrogate_def mint_loop_exact [OF assms] first_free_def new_value_free split: option.split)

text \<open>Two addresses whose digests agree in the first ten digits only.\<close>

definition sample_mac :: keyed_digest where
  "sample_mac key msg = ''0123456789'' @ (if msg = ''host:10.0.0.1'' then ''aa'' else ''bb'')"

lemma mint_surrogate_exact_witness:
  "mint_surrogate sample_mac [((''host'', ''10.0.0.1''), ''h_0123456789'')] ''key'' ''host'' ''10.0.0.2'' = Some (Inr ''h_0123456789bb'')
   \<and> mint_surrogate (\<lambda>key msg. []) [((''host'', ''10.0.0.1''), ''h_'')] ''key'' ''host'' ''10.0.0.2'' = None"
proof
  let ?m = "[((''host'', ''10.0.0.1''), ''h_0123456789'')] :: pseudonym_map"
  let ?P = "\<lambda>k. candidate sample_mac ''key'' ''host'' ''10.0.0.2'' k \<notin> surrogates_of ?m ''host''"
  have k: "dhas PREFIXES ''host''" by code_simp
  have s: "surrogates_of ?m ''host'' = {''h_0123456789''}" by (auto simp: surrogates_of_def)
  have "candidate sample_mac ''key'' ''host'' ''10.0.0.2'' 0 = ''h_0123456789''"
    "candidate sample_mac ''key'' ''host'' ''10.0.0.2'' 1 = ''h_0123456789bb''" by code_simp+
  then have "?P 1" "\<not> ?P 0" "candidate sample_mac ''key'' ''host'' ''10.0.0.2'' 1 = ''h_0123456789bb''" unfolding s by simp_all
  moreover from this have "(LEAST k. ?P k) = 1" by (intro Least_equality) (auto intro: Suc_leI gr0I)
  ultimately show "mint_surrogate sample_mac ?m ''key'' ''host'' ''10.0.0.2'' = Some (Inr ''h_0123456789bb'')"
    unfolding mint_surrogate_exact [OF k] using exI [of ?P, OF \<open>?P 1\<close>] by simp
  have "candidate (\<lambda>key msg. []) ''key'' ''host'' ''10.0.0.2'' k = ''h_''" for k by (simp add: candidate_def PREFIXES_def dget_or_def)
  moreover have "surrogates_of [((''host'', ''10.0.0.1''), ''h_'')] ''host'' = {''h_''}" by (auto simp: surrogates_of_def)
  ultimately show "mint_surrogate (\<lambda>key msg. []) [((''host'', ''10.0.0.1''), ''h_'')] ''key'' ''host'' ''10.0.0.2'' = None"
    unfolding mint_surrogate_exact [OF k] by simp
qed

section \<open>What a plan publishes\<close>

lemma bind_run_Inr: "bind_run m f = Some (Inr y) \<longleftrightarrow> (\<exists>x. m = Some (Inr x) \<and> f x = Some (Inr y))"
  by (auto simp: bind_run_def split: option.splits sum.splits)

lemma fold_run_inv:
  assumes "\<And>x s s'. x \<in> set xs \<Longrightarrow> P s \<Longrightarrow> f x s = Some (Inr s') \<Longrightarrow> P s'"
  shows "P s \<Longrightarrow> fold_run f xs s = Some (Inr s') \<Longrightarrow> P s'"
  using assms
proof (induction xs arbitrary: s)
  case (Cons x xs)
  then obtain s1 where "f x s = Some (Inr s1)" "fold_run f xs s1 = Some (Inr s')" by (auto simp: bind_run_Inr)
  then show ?case using Cons by (metis list.set_intros)
qed simp

definition minted :: "metrics_job \<Rightarrow> string \<Rightarrow> string attempt" where
  "minted j ip = mint_surrogate (mj_mac j) (mj_pmap j) (mj_key j) HOST_KIND ip"

abbreviation map_rows :: "metrics_job \<Rightarrow> attrs \<Rightarrow> mrow list" where
  "map_rows j bs \<equiv> map (\<lambda>b. map_row (fst b) (snd b) (mj_version j) (mj_now j)) bs"

definition plan_ok :: "metrics_job \<Rightarrow> attrs \<Rightarrow> write_plan \<Rightarrow> bool" where
  "plan_ok j bs plan \<longleftrightarrow> dict_ok bs \<and> wp_map plan = map_rows j bs \<and> (\<forall>b \<in> set bs. minted j (fst b) = Some (Inr (snd b)))
     \<and> (\<lambda>e. map_of e ''surrogate'') ` set (wp_entity plan) = (\<lambda>b. Some (MText (snd b))) ` set bs"

lemma mapped_ip_rows: "mapped_ip (map_rows j bs) ip \<longleftrightarrow> ip \<in> set (dkeys bs)"
  by (auto simp: mapped_ip_def map_row_def list_ex_iff)

lemma entity_row_surrogate: "map_of (entity_row b sur metric v tenant) ''surrogate'' = Some (MText sur)"
  by (simp add: entity_row_def)

lemma publish_ok:
  assumes p: "plan_ok j bs plan" and m: "minted j ip = Some (Inr sur)"
  shows "\<exists>bs. plan_ok j bs (publish j metric b ip v sur plan)"
proof (cases "ip \<in> set (dkeys bs)")
  case True
  then obtain s where "(ip, s) \<in> set bs" by auto
  then have "(ip, sur) \<in> set bs" using p m by (auto simp: plan_ok_def)
  then have "insert (Some (MText sur)) ((\<lambda>b. Some (MText (snd b))) ` set bs) = (\<lambda>b. Some (MText (snd b))) ` set bs"
    by (intro insert_absorb) (rule image_eqI [of _ _ "(ip, sur)"], simp_all)
  then have "plan_ok j bs (publish j metric b ip v sur plan)"
    using p True by (simp add: plan_ok_def publish_def mapped_ip_rows entity_row_surrogate)
  then show ?thesis by blast
next
  case False
  then have "plan_ok j (bs @ [(ip, sur)]) (publish j metric b ip v sur plan)"
    using p m by (auto simp: plan_ok_def publish_def mapped_ip_rows entity_row_surrogate dict_ok_def)
  then show ?thesis by blast
qed

lemma entity_step_ok:
  assumes "\<exists>bs. plan_ok j bs plan" and "entity_step j metric best row plan = Some (Inr plan')"
  shows "\<exists>bs. plan_ok j bs plan'"
  using assms publish_ok by (auto simp: entity_step_def bind_run_Inr minted_def split: if_splits)

lemma add_metrics_ok: "plan_ok j bs (add_metrics rows plan) = plan_ok j bs plan"
  by (simp add: add_metrics_def plan_ok_def)

lemma measure_step_ok:
  assumes p: "\<exists>bs. plan_ok j bs plan" and s: "measure_step j m plan = Some (Inr plan')"
  shows "\<exists>bs. plan_ok j bs plan'"
proof -
  have "\<exists>bs. plan_ok j bs p'" if "entity_part j metric plan = Some (Inr p')" for metric p'
    using that fold_run_inv [where P = "\<lambda>p. \<exists>bs. plan_ok j bs p", OF entity_step_ok p]
    by (auto simp: entity_part_def bind_run_Inr)
  then show ?thesis using p s
    by (auto simp: measure_step_def series_part_def bind_run_Inr add_metrics_ok split: if_splits)
qed

lemma plan_writes_ok:
  assumes "plan_writes j = Some (Inr plan)"
  shows "\<exists>bs. plan_ok j bs plan"
proof -
  have "plan_ok j [] \<lparr>wp_metric = [], wp_entity = [], wp_map = []\<rparr>" by (simp add: plan_ok_def dict_ok_def)
  then have start: "\<exists>bs. plan_ok j bs \<lparr>wp_metric = [], wp_entity = [], wp_map = []\<rparr>" by blast
  show ?thesis
    by (rule fold_run_inv [where P = "\<lambda>p. \<exists>bs. plan_ok j bs p", OF _ start assms [unfolded plan_writes_def]])
      (rule measure_step_ok)
qed

text \<open>C31: Every published surrogate can be resolved, and only by its map.  The rows that a plan adds to the sovereign
  map name every address once, with the surrogate that minting gives it; the surrogates of the public series
  are exactly those of these rows.\<close>

theorem published_surrogates_mapped:
  assumes "plan_writes j = Some (Inr plan)"
  shows "\<exists>bs. dict_ok bs \<and> wp_map plan = map (\<lambda>b. map_row (fst b) (snd b) (mj_version j) (mj_now j)) bs
    \<and> (\<forall>b \<in> set bs. mint_surrogate (mj_mac j) (mj_pmap j) (mj_key j) HOST_KIND (fst b) = Some (Inr (snd b)))
    \<and> (\<lambda>e. map_of e ''surrogate'') ` set (wp_entity plan) = (\<lambda>b. Some (MText (snd b))) ` set bs"
  using plan_writes_ok [OF assms] by (simp add: plan_ok_def minted_def)

text \<open>A reader with two addresses, and a digest that tells them apart after ten digits only.\<close>

definition sample_reader :: metrics_query where
  "sample_reader q = Inr (if contains ''AS ip'' (fst q) then
     [[(''bucket_start'', MTime (utc_dt 0)), (''ip'', MText ''10.0.0.1''), (''value'', MNum 5)],
      [(''bucket_start'', MTime (utc_dt 0)), (''ip'', MText ''10.0.0.2''), (''value'', MNum 7)]] else [])"

definition sample_job :: metrics_job where
  "sample_job = \<lparr>mj_run = sample_reader, mj_mac = sample_mac, mj_key = ''key'', mj_pmap = [], mj_since = ''2026-01-02T00:00:00+00:00'',
     mj_baseline = ''2026-01-01T00:00:00+00:00'', mj_bucket = 300, mj_top = 20, mj_version = 1, mj_tenant = ''t_main'',
     mj_now = ''2026-01-02T01:00:00+00:00''\<rparr>"

definition metrics_plan :: write_plan where
  "metrics_plan =
     \<lparr>wp_metric = [metric_row (MText (mj_since sample_job)) ''deny_rate_index'' 0 ''t_main'',
                   metric_row (MText (mj_since sample_job)) ''ips_volume_index'' 0 ''t_main''],
      wp_entity = [entity_row (MTime (utc_dt 0)) ''h_0123456789'' ''bytes'' 5 ''t_main'',
                   entity_row (MTime (utc_dt 0)) ''h_0123456789'' ''bytes'' 7 ''t_main''],
      wp_map = map_rows sample_job [(''10.0.0.1'', ''h_0123456789''), (''10.0.0.2'', ''h_0123456789'')]\<rparr>"


lemma metrics_plan: "plan_writes sample_job = Some (Inr metrics_plan)"
  by code_simp

lemma published_surrogates_mapped_witness:
  "\<exists>bs. dict_ok bs \<and> wp_map metrics_plan = map (\<lambda>b. map_row (fst b) (snd b) 1 ''2026-01-02T01:00:00+00:00'') bs"
  using published_surrogates_mapped [OF metrics_plan] by (auto simp: sample_job_def)

definition surrogates_distinct :: "pseudonym_map \<Rightarrow> bool" where
  "surrogates_distinct pmap \<longleftrightarrow> (\<forall>v v' s. ((HOST_KIND, v), s) \<in> set pmap \<and> ((HOST_KIND, v'), s) \<in> set pmap \<longrightarrow> v = v')"

lemma minted_known: "minted j ip = Some (Inr s) \<Longrightarrow> map_of (mj_pmap j) (HOST_KIND, ip) \<noteq> None \<Longrightarrow> ((HOST_KIND, ip), s) \<in> set (mj_pmap j)"
  by (auto simp: minted_def mint_surrogate_def dest: map_of_SomeD)

lemma minted_new:
  assumes "minted j ip = Some (Inr s)" and n: "map_of (mj_pmap j) (HOST_KIND, ip) = None"
  shows "s \<notin> surrogates_of (mj_pmap j) HOST_KIND"
proof -
  have k: "dhas PREFIXES HOST_KIND" by code_simp
  let ?P = "\<lambda>i. free_for (taken_by (mj_pmap j) HOST_KIND) ip (candidate (mj_mac j) (mj_key j) HOST_KIND ip i)"
  have "Some (Inr s) = (map_option Inr (first_free (mj_mac j) (taken_by (mj_pmap j) HOST_KIND) (mj_key j) HOST_KIND ip) :: string attempt)"
    using assms by (simp add: minted_def mint_surrogate_def mint_loop_exact [OF k])
  then have "\<exists>i. ?P i" "s = candidate (mj_mac j) (mj_key j) HOST_KIND ip (LEAST i. ?P i)"
    by (auto simp: first_free_def split: if_splits)
  then have "free_for (taken_by (mj_pmap j) HOST_KIND) ip s" using LeastI_ex [of ?P] by simp
  then show ?thesis by (simp add: new_value_free [OF n])
qed

lemma map_row_inject: "map_row ip s v now = map_row ip' s' v now \<longleftrightarrow> ip = ip' \<and> s = s'"
  by (auto simp: map_row_def)



section \<open>The public rows do not name an address\<close>

text \<open>The same world under other addresses: the rows and the map are renamed, and the digests of the new addresses are
  those of the old ones.\<close>

definition rename_ip :: "(string \<Rightarrow> string) \<Rightarrow> mcell \<Rightarrow> mcell" where
  "rename_ip f c = (case c of MText s \<Rightarrow> MText (f s) | _ \<Rightarrow> c)"

definition rename_row :: "(string \<Rightarrow> string) \<Rightarrow> mrow \<Rightarrow> mrow" where
  "rename_row f row = map (\<lambda>(k, c). (k, if k = ''ip'' then rename_ip f c else c)) row"

definition rename_pmap :: "(string \<Rightarrow> string) \<Rightarrow> pseudonym_map \<Rightarrow> pseudonym_map" where
  "rename_pmap f pmap = map (\<lambda>((k, v), s). ((k, if k = HOST_KIND then f v else v), s)) pmap"

definition renamed :: "(string \<Rightarrow> string) \<Rightarrow> keyed_digest \<Rightarrow> metrics_job \<Rightarrow> metrics_job" where
  "renamed f mac j = j\<lparr>mj_run := (\<lambda>q. map_sum id (map (rename_row f)) (mj_run j q)), mj_mac := mac, mj_pmap := rename_pmap f (mj_pmap j)\<rparr>"

definition public_part :: "write_plan \<Rightarrow> mrow list \<times> mrow list" where
  "public_part plan = (wp_metric plan, wp_entity plan)"

definition map_run :: "('a \<Rightarrow> 'b) \<Rightarrow> 'a attempt \<Rightarrow> 'b attempt" where
  "map_run g m = map_option (map_sum id g) m"

lemma map_run_simps [simp]: "map_run g None = None" "map_run g (Some (Inl e)) = Some (Inl e)" "map_run g (Some (Inr x)) = Some (Inr (g x))"
  by (simp_all add: map_run_def)

lemma map_run_bind:
  assumes "map_run g m = map_run g m'" and "\<And>x x'. g x = g x' \<Longrightarrow> map_run h (f x) = map_run h (f' x')"
  shows "map_run h (bind_run m f) = map_run h (bind_run m' f')"
proof -
  consider "m = None" "m' = None" | e where "m = Some (Inl e)" "m' = Some (Inl e)" | x x' where "m = Some (Inr x)" "m' = Some (Inr x')" "g x = g x'"
    using assms(1) by (cases m; cases m'; cases "the m"; cases "the m'") (auto simp: map_run_def)
  then show ?thesis using assms(2) by cases auto
qed

lemma fold_run_sim:
  assumes "\<And>x s s'. g s = g s' \<Longrightarrow> map_run g (f x s) = map_run g (f' (h x) s')"
  shows "g s = g s' \<Longrightarrow> map_run g (fold_run f xs s) = map_run g (fold_run f' (map h xs) s')"
proof (induction xs arbitrary: s s')
  case (Cons x xs)
  show ?case unfolding fold_run.simps list.map
    by (rule map_run_bind [where g = g, OF assms [OF Cons.prems]]) (rule Cons.IH)
qed simp

lemma sort_key_renamed: "sort_key k (map h xs) = map h (sort_key (k \<circ> h) xs)"
proof -
  have "insort_key k (h x) (map h ys) = map h (insort_key (k \<circ> h) x ys)" for x ys by (induction ys) simp_all
  then show ?thesis by (induction xs) simp_all
qed

lemma map_of_rename_row: "map_of (rename_row f row) k = map_option (if k = ''ip'' then rename_ip f else id) (map_of row k)"
  by (induction row) (auto simp: rename_row_def)

lemma need_cell_rename: "need_cell (rename_row f row) k = map_sum id (if k = ''ip'' then rename_ip f else id) (need_cell row k)"
  by (simp add: need_cell_def map_of_rename_row split: option.split)

lemma need_other_rename [simp]: "k \<noteq> ''ip'' \<Longrightarrow> need_cell (rename_row f row) k = need_cell row k"
  by (simp add: need_cell_rename sum.map_id)

lemma need_float_rename [simp]: "k \<noteq> ''ip'' \<Longrightarrow> need_float (rename_row f row) k = need_float row k"
  by (simp add: need_float_def)

lemma need_ip_rename: "need_ip (rename_row f row) = map_sum id f (need_ip row)"
  by (cases "need_cell row ''ip''") (simp_all add: need_ip_def need_cell_rename rename_ip_def split: mcell.split)

lemma map_of_rename_pmap:
  assumes "inj f"
  shows "map_of (rename_pmap f pmap) (HOST_KIND, f ip) = map_of pmap (HOST_KIND, ip)"
  using injD [OF assms] by (induction pmap) (auto simp: rename_pmap_def)

lemma rename_values: "map (\<lambda>(k, v). (k, f v)) (dset d k v) = dset (map (\<lambda>(k, v). (k, f v)) d) k (f v)"
  by (induction d) auto

lemma taken_by_rename: "taken_by (rename_pmap f pmap) HOST_KIND = map (\<lambda>(s, v). (s, f v)) (taken_by pmap HOST_KIND)"
proof (induction pmap rule: rev_induct)
  case (snoc e pmap)
  obtain k v s where "e = ((k, v), s)" by (metis prod.exhaust)
  then show ?case using snoc by (simp add: rename_pmap_def taken_by_rev rename_values del: map_map)
qed (simp add: taken_by_def rename_pmap_def)

lemma mint_rename:
  assumes f: "inj f" and mac: "\<And>ip. mac' key (HOST_KIND @ '':'' @ f ip) = mac key (HOST_KIND @ '':'' @ ip)"
  shows "mint_surrogate mac' (rename_pmap f pmap) key HOST_KIND (f ip) = mint_surrogate mac pmap key HOST_KIND ip"
proof -
  have k: "dhas PREFIXES HOST_KIND" by code_simp
  have c: "candidate mac' key HOST_KIND (f ip) = candidate mac key HOST_KIND ip"
    by (rule ext) (simp add: candidate_def mac [simplified])
  have "map_of (map (\<lambda>(s, v). (s, f v)) d) c = map_option f (map_of d c)" for d :: attrs and c
    by (induction d) auto
  then have "free_for (taken_by (rename_pmap f pmap) HOST_KIND) (f ip) = free_for (taken_by pmap HOST_KIND) ip"
    using injD [OF f] by (auto simp: free_for_def taken_by_rename fun_eq_iff split: option.split)
  then show ?thesis
    unfolding mint_surrogate_def map_of_rename_pmap [OF f] mint_loop_exact [OF k] first_free_def c by (simp only:)
qed

definition rename_key :: "(string \<Rightarrow> string) \<Rightarrow> string \<times> rat \<Rightarrow> string \<times> rat" where
  "rename_key f r = (f (fst r), snd r)"

lemma rename_key_simps [simp]: "fst (rename_key f r) = f (fst r)" "snd (rename_key f r) = snd r"
  by (simp_all add: rename_key_def)

lemma add_total_rename:
  assumes "inj f"
  shows "foldl add_total (map (rename_key f) d) (map (rename_key f) rs) = map (rename_key f) (foldl add_total d rs)"
proof (induction rs arbitrary: d)
  case (Cons r rs)
  have "dget_or (map (rename_key f) d) (f ip) 0 = dget_or d ip (0 :: rat)" for ip
    using injD [OF assms] by (induction d) (auto simp: dget_or_def rename_key_def)
  moreover have "dset (map (rename_key f) d) (f ip) v = map (rename_key f) (dset d ip v)" for ip and v :: rat
    using injD [OF assms] by (induction d) (auto simp: rename_key_def)
  ultimately have "add_total (map (rename_key f) d) (rename_key f r) = map (rename_key f) (add_total d r)"
    by (simp add: add_total_def)
  then show ?case using Cons by simp
qed simp

lemma top_ips_rename:
  assumes "inj f"
  shows "top_ips n (map (rename_key f) rs) = map f (top_ips n rs)"
proof -
  have "foldl add_total [] (map (rename_key f) rs) = map (rename_key f) (foldl add_total [] rs)"
    using add_total_rename [OF assms, of "[]"] by simp
  moreover have "(\<lambda>kv. - snd kv) \<circ> rename_key f = (\<lambda>kv. - snd kv)" by (rule ext) simp
  moreover have "slice_to n (map g xs) = map g (slice_to n xs)" for g :: "string \<times> rat \<Rightarrow> string \<times> rat" and xs
    by (simp add: slice_to_def take_map)
  ultimately show ?thesis by (simp add: top_ips_def sort_key_renamed comp_def)
qed

lemma ip_value_rename: "ip_value (rename_row f row) = map_sum id (rename_key f) (ip_value row)"
  by (cases "need_ip row"; cases "need_float row ''value''") (simp_all add: ip_value_def need_ip_rename rename_key_def)

lemma ip_values_rename:
  "concat_sum (\<lambda>r. bind_sum (ip_value r) (\<lambda>x. Inr [x])) (map (rename_row f) rows)
     = map_sum id (map (rename_key f)) (concat_sum (\<lambda>r. bind_sum (ip_value r) (\<lambda>x. Inr [x])) rows)"
proof (induction rows)
  case (Cons r rows)
  then show ?case
    by (cases "ip_value r"; cases "concat_sum (\<lambda>r. bind_sum (ip_value r) (\<lambda>x. Inr [x])) rows") (simp_all add: ip_value_rename)
qed simp

lemma concat_sum_map: "concat_sum f (map g xs) = concat_sum (f \<circ> g) xs"
  by (induction xs) simp_all

lemma renamed_query [simp]: "mj_run (renamed f mac j) q = map_sum id (map (rename_row f)) (mj_run j q)"
  by (simp add: renamed_def)

lemma renamed_same [simp]:
  "mj_since (renamed f mac j) = mj_since j" "mj_baseline (renamed f mac j) = mj_baseline j" "mj_bucket (renamed f mac j) = mj_bucket j"
  "mj_tenant (renamed f mac j) = mj_tenant j" "mj_top (renamed f mac j) = mj_top j" "mj_key (renamed f mac j) = mj_key j"
  "mj_mac (renamed f mac j) = mac" "mj_pmap (renamed f mac j) = rename_pmap f (mj_pmap j)"
  by (simp_all add: renamed_def)

lemma index_value_renamed: "index_value (renamed f mac j) metric = index_value j metric"
proof -
  have "deny_ratio (renamed f mac j) since = deny_ratio j since" for since
    by (cases "mj_run j (build_deny_counts_sql since (mj_tenant j))")
      (auto simp: deny_ratio_def deny_counts_def split: list.split)
  moreover have "alert_count (mj_run (renamed f mac j)) (mj_tenant j) since = alert_count (mj_run j) (mj_tenant j) since" for since
    by (cases "mj_run j (build_alert_count_sql since (mj_tenant j))") (auto simp: alert_count_def split: list.split)
  ultimately show ?thesis unfolding index_value_def Let_def by simp
qed

lemma series_renamed:
  "bind_sum (aggregate_series (mj_run (renamed f mac j)) tenant metric since bucket) (concat_sum (series_row (renamed f mac j) metric))
     = bind_sum (aggregate_series (mj_run j) tenant metric since bucket) (concat_sum (series_row j metric))"
proof -
  have "series_row (renamed f mac j) metric \<circ> rename_row f = series_row j metric" by (rule ext) (simp add: series_row_def)
  then have "concat_sum (series_row (renamed f mac j) metric) (map (rename_row f) rows) = concat_sum (series_row j metric) rows" for rows
    by (simp add: concat_sum_map)
  then show ?thesis
    unfolding aggregate_series_def
    by (cases "build_aggregate_sql metric since bucket tenant") (auto simp: bind_sum_def split: sum.split)
qed

lemma public_add: "public_part p = public_part p' \<Longrightarrow> public_part (add_metrics rows p) = public_part (add_metrics rows p')"
  by (simp add: public_part_def add_metrics_def)

lemma public_add_bind:
  assumes "public_part q = public_part q'"
  shows "map_run public_part (bind_run (Some r) (\<lambda>x. Some (Inr (add_metrics (g x) q))))
    = map_run public_part (bind_run (Some r) (\<lambda>x. Some (Inr (add_metrics (g x) q'))))"
  using public_add [OF assms] by (cases r) simp_all

lemma public_publish:
  "public_part p = public_part p' \<Longrightarrow>
     public_part (publish j metric b ip v sur p) = public_part (publish (renamed f mac j) metric b ip' v sur p')"
  by (simp add: public_part_def publish_def)

lemma entity_step_renamed:
  assumes f: "inj f" and mac: "\<And>ip. mac (mj_key j) (HOST_KIND @ '':'' @ f ip) = mj_mac j (mj_key j) (HOST_KIND @ '':'' @ ip)"
    and p: "public_part p = public_part p'"
  shows "map_run public_part (entity_step j metric best row p)
    = map_run public_part (entity_step (renamed f mac j) metric (map f best) (rename_row f row) p')"
proof (cases "ip_value row")
  case (Inr r)
  obtain ip v where r: "r = (ip, v)" by (metis prod.exhaust)
  have m: "f ip \<in> set (map f best) \<longleftrightarrow> ip \<in> set best" using f by (simp add: inj_image_mem_iff)
  have mint: "mint_surrogate mac (rename_pmap f (mj_pmap j)) (mj_key j) HOST_KIND (f ip)
      = mint_surrogate (mj_mac j) (mj_pmap j) (mj_key j) HOST_KIND ip"
    by (rule mint_rename [OF f]) (rule mac)
  show ?thesis
    by (cases "mint_surrogate (mj_mac j) (mj_pmap j) (mj_key j) HOST_KIND ip"; cases "the (mint_surrogate (mj_mac j) (mj_pmap j) (mj_key j) HOST_KIND ip)";
        cases "need_cell row ''bucket_start''")
      (simp_all add: entity_step_def ip_value_rename Inr r rename_key_def m [simplified] mint p public_publish [OF p])
qed (simp add: entity_step_def ip_value_rename)

lemma entity_part_renamed:
  assumes f: "inj f" and mac: "\<And>ip. mac (mj_key j) (HOST_KIND @ '':'' @ f ip) = mj_mac j (mj_key j) (HOST_KIND @ '':'' @ ip)"
    and p: "public_part p = public_part p'"
  shows "map_run public_part (entity_part j metric p) = map_run public_part (entity_part (renamed f mac j) metric p')"
proof -
  let ?vals = "concat_sum (\<lambda>r. bind_sum (ip_value r) (\<lambda>x. Inr [x]))"
  have series: "entity_bucket_series (mj_run (renamed f mac j)) t metric s b
      = map_sum id (map (rename_row f)) (entity_bucket_series (mj_run j) t metric s b)" for t s b
    unfolding entity_bucket_series_def by (cases "build_entity_bucket_sql metric s b t") simp_all
  show ?thesis
  proof (cases "entity_bucket_series (mj_run j) (mj_tenant j) metric (mj_since j) (mj_bucket j)")
    case (Inr rows)
    show ?thesis
    proof (cases "?vals rows")
      case (Inr rs)
      let ?best = "top_ips (mj_top j) rs"
      have "map_run public_part (fold_run (entity_step j metric ?best) rows p)
          = map_run public_part (fold_run (entity_step (renamed f mac j) metric (map f ?best)) (map (rename_row f) rows) p')"
        by (rule fold_run_sim [where g = public_part and h = "rename_row f"]) (rule entity_step_renamed [where f = f and mac = mac and j = j, OF f mac], assumption, rule p)
      then show ?thesis
        using \<open>entity_bucket_series _ _ _ _ _ = Inr rows\<close> Inr
        by (simp add: entity_part_def series ip_values_rename top_ips_rename [OF f])
    qed (simp add: entity_part_def series ip_values_rename Inr)
  qed (simp add: entity_part_def series)
qed

lemma measure_step_renamed:
  assumes f: "inj f" and mac: "\<And>ip. mac (mj_key j) (HOST_KIND @ '':'' @ f ip) = mj_mac j (mj_key j) (HOST_KIND @ '':'' @ ip)"
    and p: "public_part p = public_part p'"
  shows "map_run public_part (measure_step j m p) = map_run public_part (measure_step (renamed f mac j) m p')"
proof -
  have s: "map_run public_part (series_part j metric q) = map_run public_part (series_part (renamed f mac j) metric q')"
    if "public_part q = public_part q'" for metric q q'
    unfolding series_part_def series_renamed renamed_same by (rule public_add_bind [OF that])
  show ?thesis
  proof (cases "ms_kind m = ''index''")
    case True
    show ?thesis unfolding measure_step_def if_P [OF True] index_value_renamed renamed_same by (rule public_add_bind [OF p])
  next
    case False
    have e: "map_run public_part (if ms_per_entity m then entity_part j (ms_metric m) p else Some (Inr p))
        = map_run public_part (if ms_per_entity m then entity_part (renamed f mac j) (ms_metric m) p' else Some (Inr p'))"
      using entity_part_renamed [where mac = mac, OF f mac p] p by simp
    show ?thesis unfolding measure_step_def if_not_P [OF False] by (rule map_run_bind [OF e s])
  qed
qed

text \<open>C7: The public metrics do not name an address.  Replace the addresses that the reader and the sovereign map
  answer by others, distinct ones by distinct ones, under a key for which the new addresses have the digests of
  the old: a run plans the same rows for both public tables, or fails or does not return alike.  What is
  published depends on an address only through its pseudonym.\<close>

theorem public_metrics_deidentified:
  assumes "inj f" and "\<And>ip. mac (mj_key j) (HOST_KIND @ '':'' @ f ip) = mj_mac j (mj_key j) (HOST_KIND @ '':'' @ ip)"
  shows "map_run public_part (plan_writes (renamed f mac j)) = map_run public_part (plan_writes j)"
proof -
  have "map_run public_part (fold_run (measure_step j) enabled_measures p)
      = map_run public_part (fold_run (measure_step (renamed f mac j)) (map id enabled_measures) p)" for p
    by (rule fold_run_sim) (use measure_step_renamed [where mac = mac, OF assms] in auto)
  then show ?thesis by (simp add: plan_writes_def)
qed

lemma public_metrics_deidentified_witness:
  "map_run public_part (plan_writes (renamed rev (\<lambda>key msg. sample_mac key (take 5 msg @ rev (drop 5 msg))) sample_job))
     = Some (Inr (public_part metrics_plan))"
proof -
  have "map_run public_part (plan_writes (renamed rev (\<lambda>key msg. sample_mac key (take 5 msg @ rev (drop 5 msg))) sample_job))
      = map_run public_part (plan_writes sample_job)"
    by (rule public_metrics_deidentified) (simp_all add: HOST_KIND_def sample_job_def)
  then show ?thesis by (simp add: metrics_plan)
qed

section \<open>Queries\<close>

text \<open>Every enabled measure has its queries, and the text of a query does not depend on the tenant or the time.\<close>

lemma enabled_queries:
  "list_all (\<lambda>m. ms_kind m = ''index'' \<or> dhas AGG_VALUE_EXPR (ms_metric m)) enabled_measures"
  by code_simp

lemma query_texts_fixed:
  "map_sum id fst (build_aggregate_sql metric s b t) = map_sum id fst (build_aggregate_sql metric s' b t')"
  "map_sum id fst (build_entity_bucket_sql metric s b t) = map_sum id fst (build_entity_bucket_sql metric s' b t')"
  "fst (build_deny_counts_sql s t) = fst (build_deny_counts_sql s' t')" "fst (build_alert_count_sql s t) = fst (build_alert_count_sql s' t')"
  by (simp_all add: build_aggregate_sql_def build_entity_bucket_sql_def build_deny_counts_sql_def build_alert_count_sql_def split: option.split)

end
