(* ===== verification/Evidence.thy ===== *)
theory Evidence
  imports VerifyAudit Common Sql
begin

text \<open>
  The round trip of the evidence contract (\<open>scripts/verify_evidence_contract.py\<close>): the hash and the token of a
  segment, the high-water mark, and the five steps of \<open>main\<close> with their exits.  The digest, the connections and
  the database are parameters; \<open>Inl\<close> is an exception that leaves the script, \<open>Inr\<close> its exit status.
\<close>

section \<open>Hash, token and mark\<close>

definition compute_evidence_hash :: "(string \<Rightarrow> string) \<Rightarrow> string \<Rightarrow> string \<Rightarrow> string \<Rightarrow> string \<Rightarrow> string \<Rightarrow> string" where
  "compute_evidence_hash D t p tool_name a prev = ''sha256:'' @ D (t @ ''|'' @ p @ ''|'' @ tool_name @ ''|'' @ a @ ''|'' @ prev)"

text \<open>The copy of \<open>dedup_token\<close> in the script.\<close>

definition script_token :: "string \<Rightarrow> string \<Rightarrow> int \<Rightarrow> string" where
  "script_token server_id run_id segment_seq =
     show_nat (length server_id) @ '':'' @ server_id @ '':''
     @ show_nat (length run_id) @ '':'' @ run_id @ '':'' @ show_int segment_seq"

text \<open>The known answers that pin the encoding; the second name has a character of two bytes.\<close>

definition token_pinned :: bool where
  "token_pinned \<longleftrightarrow> script_token ''junos-950'' ''run-7'' 42 = ''9:junos-950:5:run-7:42''
     \<and> script_token (''caf'' @ [CHR 0xC3, CHR 0xA9]) ''run-7'' 0 = ''5:caf'' @ [CHR 0xC3, CHR 0xA9] @ '':5:run-7:0''"

datatype ecell = EText string | EInt int | ETime pydt | EList "string list"

text \<open>The client answers a query with rows of numbers, or raises; an insert of rows under a token answers the
  exception, if any, and the state it left.\<close>

record 'db evidence_client =
  ec_connect :: "string \<Rightarrow> string \<Rightarrow> string option"
  ec_query :: "string \<Rightarrow> (string, pyval) dict \<Rightarrow> 'db \<Rightarrow> string + int list list"
  ec_insert :: "string \<Rightarrow> ecell list list \<Rightarrow> string list \<Rightarrow> string \<Rightarrow> 'db \<Rightarrow> string option \<times> 'db"

definition segment_params :: "string \<Rightarrow> string \<Rightarrow> (string, pyval) dict" where
  "segment_params server_id run_id = [(''server_id'', PStr server_id), (''run_id'', PStr run_id)]"

text \<open>The two queries; runs of white space in their texts are written as one space.\<close>

definition segment_where :: string where
  "segment_where = ''FROM ssdf.audit WHERE tier = 'evidence' AND JSONExtractString(args, 'server_id') = {server_id:String} ''
     @ ''AND JSONExtractString(args, 'run_id') = {run_id:String}''"

definition HIGH_WATER_SQL :: string where
  "HIGH_WATER_SQL = ''SELECT count(), max(JSONExtractUInt(args, 'segment_seq')) '' @ segment_where"

definition COUNT_SQL :: string where
  "COUNT_SQL = ''SELECT count() '' @ segment_where @ '' AND JSONExtractUInt(args, 'segment_seq') = 0''"

definition high_water :: "'db evidence_client \<Rightarrow> string \<Rightarrow> string \<Rightarrow> 'db \<Rightarrow> string + int option" where
  "high_water c server_id run_id db =
     bind_sum (ec_query c HIGH_WATER_SQL (segment_params server_id run_id) db) (\<lambda>rows.
       case rows of
         [landed, highest] # rest \<Rightarrow> Inr (if landed \<noteq> 0 then Some highest else None)
       | [] \<Rightarrow> Inl ''IndexError''
       | _ \<Rightarrow> Inl ''ValueError'')"

section \<open>The test record\<close>

definition TEST_SERVER :: string where "TEST_SERVER = ''verify-script-local''"

definition two :: "int \<Rightarrow> string" where "two = zpad 2"

definition run_stamp :: "int \<Rightarrow> string" where
  "run_stamp u =
     (let (y, m, d) = ord2ymd (u div day_us + 1); t = u mod day_us in
      show_int y @ two m @ two d @ ''_'' @ two (t div 3600000000) @ two (t div 60000000 mod 60) @ two (t div 1000000 mod 60))"

definition ms_stamp :: "int \<Rightarrow> string" where "ms_stamp = strftime_ms"

definition test_run_id :: "int \<Rightarrow> string" where "test_run_id now = ''test_run_'' @ run_stamp now"

definition test_ts :: "int \<Rightarrow> int" where "test_ts now = now - now mod 1000000 + 123000"

definition evidence_payload :: "string \<Rightarrow> pyval" where
  "evidence_payload run_id = PDict
     [(''request_id'', PStr ''req_verify_test_001''), (''changeset_id'', PStr ''cs_verify_abc''), (''device_id'', PStr ''test-device''),
      (''diff_hash'', PStr (''sha256:'' @ replicate 64 CHR ''0'')), (''run_id'', PStr run_id), (''server_id'', PStr TEST_SERVER),
      (''segment_seq'', PInt 0), (''prev_hash'', PStr []),
      (''metadata'', PDict [(''test'', PBool True), (''purpose'', PStr ''contract verification'')])]"

definition args_json :: "string \<Rightarrow> string" where
  "args_json run_id = json_dumps (json_compact\<lparr>ensure_ascii := True\<rparr>) (evidence_payload run_id)"

definition EV_COLUMNS :: "string list" where
  "EV_COLUMNS = [''ts'', ''principal'', ''tier'', ''tool'', ''args'', ''data_classes'', ''decision'', ''row_count'', ''error'',
     ''prev_hash'', ''row_hash'']"

text \<open>The row as the audit log holds it; the columns that the script does not name are empty.\<close>

definition evidence_record :: "(string \<Rightarrow> string) \<Rightarrow> int \<Rightarrow> string \<Rightarrow> chained_row" where
  "evidence_record D t run_id =
     \<lparr>ts = utc_dt t, principal = ''agent:verify-script'', tier = ''evidence'', tool = ''evidence:proposal'', args = args_json run_id,
      data_classes = [''device:test-device''], decision = [], row_count = 1, error = [], client_name = [], model_id = [],
      actor_type = [], prev_hash = [],
      row_hash = compute_evidence_hash D (ms_stamp t) ''agent:verify-script'' ''evidence:proposal'' (args_json run_id) []\<rparr>"

definition evidence_cells :: "chained_row \<Rightarrow> ecell list" where
  "evidence_cells r =
     [ETime (ts r), EText (principal r), EText (tier r), EText (tool r), EText (args r), EList (data_classes r), EText (decision r),
      EInt (row_count r), EText (error r), EText (prev_hash r), EText (row_hash r)]"

definition column_index :: "string \<Rightarrow> nat" where
  "column_index name = length (takeWhile (\<lambda>c. c \<noteq> name) EV_COLUMNS)"

definition probe_cells :: "ecell list \<Rightarrow> ecell list" where
  "probe_cells row = row[column_index ''error'' := EText ''token-probe'']"

section \<open>The five steps\<close>

type_synonym 'db exit_state = "(string + int) \<times> 'db"

definition confirm_one :: "'db evidence_client \<Rightarrow> string \<Rightarrow> 'db \<Rightarrow> 'db exit_state" where
  "confirm_one c run_id db =
     (case ec_query c COUNT_SQL (segment_params TEST_SERVER run_id) db of
        Inr ((n # rest) # rows) \<Rightarrow> (Inr (if n \<noteq> 1 then 1 else 0), db)
      | Inr answer \<Rightarrow> (Inl ''IndexError'', db)
      | Inl exc \<Rightarrow> (Inl exc, db))"

definition probe_token :: "'db evidence_client \<Rightarrow> string \<Rightarrow> ecell list \<Rightarrow> 'db \<Rightarrow> 'db exit_state" where
  "probe_token c run_id row db =
     (if probe_cells row = row then (Inr 1, db)
      else
        (case ec_insert c ''ssdf.audit'' [probe_cells row] EV_COLUMNS (script_token TEST_SERVER run_id 0) db of
           (Some exc, db') \<Rightarrow> (Inr 1, db')
         | (None, db') \<Rightarrow> confirm_one c run_id db'))"

definition replay_segment :: "'db evidence_client \<Rightarrow> string \<Rightarrow> ecell list \<Rightarrow> 'db \<Rightarrow> 'db exit_state" where
  "replay_segment c run_id row db =
     (case high_water c TEST_SERVER run_id db of
        Inl exc \<Rightarrow> (Inl exc, db)
      | Inr None \<Rightarrow> (Inr 1, db)
      | Inr (Some mark) \<Rightarrow> if mark \<ge> 0 then probe_token c run_id row db else (Inr 1, db))"

definition insert_segment :: "'db evidence_client \<Rightarrow> string \<Rightarrow> ecell list \<Rightarrow> 'db \<Rightarrow> 'db exit_state" where
  "insert_segment c run_id row db =
     (case ec_insert c ''ssdf.audit'' [row] EV_COLUMNS (script_token TEST_SERVER run_id 0) db of
        (Some exc, db') \<Rightarrow> (Inr 1, db')
      | (None, db') \<Rightarrow> replay_segment c run_id row db')"

definition run_segment :: "'db evidence_client \<Rightarrow> string \<Rightarrow> ecell list \<Rightarrow> 'db \<Rightarrow> 'db exit_state" where
  "run_segment c run_id row db =
     (case high_water c TEST_SERVER run_id db of
        Inl exc \<Rightarrow> (Inr 1, db)
      | Inr None \<Rightarrow> insert_segment c run_id row db
      | Inr (Some mark) \<Rightarrow> if mark \<ge> 0 then (Inr 1, db) else insert_segment c run_id row db)"

text \<open>\<open>main\<close>: the environment, the pinned token, two connections, then the steps.  \<open>n1\<close> and \<open>n2\<close> are the two
  readings of the clock.\<close>

definition evidence_main ::
  "(string \<Rightarrow> string) \<Rightarrow> 'db evidence_client \<Rightarrow> attrs \<Rightarrow> int \<Rightarrow> int \<Rightarrow> 'db \<Rightarrow> 'db exit_state" where
  "evidence_main D c env n1 n2 db =
     (if py_int (dget_or env ''CH_PORT'' ''8443'') = None then (Inl ''ValueError'', db)
      else if dget_or env ''CH_AUDIT_PASSWORD'' [] = [] then (Inr 1, db)
      else if dget_or env ''CH_AUDIT_VERIFY_PASSWORD'' [] = [] then (Inr 1, db)
      else if \<not> token_pinned then (Inr 1, db)
      else if ec_connect c ''ssdf_audit'' (dget_or env ''CH_AUDIT_PASSWORD'' []) \<noteq> None then (Inr 1, db)
      else if ec_connect c ''ssdf_audit_verify'' (dget_or env ''CH_AUDIT_VERIFY_PASSWORD'' []) \<noteq> None then (Inr 1, db)
      else run_segment c (test_run_id n1) (evidence_cells (evidence_record D (test_ts n2) (test_run_id n1))) db)"

lemma token_is_pinned: "token_pinned"
  by code_simp

text \<open>The copy of the token agrees with the original.\<close>

lemma script_token_agrees: "script_token = dedup_token"
  by (rule ext)+ (simp add: script_token_def dedup_token_def)

section \<open>What a run shows\<close>

definition cell_at :: "ecell list \<Rightarrow> string \<Rightarrow> ecell" where
  "cell_at row name = row ! column_index name"

definition json_field :: "ecell \<Rightarrow> string \<Rightarrow> pyval option" where
  "json_field cell k = (case cell of EText s \<Rightarrow> (case json_loads s of Some (PDict d) \<Rightarrow> map_of d k | _ \<Rightarrow> None) | _ \<Rightarrow> None)"

text \<open>The rows that the two queries select, and the segment number of a row.\<close>

definition of_run :: "string \<Rightarrow> string \<Rightarrow> ecell list \<Rightarrow> bool" where
  "of_run server_id run_id row \<longleftrightarrow> cell_at row ''tier'' = EText ''evidence''
     \<and> json_field (cell_at row ''args'') ''server_id'' = Some (PStr server_id) \<and> json_field (cell_at row ''args'') ''run_id'' = Some (PStr run_id)"

definition segment_of :: "ecell list \<Rightarrow> int" where
  "segment_of row = (case json_field (cell_at row ''args'') ''segment_seq'' of Some (PInt n) \<Rightarrow> n | _ \<Rightarrow> 0)"

text \<open>What the script relies on of the database: the queries count the stored rows, and an insert succeeds and
  appends its rows, unless the database honours tokens and has seen this one.\<close>

locale evidence_store =
  fixes c :: "'db evidence_client" and landed :: "'db \<Rightarrow> ecell list list" and tokens :: "'db \<Rightarrow> string set" and honours :: bool
  assumes mark_counts: "ec_query c HIGH_WATER_SQL (segment_params s r) db
      = Inr [[int (length (filter (of_run s r) (landed db))), foldr max (map segment_of (filter (of_run s r) (landed db))) 0]]"
    and count_counts: "ec_query c COUNT_SQL (segment_params s r) db
      = Inr [[int (length (filter (\<lambda>row. of_run s r row \<and> segment_of row = 0) (landed db)))]]"
    and insert_lands: "\<exists>db'. ec_insert c ''ssdf.audit'' rows EV_COLUMNS token db = (None, db')
      \<and> landed db' = (if honours \<and> token \<in> tokens db then landed db else landed db @ rows) \<and> tokens db' = insert token (tokens db)"
begin

lemma fresh_mark: "filter (of_run s r) (landed db) = [] \<Longrightarrow> high_water c s r db = Inr None"
  by (simp add: high_water_def mark_counts)

lemma landed_mark:
  assumes "filter (of_run s r) (landed db) = [row]" and "segment_of row = 0"
  shows "high_water c s r db = Inr (Some 0)"
  by (simp add: high_water_def mark_counts assms)

lemma segment_run:
  assumes fresh: "filter (of_run TEST_SERVER r) (landed db) = []" "script_token TEST_SERVER r 0 \<notin> tokens db"
    and row: "of_run TEST_SERVER r row" "segment_of row = 0" "of_run TEST_SERVER r (probe_cells row)" "segment_of (probe_cells row) = 0"
      "probe_cells row \<noteq> row"
  shows "\<exists>db'. run_segment c r row db = (Inr (if honours then 0 else 1), db')
    \<and> landed db' = landed db @ row # (if honours then [] else [probe_cells row])"
proof -
  let ?t = "script_token TEST_SERVER r 0"
  obtain db1 where i1: "ec_insert c ''ssdf.audit'' [row] EV_COLUMNS ?t db = (None, db1)"
    "landed db1 = landed db @ [row]" "tokens db1 = insert ?t (tokens db)"
    using insert_lands [of "[row]" ?t db] fresh(2) by auto
  obtain db2 where i2: "ec_insert c ''ssdf.audit'' [probe_cells row] EV_COLUMNS ?t db1 = (None, db2)"
    "landed db2 = (if honours then landed db1 else landed db1 @ [probe_cells row])"
    using insert_lands [of "[probe_cells row]" ?t db1] i1(3) by auto
  have m: "high_water c TEST_SERVER r db1 = Inr (Some 0)" by (rule landed_mark) (use i1(2) fresh(1) row in simp_all)
  have old: "filter (\<lambda>x. of_run TEST_SERVER r x \<and> segment_of x = 0) (landed db) = []"
    using fresh(1) by (auto simp: filter_empty_conv)
  then have "confirm_one c r db2 = (Inr (if honours then 0 else 1), db2)"
    using i2(2) i1(2) row by (simp add: confirm_one_def count_counts)
  then have "run_segment c r row db = (Inr (if honours then 0 else 1), db2)"
    using fresh_mark [OF fresh(1)] i1(1) m i2(1) row(5)
    by (simp add: run_segment_def insert_segment_def replay_segment_def probe_token_def)
  then show ?thesis using i1(2) i2(2) by simp
qed

end

lemma column_indices:
  "column_index ''tier'' = 2" "column_index ''args'' = 4" "column_index ''error'' = 8"
  by code_simp+

lemma ascii_digits: "list_all (\<lambda>c. of_char c < (128::nat)) (show_int i)"
proof -
  have "of_char c < (128::nat)" if "is_digit c \<or> c = CHR ''-''" for c
    using that by (auto simp: is_digit_def Let_def)
  then show ?thesis using show_int_chars by (auto simp: list_all_iff)
qed

lemma ascii_run_id: "list_all (\<lambda>c. of_char c < (128::nat)) (test_run_id now)"
proof -
  have "list_all (\<lambda>c. of_char c < (128::nat)) (two i)" for i
    using ascii_digits [of i] by (auto simp: two_def zpad_def Let_def list_all_iff in_set_replicate)
  then show ?thesis by (simp add: test_run_id_def run_stamp_def ascii_digits case_prod_beta Let_def)
qed

lemma args_read_back: "json_loads (args_json (test_run_id now)) = Some (evidence_payload (test_run_id now))"
  unfolding args_json_def
proof (rule json_roundtrip)
  show "fmt_ok (json_compact\<lparr>ensure_ascii := True\<rparr>)" by (simp add: fmt_ok_def json_compact_def)
  show "plain (json_compact\<lparr>ensure_ascii := True\<rparr>) (evidence_payload (test_run_id now))"
    using ascii_run_id [of now] by (simp add: evidence_payload_def TEST_SERVER_def str_plain_def dict_ok_def list_all_iff in_set_replicate)
qed

lemma evidence_row_fields:
  fixes D :: "string \<Rightarrow> string" and t now :: int
  defines "row \<equiv> evidence_cells (evidence_record D t (test_run_id now))"
  shows "of_run TEST_SERVER (test_run_id now) row" "segment_of row = 0"
    "of_run TEST_SERVER (test_run_id now) (probe_cells row)" "segment_of (probe_cells row) = 0" "probe_cells row \<noteq> row"
proof -
  have cells: "cell_at row ''tier'' = EText ''evidence''" "cell_at row ''args'' = EText (args_json (test_run_id now))"
    "cell_at (probe_cells row) ''tier'' = EText ''evidence''" "cell_at (probe_cells row) ''args'' = EText (args_json (test_run_id now))"
    "row ! 8 = EText []" "probe_cells row ! 8 = EText ''token-probe''"
    by (simp_all add: cell_at_def column_indices probe_cells_def row_def evidence_cells_def evidence_record_def)
  have fields: "json_field (EText (args_json (test_run_id now))) ''server_id'' = Some (PStr TEST_SERVER)"
    "json_field (EText (args_json (test_run_id now))) ''run_id'' = Some (PStr (test_run_id now))"
    "json_field (EText (args_json (test_run_id now))) ''segment_seq'' = Some (PInt 0)"
    by (simp_all add: json_field_def args_read_back) (simp_all add: evidence_payload_def)
  show "of_run TEST_SERVER (test_run_id now) row" "segment_of row = 0"
    "of_run TEST_SERVER (test_run_id now) (probe_cells row)" "segment_of (probe_cells row) = 0"
    by (simp_all add: of_run_def segment_of_def cells fields)
  show "probe_cells row \<noteq> row" using cells(5,6) by auto
qed

text \<open>A table in memory, with or without a memory of tokens.\<close>

definition mem_evidence :: "bool \<Rightarrow> (ecell list list \<times> string list) evidence_client" where
  "mem_evidence remembers =
     \<lparr>ec_connect = (\<lambda>user password. None),
      ec_query = (\<lambda>sql ps db.
        let rows = filter (of_run (case map_of ps ''server_id'' of Some (PStr s) \<Rightarrow> s | _ \<Rightarrow> []) (case map_of ps ''run_id'' of Some (PStr r) \<Rightarrow> r | _ \<Rightarrow> []))
          (fst db) in
        Inr (if sql = HIGH_WATER_SQL then [[int (length rows), foldr max (map segment_of rows) 0]]
             else [[int (length (filter (\<lambda>row. segment_of row = 0) rows))]])),
      ec_insert = (\<lambda>table rows cols token db.
        (None, (if remembers \<and> token \<in> set (snd db) then fst db else fst db @ rows, token # snd db)))\<rparr>"

interpretation mem_evidence: evidence_store "mem_evidence h" fst "set \<circ> snd" h for h :: bool
proof
  have "HIGH_WATER_SQL \<noteq> COUNT_SQL" by code_simp
  then show "ec_query (mem_evidence h) COUNT_SQL (segment_params s r) db
      = Inr [[int (length (filter (\<lambda>row. of_run s r row \<and> segment_of row = 0) (fst db)))]]" for s r db
    by (simp add: mem_evidence_def segment_params_def conj_commute Let_def)
qed (simp_all add: mem_evidence_def segment_params_def Let_def)

definition evidence_ready :: "'db evidence_client \<Rightarrow> attrs \<Rightarrow> bool" where
  "evidence_ready c env \<longleftrightarrow> py_int (dget_or env ''CH_PORT'' ''8443'') \<noteq> None \<and> dget_or env ''CH_AUDIT_PASSWORD'' [] \<noteq> []
     \<and> dget_or env ''CH_AUDIT_VERIFY_PASSWORD'' [] \<noteq> [] \<and> (\<forall>user password. ec_connect c user password = None)"

text \<open>C33: The evidence check accepts exactly the databases that honour its token.  On any database that counts and
  appends rows as the contract says and holds nothing of a fresh run, the script ends with status 0, having
  landed exactly one row, if the database honours deduplication tokens, and otherwise with status 1, with the
  probe landed as a second row.\<close>

theorem evidence_check_exact:
  assumes "evidence_store c landed tokens honours" and "evidence_ready c env"
    and "filter (of_run TEST_SERVER (test_run_id n1)) (landed db) = []"
    and "script_token TEST_SERVER (test_run_id n1) 0 \<notin> tokens db"
  shows "\<exists>db'. evidence_main D c env n1 n2 db = (Inr (if honours then 0 else 1), db')
    \<and> length (landed db') = length (landed db) + (if honours then 1 else 2)"
proof -
  let ?row = "evidence_cells (evidence_record D (test_ts n2) (test_run_id n1))"
  obtain db' where r: "run_segment c (test_run_id n1) ?row db = (Inr (if honours then 0 else 1), db')"
    and l: "landed db' = landed db @ ?row # (if honours then [] else [probe_cells ?row])"
    using evidence_store.segment_run [OF assms(1,3,4) evidence_row_fields] by blast
  have "evidence_main D c env n1 n2 db = run_segment c (test_run_id n1) ?row db"
    using assms(2) token_is_pinned by (auto simp: evidence_main_def evidence_ready_def)
  then show ?thesis using r l by auto
qed

lemma evidence_check_exact_witness:
  "\<exists>db'. evidence_main id (mem_evidence True) [(''CH_AUDIT_PASSWORD'', ''a''), (''CH_AUDIT_VERIFY_PASSWORD'', ''b'')] 0 0 ([], [])
     = (Inr 0, db') \<and> length (fst db') = 1"
proof -
  have "evidence_ready (mem_evidence True) [(''CH_AUDIT_PASSWORD'', ''a''), (''CH_AUDIT_VERIFY_PASSWORD'', ''b'')]"
    unfolding evidence_ready_def by (intro conjI allI) (code_simp, code_simp, code_simp, simp add: mem_evidence_def)
  from evidence_check_exact [OF mem_evidence.evidence_store_axioms this, of 0 "([], [])" id 0] show ?thesis by simp
qed

section \<open>The audit verifier does not accept an evidence row\<close>

text \<open>C34: No row with an evidence hash passes the audit verifier.  The hash of the contract carries the prefix
  \<open>sha256:\<close>, which no hexadecimal digest has, and covers five fields joined by bars, while the verifier
  recomputes the digest of the nine fields: one such row makes the verifier exit with 1, whatever else the
  log holds.\<close>

theorem evidence_row_never_verifies:
  assumes "\<And>x. CHR '':'' \<notin> set (D x)" and "r \<in> set rows" and "row_hash r = compute_evidence_hash D t p tool_name a prev"
  shows "verify_main D True rows = 1"
proof (rule ccontr)
  assume "\<not> ?thesis"
  then have "verify_main D True rows = 0" by (auto simp: verify_main_def Let_def split: if_splits)
  then have "clean_chain D (filter (\<lambda>x. group_key x = group_key r) rows)" unfolding verify_main_zero by blast
  then have "verify_tier D (filter (\<lambda>x. group_key x = group_key r) rows) = []" by (simp add: verify_tier_clean)
  then have "content_issues D (hashed (filter (\<lambda>x. group_key x = group_key r) rows)) = []" by (simp add: verify_tier_def Let_def)
  moreover have "r \<in> set (hashed (filter (\<lambda>x. group_key x = group_key r) rows))"
    using assms(2,3) by (simp add: hashed_def compute_evidence_hash_def)
  ultimately have "compute_row_hash D (prev_hash r) r = row_hash r" by (auto simp: content_issues_def filter_empty_conv)
  then have "CHR '':'' \<in> set (compute_row_hash D (prev_hash r) r)" using assms(3) by (simp add: compute_evidence_hash_def)
  then show False using assms(1) by (simp add: compute_row_hash_def)
qed

lemma evidence_row_never_verifies_witness:
  "verify_main (\<lambda>x. ''00'') True [evidence_record (\<lambda>x. ''00'') 0 ''run''] = 1"
  by (rule evidence_row_never_verifies [where r = "evidence_record (\<lambda>x. ''00'') 0 ''run''"]) (simp_all add: evidence_record_def)

end
