(* ===== verification/PyOps.thy ===== *)
theory PyOps
  imports PyFloat
begin

text \<open>
  Operators of Python on dynamic values, with the texts of the exceptions they raise: equality, subscripts,
  membership, \<open>float\<close> and \<open>int\<close>, and arithmetic of floats without rounding.
\<close>

section \<open>Equality\<close>

text \<open>The value of a number; numbers of different kinds are compared by value, and NaN differs from itself.\<close>

fun num_value :: "pyval \<Rightarrow> pyfloat option" where
  "num_value (PBool b) = Some (Fin (if b then 1 else 0))"
| "num_value (PInt i) = Some (Fin (of_int i))"
| "num_value (PFloat s) = py_float s"
| "num_value _ = None"

definition num_eq :: "pyval \<Rightarrow> pyval \<Rightarrow> bool" where
  "num_eq a b = (case (num_value a, num_value b) of (Some x, Some y) \<Rightarrow> x = y \<and> x \<noteq> NaN | _ \<Rightarrow> False)"

text \<open>Lists are compared by position, dictionaries by key; the order of the keys does not matter.\<close>

fun py_eq :: "pyval \<Rightarrow> pyval \<Rightarrow> bool" where
  "py_eq PNone b = (b = PNone)"
| "py_eq (PStr s) b = (b = PStr s)"
| "py_eq (PList xs) b = (case b of PList ys \<Rightarrow> list_all2 py_eq xs ys | _ \<Rightarrow> False)"
| "py_eq (PDict d) b =
     (case b of
        PDict e \<Rightarrow> length d = length e \<and> list_all (\<lambda>(k, v). case map_of e k of None \<Rightarrow> False | Some w \<Rightarrow> py_eq v w) d
      | _ \<Rightarrow> False)"
| "py_eq a b = num_eq a b"

section \<open>Names, subscripts and membership\<close>

definition py_type_name :: "pyval \<Rightarrow> string" where
  "py_type_name v = (case v of PNone \<Rightarrow> ''NoneType'' | PBool b \<Rightarrow> ''bool'' | PInt i \<Rightarrow> ''int'' | PFloat f \<Rightarrow> ''float''
     | PStr s \<Rightarrow> ''str'' | PList l \<Rightarrow> ''list'' | PDict d \<Rightarrow> ''dict'')"

definition squoted :: "string \<Rightarrow> string" where "squoted s = CHR 0x27 # s @ [CHR 0x27]"

text \<open>\<open>xs[i]\<close> with \<open>i\<close> counted from the end when negative.\<close>

definition nth_value :: "string \<Rightarrow> 'a list \<Rightarrow> int \<Rightarrow> string + 'a" where
  "nth_value kind xs i =
     (let j = (if i < 0 then i + int (length xs) else i) in
      if 0 \<le> j \<and> j < int (length xs) then Inr (xs ! nat j) else Inl (kind @ '' index out of range''))"

definition int_index :: "pyval \<Rightarrow> int option" where
  "int_index v = (case v of PInt i \<Rightarrow> Some i | PBool b \<Rightarrow> Some (if b then 1 else 0) | _ \<Rightarrow> None)"

definition py_index :: "pyval \<Rightarrow> pyval \<Rightarrow> string + pyval" where
  "py_index v k =
     (case v of
        PDict d \<Rightarrow>
          (case k of
             PStr s \<Rightarrow> (case map_of d s of None \<Rightarrow> Inl (repr_str s) | Some x \<Rightarrow> Inr x)
           | PList l \<Rightarrow> Inl (''unhashable type: '' @ squoted ''list'')
           | PDict e \<Rightarrow> Inl (''unhashable type: '' @ squoted ''dict'')
           | _ \<Rightarrow> Inl (py_repr k))
      | PList xs \<Rightarrow>
          (case int_index k of
             Some i \<Rightarrow> nth_value ''list'' xs i
           | None \<Rightarrow> Inl (''list indices must be integers or slices, not '' @ py_type_name k))
      | PStr s \<Rightarrow>
          (case int_index k of
             Some i \<Rightarrow> (case nth_value ''string'' s i of Inl e \<Rightarrow> Inl e | Inr c \<Rightarrow> Inr (PStr [c]))
           | None \<Rightarrow> Inl (''string indices must be integers, not '' @ squoted (py_type_name k)))
      | _ \<Rightarrow> Inl (squoted (py_type_name v) @ '' object is not subscriptable''))"

text \<open>\<open>k in v\<close> for a text \<open>k\<close>.\<close>

definition py_in :: "string \<Rightarrow> pyval \<Rightarrow> string + bool" where
  "py_in k v =
     (case v of
        PDict d \<Rightarrow> Inr (dhas d k)
      | PList xs \<Rightarrow> Inr (PStr k \<in> set xs)
      | PStr s \<Rightarrow> Inr (sublist k s)
      | _ \<Rightarrow> Inl (''argument of type '' @ squoted (py_type_name v) @ '' is not iterable''))"

section \<open>Conversions\<close>

definition float_of :: "pyval \<Rightarrow> string + pyfloat" where
  "float_of v =
     (case to_float v of
        Some x \<Rightarrow> Inr x
      | None \<Rightarrow>
          Inl (case v of
                 PStr s \<Rightarrow> ''could not convert string to float: '' @ repr_str s
               | _ \<Rightarrow> ''float() argument must be a string or a real number, not '' @ squoted (py_type_name v)))"

definition trunc :: "rat \<Rightarrow> int" where "trunc q = (if q < 0 then - \<lfloor>- q\<rfloor> else \<lfloor>q\<rfloor>)"

definition int_of :: "pyval \<Rightarrow> string + int" where
  "int_of v =
     (case v of
        PInt i \<Rightarrow> Inr i
      | PBool b \<Rightarrow> Inr (if b then 1 else 0)
      | PStr s \<Rightarrow>
          (case py_int s of Some i \<Rightarrow> Inr i | None \<Rightarrow> Inl (''invalid literal for int() with base 10: '' @ repr_str s))
      | PFloat s \<Rightarrow>
          (case py_float s of
             Some (Fin q) \<Rightarrow> Inr (trunc q)
           | Some NaN \<Rightarrow> Inl ''cannot convert float NaN to integer''
           | _ \<Rightarrow> Inl ''cannot convert float infinity to integer'')
      | _ \<Rightarrow> Inl (''int() argument must be a string, a bytes-like object or a real number, not '' @ squoted (py_type_name v)))"

section \<open>Arithmetic\<close>

fun fl_add :: "pyfloat \<Rightarrow> pyfloat \<Rightarrow> pyfloat" where
  "fl_add (Fin a) (Fin b) = Fin (a + b)"
| "fl_add NaN b = NaN"
| "fl_add a NaN = NaN"
| "fl_add PosInf NegInf = NaN"
| "fl_add NegInf PosInf = NaN"
| "fl_add PosInf b = PosInf"
| "fl_add a PosInf = PosInf"
| "fl_add NegInf b = NegInf"
| "fl_add a NegInf = NegInf"

definition fl_sub :: "pyfloat \<Rightarrow> pyfloat \<Rightarrow> pyfloat" where "fl_sub a b = fl_add a (py_neg b)"

fun fl_abs :: "pyfloat \<Rightarrow> pyfloat" where
  "fl_abs (Fin a) = Fin \<bar>a\<bar>"
| "fl_abs NaN = NaN"
| "fl_abs _ = PosInf"

definition fl_sign :: "pyfloat \<Rightarrow> int" where
  "fl_sign x = (case x of Fin a \<Rightarrow> if a > 0 then 1 else if a < 0 then - 1 else 0 | PosInf \<Rightarrow> 1 | NegInf \<Rightarrow> - 1 | NaN \<Rightarrow> 0)"

definition fl_mul :: "pyfloat \<Rightarrow> pyfloat \<Rightarrow> pyfloat" where
  "fl_mul a b =
     (case (a, b) of
        (Fin x, Fin y) \<Rightarrow> Fin (x * y)
      | _ \<Rightarrow> if fl_sign a * fl_sign b > 0 then PosInf else if fl_sign a * fl_sign b < 0 then NegInf else NaN)"

definition fl_percent :: "pyfloat \<Rightarrow> pyfloat" where
  "fl_percent x = (case x of Fin a \<Rightarrow> Fin (a / 100) | _ \<Rightarrow> x)"

definition fl_le :: "pyfloat \<Rightarrow> pyfloat \<Rightarrow> bool" where
  "fl_le a b \<longleftrightarrow> py_less a b \<or> (a = b \<and> a \<noteq> NaN)"

text \<open>A float as a value: its \<open>repr\<close>.\<close>

definition float_value :: "pyfloat \<Rightarrow> pyval" where "float_value x = PFloat (float_repr x)"

section \<open>Facts\<close>

lemma py_index_dict: "py_index (PDict d) (PStr s) = (case map_of d s of None \<Rightarrow> Inl (repr_str s) | Some x \<Rightarrow> Inr x)"
  by (simp add: py_index_def)

lemma fl_le_Fin [simp]: "fl_le (Fin a) (Fin b) \<longleftrightarrow> a \<le> b"
  by (auto simp: fl_le_def)

lemma fl_le_NaN [simp]: "\<not> fl_le NaN b" "\<not> fl_le a NaN"
  by (cases a; cases b; simp add: fl_le_def)+

lemma within_tolerance_Fin [simp]: "fl_le (fl_abs (fl_sub (Fin a) (Fin b))) (Fin t) \<longleftrightarrow> \<bar>a - b\<bar> \<le> t"
  by (simp add: fl_sub_def)

end
