(* ===== verification/Settings.thy ===== *)
theory Settings
  imports Tokens Common PyOps
begin

text \<open>
  What the processes read at start: the \<open>config.py\<close> of every service, the token file of the MCP server
  (\<open>ssdf_mcp_query/config.py\<close>) and the tool that mints its entries (\<open>mint_token.py\<close>).  The environment and the
  files are parameters; \<open>Inl\<close> is a refusal to start or the exception that ends the process.
\<close>

datatype start_error = Refused string | Uncaught string

definition refused :: "config_error + 'a \<Rightarrow> start_error + 'a" where
  "refused r = (case r of Inl (ConfigError m) \<Rightarrow> Inl (Refused m) | Inr x \<Rightarrow> Inr x)"

text \<open>\<open>int(os.environ.get(name, default))\<close>\<close>

definition env_int :: "attrs \<Rightarrow> string \<Rightarrow> string \<Rightarrow> start_error + int" where
  "env_int env name default_text =
     (case py_int (dget_or env name default_text) of None \<Rightarrow> Inl (Uncaught ''ValueError'') | Some i \<Rightarrow> Inr i)"

definition env_csv :: "attrs \<Rightarrow> string \<Rightarrow> string \<Rightarrow> string list" where
  "env_csv env name default_text = filter (\<lambda>x. x \<noteq> []) (map strip (split_on CHR '','' (dget_or env name default_text)))"

section \<open>The services\<close>

definition ch_password :: "attrs \<Rightarrow> start_error + secret" where
  "ch_password env =
     (case map_of env ''CH_PASSWORD'' of None \<Rightarrow> Inl (Refused ''CH_PASSWORD is required'') | Some p \<Rightarrow> Inr (Secret p))"

definition ch_settings_of :: "attrs \<Rightarrow> string \<Rightarrow> secret \<Rightarrow> int \<Rightarrow> ch_settings" where
  "ch_settings_of env user password port =
     \<lparr>cs_host = dget_or env ''CH_HOST'' ''127.0.0.1'', cs_port = port, cs_user = dget_or env ''CH_USER'' user, cs_password = password,
      cs_database = dget_or env ''CH_DATABASE'' ''ssdf'', cs_secure = truth_text (dget_or env ''CH_SECURE'' ''0''),
      cs_ca_file = dget_or env ''CH_CA_FILE'' []\<rparr>"

definition load_ch :: "attrs \<Rightarrow> string \<Rightarrow> start_error + ch_settings" where
  "load_ch env user =
     bind_sum (ch_password env) (\<lambda>p. bind_sum (env_int env ''CH_PORT'' ''8123'') (\<lambda>port. Inr (ch_settings_of env user p port)))"

record topo_config = ch_settings +
  tcf_tenant :: string
  tcf_window_hours :: int
  tcf_enabled :: "string list"

definition TOPO_COLLECTORS :: "string list" where "TOPO_COLLECTORS = [''junos'', ''unifi'', ''panos'', ''proxmox'']"

definition load_topo_config :: "attrs \<Rightarrow> start_error + topo_config" where
  "load_topo_config env =
     bind_sum (load_ch env ''ssdf_topo'') (\<lambda>ch. bind_sum (env_int env ''TOPO_WINDOW_HOURS'' ''24'') (\<lambda>w.
       Inr (ch_settings.extend ch (topo_config.fields (dget_or env ''TOPO_TENANT'' ''t_main'') w
         (env_csv env ''TOPO_COLLECTORS'' (join '','' TOPO_COLLECTORS))))))"

record entity_config = ch_settings +
  ecf_tenant :: string
  ecf_window_hours :: int
  ecf_lookback_hours :: int

definition load_entity_config :: "attrs \<Rightarrow> start_error + entity_config" where
  "load_entity_config env =
     bind_sum (load_ch env ''ssdf_entity'') (\<lambda>ch. bind_sum (env_int env ''ENTITY_WINDOW_HOURS'' ''24'') (\<lambda>w.
       bind_sum (env_int env ''TOPO_BINDING_LOOKBACK_HOURS'' ''168'') (\<lambda>l.
         Inr (ch_settings.extend ch (entity_config.fields (dget_or env ''ENTITY_TENANT'' ''t_main'') w l)))))"

record policy_config = ch_settings +
  pcf_tenant :: string
  pcf_enabled :: "string list"
  pcf_junos_devices :: "string list"
  pcf_panos_device :: string

definition POLICY_COLLECTORS :: "string list" where "POLICY_COLLECTORS = [''panos'', ''junos'']"

definition load_policy_config :: "attrs \<Rightarrow> start_error + policy_config" where
  "load_policy_config env =
     bind_sum (load_ch env ''ssdf_entity'') (\<lambda>ch.
       Inr (ch_settings.extend ch (policy_config.fields (dget_or env ''POLICY_TENANT'' ''t_main'')
         (env_csv env ''POLICY_COLLECTORS'' (join '','' POLICY_COLLECTORS)) (env_csv env ''JUNOS_DEVICES'' [])
         (dget_or env ''PANOS_DEVICE'' ''panosvm''))))"

record health_config = ch_settings +
  hcf_tenant :: string
  hcf_enabled :: "string list"
  hcf_junos_devices :: "string list"
  hcf_panos_device :: string
  hcf_unifi_macs :: "string list"
  hcf_unifi_site :: string

definition HEALTH_COLLECTORS :: "string list" where "HEALTH_COLLECTORS = [''proxmox'', ''junos'', ''panos'', ''unifi'']"

definition load_health_config :: "attrs \<Rightarrow> start_error + health_config" where
  "load_health_config env =
     bind_sum (load_ch env ''ssdf_health'') (\<lambda>ch.
       Inr (ch_settings.extend ch (health_config.fields (dget_or env ''HEALTH_TENANT'' ''t_main'')
         (env_csv env ''HEALTH_COLLECTORS'' (join '','' HEALTH_COLLECTORS)) (env_csv env ''JUNOS_DEVICES'' [])
         (dget_or env ''PANOS_DEVICE'' ''panosvm'') (env_csv env ''UNIFI_DEVICE_MACS'' []) (dget_or env ''UNIFI_SITE_ID'' ''default''))))"

text \<open>The public metrics also read the pseudonym key, from the environment or a file: \<open>bytes.fromhex\<close> skips white
  space between the pairs of digits.\<close>

fun from_hex :: "string \<Rightarrow> string option" where
  "from_hex [] = Some []"
| "from_hex [c] = (if is_space c then Some [] else None)"
| "from_hex (c # d # s) =
     (if is_space c then from_hex (d # s)
      else
        (case (hex_val c, hex_val d, from_hex s) of
           (Some m, Some n, Some r) \<Rightarrow> Some (char_of (16 * m + n) # r)
         | _ \<Rightarrow> None))"

record metrics_config = ch_settings +
  mcf_tenant :: string
  mcf_key :: secret
  mcf_key_version :: int
  mcf_bucket_secs :: int
  mcf_lookback_hours :: int
  mcf_baseline_days :: int
  mcf_top_n :: int

definition pseudonym_key :: "attrs \<Rightarrow> (string \<Rightarrow> string option) \<Rightarrow> start_error + secret" where
  "pseudonym_key env read_file =
     (let inline = dget_or env ''PUBLIC_PSEUDONYM_KEY'' []; path = dget_or env ''PUBLIC_PSEUDONYM_KEY_FILE'' [] in
      bind_sum (if inline = [] \<and> path \<noteq> [] then (case read_file path of None \<Rightarrow> Inl (Uncaught ''OSError'') | Some t \<Rightarrow> Inr (strip t)) else Inr inline)
        (\<lambda>raw.
          if raw = [] then Inl (Refused ''PUBLIC_PSEUDONYM_KEY or PUBLIC_PSEUDONYM_KEY_FILE is required'')
          else (case from_hex raw of None \<Rightarrow> Inl (Refused ''PUBLIC_PSEUDONYM_KEY must be hex'') | Some k \<Rightarrow> Inr (Secret k))))"

definition load_metrics_config :: "attrs \<Rightarrow> (string \<Rightarrow> string option) \<Rightarrow> start_error + metrics_config" where
  "load_metrics_config env read_file =
     bind_sum (ch_password env) (\<lambda>p. bind_sum (pseudonym_key env read_file) (\<lambda>key.
     bind_sum (env_int env ''CH_PORT'' ''8123'') (\<lambda>port. bind_sum (env_int env ''PUBMETRICS_KEY_VERSION'' ''1'') (\<lambda>v.
     bind_sum (env_int env ''PUBMETRICS_BUCKET_SECS'' ''300'') (\<lambda>b. bind_sum (env_int env ''PUBMETRICS_LOOKBACK_HOURS'' ''1'') (\<lambda>l.
     bind_sum (env_int env ''PUBMETRICS_BASELINE_DAYS'' ''30'') (\<lambda>d. bind_sum (env_int env ''PUBMETRICS_TOP_N'' ''20'') (\<lambda>n.
       Inr (ch_settings.extend (ch_settings_of env ''ssdf_pubmetrics'' p port)
         (metrics_config.fields (dget_or env ''PUBMETRICS_TENANT_ID'' ''t_main'') key v b l d n))))))))))"

section \<open>The token file\<close>

record token_principal =
  tp_principal :: string
  tp_allowed :: "pyval list option"
  tp_not_after :: "pydt option"
  tp_local_only :: bool

definition parse_not_after :: "pyval \<Rightarrow> start_error + pydt option" where
  "parse_not_after v =
     (case v of
        PNone \<Rightarrow> Inr None
      | PStr s \<Rightarrow>
          (case fromisoformat s of
             None \<Rightarrow> Inl (Refused (''invalid not_after '' @ repr_str s))
           | Some p \<Rightarrow> Inr (Some (if utc_off p = None then p\<lparr>utc_off := Some 0\<rparr> else p)))
      | _ \<Rightarrow> Inl (Refused (''not_after must be an ISO-8601 string, got '' @ py_type_name v)))"

definition parse_local_only :: "pyval \<Rightarrow> start_error + bool" where
  "parse_local_only v =
     (case v of
        PNone \<Rightarrow> Inr False
      | PBool b \<Rightarrow> Inr b
      | _ \<Rightarrow> Inl (Refused (''local_only must be a boolean, got '' @ py_type_name v)))"

text \<open>\<open>frozenset(allowed)\<close>: the members of a list, the keys of an object, the characters of a text.\<close>

definition hashable :: "pyval \<Rightarrow> bool" where
  "hashable v = (case v of PList l \<Rightarrow> False | PDict d \<Rightarrow> False | _ \<Rightarrow> True)"

definition frozen :: "pyval \<Rightarrow> start_error + pyval list" where
  "frozen v =
     (case v of
        PList l \<Rightarrow> if list_all hashable l then Inr l else Inl (Uncaught ''TypeError'')
      | PDict d \<Rightarrow> Inr (map PStr (dkeys d))
      | PStr s \<Rightarrow> Inr (map (\<lambda>c. PStr [c]) s)
      | _ \<Rightarrow> Inl (Uncaught ''TypeError''))"

definition allowed_of :: "pyval \<Rightarrow> start_error + pyval list option" where
  "allowed_of v = (if v = PNone then Inr None else bind_sum (frozen v) (\<lambda>l. Inr (Some l)))"

text \<open>A regular file: its permissions and its text.\<close>

record text_file =
  tf_mode :: "32 word"
  tf_text :: string

definition nonempty_token :: "string \<Rightarrow> start_error + string" where
  "nonempty_token t = (if strip t = [] then Inl (Refused ''auth token is empty'') else Inr (strip t))"

definition read_token :: "attrs \<Rightarrow> (string \<Rightarrow> text_file option) \<Rightarrow> start_error + string" where
  "read_token env files =
     (let inline = dget_or env ''MCP_AUTH_TOKEN'' []; path = dget_or env ''MCP_TOKEN_FILE'' [] in
      if inline \<noteq> [] then nonempty_token inline
      else
        (case (if path = [] then None else files path) of
           None \<Rightarrow> Inl (Refused ''no bearer token: set MCP_AUTH_TOKEN or MCP_TOKEN_FILE'')
         | Some f \<Rightarrow> nonempty_token (tf_text f)))"

definition meta_value :: "pyval \<Rightarrow> string \<Rightarrow> pyval" where
  "meta_value meta k = (case meta of PDict d \<Rightarrow> dget_or d k PNone | _ \<Rightarrow> PNone)"

definition meta_ok :: "string \<times> pyval \<Rightarrow> start_error + unit" where
  "meta_ok e =
     (case snd e of
        PDict d \<Rightarrow>
          if fst e = [] then Inl (Refused (''each token must map to an object with a '' @ repr_str ''principal''))
          else if \<not> py_truthy (dget_or d ''principal'' PNone) then Inl (Refused (''token entry missing '' @ repr_str ''principal'')) else Inr ()
      | _ \<Rightarrow> Inl (Refused (''each token must map to an object with a '' @ repr_str ''principal'')))"

definition token_principal_of :: "pyval \<Rightarrow> start_error + token_principal" where
  "token_principal_of meta =
     bind_sum (allowed_of (meta_value meta ''allowed_tools'')) (\<lambda>allowed.
     bind_sum (parse_not_after (meta_value meta ''not_after'')) (\<lambda>na.
     bind_sum (parse_local_only (meta_value meta ''local_only'')) (\<lambda>lo.
       Inr \<lparr>tp_principal = py_str (meta_value meta ''principal''), tp_allowed = allowed, tp_not_after = na, tp_local_only = lo\<rparr>)))"

text \<open>The keys of the file become digests; two entries with one digest are refused.\<close>

fun digest_keys :: "(string \<Rightarrow> string) \<Rightarrow> (string \<times> pyval) list \<Rightarrow> (string, pyval) dict \<Rightarrow> start_error + (string, pyval) dict" where
  "digest_keys D [] by_digest = Inr by_digest"
| "digest_keys D ((key, meta) # rest) by_digest =
     (let d = (if is_digest key then key else digest_for D key) in
      if dhas by_digest d then Inl (Refused ''two entries resolve to the same token digest'')
      else digest_keys D rest (dset by_digest d meta))"

fun each_entry :: "('a \<Rightarrow> start_error + 'b) \<Rightarrow> (string \<times> 'a) list \<Rightarrow> start_error + (string \<times> 'b) list" where
  "each_entry f [] = Inr []"
| "each_entry f ((k, x) # rest) = bind_sum (f x) (\<lambda>y. bind_sum (each_entry f rest) (\<lambda>ys. Inr ((k, y) # ys)))"

definition token_entries :: "string \<Rightarrow> start_error + (string \<times> pyval) list" where
  "token_entries tx =
     (case json_loads tx of
        None \<Rightarrow> Inl (Refused ''invalid token map JSON'')
      | Some (PDict data) \<Rightarrow>
          if data = [] then Inl (Refused ''token map must be a non-empty JSON object'')
          else bind_sum (concat_sum (\<lambda>e. bind_sum (meta_ok e) (\<lambda>u. Inr [e])) data) Inr
      | Some v \<Rightarrow> Inl (Refused ''token map must be a non-empty JSON object''))"

type_synonym token_map = "(string, token_principal) dict"

definition load_token_map :: "(string \<Rightarrow> string) \<Rightarrow> attrs \<Rightarrow> (string \<Rightarrow> text_file option) \<Rightarrow> start_error + token_map" where
  "load_token_map D env files =
     (let path = dget_or env ''MCP_TOKENS_FILE'' [] in
      if path = [] then
        bind_sum (read_token env files) (\<lambda>single.
          Inr [(digest_for D single, \<lparr>tp_principal = ''agent'', tp_allowed = None, tp_not_after = None,
            tp_local_only = truth_text (dget_or env ''MCP_AUTH_TOKEN_LOCAL_ONLY'' [])\<rparr>)])
      else
        (case files path of
           None \<Rightarrow> Inl (Refused (''MCP_TOKENS_FILE not found: '' @ path))
         | Some f \<Rightarrow>
             (case assert_file_mode_private (tf_mode f) of
                Inl e \<Rightarrow> Inl (Refused (path @ '' is accessible beyond its owner''))
              | Inr u \<Rightarrow>
                  bind_sum (token_entries (tf_text f)) (\<lambda>data.
                    bind_sum (digest_keys D data []) (each_entry token_principal_of)))))"

section \<open>The MCP server\<close>

record server_config =
  sc_ch :: ch_settings
  sc_bind :: string
  sc_port :: int
  sc_tokens :: token_map
  sc_audit_user :: string
  sc_audit_password :: "secret option"
  sc_verify_password :: "secret option"
  sc_audit_required :: bool
  sc_max_execution_time :: int
  sc_max_result_rows :: int
  sc_max_memory_usage :: int
  sc_max_calls :: int
  sc_max_concurrent :: int

definition opt_secret :: "attrs \<Rightarrow> string \<Rightarrow> secret option" where
  "opt_secret env name = (case map_of env name of None \<Rightarrow> None | Some p \<Rightarrow> if p = [] then None else Some (Secret p))"

definition load_server_config :: "(string \<Rightarrow> string) \<Rightarrow> attrs \<Rightarrow> (string \<Rightarrow> text_file option) \<Rightarrow> start_error + server_config" where
  "load_server_config D env files =
     bind_sum (load_ch env ''ssdf_ro'') (\<lambda>ch. bind_sum (env_int env ''MCP_PORT'' ''30032'') (\<lambda>port.
     bind_sum (load_token_map D env files) (\<lambda>tokens.
     bind_sum (env_int env ''MCP_MAX_EXEC_SECS'' ''10'') (\<lambda>exec. bind_sum (env_int env ''MCP_MAX_RESULT_ROWS'' ''100000'') (\<lambda>rows.
     bind_sum (env_int env ''MCP_MAX_MEMORY_BYTES'' ''1000000000'') (\<lambda>mem.
     bind_sum (env_int env ''MCP_MAX_CALLS_PER_MINUTE'' ''0'') (\<lambda>calls. bind_sum (env_int env ''MCP_MAX_CONCURRENT_CALLS'' ''0'') (\<lambda>conc.
       Inr \<lparr>sc_ch = ch, sc_bind = dget_or env ''MCP_BIND'' ''0.0.0.0'', sc_port = port, sc_tokens = tokens,
            sc_audit_user = dget_or env ''CH_AUDIT_USER'' ''ssdf_audit'', sc_audit_password = opt_secret env ''CH_AUDIT_PASSWORD'',
            sc_verify_password = opt_secret env ''CH_AUDIT_VERIFY_PASSWORD'',
            sc_audit_required = truth_text (dget_or env ''MCP_AUDIT_REQUIRED'' []), sc_max_execution_time = exec,
            sc_max_result_rows = rows, sc_max_memory_usage = mem, sc_max_calls = calls, sc_max_concurrent = conc\<rparr>))))))))"

definition ch_tls_kwargs :: "server_config \<Rightarrow> start_error + (string, pyval) dict" where
  "ch_tls_kwargs c =
     bind_sum (refused (require_tls_or_loopback (cs_host (sc_ch c)) (cs_secure (sc_ch c)))) (\<lambda>_.
       Inr (if \<not> cs_secure (sc_ch c) then []
            else (''interface'', PStr ''https'') # (if cs_ca_file (sc_ch c) = [] then [] else [(''ca_cert'', PStr (cs_ca_file (sc_ch c)))])))"

section \<open>Minting\<close>

text \<open>\<open>build_entry\<close>: the random token and the clock are arguments.\<close>

definition expiry_of :: "int \<Rightarrow> int \<Rightarrow> start_error + string" where
  "expiry_of now days =
     (let e = now + days * day_us in
      if e < 0 \<or> 3652059 * day_us \<le> e then Inl (Uncaught ''OverflowError'') else Inr (isoformat (utc_dt (e - e mod 1000000))))"

definition mint_entry :: "string \<Rightarrow> string list \<Rightarrow> int option \<Rightarrow> bool \<Rightarrow> int \<Rightarrow> start_error + (string, pyval) dict" where
  "mint_entry principal_name allowed days local now =
     bind_sum (case days of None \<Rightarrow> Inr [] | Some d \<Rightarrow> bind_sum (expiry_of now d) (\<lambda>t. Inr [(''not_after'', PStr t)])) (\<lambda>na.
       Inr ([(''principal'', PStr principal_name)] @ (if allowed = [] then [] else [(''allowed_tools'', PList (map PStr allowed))])
         @ (if local then [(''local_only'', PBool True)] else []) @ na))"

definition mint_file_entry :: "(string \<Rightarrow> string) \<Rightarrow> string \<Rightarrow> (string, pyval) dict \<Rightarrow> string \<times> pyval" where
  "mint_file_entry D token e = (digest_for D token, PDict e)"

end
