(* ===== verification/Server.thy ===== *)
theory Server
  imports Settings Wrapper
begin

text \<open>
  How the MCP server is put together (\<open>server.py\<close>): the settings, the classification, the auditor, the tokens that
  may authenticate, the tools that are registered and the limiter.  Connecting and the newest audit hashes are
  parameters.
\<close>

section \<open>Putting the server together\<close>

definition BASE_TOOLS :: "string list" where
  "BASE_TOOLS = [''query_flows'', ''describe_schema'', ''top_talkers'', ''run_sql'', ''get_entity'', ''locate'', ''neighbors'', ''find_path'',
     ''enforcement_points'', ''topology_snapshot'', ''metric_timeseries'', ''top_series'', ''entity_metric_timeseries'']"

definition SOVEREIGN_TOOLS :: "string list" where
  "SOVEREIGN_TOOLS = [''explain_access'', ''configured_policies'', ''observed_by'', ''reidentify'', ''recent_alerts'',
     ''lab_topology_snapshot'', ''rule_history'', ''rule_usage'', ''unused_rules'', ''explain_rule'', ''ingest_status'', ''fabric_status'']"

definition raw_tools :: "string \<Rightarrow> string list" where
  "raw_tools tr = BASE_TOOLS @ (if tr = ''public'' then [] else SOVEREIGN_TOOLS)"

definition tier_schema :: "string \<Rightarrow> string" where
  "tier_schema tr = (if tr = ''public'' then ''ssdf_public'' else ''ssdf'')"

text \<open>\<open>sorted\<close> of the members of a set raises for members of different kinds.\<close>

definition sortable :: "pyval list \<Rightarrow> bool" where
  "sortable vs \<longleftrightarrow> length (remdups vs) \<le> 1 \<or> list_all (\<lambda>v. case v of PStr s \<Rightarrow> True | _ \<Rightarrow> False) vs
     \<or> list_all (\<lambda>v. case v of PInt i \<Rightarrow> True | PBool b \<Rightarrow> True | PFloat f \<Rightarrow> True | _ \<Rightarrow> False) vs"

text \<open>The names of tools among the members; nothing else is ever the name of a tool.\<close>

definition tool_names :: "pyval list \<Rightarrow> string list" where
  "tool_names vs = sorted_set (concat (map (\<lambda>v. case v of PStr s \<Rightarrow> [s] | _ \<Rightarrow> []) vs))"

definition claims_of :: "token_principal \<Rightarrow> start_error + token_entry" where
  "claims_of tp =
     (if (case tp_allowed tp of None \<Rightarrow> False | Some vs \<Rightarrow> \<not> sortable vs) then Inl (Uncaught ''TypeError'')
      else Inr \<lparr>te_principal = Some (tp_principal tp), te_sub = Some (tp_principal tp),
        te_allowed_tools = map_option tool_names (tp_allowed tp), te_not_after = map_option isoformat (tp_not_after tp),
        te_model_id = None, te_actor_type = PNone, te_client_id = Some ''ssdf'', te_scopes = None\<rparr>)"

definition admitted :: "string \<Rightarrow> token_principal \<Rightarrow> bool" where
  "admitted tr tp \<longleftrightarrow> \<not> (tr = ''sovereign'' \<and> \<not> tp_local_only tp)"

definition verifier_tokens :: "string \<Rightarrow> token_map \<Rightarrow> start_error + (string, token_entry) dict" where
  "verifier_tokens tr tokens = each_entry claims_of (filter (\<lambda>e. admitted tr (snd e)) tokens)"

definition selected_tools :: "classification \<Rightarrow> string \<Rightarrow> class_error + string list" where
  "selected_tools cl tr = (if tr = ''public'' then public_tool_names cl (raw_tools tr) else Inr (raw_tools tr))"

definition app_limiter :: "server_config \<Rightarrow> limiter_cfg" where
  "app_limiter c = \<lparr>max_calls = sc_max_calls c, window = 60, window_text = ''60'', max_concurrent = sc_max_concurrent c\<rparr>"

record server_app =
  ap_tools :: "string list"
  ap_tokens :: "(string, token_entry) dict"
  ap_limiter :: limiter_cfg
  ap_schema :: string
  ap_audit :: "audit_backend \<times> auditor"

text \<open>What the process finds around it; \<open>wd_connect\<close> is the exception of a connection, if it raises.\<close>

record world =
  wd_env :: attrs
  wd_files :: "string \<Rightarrow> text_file option"
  wd_connect :: "string \<Rightarrow> (string, pyval) dict \<Rightarrow> string option"
  wd_seed :: "string \<Rightarrow> string list"

definition connect :: "world \<Rightarrow> server_config \<Rightarrow> string \<Rightarrow> start_error + unit" where
  "connect w c user =
     bind_sum (ch_tls_kwargs c) (\<lambda>kwargs. case wd_connect w user kwargs of None \<Rightarrow> Inr () | Some exc \<Rightarrow> Inl (Uncaught exc))"

definition server_auditor :: "world \<Rightarrow> server_config \<Rightarrow> string \<Rightarrow> start_error + audit_backend \<times> auditor" where
  "server_auditor w c tr =
     bind_sum (if sc_audit_password c = None then Inr () else connect w c (sc_audit_user c)) (\<lambda>_.
     bind_sum (if sc_audit_password c = None \<or> sc_verify_password c = None then Inr () else connect w c ''ssdf_audit_verify'') (\<lambda>_.
       case make_ch_auditor (sc_audit_password c \<noteq> None) (sc_audit_required c) (sc_verify_password c \<noteq> None) (wd_seed w tr) of
         Inl e \<Rightarrow> Inl (Refused ''MCP_AUDIT_REQUIRED is set but CH_AUDIT_PASSWORD is unset; refusing to start with audit disabled'')
       | Inr a \<Rightarrow> Inr a))"

definition classified :: "class_error + 'a \<Rightarrow> start_error + 'a" where
  "classified r = (case r of Inl e \<Rightarrow> Inl (Uncaught ''ClassificationError'') | Inr x \<Rightarrow> Inr x)"

definition build_app :: "(string \<Rightarrow> string) \<Rightarrow> world \<Rightarrow> string \<Rightarrow> start_error + server_app" where
  "build_app D w tr =
     bind_sum (load_server_config D (wd_env w) (wd_files w)) (\<lambda>c.
     bind_sum (classified (load_classification (dget_or (wd_env w) ''MCP_CLASSIFICATION_FILE'' []) (\<lambda>p. map_option tf_text (wd_files w p)))) (\<lambda>cl.
     bind_sum (server_auditor w c tr) (\<lambda>audit.
     bind_sum (connect w c (cs_user (sc_ch c))) (\<lambda>_.
     bind_sum (verifier_tokens tr (sc_tokens c)) (\<lambda>tokens.
     bind_sum (classified (selected_tools cl tr)) (\<lambda>tools.
       Inr \<lparr>ap_tools = tools, ap_tokens = tokens, ap_limiter = app_limiter c, ap_schema = tier_schema tr, ap_audit = audit\<rparr>))))))"

section \<open>Who can authenticate\<close>

lemma each_entry_spec:
  "each_entry f xs = Inr ys \<Longrightarrow> dkeys ys = dkeys xs \<and> (\<forall>k y. (k, y) \<in> set ys \<longleftrightarrow> (\<exists>x. (k, x) \<in> set xs \<and> f x = Inr y))
     \<and> (\<forall>k x. (k, x) \<in> set xs \<longrightarrow> (\<exists>y. f x = Inr y))"
proof (induction xs arbitrary: ys)
  case (Cons e xs)
  obtain k x where e: "e = (k, x)" by (rule prod.exhaust)
  with Cons.prems obtain y zs where y: "f x = Inr y" and zs: "each_entry f xs = Inr zs" and ys: "ys = (k, y) # zs"
    by (auto simp: bind_sum_Inr_iff)
  show ?case using Cons.IH [OF zs] y by (auto simp: ys e)
qed simp

lemma digest_keys_spec:
  "digest_keys D raw d = Inr d' \<Longrightarrow> dict_ok d \<Longrightarrow> dict_ok d' \<and> set d' = set d \<union> (\<lambda>(k, m). (stored_key D k, m)) ` set raw"
proof (induction D raw d arbitrary: d' rule: digest_keys.induct)
  case (2 D key meta rest d)
  then have new: "\<not> dhas d (stored_key D key)" and r: "digest_keys D rest (dset d (stored_key D key) meta) = Inr d'"
    by (auto simp: Let_def stored_key_def split: if_splits)
  have "set (dset d (stored_key D key) meta) = insert (stored_key D key, meta) (set d)"
    using set_dset [OF 2(3)] new by (auto simp: dhas_iff image_iff)
  then show ?case using 2(1) new r dict_ok_dset [OF 2(3), of "stored_key D key" meta] by (auto simp: Let_def stored_key_def)
qed simp

lemma verify_token_iff:
  "dict_ok d \<Longrightarrow> verify_token D d t \<noteq> None \<longleftrightarrow> (\<exists>e. (digest_for D t, e) \<in> set d)"
  using verify_against_map_of [of d D t] dict_ok_map_of_iff [of d "digest_for D t"]
  by (auto simp: verify_token_def split: option.splits)

text \<open>The entries of a token file, as the server holds them.\<close>

definition token_file :: "world \<Rightarrow> (string \<times> pyval) list \<Rightarrow> bool" where
  "token_file w data \<longleftrightarrow> (\<exists>path f. map_of (wd_env w) ''MCP_TOKENS_FILE'' = Some path \<and> path \<noteq> [] \<and> wd_files w path = Some f
     \<and> token_entries (tf_text f) = Inr data)"

lemma load_token_map_file:
  assumes "token_file w data" and "load_token_map D (wd_env w) (wd_files w) = Inr toks"
  shows "dict_ok toks"
    and "(k, tp) \<in> set toks \<longleftrightarrow> (\<exists>key meta. (key, meta) \<in> set data \<and> stored_key D key = k \<and> token_principal_of meta = Inr tp)"
    and "(key, meta) \<in> set data \<Longrightarrow> \<exists>tp. token_principal_of meta = Inr tp"
proof -
  obtain path f where p: "map_of (wd_env w) ''MCP_TOKENS_FILE'' = Some path" "path \<noteq> []" "wd_files w path = Some f"
    "token_entries (tf_text f) = Inr data" using assms(1) by (auto simp: token_file_def)
  have path: "dget_or (wd_env w) ''MCP_TOKENS_FILE'' [] = path" unfolding dget_or_def p(1) by simp
  have "bind_sum (digest_keys D data []) (each_entry token_principal_of) = Inr toks"
    using assms(2) unfolding load_token_map_def Let_def path if_not_P [OF p(2)] p(3,4) option.case bind_sum_simps
    by (cases "assert_file_mode_private (tf_mode f)") simp_all
  then obtain by_digest where d: "digest_keys D data [] = Inr by_digest" "each_entry token_principal_of by_digest = Inr toks"
    unfolding bind_sum_Inr_iff by blast
  note s = digest_keys_spec [OF d(1)] each_entry_spec [OF d(2)]
  have ok: "dict_ok by_digest" "set by_digest = (\<lambda>(k, m). (stored_key D k, m)) ` set data" using s(1) by (simp_all add: dict_ok_def)
  show "dict_ok toks" using ok(1) s(2) by (simp add: dict_ok_def)
  show "(k, tp) \<in> set toks \<longleftrightarrow> (\<exists>key meta. (key, meta) \<in> set data \<and> stored_key D key = k \<and> token_principal_of meta = Inr tp)"
  proof -
    have "(k, m) \<in> set by_digest \<longleftrightarrow> (\<exists>key. (key, m) \<in> set data \<and> stored_key D key = k)" for m
      unfolding ok(2) by force
    moreover have "(k, tp) \<in> set toks \<longleftrightarrow> (\<exists>m. (k, m) \<in> set by_digest \<and> token_principal_of m = Inr tp)" using s(2) by blast
    ultimately show ?thesis by blast
  qed
  assume "(key, meta) \<in> set data"
  then have "(stored_key D key, meta) \<in> set by_digest" using ok(2) by force
  then show "\<exists>tp. token_principal_of meta = Inr tp" using s(2) by blast
qed

lemma build_app_parts:
  assumes "build_app D w tr = Inr app"
  obtains c cl where "load_server_config D (wd_env w) (wd_files w) = Inr c" and "verifier_tokens tr (sc_tokens c) = Inr (ap_tokens app)"
    and "load_classification (dget_or (wd_env w) ''MCP_CLASSIFICATION_FILE'' []) (\<lambda>p. map_option tf_text (wd_files w p)) = Inr cl"
    and "selected_tools cl tr = Inr (ap_tools app)"
  using assms by (auto simp: build_app_def bind_sum_Inr_iff classified_def split: sum.splits)

lemma server_tokens: "load_server_config D env files = Inr c \<Longrightarrow> load_token_map D env files = Inr (sc_tokens c)"
  by (auto simp: load_server_config_def bind_sum_Inr_iff)

lemma token_local_only:
  "token_principal_of meta = Inr tp \<Longrightarrow> tp_local_only tp \<longleftrightarrow> meta_value meta ''local_only'' = PBool True"
  by (auto simp: token_principal_of_def bind_sum_Inr_iff parse_local_only_def split: pyval.splits)

lemma app_tokens:
  assumes "build_app D w tr = Inr app" and "token_file w data"
  shows "verify_token D (ap_tokens app) t \<noteq> None \<longleftrightarrow>
    (\<exists>key meta tp. (key, meta) \<in> set data \<and> stored_key D key = digest_for D t \<and> token_principal_of meta = Inr tp \<and> admitted tr tp)"
proof -
  obtain c where c: "load_server_config D (wd_env w) (wd_files w) = Inr c" "verifier_tokens tr (sc_tokens c) = Inr (ap_tokens app)"
    using build_app_parts [OF assms(1)] by metis
  note toks = load_token_map_file [OF assms(2) server_tokens [OF c(1)]]
  note v = each_entry_spec [OF c(2) [unfolded verifier_tokens_def]]
  have "dict_ok (filter (\<lambda>e. admitted tr (snd e)) (sc_tokens c))" using toks(1) by (simp add: dict_ok_def distinct_map_filter)
  then have "dict_ok (ap_tokens app)" using v by (simp add: dict_ok_def)
  then have "verify_token D (ap_tokens app) t \<noteq> None \<longleftrightarrow> (\<exists>e. (digest_for D t, e) \<in> set (ap_tokens app))"
    by (rule verify_token_iff)
  also have "\<dots> \<longleftrightarrow> (\<exists>tp. (digest_for D t, tp) \<in> set (sc_tokens c) \<and> admitted tr tp)"
    using v by (simp only: set_filter mem_Collect_eq snd_conv) blast
  finally show ?thesis unfolding toks(2) by blast
qed

text \<open>C6: The sovereign tier admits attested tokens only.  On a sovereign server started from a token file, a bearer
  token authenticates exactly when the file has an entry under its digest, or under the token itself, that sets
  \<open>local_only\<close> to true; whatever else the entry claims, without the attestation the token is unknown.\<close>

theorem sovereign_tokens_attested:
  assumes "build_app D w ''sovereign'' = Inr app" and "token_file w data"
  shows "verify_token D (ap_tokens app) t \<noteq> None \<longleftrightarrow>
    (\<exists>key meta. (key, meta) \<in> set data \<and> stored_key D key = digest_for D t \<and> meta_value meta ''local_only'' = PBool True)"
proof -
  obtain c where c: "load_server_config D (wd_env w) (wd_files w) = Inr c" using build_app_parts [OF assms(1)] by metis
  note all = load_token_map_file(3) [OF assms(2) server_tokens [OF c]]
  have "admitted ''sovereign'' tp \<longleftrightarrow> tp_local_only tp" for tp by (simp add: admitted_def)
  then show ?thesis unfolding app_tokens [OF assms] using all token_local_only by metis
qed

text \<open>A small world: two tokens, one of them attested.\<close>

definition sample_tokens :: "(string \<times> pyval) list" where
  "sample_tokens = [(''aa'', PDict [(''principal'', PStr ''steward''), (''local_only'', PBool True)]), (''bb'', PDict [(''principal'', PStr ''guest'')])]"

definition sample_world :: world where
  "sample_world = \<lparr>wd_env = [(''CH_PASSWORD'', ''pw''), (''MCP_TOKENS_FILE'', ''/t''), (''CH_PORT'', ''9''), (''MCP_PORT'', ''8''),
       (''MCP_MAX_EXEC_SECS'', ''1''), (''MCP_MAX_RESULT_ROWS'', ''7''), (''MCP_MAX_MEMORY_BYTES'', ''7'')],
     wd_files = (\<lambda>p. if p = ''/t'' then Some \<lparr>tf_mode = 384, tf_text = json_dumps json_default (PDict sample_tokens)\<rparr> else None),
     wd_connect = (\<lambda>user kwargs. None), wd_seed = (\<lambda>tr. [])\<rparr>"

lemma sample_token_file: "token_file sample_world sample_tokens"
proof -
  have "token_entries (json_dumps json_default (PDict sample_tokens)) = Inr sample_tokens" by code_simp
  then show ?thesis by (simp add: token_file_def sample_world_def)
qed

lemma sample_app:
  "\<exists>app. build_app rev sample_world ''sovereign'' = Inr app" "\<exists>app. build_app rev sample_world ''public'' = Inr app"
  "\<exists>app. build_app rev sample_world ''Sovereign'' = Inr app"
proof -
  have "isl (build_app rev sample_world ''sovereign'') = False" "isl (build_app rev sample_world ''public'') = False"
    "isl (build_app rev sample_world ''Sovereign'') = False" by code_simp+
  then show "\<exists>app. build_app rev sample_world ''sovereign'' = Inr app" "\<exists>app. build_app rev sample_world ''public'' = Inr app"
    "\<exists>app. build_app rev sample_world ''Sovereign'' = Inr app" by (metis sum.collapse(2))+
qed

lemma sovereign_tokens_attested_witness:
  "\<exists>app. build_app rev sample_world ''sovereign'' = Inr app \<and> verify_token rev (ap_tokens app) ''aa'' \<noteq> None
     \<and> verify_token rev (ap_tokens app) ''bb'' = None"
proof -
  obtain app where a: "build_app rev sample_world ''sovereign'' = Inr app" using sample_app by blast
  note iff = sovereign_tokens_attested [OF a sample_token_file]
  have keys: "stored_key rev ''aa'' = ''sha256:aa''" "stored_key rev ''bb'' = ''sha256:bb''"
    "digest_for rev ''aa'' = ''sha256:aa''" "digest_for rev ''bb'' = ''sha256:bb''" by code_simp+
  have "verify_token rev (ap_tokens app) ''aa'' \<noteq> None" unfolding iff
    by (intro exI [of _ "''aa''"] exI [of _ "PDict [(''principal'', PStr ''steward''), (''local_only'', PBool True)]"])
      (simp add: sample_tokens_def keys meta_value_def dget_or_def)
  moreover have "\<not> verify_token rev (ap_tokens app) ''bb'' \<noteq> None"
    unfolding iff by (auto simp: sample_tokens_def keys meta_value_def dget_or_def)
  then have "verify_token rev (ap_tokens app) ''bb'' = None" by (simp del: not_None_eq)
  ultimately show ?thesis using a by (intro exI [of _ app] conjI)
qed

lemma other_tier_tools: "build_app D w tr = Inr app \<Longrightarrow> tr \<noteq> ''public'' \<Longrightarrow> ap_tools app = BASE_TOOLS @ SOVEREIGN_TOOLS"
  by (erule build_app_parts) (auto simp: selected_tools_def raw_tools_def)

text \<open>C35: An unknown tier is sovereign without the attestation.  A server whose tier is neither \<open>public\<close> nor
  \<open>sovereign\<close> as written, a capital letter is enough, registers every tool, those that read the sovereign
  tables and reverse pseudonyms included, and lets every token of the file authenticate, attested or not.\<close>

theorem unknown_tier_fails_open:
  assumes "build_app D w tr = Inr app" and "token_file w data" and "tr \<notin> {''public'', ''sovereign''}"
  shows "ap_tools app = BASE_TOOLS @ SOVEREIGN_TOOLS
    \<and> (verify_token D (ap_tokens app) t \<noteq> None \<longleftrightarrow> (\<exists>key meta. (key, meta) \<in> set data \<and> stored_key D key = digest_for D t))"
proof
  show "ap_tools app = BASE_TOOLS @ SOVEREIGN_TOOLS" using other_tier_tools [OF assms(1)] assms(3) by blast
  obtain c where c: "load_server_config D (wd_env w) (wd_files w) = Inr c" using build_app_parts [OF assms(1)] by metis
  have "admitted tr tp" for tp using assms(3) by (auto simp: admitted_def)
  then show "verify_token D (ap_tokens app) t \<noteq> None \<longleftrightarrow> (\<exists>key meta. (key, meta) \<in> set data \<and> stored_key D key = digest_for D t)"
    unfolding app_tokens [OF assms(1,2)] using load_token_map_file(3) [OF assms(2) server_tokens [OF c]] by metis
qed

lemma unknown_tier_fails_open_witness:
  "\<exists>app. build_app rev sample_world ''Sovereign'' = Inr app \<and> ''reidentify'' \<in> set (ap_tools app)
     \<and> verify_token rev (ap_tokens app) ''bb'' \<noteq> None"
proof -
  obtain app where a: "build_app rev sample_world ''Sovereign'' = Inr app" using sample_app by blast
  have "''Sovereign'' \<notin> {''public'', ''sovereign''}" by simp
  note all = unknown_tier_fails_open [OF a sample_token_file this, of "''bb''"]
  have "stored_key rev ''bb'' = digest_for rev ''bb''" by code_simp
  then have "verify_token rev (ap_tokens app) ''bb'' \<noteq> None"
    using all [THEN conjunct2] by (auto simp: sample_tokens_def)
  moreover have "''reidentify'' \<in> set (BASE_TOOLS @ SOVEREIGN_TOOLS)" by code_simp
  ultimately show ?thesis using a all [THEN conjunct1] by metis
qed

lemma public_names_base: "public_tool_names cl cands = Inr names \<Longrightarrow> set names \<subseteq> set cands"
proof (induction cands arbitrary: names)
  case (Cons t cands)
  then obtain ok rest where "public_tool_names cl cands = Inr rest" "names = (if ok then t # rest else rest)"
    unfolding public_tool_names.simps bind_sum_Inr_iff by blast
  then show ?case using Cons.IH [of rest] by (cases ok) auto
qed simp

lemma app_claims:
  assumes "build_app D w tr = Inr app" and "verify_token D (ap_tokens app) t = Some a"
  shows "\<exists>tp. claims_of tp = Inr (at_claims a) \<and> admitted tr tp"
proof -
  obtain c :: server_config where v: "verifier_tokens tr (sc_tokens c) = Inr (ap_tokens app)" 
    using build_app_parts [OF assms(1)] by blast
  have mem: "verify_against D d t = Some e \<Longrightarrow> \<exists>k. (k, e) \<in> set d" for d e
    by (induction d) (auto split: option.splits if_splits)
  have "verify_against D (ap_tokens app) t = Some (at_claims a)" using assms(2) by (auto simp: verify_token_def split: option.splits)
  from mem [OF this] obtain k where "(k, at_claims a) \<in> set (ap_tokens app)" by blast
  then show ?thesis using each_entry_spec [OF v [unfolded verifier_tokens_def]] by auto
qed

lemma claims_model: "claims_of tp = Inr e \<Longrightarrow> te_model_id e = None \<and> te_actor_type e = PNone"
  by (cases "case tp_allowed tp of None \<Rightarrow> False | Some vs \<Rightarrow> \<not> sortable vs") (simp_all add: claims_of_def, erule subst, simp)

text \<open>C36: A model is never attributed.  Whatever the token file says, the claims of every request that a server of
  any tier authenticates carry neither a model nor a kind of actor: the audit row of its call has an empty
  model and the actor \<open>unknown\<close>.\<close>

theorem model_never_attributed:
  assumes "build_app D w tr = Inr app" and "verify_token D (ap_tokens app) t = Some a"
  shows "attribution_from (Some (at_claims a)) session = (client_name_from_session session, [], ''unknown'')"
proof -
  obtain tp where "claims_of tp = Inr (at_claims a)" using app_claims [OF assms] by blast
  then have "te_model_id (at_claims a) = None" "te_actor_type (at_claims a) = PNone" using claims_model by blast+
  then show ?thesis by (simp add: attribution_from_def normalize_actor_type_def opt_or_def)
qed

lemma model_never_attributed_witness:
  "\<exists>app a. build_app rev sample_world ''sovereign'' = Inr app \<and> verify_token rev (ap_tokens app) ''aa'' = Some a
     \<and> attribution_from (Some (at_claims a)) (PStr ''cli'') = (''cli'', [], ''unknown'')"
proof -
  obtain app where a: "build_app rev sample_world ''sovereign'' = Inr app" using sample_app by blast
  have "case build_app rev sample_world ''sovereign'' of Inl e \<Rightarrow> False | Inr app \<Rightarrow> verify_token rev (ap_tokens app) ''aa'' \<noteq> None"
    by code_simp
  then obtain t where t: "verify_token rev (ap_tokens app) ''aa'' = Some t" using a by auto
  from model_never_attributed [OF a t, of "PStr ''cli''"] show ?thesis using a t by (auto simp: client_name_from_session_def)
qed

text \<open>The public tier registers only base tools whose every class is shareable.\<close>

lemma public_surface:
  assumes "build_app D w ''public'' = Inr app"
  shows "set (ap_tools app) \<subseteq> set BASE_TOOLS \<and> set (ap_tools app) \<inter> set SOVEREIGN_TOOLS = {}"
proof -
  obtain cl where "selected_tools cl ''public'' = Inr (ap_tools app)" using build_app_parts [OF assms] by metis
  then have "set (ap_tools app) \<subseteq> set BASE_TOOLS" using public_names_base by (simp add: selected_tools_def raw_tools_def)
  moreover have "list_all (\<lambda>t. t \<notin> set SOVEREIGN_TOOLS) BASE_TOOLS" by code_simp
  ultimately show ?thesis by (auto simp: list_all_iff)
qed

end
