(* ===== verification/Corpus.thy ===== *)
theory Corpus
  imports PyOps Regex Server
begin

text \<open>
  The golden corpus of the evaluations (\<open>services/evals/src/ssdf_evals/corpus.py\<close>), the gate of the sovereign tier
  (\<open>sovereignty.py\<close>) and the check of the tools that an agent used against the audit log (\<open>auditcheck.py\<close>).
  The YAML reader and the ClickHouse client are parameters; the messages of errors are shortened.
\<close>

section \<open>Questions\<close>

definition EVAL_PUBLIC_TOOLS :: "string list" where
  "EVAL_PUBLIC_TOOLS = [''metric_timeseries'', ''top_series'', ''entity_metric_timeseries'']"

definition EVAL_SOVEREIGN_TOOLS :: "string list" where
  "EVAL_SOVEREIGN_TOOLS = EVAL_PUBLIC_TOOLS @
     [''get_entity'', ''locate'', ''neighbors'', ''find_path'', ''topology_snapshot'', ''enforcement_points'', ''describe_schema'',
      ''explain_access'', ''query_flows'', ''run_sql'', ''top_talkers'', ''configured_policies'', ''observed_by'', ''reidentify'',
      ''ingest_status'', ''fabric_status'', ''lab_topology_snapshot'', ''recent_alerts'', ''rule_history'', ''rule_usage'', ''unused_rules'',
      ''explain_rule'']"

definition TIERS :: "string list" where "TIERS = [''sovereign'', ''public'', ''both'']"
definition CATEGORIES :: "string list" where "CATEGORIES = [''reachability'', ''flows'', ''topology'', ''change'', ''honesty'']"
definition DIFFICULTIES :: "string list" where "DIFFICULTIES = [''easy'', ''medium'', ''hard'']"
definition PREDICATE_TYPES :: "string list" where "PREDICATE_TYPES = [''reference_sql'', ''expected_json'', ''refusal'']"
definition MATCH_MODES :: "string list" where "MATCH_MODES = [''exact'', ''set_overlap'', ''numeric_tolerance'']"

text \<open>\<open>^\s*SELECT\b\<close>, in either case, at the start of a text.\<close>

definition select_only :: "string \<Rightarrow> bool" where
  "select_only sql =
     (let s = dropWhile is_space sql; r = drop 6 s in
      lower (take 6 s) = ''select'' \<and> (case r of [] \<Rightarrow> True | c # cs \<Rightarrow> \<not> word_char c))"

text \<open>\<open>CorpusError\<close>, or the name of another exception.\<close>

datatype corpus_error = CorpusError string | OtherError string

record question =
  qn_id :: string
  qn_text :: string
  qn_tier :: string
  qn_category :: string
  qn_difficulty :: string
  qn_format :: string
  qn_tools :: "pyval list"
  qn_predicate :: "(string, pyval) dict"

definition check_that :: "bool \<Rightarrow> string \<Rightarrow> corpus_error + unit" where
  "check_that cond message = (if cond then Inr () else Inl (CorpusError message))"

text \<open>The checks of a question in order; the first that fails ends them.\<close>

fun first_error :: "('e + unit) list \<Rightarrow> 'e + unit" where
  "first_error [] = Inr ()"
| "first_error (c # cs) = bind_sum c (\<lambda>u. first_error cs)"

definition one_of :: "pyval option \<Rightarrow> string list \<Rightarrow> bool" where
  "one_of v names = (case v of Some (PStr s) \<Rightarrow> s \<in> set names | _ \<Rightarrow> False)"

text \<open>\<open>set(q.required_tools) - allowed\<close>, which raises on a member that cannot be hashed.\<close>

definition tool_check :: "question \<Rightarrow> corpus_error + unit" where
  "tool_check q =
     (let allowed = (if qn_tier q = ''sovereign'' then EVAL_SOVEREIGN_TOOLS else EVAL_PUBLIC_TOOLS) in
      if \<not> list_all hashable (qn_tools q) then Inl (OtherError ''TypeError'')
      else check_that (list_all (\<lambda>t. one_of (Some t) allowed) (qn_tools q)) ''tools not allowed for tier'')"

definition params_of :: "(string, pyval) dict \<Rightarrow> pyval" where
  "params_of p = dget_or p ''params'' (PDict [])"

definition overlap_check :: "(string, pyval) dict \<Rightarrow> corpus_error + unit" where
  "overlap_check p =
     (case params_of p of
        PDict d \<Rightarrow>
          check_that (case map_of d ''min_overlap'' of Some (PInt i) \<Rightarrow> True | Some (PBool b) \<Rightarrow> True | _ \<Rightarrow> False) ''set_overlap needs integer params.min_overlap''
      | _ \<Rightarrow> Inl (OtherError ''AttributeError''))"

definition tolerance_check :: "(string, pyval) dict \<Rightarrow> corpus_error + unit" where
  "tolerance_check p =
     (case (py_in ''tolerance'' (params_of p), py_in ''tolerance_pct'' (params_of p)) of
        (Inr a, Inr b) \<Rightarrow> check_that (a \<noteq> b) ''numeric_tolerance needs exactly one of params.tolerance / params.tolerance_pct''
      | _ \<Rightarrow> Inl (OtherError ''TypeError''))"

definition sql_checks :: "(string, pyval) dict \<Rightarrow> (corpus_error + unit) list" where
  "sql_checks p =
     [case dget_or p ''sql'' (PStr []) of
        PStr s \<Rightarrow> check_that (select_only s) ''reference_sql must be a SELECT''
      | _ \<Rightarrow> Inl (OtherError ''TypeError''),
      check_that (one_of (map_of p ''match'') MATCH_MODES) ''bad match mode'',
      check_that (py_truthy (dget_or p ''answer_key'' PNone)) ''reference_sql needs answer_key'',
      if map_of p ''match'' = Some (PStr ''set_overlap'') then overlap_check p
      else if map_of p ''match'' = Some (PStr ''numeric_tolerance'') then tolerance_check p else Inr ()]"

definition predicate_checks :: "(string, pyval) dict \<Rightarrow> (corpus_error + unit) list" where
  "predicate_checks p =
     check_that (one_of (map_of p ''type'') PREDICATE_TYPES) ''bad predicate type''
     # (if map_of p ''type'' = Some (PStr ''reference_sql'') then sql_checks p
        else if map_of p ''type'' = Some (PStr ''expected_json'') then [check_that (dhas p ''expected'') ''expected_json needs expected'']
        else if map_of p ''type'' = Some (PStr ''refusal'') then [check_that (\<not> dhas p ''sql'') ''refusal predicate must not carry sql'']
        else [])"

definition validate_question :: "question \<Rightarrow> corpus_error + unit" where
  "validate_question q = first_error
     ([check_that (qn_tier q \<in> set TIERS) ''bad tier'',
       check_that (qn_category q \<in> set CATEGORIES) ''bad category'',
       check_that (qn_difficulty q \<in> set DIFFICULTIES) ''bad difficulty'',
       check_that (qn_text q \<noteq> [] \<and> qn_format q \<noteq> []) ''empty question/answer_format'',
       tool_check q] @ predicate_checks (qn_predicate q))"

section \<open>Loading\<close>

definition item_text :: "(string, pyval) dict \<Rightarrow> string \<Rightarrow> corpus_error + string" where
  "item_text d k = (case map_of d k of None \<Rightarrow> Inl (CorpusError ''missing key'') | Some v \<Rightarrow> Inr (py_str v))"

text \<open>\<open>tuple(item.get("required_tools") or ())\<close>\<close>

definition item_tools :: "(string, pyval) dict \<Rightarrow> corpus_error + pyval list" where
  "item_tools d =
     (case or_falsy (map_of d ''required_tools'') (PList []) of
        PList xs \<Rightarrow> Inr xs
      | PStr s \<Rightarrow> Inr (map (\<lambda>c. PStr [c]) s)
      | PDict e \<Rightarrow> Inr (map PStr (dkeys e))
      | _ \<Rightarrow> Inl (OtherError ''TypeError''))"

text \<open>\<open>dict(item["predicate"])\<close>; a list of pairs, which \<open>dict\<close> also takes, is refused here.\<close>

definition item_predicate :: "(string, pyval) dict \<Rightarrow> corpus_error + (string, pyval) dict" where
  "item_predicate d =
     (case map_of d ''predicate'' of
        None \<Rightarrow> Inl (CorpusError ''missing key'')
      | Some (PDict p) \<Rightarrow> Inr p
      | Some (PList []) \<Rightarrow> Inr []
      | Some (PStr []) \<Rightarrow> Inr []
      | Some v \<Rightarrow> Inl (OtherError ''TypeError''))"

definition question_of :: "pyval \<Rightarrow> corpus_error + question" where
  "question_of item =
     (case item of
        PDict d \<Rightarrow>
          bind_sum (item_text d ''id'') (\<lambda>i. bind_sum (item_text d ''question'') (\<lambda>q. bind_sum (item_text d ''tier'') (\<lambda>tr.
          bind_sum (item_text d ''category'') (\<lambda>c. bind_sum (item_text d ''difficulty'') (\<lambda>df. bind_sum (item_text d ''answer_format'') (\<lambda>f.
          bind_sum (item_tools d) (\<lambda>ts. bind_sum (item_predicate d) (\<lambda>p.
            Inr \<lparr>qn_id = i, qn_text = q, qn_tier = tr, qn_category = c, qn_difficulty = df, qn_format = f, qn_tools = ts,
                 qn_predicate = p\<rparr>))))))))
      | _ \<Rightarrow> Inl (OtherError ''TypeError''))"

fun load_items :: "string list \<Rightarrow> pyval list \<Rightarrow> corpus_error + question list" where
  "load_items seen [] = Inr []"
| "load_items seen (item # rest) =
     bind_sum (question_of item) (\<lambda>q. bind_sum (check_that (qn_id q \<notin> set seen) ''duplicate question id'') (\<lambda>u.
       bind_sum (validate_question q) (\<lambda>u. bind_sum (load_items (qn_id q # seen) rest) (\<lambda>qs. Inr (q # qs)))))"

definition load_corpus :: "pyval \<Rightarrow> corpus_error + question list" where
  "load_corpus raw =
     (case raw of
        PList (item # items) \<Rightarrow> load_items [] (item # items)
      | _ \<Rightarrow> Inl (CorpusError ''corpus must be a non-empty YAML list''))"

definition questions_for_tier :: "question list \<Rightarrow> string \<Rightarrow> question list" where
  "questions_for_tier questions tr = filter (\<lambda>q. qn_tier q = tr \<or> qn_tier q = ''both'') questions"

section \<open>The sovereign gate\<close>

definition sovereignty_error :: "string \<Rightarrow> bool \<Rightarrow> bool" where
  "sovereignty_error tr local_model \<longleftrightarrow> tr = ''sovereign'' \<and> \<not> local_model"

section \<open>The tools in the audit log\<close>

definition AUDIT_TOOLS_SQL :: string where
  "AUDIT_TOOLS_SQL = ''SELECT DISTINCT tool FROM ssdf.audit WHERE principal = {principal:String} ''
     @ ''AND ts >= parseDateTimeBestEffort({start:String}, 'UTC') AND ts <= parseDateTimeBestEffort({end:String}, 'UTC') ''
     @ ''AND decision = 'allow' ''"

definition in_years :: "int \<Rightarrow> bool" where "in_years u \<longleftrightarrow> 0 \<le> u \<and> u < 3652059 * day_us"

text \<open>\<open>_to_utc(t)\<close> shifted by seconds.\<close>

definition utc_shifted :: "pydt \<Rightarrow> int \<Rightarrow> string + int" where
  "utc_shifted t secs =
     (if in_years (as_utc t) \<and> in_years (as_utc t + secs * 1000000) then Inr (as_utc t + secs * 1000000) else Inl ''date value out of range'')"

text \<open>A client answers the text of a query and its parameters with rows, or raises.\<close>

type_synonym eval_client = "string \<Rightarrow> (string, pyval) dict \<Rightarrow> string + pyval list list"

text \<open>\<open>str(row[0])\<close>\<close>

definition first_text :: "pyval list \<Rightarrow> string + string" where
  "first_text row = (case row of [] \<Rightarrow> Inl ''tuple index out of range'' | v # vs \<Rightarrow> Inr (py_str v))"

definition first_texts :: "pyval list list \<Rightarrow> string + string list" where
  "first_texts rows = concat_sum (\<lambda>r. bind_sum (first_text r) (\<lambda>t. Inr [t])) rows"

definition tool_window :: "string \<Rightarrow> int \<Rightarrow> int \<Rightarrow> (string, pyval) dict" where
  "tool_window principal_name start_us end_us =
     [(''principal'', PStr principal_name), (''start'', PStr (strftime_ms start_us)), (''end'', PStr (strftime_ms end_us))]"

definition fetch_tools :: "eval_client \<Rightarrow> string \<Rightarrow> pydt \<Rightarrow> pydt \<Rightarrow> int \<Rightarrow> string + string list" where
  "fetch_tools client principal_name started finished slop =
     bind_sum (utc_shifted started (- slop)) (\<lambda>a. bind_sum (utc_shifted finished slop) (\<lambda>b.
       bind_sum (client AUDIT_TOOLS_SQL (tool_window principal_name a b)) (\<lambda>rows.
         bind_sum (first_texts rows) (\<lambda>ts. Inr (sort ts)))))"

record tool_check_result =
  tc_passed :: bool
  tc_observed :: "string list"
  tc_reason :: string

definition text_list :: "string list \<Rightarrow> string" where "text_list xs = py_repr (PList (map PStr xs))"

text \<open>The tools of a loaded question are texts.\<close>

definition required_names :: "question \<Rightarrow> string list" where
  "required_names q = sorted_set (concat (map (\<lambda>t. case t of PStr s \<Rightarrow> [s] | _ \<Rightarrow> []) (qn_tools q)))"

definition check_tools :: "question \<Rightarrow> string list \<Rightarrow> string \<Rightarrow> tool_check_result" where
  "check_tools q used tr =
     (let required = required_names q; outside = sorted_set (filter (\<lambda>t. t \<notin> set EVAL_PUBLIC_TOOLS) used) in
      if required \<noteq> [] \<and> set required \<inter> set used = {} then
        \<lparr>tc_passed = False, tc_observed = used, tc_reason = ''none of the accepted tools observed in audit: '' @ text_list required\<rparr>
      else if tr = ''public'' \<and> outside \<noteq> [] then
        \<lparr>tc_passed = False, tc_observed = used, tc_reason = ''non-public tools observed on public run: '' @ text_list outside\<rparr>
      else \<lparr>tc_passed = True, tc_observed = used, tc_reason = []\<rparr>)"

section \<open>What a loaded corpus guarantees\<close>

lemma first_error_Inr: "first_error cs = Inr () \<longleftrightarrow> (\<forall>c \<in> set cs. c = Inr ())"
  by (induction cs) (auto simp: bind_sum_Inr_iff)

lemma check_that_Inr [simp]: "check_that c m = Inr u \<longleftrightarrow> c"
  by (simp add: check_that_def)

text \<open>A predicate that can be evaluated, and a question that may be asked.\<close>

definition predicate_ok :: "(string, pyval) dict \<Rightarrow> bool" where
  "predicate_ok p \<longleftrightarrow>
     map_of p ''type'' = Some (PStr ''refusal'') \<and> \<not> dhas p ''sql''
   \<or> map_of p ''type'' = Some (PStr ''expected_json'') \<and> dhas p ''expected''
   \<or> map_of p ''type'' = Some (PStr ''reference_sql'')
     \<and> (\<exists>sql. map_of p ''sql'' = Some (PStr sql) \<and> select_only sql)
     \<and> (\<exists>k. map_of p ''answer_key'' = Some k \<and> py_truthy k)
     \<and> (map_of p ''match'' = Some (PStr ''exact'')
        \<or> map_of p ''match'' = Some (PStr ''set_overlap'') \<and> overlap_check p = Inr ()
        \<or> map_of p ''match'' = Some (PStr ''numeric_tolerance'') \<and> tolerance_check p = Inr ())"

definition question_ok :: "question \<Rightarrow> bool" where
  "question_ok q \<longleftrightarrow> qn_tier q \<in> set TIERS \<and> qn_category q \<in> set CATEGORIES \<and> qn_difficulty q \<in> set DIFFICULTIES
     \<and> qn_text q \<noteq> [] \<and> qn_format q \<noteq> []
     \<and> (\<forall>t \<in> set (qn_tools q). \<exists>n. t = PStr n \<and> n \<in> set (if qn_tier q = ''sovereign'' then EVAL_SOVEREIGN_TOOLS else EVAL_PUBLIC_TOOLS))
     \<and> predicate_ok (qn_predicate q)"

lemma one_of_iff: "one_of v names \<longleftrightarrow> (\<exists>s. v = Some (PStr s) \<and> s \<in> set names)"
  by (auto simp: one_of_def split: option.splits pyval.splits)

lemma tool_check_ok:
  "tool_check q = Inr () \<longleftrightarrow>
    (\<forall>t \<in> set (qn_tools q). \<exists>n. t = PStr n \<and> n \<in> set (if qn_tier q = ''sovereign'' then EVAL_SOVEREIGN_TOOLS else EVAL_PUBLIC_TOOLS))"
proof -
  let ?A = "if qn_tier q = ''sovereign'' then EVAL_SOVEREIGN_TOOLS else EVAL_PUBLIC_TOOLS"
  have h: "hashable t" if "one_of (Some t) ?A" for t using that by (auto simp: one_of_iff hashable_def)
  have "tool_check q = Inr () \<longleftrightarrow> list_all hashable (qn_tools q) \<and> list_all (\<lambda>t. one_of (Some t) ?A) (qn_tools q)"
    unfolding tool_check_def Let_def by (simp only: if_distribR split: if_split) simp
  also have "\<dots> \<longleftrightarrow> list_all (\<lambda>t. one_of (Some t) ?A) (qn_tools q)" using h unfolding list_all_iff by blast
  finally show ?thesis unfolding list_all_iff one_of_iff by simp
qed

lemma sql_text_ok:
  "(case dget_or p ''sql'' (PStr []) of PStr s \<Rightarrow> check_that (select_only s) m | _ \<Rightarrow> Inl (OtherError e)) = Inr () \<longleftrightarrow>
    (\<exists>sql. map_of p ''sql'' = Some (PStr sql) \<and> select_only sql)"
proof -
  have "\<not> select_only []" by (simp add: select_only_def lower_def)
  then show ?thesis by (auto simp: dget_or_def split: option.splits pyval.splits)
qed

lemma sql_checks_ok:
  "(\<forall>c \<in> set (sql_checks p). c = Inr ()) \<longleftrightarrow>
    (\<exists>sql. map_of p ''sql'' = Some (PStr sql) \<and> select_only sql) \<and> (\<exists>k. map_of p ''answer_key'' = Some k \<and> py_truthy k)
    \<and> (map_of p ''match'' = Some (PStr ''exact'') \<or> map_of p ''match'' = Some (PStr ''set_overlap'') \<and> overlap_check p = Inr ()
       \<or> map_of p ''match'' = Some (PStr ''numeric_tolerance'') \<and> tolerance_check p = Inr ())"
proof -
  have "py_truthy (dget_or p ''answer_key'' PNone) \<longleftrightarrow> (\<exists>k. map_of p ''answer_key'' = Some k \<and> py_truthy k)"
    by (auto simp: dget_or_def split: option.splits)
  then show ?thesis unfolding sql_checks_def by (auto simp: sql_text_ok one_of_iff MATCH_MODES_def)
qed

lemma predicate_checks_ok: "(\<forall>c \<in> set (predicate_checks p). c = Inr ()) \<longleftrightarrow> predicate_ok p"
  unfolding predicate_checks_def predicate_ok_def by (auto simp: sql_checks_ok one_of_iff PREDICATE_TYPES_def)

lemma validate_question_ok: "validate_question q = Inr () \<longleftrightarrow> question_ok q"
  unfolding validate_question_def first_error_Inr question_ok_def using tool_check_ok [of q] predicate_checks_ok [of "qn_predicate q"]
  by auto

lemma load_items_ok:
  "load_items seen items = Inr qs \<longleftrightarrow>
    list_all2 (\<lambda>item q. question_of item = Inr q \<and> question_ok q) items qs \<and> distinct (map qn_id qs) \<and> set (map qn_id qs) \<inter> set seen = {}"
proof (induction items arbitrary: seen qs)
  case (Cons item items)
  show ?case
    by (auto simp: bind_sum_Inr_iff Cons.IH validate_question_ok list_all2_Cons1) blast
qed auto

text \<open>A corpus loads exactly when every question may be asked: it loads as the questions of a non-empty list with
  distinct ids, each with known tier, category and difficulty, with a wording and an answer format, whose tools
  all belong to its tier, and whose predicate is a refusal without a query, an expected answer, or a reference
  query that begins with SELECT and has the parameters of its match mode.\<close>

theorem corpus_exact:
  "load_corpus raw = Inr qs \<longleftrightarrow>
    (\<exists>items. raw = PList items \<and> items \<noteq> [] \<and> list_all2 (\<lambda>item q. question_of item = Inr q \<and> question_ok q) items qs
      \<and> distinct (map qn_id qs))"
proof (cases "\<exists>items. raw = PList items \<and> items \<noteq> []")
  case True
  then obtain items where "raw = PList items" "items \<noteq> []" by blast
  moreover from this have "load_corpus raw = load_items [] items" unfolding load_corpus_def by (cases items) simp_all
  ultimately show ?thesis by (simp add: load_items_ok)
next
  case False
  then have "load_corpus raw = Inl (CorpusError ''corpus must be a non-empty YAML list'')"
    by (auto simp: load_corpus_def split: pyval.split list.split)
  then show ?thesis using False by auto
qed

lemma load_corpus_questions: "load_corpus raw = Inr qs \<Longrightarrow> q \<in> set qs \<Longrightarrow> question_ok q"
  by (auto simp: load_corpus_def load_items_ok list_all2_conv_all_nth in_set_conv_nth simp del: load_items.simps split: pyval.splits list.splits)

lemma surfaces_agree:
  "list_all (\<lambda>t. t \<in> set (raw_tools ''public'') \<and> t \<in> set EVAL_SOVEREIGN_TOOLS) EVAL_PUBLIC_TOOLS"
  "list_all (\<lambda>t. t \<in> set (raw_tools ''sovereign'') \<and> t \<in> set (dkeys TOOL_DATA_CLASSES)) EVAL_SOVEREIGN_TOOLS"
  "list_all (\<lambda>t. t \<in> set EVAL_SOVEREIGN_TOOLS) (dkeys TOOL_DATA_CLASSES)"
  "list_all (\<lambda>t. t \<in> set EVAL_SOVEREIGN_TOOLS) (raw_tools ''sovereign'')"
  by code_simp+

text \<open>Corpus and servers agree on the tools.  A tool that a question of a loaded corpus requires, in a run on a
  tier, is registered by the server of that tier and carries data classes; and every tool that the sovereign
  server registers may be required by a question.\<close>

theorem corpus_tools_served:
  assumes "load_corpus raw = Inr qs" and "q \<in> set (questions_for_tier qs tr)" and "tr \<in> {''sovereign'', ''public''}"
  shows "(\<forall>t \<in> set (qn_tools q). \<exists>n. t = PStr n \<and> n \<in> set (raw_tools tr) \<and> dhas TOOL_DATA_CLASSES n)
    \<and> set (raw_tools ''sovereign'') = set EVAL_SOVEREIGN_TOOLS"
proof
  have "set EVAL_PUBLIC_TOOLS \<subseteq> set EVAL_SOVEREIGN_TOOLS" by (auto simp: EVAL_SOVEREIGN_TOOLS_def)
  then have sov: "n \<in> set (raw_tools ''sovereign'') \<and> dhas TOOL_DATA_CLASSES n"
    if "n \<in> set EVAL_SOVEREIGN_TOOLS \<or> n \<in> set EVAL_PUBLIC_TOOLS" for n
    using that surfaces_agree(2) by (auto simp: list_all_iff dhas_iff)
  have pub: "n \<in> set (raw_tools tr)" if "n \<in> set EVAL_PUBLIC_TOOLS" for n
    using that surfaces_agree(1) sov [of n] assms(3) by (auto simp: list_all_iff)
  have q: "question_ok q" "qn_tier q = tr \<or> qn_tier q = ''both''"
    using load_corpus_questions [OF assms(1)] assms(2) by (simp_all add: questions_for_tier_def)
  show "\<forall>t \<in> set (qn_tools q). \<exists>n. t = PStr n \<and> n \<in> set (raw_tools tr) \<and> dhas TOOL_DATA_CLASSES n"
  proof
    fix t assume "t \<in> set (qn_tools q)"
    then obtain n where n: "t = PStr n" "n \<in> set (if qn_tier q = ''sovereign'' then EVAL_SOVEREIGN_TOOLS else EVAL_PUBLIC_TOOLS)"
      using q(1) unfolding question_ok_def by blast
    have "n \<in> set (raw_tools tr)"
    proof (cases "qn_tier q = ''sovereign''")
      case True
      then have "tr = ''sovereign''" using q(2) by auto
      then show ?thesis using n True sov by auto
    qed (use n pub in auto)
    then show "\<exists>n. t = PStr n \<and> n \<in> set (raw_tools tr) \<and> dhas TOOL_DATA_CLASSES n"
      using n sov by (intro exI [of _ n]) (auto split: if_splits)
  qed
  show "set (raw_tools ''sovereign'') = set EVAL_SOVEREIGN_TOOLS"
    using surfaces_agree(2,4) by (auto simp: list_all_iff)
qed

definition sample_corpus :: pyval where
  "sample_corpus = PList [PDict [(''id'', PStr ''q1''), (''question'', PStr ''How many?''), (''tier'', PStr ''both''), (''category'', PStr ''flows''),
     (''difficulty'', PStr ''easy''), (''answer_format'', PStr ''JSON''), (''required_tools'', PList [PStr ''top_series'']),
     (''predicate'', PDict [(''type'', PStr ''refusal'')])]]"

definition sample_question :: question where
  "sample_question = \<lparr>qn_id = ''q1'', qn_text = ''How many?'', qn_tier = ''both'', qn_category = ''flows'', qn_difficulty = ''easy'',
     qn_format = ''JSON'', qn_tools = [PStr ''top_series''], qn_predicate = [(''type'', PStr ''refusal'')]\<rparr>"

lemma sample_corpus_loads: "load_corpus sample_corpus = Inr [sample_question]"
  by code_simp

lemma corpus_tools_served_witness:
  "(\<forall>t \<in> set (qn_tools sample_question). \<exists>n. t = PStr n \<and> n \<in> set (raw_tools ''public'') \<and> dhas TOOL_DATA_CLASSES n)
    \<and> qn_tools sample_question = [PStr ''top_series'']"
proof -
  have "sample_question \<in> set (questions_for_tier [sample_question] ''public'')"
    by (simp add: questions_for_tier_def sample_question_def)
  from corpus_tools_served [OF sample_corpus_loads this] show ?thesis by (simp add: sample_question_def)
qed

text \<open>The tools of a loaded question are the names that the audit log is searched for.\<close>

lemma required_names_loaded: "question_ok q \<Longrightarrow> PStr n \<in> set (qn_tools q) \<longleftrightarrow> n \<in> set (required_names q)"
  by (force simp: required_names_def split: pyval.splits)

lemma sorted_set_Nil [simp]: "sorted_set xs = [] \<longleftrightarrow> xs = []"
  by (metis set_empty set_sorted_set)

text \<open>A question that requires tools passes the check only when the log shows one of them.\<close>

lemma check_tools_passed:
  "tc_passed (check_tools q used tr) \<longleftrightarrow> (required_names q = [] \<or> (\<exists>t \<in> set used. t \<in> set (required_names q)))
    \<and> (tr = ''public'' \<longrightarrow> set used \<subseteq> set EVAL_PUBLIC_TOOLS)"
  by (auto simp: check_tools_def Let_def filter_empty_conv)

end
