(* ===== verification/Evals.thy ===== *)
theory Evals
  imports Corpus "HOL-Library.Multiset"
begin

text \<open>
  Scoring the runs of agents against the golden corpus (\<open>services/evals/src/ssdf_evals\<close>): the configuration
  (\<open>config.py\<close>), the contract of manifests and scorecards (\<open>schemas.py\<close> with the two schema files), the predicates
  (\<open>predicates.py\<close>), the scorer (\<open>score.py\<close>) and the regression gate (\<open>regress.py\<close>).  The digest, the clients, the
  file system, the clock and the check of the format \<open>date-time\<close> are parameters.  An exception is \<open>Inl\<close> with its text.
\<close>

section \<open>Configuration\<close>

record eval_config = ch_settings +
  ev_verify_password :: secret
  ev_slop :: int

definition load_eval_config :: "attrs \<Rightarrow> start_error + eval_config" where
  "load_eval_config env =
     bind_sum (ch_password env) (\<lambda>p.
     bind_sum (case map_of env ''CH_AUDIT_VERIFY_PASSWORD'' of None \<Rightarrow> Inl (Refused ''CH_AUDIT_VERIFY_PASSWORD is required'') | Some v \<Rightarrow> Inr (Secret v)) (\<lambda>v.
     bind_sum (env_int env ''CH_PORT'' ''8123'') (\<lambda>port. bind_sum (env_int env ''EVAL_AUDIT_SLOP_SECS'' ''5'') (\<lambda>slop.
       Inr (ch_settings.extend (ch_settings_of env ''ssdf_ro'' p port) (eval_config.fields v slop))))))"

text \<open>\<open>client_kwargs\<close> with another identity.\<close>

definition eval_client_kwargs :: "eval_config \<Rightarrow> string option \<Rightarrow> string option \<Rightarrow> config_error + (string, pyval) dict" where
  "eval_client_kwargs c user password =
     client_kwargs (cs_host c) (cs_port c) (opt_or user (cs_user c)) (case password of None \<Rightarrow> secret_get (cs_password c) | Some p \<Rightarrow> p)
       (cs_database c) (cs_secure c) (cs_ca_file c)"

section \<open>Manifests\<close>

record run_entry =
  re_id :: string
  re_started :: string
  re_finished :: string
  re_answer :: "(string, pyval) dict option"
  re_error :: "string option"

record manifest =
  mf_run_id :: string
  mf_model :: string
  mf_runner :: string
  mf_tier :: string
  mf_principal :: string
  mf_corpus :: string
  mf_local :: bool
  mf_entries :: "run_entry list"

text \<open>\<open>manifest.schema.json\<close>: the members of an object are exactly the required ones, texts are not empty.  The
  format of times is checked by \<open>is_time\<close>.\<close>

definition nonempty_text :: "(string, pyval) dict \<Rightarrow> string \<Rightarrow> string option" where
  "nonempty_text d k = (case map_of d k of Some (PStr s) \<Rightarrow> if s \<noteq> [] then Some s else None | _ \<Rightarrow> None)"

definition time_text :: "(string \<Rightarrow> bool) \<Rightarrow> (string, pyval) dict \<Rightarrow> string \<Rightarrow> string option" where
  "time_text is_time d k = (case map_of d k of Some (PStr s) \<Rightarrow> if is_time s then Some s else None | _ \<Rightarrow> None)"

definition version_one :: "pyval option \<Rightarrow> bool" where
  "version_one v = (case v of Some (PInt i) \<Rightarrow> i = 1 | Some (PFloat s) \<Rightarrow> py_float s = Some (Fin 1) | _ \<Rightarrow> False)"

definition ENTRY_KEYS :: "string list" where "ENTRY_KEYS = [''id'', ''started'', ''finished'', ''answer'', ''error'']"

definition MANIFEST_KEYS :: "string list" where
  "MANIFEST_KEYS = [''schema_version'', ''run_id'', ''model'', ''runner'', ''tier'', ''principal'', ''corpus_version'', ''local'', ''questions'']"

definition read_answer :: "pyval option \<Rightarrow> (string, pyval) dict option option" where
  "read_answer v = (case v of Some (PDict a) \<Rightarrow> Some (Some a) | Some PNone \<Rightarrow> Some None | _ \<Rightarrow> None)"

definition read_error :: "pyval option \<Rightarrow> string option option" where
  "read_error v = (case v of Some (PStr s) \<Rightarrow> Some (Some s) | Some PNone \<Rightarrow> Some None | _ \<Rightarrow> None)"

definition read_entry :: "(string \<Rightarrow> bool) \<Rightarrow> pyval \<Rightarrow> run_entry option" where
  "read_entry is_time v =
     (case v of
        PDict d \<Rightarrow>
          if set (dkeys d) \<noteq> set ENTRY_KEYS then None
          else
            (case (nonempty_text d ''id'', time_text is_time d ''started'', time_text is_time d ''finished'',
                   read_answer (map_of d ''answer''), read_error (map_of d ''error'')) of
               (Some i, Some s, Some f, Some a, Some e) \<Rightarrow>
                 Some \<lparr>re_id = i, re_started = s, re_finished = f, re_answer = a, re_error = e\<rparr>
             | _ \<Rightarrow> None)
      | _ \<Rightarrow> None)"

definition read_entries :: "(string \<Rightarrow> bool) \<Rightarrow> pyval option \<Rightarrow> run_entry list option" where
  "read_entries is_time v = (case v of Some (PList xs) \<Rightarrow> those (map (read_entry is_time) xs) | _ \<Rightarrow> None)"

definition RUN_TIERS :: "string list" where "RUN_TIERS = [''sovereign'', ''public'']"

definition read_manifest :: "(string \<Rightarrow> bool) \<Rightarrow> pyval \<Rightarrow> manifest option" where
  "read_manifest is_time v =
     (case v of
        PDict d \<Rightarrow>
          if set (dkeys d) \<noteq> set MANIFEST_KEYS \<or> \<not> version_one (map_of d ''schema_version'') then None
          else
            (case (nonempty_text d ''run_id'', nonempty_text d ''model'', nonempty_text d ''runner'', nonempty_text d ''tier'',
                   nonempty_text d ''principal'', nonempty_text d ''corpus_version'', map_of d ''local'', read_entries is_time (map_of d ''questions'')) of
               (Some r, Some m, Some rn, Some tr, Some p, Some c, Some (PBool l), Some es) \<Rightarrow>
                 if tr \<in> set RUN_TIERS
                 then Some \<lparr>mf_run_id = r, mf_model = m, mf_runner = rn, mf_tier = tr, mf_principal = p, mf_corpus = c, mf_local = l, mf_entries = es\<rparr>
                 else None
             | _ \<Rightarrow> None)
      | _ \<Rightarrow> None)"

section \<open>Predicates\<close>

record predicate_result =
  pr_passed :: bool
  pr_reason :: string
  pr_detail :: "(string, pyval) dict"
  pr_raw :: "(string, pyval) dict option"

definition plain_result :: "bool \<Rightarrow> string \<Rightarrow> (string, pyval) dict \<Rightarrow> predicate_result" where
  "plain_result passed reason detail = \<lparr>pr_passed = passed, pr_reason = reason, pr_detail = detail, pr_raw = None\<rparr>"

definition is_scalar :: "pyval \<Rightarrow> bool" where
  "is_scalar v = (case v of PList l \<Rightarrow> False | PDict d \<Rightarrow> False | _ \<Rightarrow> True)"

text \<open>The key \<open>(x is None, str(x))\<close>: pairs are ordered by their first members, then by the second.\<close>

datatype scalar_key = Scalar_key (key_absent: bool) (key_text: string)

instantiation scalar_key :: linorder
begin

definition less_eq_scalar_key :: "scalar_key \<Rightarrow> scalar_key \<Rightarrow> bool" where
  "less_eq_scalar_key a b \<longleftrightarrow> key_absent a < key_absent b \<or> key_absent a = key_absent b \<and> key_text a \<le> key_text b"

definition less_scalar_key :: "scalar_key \<Rightarrow> scalar_key \<Rightarrow> bool" where
  "less_scalar_key a b \<longleftrightarrow> a \<le> b \<and> \<not> b \<le> a"

instance by standard (auto simp: less_eq_scalar_key_def less_scalar_key_def intro: scalar_key.expand)

end

text \<open>\<open>sorted(xs, key=lambda x: (x is None, str(x)))\<close>\<close>

definition sort_scalars :: "pyval list \<Rightarrow> pyval list" where
  "sort_scalars xs = sort_key (\<lambda>x. Scalar_key (x = PNone) (py_str x)) xs"

fun normalize :: "pyval \<Rightarrow> pyval" where
  "normalize (PDict d) = PDict (map (\<lambda>(k, v). (k, normalize v)) d)"
| "normalize (PList xs) = (let ys = map normalize xs in PList (if list_all is_scalar ys then sort_scalars ys else ys))"
| "normalize v = v"

text \<open>The values of an answer under a key; \<open>for item in value\<close> over its members.\<close>

definition agent_values :: "(string, pyval) dict \<Rightarrow> (string, pyval) dict \<Rightarrow> string + pyval list" where
  "agent_values answer predicate =
     bind_sum (py_index (PDict predicate) (PStr ''answer_key'')) (\<lambda>key.
     bind_sum (py_index (PDict answer) key) (\<lambda>v.
       let values = (case v of PList xs \<Rightarrow> xs | _ \<Rightarrow> [v]); item_key = dget_or predicate ''item_key'' PNone in
       if py_truthy item_key then concat_sum (\<lambda>x. bind_sum (py_index x item_key) (\<lambda>y. Inr [y])) values else Inr values))"

definition sha256_of_sorted :: "(string \<Rightarrow> string) \<Rightarrow> string list \<Rightarrow> string" where
  "sha256_of_sorted D vs = D (join [CHR 0x0A] (sorted_set vs))"

definition text_values :: "string list \<Rightarrow> pyval" where "text_values xs = PList (map PStr xs)"

definition allowed_gap :: "pyval \<Rightarrow> pyfloat \<Rightarrow> string + pyfloat" where
  "allowed_gap params ref =
     bind_sum (py_in ''tolerance'' params) (\<lambda>has.
       if has then bind_sum (py_index params (PStr ''tolerance'')) float_of
       else bind_sum (py_index params (PStr ''tolerance_pct'')) (\<lambda>v. bind_sum (float_of v) (\<lambda>pct.
         Inr (fl_percent (fl_mul (fl_abs ref) pct)))))"

definition numeric_result :: "bool \<Rightarrow> pyfloat \<Rightarrow> pyfloat \<Rightarrow> pyfloat \<Rightarrow> predicate_result" where
  "numeric_result redact agent ref allowed =
     (let passed = fl_le (fl_abs (fl_sub agent ref)) allowed;
          raw = [(''agent'', float_value agent), (''reference'', float_value ref), (''allowed'', float_value allowed)] in
      if redact then
        \<lparr>pr_passed = passed, pr_reason = (if passed then [] else ''value outside tolerance''),
         pr_detail = [(''within_tolerance'', PBool passed)], pr_raw = Some raw\<rparr>
      else plain_result passed
        (if passed then [] else ''|'' @ float_repr agent @ ''-'' @ float_repr ref @ ''| > '' @ float_repr allowed) raw)"

definition eval_numeric ::
  "bool \<Rightarrow> (string, pyval) dict \<Rightarrow> (string, pyval) dict \<Rightarrow> string list \<Rightarrow> string + predicate_result" where
  "eval_numeric redact predicate answer reference =
     (case reference of
        [] \<Rightarrow> Inr (plain_result False ''reference query returned no rows'' [])
      | r # rest \<Rightarrow>
          bind_sum (py_index (PDict predicate) (PStr ''answer_key'')) (\<lambda>key. bind_sum (py_index (PDict answer) key) (\<lambda>v.
          bind_sum (float_of v) (\<lambda>agent. bind_sum (float_of (PStr r)) (\<lambda>ref. bind_sum (allowed_gap (params_of predicate) ref) (\<lambda>allowed.
            Inr (numeric_result redact agent ref allowed)))))))"

definition set_verdict :: "(string, pyval) dict \<Rightarrow> string list \<Rightarrow> string list \<Rightarrow> string + bool \<times> string \<times> (string, pyval) dict" where
  "set_verdict predicate agent reference =
     (let overlap = length (filter (\<lambda>x. x \<in> set reference) agent);
          raw = [(''agent'', text_values agent), (''reference'', text_values reference)] in
      if map_of predicate ''match'' = Some (PStr ''exact'')
      then Inr (agent = reference, if agent = reference then [] else ''exact set mismatch'', raw)
      else
        bind_sum (py_index (params_of predicate) (PStr ''min_overlap'')) (\<lambda>v. bind_sum (int_of v) (\<lambda>needed.
          Inr (int overlap \<ge> needed, if int overlap \<ge> needed then [] else ''overlap '' @ show_nat overlap @ '' < required '' @ show_int needed,
               raw @ [(''overlap'', PInt (int overlap))]))))"

definition counts_detail :: "(string \<Rightarrow> string) \<Rightarrow> string list \<Rightarrow> string list \<Rightarrow> (string, pyval) dict" where
  "counts_detail D agent reference =
     [(''agent_count'', PInt (int (length agent))), (''reference_count'', PInt (int (length reference))),
      (''overlap'', PInt (int (length (filter (\<lambda>x. x \<in> set reference) agent)))), (''reference_sha256'', PStr (sha256_of_sorted D reference))]"

definition eval_sets ::
  "(string \<Rightarrow> string) \<Rightarrow> bool \<Rightarrow> (string, pyval) dict \<Rightarrow> (string, pyval) dict \<Rightarrow> string list \<Rightarrow> string + predicate_result" where
  "eval_sets D redact predicate answer reference =
     bind_sum (agent_values answer predicate) (\<lambda>vs.
       let agent = sorted_set (map py_str vs); refs = sorted_set reference in
       bind_sum (set_verdict predicate agent refs) (\<lambda>(passed, reason, raw).
         Inr (if redact then \<lparr>pr_passed = passed, pr_reason = reason, pr_detail = counts_detail D agent refs, pr_raw = Some raw\<rparr>
              else plain_result passed reason raw)))"

type_synonym reference_client = "string \<Rightarrow> string + pyval list list"

text \<open>The SQL of a loaded question is a text.\<close>

definition query_text :: "reference_client \<Rightarrow> pyval \<Rightarrow> string + pyval list list" where
  "query_text client v = (case v of PStr s \<Rightarrow> client s | _ \<Rightarrow> Inl ''query must be a string'')"

definition eval_reference_sql ::
  "(string \<Rightarrow> string) \<Rightarrow> reference_client \<Rightarrow> (string, pyval) dict \<Rightarrow> (string, pyval) dict \<Rightarrow> string \<Rightarrow> string + predicate_result" where
  "eval_reference_sql D client predicate answer tr =
     bind_sum (py_index (PDict predicate) (PStr ''sql'')) (\<lambda>sql. bind_sum (query_text client sql) (\<lambda>rows. bind_sum (first_texts rows) (\<lambda>reference.
     bind_sum (py_index (PDict predicate) (PStr ''match'')) (\<lambda>m.
       if m = PStr ''numeric_tolerance'' then eval_numeric (tr = ''sovereign'') predicate answer reference
       else eval_sets D (tr = ''sovereign'') predicate answer reference))))"

definition evaluate ::
  "(string \<Rightarrow> string) \<Rightarrow> reference_client \<Rightarrow> question \<Rightarrow> (string, pyval) dict option \<Rightarrow> string \<Rightarrow> predicate_result" where
  "evaluate D client q answer tr =
     (let p = qn_predicate q; ptype = map_of p ''type'' in
      if ptype = Some (PStr ''refusal'') then
        (let passed = (case answer of None \<Rightarrow> False | Some a \<Rightarrow> map_of a ''refusal'' = Some (PBool True)) in
         plain_result passed (if passed then [] else ''expected refusal=true'') [])
      else
        (case answer of
           None \<Rightarrow> plain_result False ''no answer provided'' []
         | Some a \<Rightarrow>
             (case (if ptype = Some (PStr ''expected_json'') then
                      bind_sum (py_index (PDict p) (PStr ''expected'')) (\<lambda>e.
                        let passed = py_eq (normalize (PDict a)) (normalize e) in
                        Inr (plain_result passed (if passed then [] else ''answer != expected'') [(''expected'', e), (''agent'', PDict a)]))
                    else eval_reference_sql D client p a tr) of
                Inr r \<Rightarrow> r
              | Inl exc \<Rightarrow> plain_result False (''predicate error: '' @ exc) [])))"

section \<open>Scoring\<close>

text \<open>\<open>datetime.fromisoformat(value.replace("Z", "+00:00"))\<close>\<close>

definition parse_run_time :: "string \<Rightarrow> string + pydt" where
  "parse_run_time s =
     (let t = replace_char CHR ''Z'' ''+00:00'' s in
      case fromisoformat t of None \<Rightarrow> Inl (''Invalid isoformat string: '' @ repr_str t) | Some d \<Rightarrow> Inr d)"

text \<open>\<open>re.sub(r"[^A-Za-z0-9._-]", "_", value)\<close>: one underscore for every other character, which begins with a byte that
  continues no other.\<close>

definition name_char :: "char \<Rightarrow> bool" where
  "name_char c \<longleftrightarrow> is_alpha c \<or> is_digit c \<or> c \<in> {CHR ''.'', CHR ''_'', CHR ''-''}"

definition continues_char :: "char \<Rightarrow> bool" where "continues_char c \<longleftrightarrow> of_char c div 64 = (2::nat)"

definition sanitize :: "string \<Rightarrow> string" where
  "sanitize s = map (\<lambda>c. if name_char c then c else CHR ''_'') (filter (\<lambda>c. \<not> continues_char c) s)"

type_synonym tally = "nat \<times> nat"

definition count_outcome :: "(question \<Rightarrow> string) \<Rightarrow> (string, tally) dict \<Rightarrow> question \<times> bool \<Rightarrow> (string, tally) dict" where
  "count_outcome key d r =
     (case dget_or d (key (fst r)) (0, 0) of (n, p) \<Rightarrow> dset d (key (fst r)) (n + 1, p + of_bool (snd r)))"

definition rollup :: "(question \<times> bool) list \<Rightarrow> (question \<Rightarrow> string) \<Rightarrow> (string, tally) dict" where
  "rollup results key = foldl (count_outcome key) [] results"

record scored =
  sd_id :: string
  sd_pass :: bool
  sd_reasons :: "string list"
  sd_detail :: "(string, pyval) dict"
  sd_tools :: "string list"

record scorecard =
  cd_run_id :: string
  cd_model :: string
  cd_runner :: string
  cd_tier :: string
  cd_principal :: string
  cd_corpus :: string
  cd_scored_at :: string
  cd_questions :: "scored list"
  cd_total :: nat
  cd_passed :: nat
  cd_by_category :: "(string, tally) dict"
  cd_by_difficulty :: "(string, tally) dict"
  cd_by_tier :: "(string, tally) dict"

text \<open>What a scoring needs besides manifest and corpus.\<close>

record scorer =
  sr_digest :: "string \<Rightarrow> string"
  sr_query :: reference_client
  sr_audit :: eval_client
  sr_slop :: int

definition entries_by_id :: "manifest \<Rightarrow> (string, run_entry) dict" where
  "entries_by_id m = foldl (\<lambda>d e. dset d (re_id e) e) [] (mf_entries m)"

definition failed :: "question \<Rightarrow> string \<Rightarrow> scored \<times> (string, pyval) dict option" where
  "failed q reason = (\<lparr>sd_id = qn_id q, sd_pass = False, sd_reasons = [reason], sd_detail = [], sd_tools = []\<rparr>, None)"

definition run_tools :: "scorer \<Rightarrow> manifest \<Rightarrow> run_entry \<Rightarrow> string + string list" where
  "run_tools sr m e =
     bind_sum (parse_run_time (re_started e)) (\<lambda>a. bind_sum (parse_run_time (re_finished e)) (\<lambda>b.
       fetch_tools (sr_audit sr) (mf_principal m) a b (sr_slop sr)))"

definition judge_answer :: "question \<Rightarrow> tool_check_result \<Rightarrow> predicate_result \<Rightarrow> scored \<times> (string, pyval) dict option" where
  "judge_answer q t p =
     (\<lparr>sd_id = qn_id q, sd_pass = (tc_passed t \<and> pr_passed p),
       sd_reasons = (if pr_passed p then [] else [''predicate: '' @ pr_reason p]) @ (if tc_passed t then [] else [''tools: '' @ tc_reason t]),
       sd_detail = pr_detail p, sd_tools = tc_observed t\<rparr>, pr_raw p)"

definition score_question :: "scorer \<Rightarrow> manifest \<Rightarrow> question \<Rightarrow> string + scored \<times> (string, pyval) dict option" where
  "score_question sr m q =
     (case map_of (entries_by_id m) (qn_id q) of
        None \<Rightarrow> Inr (failed q ''question not in manifest (fail-closed)'')
      | Some e \<Rightarrow>
          (case re_error e of
             Some err \<Rightarrow> Inr (failed q (''runner error: '' @ err))
           | None \<Rightarrow>
               bind_sum (run_tools sr m e) (\<lambda>used.
                 Inr (judge_answer q (check_tools q used (mf_tier m)) (evaluate (sr_digest sr) (sr_query sr) q (re_answer e) (mf_tier m))))))"

definition score_questions :: "scorer \<Rightarrow> manifest \<Rightarrow> question list \<Rightarrow> string + (scored \<times> (string, pyval) dict option) list" where
  "score_questions sr m qs = concat_sum (\<lambda>q. bind_sum (score_question sr m q) (\<lambda>r. Inr [r])) qs"

text \<open>\<open>strftime("%Y-%m-%dT%H:%M:%SZ")\<close>\<close>

definition scored_stamp :: "int \<Rightarrow> string" where "scored_stamp now = butlast (strftime_secs now) @ ''Z''"

definition make_card :: "manifest \<Rightarrow> int \<Rightarrow> question list \<Rightarrow> scored list \<Rightarrow> scorecard" where
  "make_card m now qs sds =
     (let outcomes = zip qs (map sd_pass sds) in
      \<lparr>cd_run_id = mf_run_id m, cd_model = mf_model m, cd_runner = mf_runner m, cd_tier = mf_tier m, cd_principal = mf_principal m,
       cd_corpus = mf_corpus m, cd_scored_at = scored_stamp now, cd_questions = sds, cd_total = length outcomes,
       cd_passed = length (filter snd outcomes), cd_by_category = rollup outcomes qn_category,
       cd_by_difficulty = rollup outcomes qn_difficulty, cd_by_tier = rollup outcomes qn_tier\<rparr>)"

text \<open>The scorecard as a document.\<close>

definition bucket_value :: "tally \<Rightarrow> pyval" where
  "bucket_value b = PDict [(''total'', PInt (int (fst b))), (''passed'', PInt (int (snd b)))]"

definition buckets_value :: "(string, tally) dict \<Rightarrow> pyval" where
  "buckets_value d = PDict (map (\<lambda>(k, b). (k, bucket_value b)) d)"

definition scored_value :: "scored \<Rightarrow> pyval" where
  "scored_value s = PDict [(''id'', PStr (sd_id s)), (''pass'', PBool (sd_pass s)), (''reasons'', text_values (sd_reasons s)),
     (''predicate_detail'', PDict (sd_detail s)), (''tools_observed'', text_values (sd_tools s))]"

definition scorecard_value :: "scorecard \<Rightarrow> pyval" where
  "scorecard_value c = PDict
     [(''schema_version'', PInt 1), (''run_id'', PStr (cd_run_id c)), (''model'', PStr (cd_model c)), (''runner'', PStr (cd_runner c)),
      (''tier'', PStr (cd_tier c)), (''principal'', PStr (cd_principal c)), (''corpus_version'', PStr (cd_corpus c)),
      (''scored_at'', PStr (cd_scored_at c)), (''questions'', PList (map scored_value (cd_questions c))),
      (''rollups'', PDict [(''total'', PInt (int (cd_total c))), (''passed'', PInt (int (cd_passed c))),
         (''by_category'', buckets_value (cd_by_category c)), (''by_difficulty'', buckets_value (cd_by_difficulty c)),
         (''by_tier'', buckets_value (cd_by_tier c))])]"

text \<open>\<open>scorecard.schema.json\<close>\<close>

definition is_text :: "pyval option \<Rightarrow> bool" where "is_text v = (case v of Some (PStr s) \<Rightarrow> True | _ \<Rightarrow> False)"
definition is_texts :: "pyval option \<Rightarrow> bool" where "is_texts v = (case v of Some (PList xs) \<Rightarrow> list_all (\<lambda>x. is_text (Some x)) xs | _ \<Rightarrow> False)"
definition is_bool :: "pyval option \<Rightarrow> bool" where "is_bool v = (case v of Some (PBool b) \<Rightarrow> True | _ \<Rightarrow> False)"
definition is_object :: "pyval option \<Rightarrow> bool" where "is_object v = (case v of Some (PDict d) \<Rightarrow> True | _ \<Rightarrow> False)"

text \<open>A float with an integral value is also an integer of JSON schema.\<close>

definition is_integer :: "pyval option \<Rightarrow> bool" where
  "is_integer v =
     (case v of
        Some (PInt i) \<Rightarrow> True
      | Some (PFloat s) \<Rightarrow> (case py_float s of Some (Fin q) \<Rightarrow> q = of_int \<lfloor>q\<rfloor> | _ \<Rightarrow> False)
      | _ \<Rightarrow> False)"

definition object_with :: "pyval option \<Rightarrow> string list \<Rightarrow> ((string, pyval) dict \<Rightarrow> bool) \<Rightarrow> bool" where
  "object_with v keys ok = (case v of Some (PDict d) \<Rightarrow> set (dkeys d) = set keys \<and> ok d | _ \<Rightarrow> False)"

definition bucket_ok :: "pyval \<Rightarrow> bool" where
  "bucket_ok v = object_with (Some v) [''total'', ''passed''] (\<lambda>d. is_integer (map_of d ''total'') \<and> is_integer (map_of d ''passed''))"

definition buckets_ok :: "pyval option \<Rightarrow> bool" where
  "buckets_ok v = (case v of Some (PDict d) \<Rightarrow> list_all bucket_ok (dvalues d) | _ \<Rightarrow> False)"

definition scored_ok :: "pyval \<Rightarrow> bool" where
  "scored_ok v = object_with (Some v) [''id'', ''pass'', ''reasons'', ''predicate_detail'', ''tools_observed''] (\<lambda>d.
     is_text (map_of d ''id'') \<and> is_bool (map_of d ''pass'') \<and> is_texts (map_of d ''reasons'') \<and> is_object (map_of d ''predicate_detail'')
     \<and> is_texts (map_of d ''tools_observed''))"

definition rollups_ok :: "pyval option \<Rightarrow> bool" where
  "rollups_ok v = object_with v [''total'', ''passed'', ''by_category'', ''by_difficulty'', ''by_tier''] (\<lambda>d.
     is_integer (map_of d ''total'') \<and> is_integer (map_of d ''passed'') \<and> buckets_ok (map_of d ''by_category'')
     \<and> buckets_ok (map_of d ''by_difficulty'') \<and> buckets_ok (map_of d ''by_tier''))"

definition CARD_KEYS :: "string list" where
  "CARD_KEYS = [''schema_version'', ''run_id'', ''model'', ''runner'', ''tier'', ''principal'', ''corpus_version'', ''scored_at'', ''questions'', ''rollups'']"

definition card_questions :: "(string, pyval) dict \<Rightarrow> pyval list" where
  "card_questions d = (case map_of d ''questions'' of Some (PList xs) \<Rightarrow> xs | _ \<Rightarrow> [])"

definition scorecard_ok :: "(string \<Rightarrow> bool) \<Rightarrow> pyval \<Rightarrow> bool" where
  "scorecard_ok is_time v = object_with (Some v) CARD_KEYS (\<lambda>d.
     version_one (map_of d ''schema_version'') \<and> list_all (\<lambda>k. is_text (map_of d k)) [''run_id'', ''model'', ''runner'', ''principal'', ''corpus_version'']
     \<and> one_of (map_of d ''tier'') RUN_TIERS \<and> time_text is_time d ''scored_at'' \<noteq> None
     \<and> map_of d ''questions'' = Some (PList (card_questions d)) \<and> list_all scored_ok (card_questions d) \<and> rollups_ok (map_of d ''rollups''))"

definition raw_details :: "(scored \<times> (string, pyval) dict option) list \<Rightarrow> (string, pyval) dict" where
  "raw_details rs = foldl (\<lambda>d (s, raw). case raw of None \<Rightarrow> d | Some r \<Rightarrow> dset d (sd_id s) (PDict r)) [] rs"

definition score_run ::
  "(string \<Rightarrow> bool) \<Rightarrow> scorer \<Rightarrow> int \<Rightarrow> manifest \<Rightarrow> question list \<Rightarrow> string + scorecard \<times> (string, pyval) dict" where
  "score_run is_time sr now m questions =
     (if sovereignty_error (mf_tier m) (mf_local m) then Inl ''sovereign tier requires a local model''
      else
        (let subset = questions_for_tier questions (mf_tier m) in
         bind_sum (score_questions sr m subset) (\<lambda>rs.
           let card = make_card m now subset (map fst rs) in
           if scorecard_ok is_time (scorecard_value card) then Inr (card, raw_details rs) else Inl ''scorecard.schema.json'')))"

section \<open>The command\<close>

text \<open>Files: a path and a document; a write answers the exception, if any, and the state it left.\<close>

type_synonym 'fs writer = "string \<Rightarrow> pyval \<Rightarrow> 'fs \<Rightarrow> string option \<times> 'fs"

definition card_stem :: "scorecard \<Rightarrow> manifest \<Rightarrow> string" where
  "card_stem c m = take 10 (cd_scored_at c) @ ''-'' @ sanitize (mf_model m) @ ''-'' @ sanitize (mf_run_id m)"

definition write_card :: "'fs writer \<Rightarrow> manifest \<Rightarrow> scorecard \<times> (string, pyval) dict \<Rightarrow> 'fs \<Rightarrow> int \<times> 'fs" where
  "write_card put m r fs =
     (case put (card_stem (fst r) m @ ''.json'') (scorecard_value (fst r)) fs of
        (Some exc, fs1) \<Rightarrow> (2, fs1)
      | (None, fs1) \<Rightarrow>
          if snd r = [] then (0, fs1)
          else
            (case put (''.detail/'' @ card_stem (fst r) m @ ''.json'') (PDict (snd r)) fs1 of
               (Some exc, fs2) \<Rightarrow> (2, fs2)
             | (None, fs2) \<Rightarrow> (0, fs2)))"

text \<open>\<open>main\<close>: the manifest as JSON, if it can be read, the corpus as the YAML reader answers it, the environment and
  the connections.\<close>

record score_world =
  sw_manifest :: "pyval option"
  sw_corpus :: "string + pyval"
  sw_env :: attrs
  sw_connect :: "(string, pyval) dict \<Rightarrow> string option"

definition connected :: "score_world \<Rightarrow> config_error + (string, pyval) dict \<Rightarrow> bool" where
  "connected w kwargs = (case kwargs of Inl e \<Rightarrow> False | Inr k \<Rightarrow> sw_connect w k = None)"

definition prepare_run :: "(string \<Rightarrow> bool) \<Rightarrow> score_world \<Rightarrow> (manifest \<times> question list \<times> eval_config) option" where
  "prepare_run is_time w =
     (case (Option.bind (sw_manifest w) (read_manifest is_time), sw_corpus w, load_eval_config (sw_env w)) of
        (Some m, Inr raw, Inr c) \<Rightarrow>
          (case load_corpus raw of
             Inl e \<Rightarrow> None
           | Inr qs \<Rightarrow>
               if connected w (eval_client_kwargs c None None)
                  \<and> connected w (eval_client_kwargs c (Some ''ssdf_audit_verify'') (Some (secret_get (ev_verify_password c))))
               then Some (m, qs, c) else None)
      | _ \<Rightarrow> None)"

definition score_main ::
  "(string \<Rightarrow> bool) \<Rightarrow> scorer \<Rightarrow> int \<Rightarrow> 'fs writer \<Rightarrow> score_world \<Rightarrow> 'fs \<Rightarrow> int \<times> 'fs" where
  "score_main is_time sr now put w fs =
     (case prepare_run is_time w of
        None \<Rightarrow> (2, fs)
      | Some (m, qs, c) \<Rightarrow>
          (case score_run is_time (sr\<lparr>sr_slop := ev_slop c\<rparr>) now m qs of
             Inl exc \<Rightarrow> (2, fs)
           | Inr r \<Rightarrow> write_card put m r fs))"

section \<open>The regression gate\<close>

text \<open>A file of the results directory: its path, and its document if it holds one.\<close>

type_synonym result_files = "(string \<times> pyval option) list"

definition doc_model :: "pyval \<Rightarrow> pyval option" where
  "doc_model v = (case v of PDict d \<Rightarrow> map_of d ''model'' | _ \<Rightarrow> None)"

definition doc_result :: "pyval \<Rightarrow> (string \<times> bool) list" where
  "doc_result v =
     (case v of
        PDict d \<Rightarrow> (case (map_of d ''id'', map_of d ''pass'') of (Some (PStr i), Some (PBool b)) \<Rightarrow> [(i, b)] | _ \<Rightarrow> [])
      | _ \<Rightarrow> [])"

definition doc_results :: "pyval \<Rightarrow> (string \<times> bool) list" where
  "doc_results v = (case v of PDict d \<Rightarrow> concat (map doc_result (card_questions d)) | _ \<Rightarrow> [])"

definition results_with :: "bool \<Rightarrow> pyval \<Rightarrow> string list" where
  "results_with b v = map fst (filter (\<lambda>r. snd r = b) (doc_results v))"

definition ever_passed :: "(string \<Rightarrow> bool) \<Rightarrow> pyval option \<Rightarrow> result_files \<Rightarrow> string \<Rightarrow> string list" where
  "ever_passed is_time model files exclude =
     concat (map (\<lambda>(path, doc). case doc of
         None \<Rightarrow> []
       | Some v \<Rightarrow> if path = exclude \<or> \<not> scorecard_ok is_time v \<or> doc_model v \<noteq> model then [] else results_with True v) files)"

definition find_regressions :: "(string \<Rightarrow> bool) \<Rightarrow> pyval \<Rightarrow> result_files \<Rightarrow> string \<Rightarrow> string list" where
  "find_regressions is_time new files exclude =
     sorted_set (filter (\<lambda>i. i \<in> set (results_with False new)) (ever_passed is_time (doc_model new) files exclude))"

text \<open>\<open>main\<close>: the new scorecard, if its file can be read as JSON, its path, and the files of the results directory, if
  it exists.\<close>

definition regress_main :: "(string \<Rightarrow> bool) \<Rightarrow> pyval option \<Rightarrow> string \<Rightarrow> result_files option \<Rightarrow> int" where
  "regress_main is_time new path files =
     (case new of
        None \<Rightarrow> 2
      | Some v \<Rightarrow>
          if \<not> scorecard_ok is_time v then 2
          else (case files of None \<Rightarrow> 2 | Some fs \<Rightarrow> if find_regressions is_time v fs path \<noteq> [] then 1 else 0))"

section \<open>What a sovereign scorecard discloses\<close>

text \<open>Details that hold no value of the data: a verdict, or counts and a digest.\<close>

definition redacted :: "(string \<Rightarrow> string) \<Rightarrow> (string, pyval) dict \<Rightarrow> bool" where
  "redacted D d \<longleftrightarrow> d = [] \<or> (\<exists>b. d = [(''within_tolerance'', PBool b)])
     \<or> (\<exists>a r n x. d = [(''agent_count'', PInt a), (''reference_count'', PInt r), (''overlap'', PInt n), (''reference_sha256'', PStr (D x))])"

lemma eval_numeric_redacted: "eval_numeric True p a ref = Inr r \<Longrightarrow> redacted D (pr_detail r)"
  by (cases ref) (auto simp: eval_numeric_def bind_sum_Inr_iff numeric_result_def Let_def plain_result_def redacted_def)

lemma eval_sets_redacted: "eval_sets D True p a ref = Inr r \<Longrightarrow> redacted D (pr_detail r)"
  unfolding redacted_def
  by (auto simp: eval_sets_def bind_sum_Inr_iff Let_def counts_detail_def sha256_of_sorted_def)

lemma evaluate_sql:
  assumes "map_of (qn_predicate q) ''type'' = Some (PStr ''reference_sql'')"
  shows "evaluate D client q (Some a) tr =
    (case eval_reference_sql D client (qn_predicate q) a tr of Inr r \<Rightarrow> r | Inl exc \<Rightarrow> plain_result False (''predicate error: '' @ exc) [])"
    "evaluate D client q None tr = plain_result False ''no answer provided'' []"
  using assms by (simp_all add: evaluate_def)

text \<open>C37: The details of a sovereign scorecard are redacted.  Whatever a reference query answers and whatever the agent
  answered, the details that the scorecard keeps of a question with a reference query, in a sovereign run, are
  empty, a single verdict, or three counts and a digest.\<close>

theorem sovereign_detail_redacted:
  assumes "map_of (qn_predicate q) ''type'' = Some (PStr ''reference_sql'')"
  shows "redacted D (pr_detail (evaluate D client q answer ''sovereign''))"
proof (cases answer)
  case None
  then show ?thesis by (simp add: evaluate_sql(2) [OF assms] plain_result_def redacted_def)
next
  case (Some a)
  show ?thesis
  proof (cases "eval_reference_sql D client (qn_predicate q) a ''sovereign''")
    case (Inl e)
    then show ?thesis using Some by (simp add: evaluate_sql(1) [OF assms] plain_result_def redacted_def)
  next
    case (Inr r)
    then have "redacted D (pr_detail r)"
      by (auto simp: eval_reference_sql_def bind_sum_Inr_iff dest: eval_numeric_redacted eval_sets_redacted split: if_splits)
    then show ?thesis using Some Inr by (simp add: evaluate_sql(1) [OF assms])
  qed
qed

text \<open>C38: The reasons of a sovereign scorecard are not.  When a reference query with a numeric tolerance answers a value
  that is no number, the reason that the scorecard keeps quotes the value; and the details of a question with an
  expected answer hold the answer of the agent as it is.\<close>

theorem sovereign_reasons_disclose:
  assumes "map_of (qn_predicate q) ''type'' = Some (PStr ''reference_sql'')" and "map_of (qn_predicate q) ''sql'' = Some (PStr sql)"
    and "map_of (qn_predicate q) ''match'' = Some (PStr ''numeric_tolerance'')" and "map_of (qn_predicate q) ''answer_key'' = Some (PStr k)"
    and "client sql = Inr [[PStr v]]" and "map_of a k = Some n" and "to_float n = Some x" and "py_float v = None"
  shows "pr_reason (evaluate D client q (Some a) ''sovereign'') = ''predicate error: could not convert string to float: '' @ repr_str v
    \<and> (\<forall>q' e. map_of (qn_predicate q') ''type'' = Some (PStr ''expected_json'') \<and> map_of (qn_predicate q') ''expected'' = Some e
         \<longrightarrow> map_of (pr_detail (evaluate D client q' (Some a) ''sovereign'')) ''agent'' = Some (PDict a))"
proof
  have "float_of n = Inr x" "float_of (PStr v) = Inl (''could not convert string to float: '' @ repr_str v)"
    using assms(7,8) by (simp_all add: float_of_def)
  then have "eval_reference_sql D client (qn_predicate q) a ''sovereign'' = Inl (''could not convert string to float: '' @ repr_str v)"
    using assms(2-6) by (simp add: eval_reference_sql_def py_index_dict query_text_def first_texts_def first_text_def py_str_def eval_numeric_def)
  then show "pr_reason (evaluate D client q (Some a) ''sovereign'') = ''predicate error: could not convert string to float: '' @ repr_str v"
    by (simp add: evaluate_sql(1) [OF assms(1)] plain_result_def)
  show "\<forall>q' e. map_of (qn_predicate q') ''type'' = Some (PStr ''expected_json'') \<and> map_of (qn_predicate q') ''expected'' = Some e
      \<longrightarrow> map_of (pr_detail (evaluate D client q' (Some a) ''sovereign'')) ''agent'' = Some (PDict a)"
    by (simp add: evaluate_def py_index_dict plain_result_def Let_def)
qed

definition sample_sql_question :: question where
  "sample_sql_question = \<lparr>qn_id = ''q2'', qn_text = ''Which?'', qn_tier = ''sovereign'', qn_category = ''flows'', qn_difficulty = ''easy'',
     qn_format = ''JSON'', qn_tools = [], qn_predicate = [(''type'', PStr ''reference_sql''), (''sql'', PStr ''SELECT ip''),
       (''match'', PStr ''numeric_tolerance''), (''answer_key'', PStr ''n''), (''params'', PDict [(''tolerance'', PInt 0)])]\<rparr>"

definition sample_reference :: reference_client where
  "sample_reference sql = Inr [[PStr ''10.1.2.3'']]"

lemma sample_sql_members:
  "map_of (qn_predicate sample_sql_question) ''type'' = Some (PStr ''reference_sql'')"
  "map_of (qn_predicate sample_sql_question) ''sql'' = Some (PStr ''SELECT ip'')"
  "map_of (qn_predicate sample_sql_question) ''match'' = Some (PStr ''numeric_tolerance'')"
  "map_of (qn_predicate sample_sql_question) ''answer_key'' = Some (PStr ''n'')"
  by (simp_all add: sample_sql_question_def)

lemma sovereign_detail_redacted_witness:
  "redacted id (pr_detail (evaluate id sample_reference sample_sql_question (Some [(''n'', PInt 1)]) ''sovereign''))"
  by (rule sovereign_detail_redacted) (rule sample_sql_members)

lemma sovereign_reasons_disclose_witness:
  "pr_reason (evaluate id sample_reference sample_sql_question (Some [(''n'', PInt 1)]) ''sovereign'')
     = ''predicate error: could not convert string to float: '' @ repr_str ''10.1.2.3''"
proof -
  have "py_float ''10.1.2.3'' = None" by code_simp
  moreover have "sample_reference ''SELECT ip'' = Inr [[PStr ''10.1.2.3'']]" by (simp add: sample_reference_def)
  moreover have "map_of [(''n'', PInt 1)] ''n'' = Some (PInt 1)" "to_float (PInt 1) = Some (Fin (of_int 1))" by simp_all
  ultimately show ?thesis using sovereign_reasons_disclose [OF sample_sql_members] by blast
qed

section \<open>Expected answers are compared without order\<close>

text \<open>Whatever the order of its scalars, a list is normalised alike, as long as different values print differently.\<close>

lemma sort_scalars_perm: "mset xs = mset ys \<Longrightarrow> inj_on py_str (set xs) \<Longrightarrow> sort_scalars xs = sort_scalars ys"
  unfolding sort_scalars_def
  by (rule sort_key_inj_key_eq) (auto simp: inj_on_def)

section \<open>A run is scored fail-closed\<close>

lemma concat_sum_single:
  "concat_sum (\<lambda>x. bind_sum (f x) (\<lambda>r. Inr [r])) xs = Inr ys \<longleftrightarrow> list_all2 (\<lambda>x y. f x = Inr y) xs ys"
  by (induction xs arbitrary: ys) (auto simp: bind_sum_Inr_iff list_all2_Cons1)

lemma score_run_parts:
  assumes "score_run is_time sr now m questions = Inr (c, raws)"
  obtains rs where "list_all2 (\<lambda>q r. score_question sr m q = Inr r) (questions_for_tier questions (mf_tier m)) rs"
    and "c = make_card m now (questions_for_tier questions (mf_tier m)) (map fst rs)"
    and "\<not> sovereignty_error (mf_tier m) (mf_local m)" and "scorecard_ok is_time (scorecard_value c)"
  using assms by (auto simp: score_run_def Let_def score_questions_def bind_sum_Inr_iff concat_sum_single split: if_splits)

text \<open>A question passes when the manifest has an answer without error, the log shows its tools, and the answer holds.\<close>

definition passes :: "scorer \<Rightarrow> manifest \<Rightarrow> question \<Rightarrow> bool" where
  "passes sr m q \<longleftrightarrow> (\<exists>e used. map_of (entries_by_id m) (qn_id q) = Some e \<and> re_error e = None \<and> run_tools sr m e = Inr used
     \<and> (required_names q = [] \<or> (\<exists>t \<in> set used. t \<in> set (required_names q)))
     \<and> (mf_tier m = ''public'' \<longrightarrow> set used \<subseteq> set EVAL_PUBLIC_TOOLS)
     \<and> pr_passed (evaluate (sr_digest sr) (sr_query sr) q (re_answer e) (mf_tier m)))"

lemma score_question_spec:
  assumes "score_question sr m q = Inr r"
  shows "sd_id (fst r) = qn_id q \<and> (sd_pass (fst r) \<longleftrightarrow> passes sr m q)"
  using assms unfolding score_question_def passes_def
  by (auto simp: failed_def judge_answer_def check_tools_passed bind_sum_Inr_iff split: option.splits)

text \<open>C14: Scoring is complete and fails closed.  A run that is scored has one result for every question of its tier, in
  the order of the corpus; a question passes exactly when the manifest holds an answer for it without error, the
  audit log shows one of its tools in the window of the answer, and only public tools in a public run, and its
  predicate holds.  A sovereign run is scored only when its model is local.\<close>

theorem score_run_exact:
  assumes "score_run is_time sr now m questions = Inr (c, raws)"
  shows "map (\<lambda>s. (sd_id s, sd_pass s)) (cd_questions c) = map (\<lambda>q. (qn_id q, passes sr m q)) (questions_for_tier questions (mf_tier m))
    \<and> (mf_tier m = ''sovereign'' \<longrightarrow> mf_local m)"
proof (rule conjI)
  obtain rs where rs: "list_all2 (\<lambda>q r. score_question sr m q = Inr r) (questions_for_tier questions (mf_tier m)) rs"
    and c: "c = make_card m now (questions_for_tier questions (mf_tier m)) (map fst rs)" using score_run_parts [OF assms] by metis
  have "map (\<lambda>s. (sd_id s, sd_pass s)) (map fst rs) = map (\<lambda>q. (qn_id q, passes sr m q)) (questions_for_tier questions (mf_tier m))"
    using rs by (induction rule: list_all2_induct) (auto dest: score_question_spec)
  then show "map (\<lambda>s. (sd_id s, sd_pass s)) (cd_questions c) = map (\<lambda>q. (qn_id q, passes sr m q)) (questions_for_tier questions (mf_tier m))"
    by (simp add: c make_card_def Let_def)
  show "mf_tier m = ''sovereign'' \<longrightarrow> mf_local m"
    using score_run_parts [OF assms] unfolding sovereignty_error_def by metis
qed

section \<open>The totals\<close>

definition bucket_sum :: "(string, tally) dict \<Rightarrow> tally" where
  "bucket_sum d = (sum_list (map (fst \<circ> snd) d), sum_list (map (snd \<circ> snd) d))"

lemma bucket_sum_dset:
  "dict_ok d \<Longrightarrow> bucket_sum (dset d k (fst (dget_or d k (0, 0)) + a, snd (dget_or d k (0, 0)) + b)) = (fst (bucket_sum d) + a, snd (bucket_sum d) + b)"
proof (induction d)
  case (Cons e d)
  obtain k' v where e: "e = (k', v)" by (metis prod.exhaust)
  show ?case
  proof (cases "k' = k")
    case False
    with Cons e show ?thesis by (simp add: bucket_sum_def dict_ok_def dget_or_def)
  qed (use e in \<open>simp add: bucket_sum_def dget_or_def\<close>)
qed (simp add: bucket_sum_def dget_or_def)

lemma rollup_sums:
  "dict_ok d \<Longrightarrow> dict_ok (foldl (count_outcome key) d rs)
    \<and> bucket_sum (foldl (count_outcome key) d rs) = (fst (bucket_sum d) + length rs, snd (bucket_sum d) + length (filter snd rs))"
proof (induction rs arbitrary: d)
  case (Cons r rs)
  let ?d = "count_outcome key d r"
  have d: "?d = dset d (key (fst r)) (fst (dget_or d (key (fst r)) (0, 0)) + 1, snd (dget_or d (key (fst r)) (0, 0)) + of_bool (snd r))"
    by (simp add: count_outcome_def case_prod_beta)
  then have "dict_ok ?d" using Cons.prems by simp
  moreover have "bucket_sum ?d = (fst (bucket_sum d) + 1, snd (bucket_sum d) + of_bool (snd r))"
    unfolding d using bucket_sum_dset [OF Cons.prems] by blast
  ultimately show ?case using Cons.IH [of ?d] by simp
qed (simp add: bucket_sum_def)

text \<open>The rollups of a scorecard agree.  Its total is the number of its questions and its passed count the number of
  those that passed, and the buckets by category, by difficulty and by tier each add up to both.\<close>

theorem rollups_agree:
  assumes "score_run is_time sr now m questions = Inr (c, raws)"
  shows "cd_total c = length (cd_questions c) \<and> cd_passed c = length (filter sd_pass (cd_questions c))
    \<and> bucket_sum (cd_by_category c) = (cd_total c, cd_passed c) \<and> bucket_sum (cd_by_difficulty c) = (cd_total c, cd_passed c)
    \<and> bucket_sum (cd_by_tier c) = (cd_total c, cd_passed c)"
proof -
  obtain rs where rs: "list_all2 (\<lambda>q r. score_question sr m q = Inr r) (questions_for_tier questions (mf_tier m)) rs"
    and c: "c = make_card m now (questions_for_tier questions (mf_tier m)) (map fst rs)" using score_run_parts [OF assms] by metis
  define qs where "qs = questions_for_tier questions (mf_tier m)"
  have len: "length qs = length rs" using rs by (simp add: qs_def list_all2_lengthD)
  have "length (filter snd (zip qs bs)) = length (filter id bs)" if "length qs = length bs" for bs
    using that by (induction qs bs rule: list_induct2) auto
  then have p: "length (filter snd (zip qs (map sd_pass (map fst rs)))) = length (filter sd_pass (map fst rs))"
    using len by (simp add: filter_map comp_def)
  have sums: "bucket_sum (rollup os key) = (length os, length (filter snd os))" for os key
    using rollup_sums [of "[]" key os] by (simp add: rollup_def dict_ok_def bucket_sum_def)
  show ?thesis using len p by (simp add: c make_card_def Let_def sums qs_def [symmetric])
qed

text \<open>A run on the public tier with one question, refused as it should be.\<close>

definition sample_scorer :: scorer where
  "sample_scorer = \<lparr>sr_digest = id, sr_query = sample_reference, sr_audit = (\<lambda>sql ps. Inr [[PStr ''top_series'']]), sr_slop = 5\<rparr>"

definition sample_manifest :: manifest where
  "sample_manifest = \<lparr>mf_run_id = ''r1'', mf_model = ''m'', mf_runner = ''x'', mf_tier = ''public'', mf_principal = ''eval'', mf_corpus = ''c'',
     mf_local = False, mf_entries = [\<lparr>re_id = ''q1'', re_started = ''0001-01-02T00:00:00Z'', re_finished = ''0001-01-02T00:00:09Z'',
       re_answer = Some [(''refusal'', PBool True)], re_error = None\<rparr>]\<rparr>"

lemma sample_run: "\<exists>c raws. score_run (\<lambda>t. True) sample_scorer 0 sample_manifest [sample_question] = Inr (c, raws) \<and> cd_passed c = 1"
proof -
  have "case score_run (\<lambda>t. True) sample_scorer 0 sample_manifest [sample_question] of Inl e \<Rightarrow> False | Inr r \<Rightarrow> cd_passed (fst r) = 1"
    by code_simp
  then show ?thesis by (cases "score_run (\<lambda>t. True) sample_scorer 0 sample_manifest [sample_question]") auto
qed

lemma score_run_exact_witness:
  "\<exists>c raws. score_run (\<lambda>t. True) sample_scorer 0 sample_manifest [sample_question] = Inr (c, raws)
     \<and> map sd_id (cd_questions c) = [''q1'']"
proof -
  obtain c raws where r: "score_run (\<lambda>t. True) sample_scorer 0 sample_manifest [sample_question] = Inr (c, raws)"
    using sample_run by blast
  have "questions_for_tier [sample_question] (mf_tier sample_manifest) = [sample_question]"
    by (simp add: questions_for_tier_def sample_question_def)
  with score_run_exact [OF r] have "map sd_id (cd_questions c) = [qn_id sample_question]" by auto
  then show ?thesis using r by (auto simp: sample_question_def)
qed

lemma rollups_agree_witness:
  "\<exists>c raws. score_run (\<lambda>t. True) sample_scorer 0 sample_manifest [sample_question] = Inr (c, raws)
     \<and> bucket_sum (cd_by_category c) = (cd_total c, 1)"
  using sample_run rollups_agree by metis

section \<open>What the scorer writes and the gate reads\<close>

lemma object_with_Some: "object_with (Some (PDict d)) keys ok \<longleftrightarrow> set (dkeys d) = set keys \<and> ok d"
  by (simp add: object_with_def)

lemma is_texts_values: "is_texts (Some (text_values xs))"
  by (simp add: is_texts_def text_values_def is_text_def list_all_iff)

lemma scored_value_ok: "scored_ok (scored_value s)"
  by (simp add: scored_ok_def scored_value_def object_with_Some is_texts_values) (simp add: is_text_def is_bool_def is_object_def)

lemma buckets_value_ok: "buckets_ok (Some (buckets_value d))"
proof -
  have "bucket_ok (bucket_value b)" for b by (simp add: bucket_ok_def bucket_value_def object_with_Some is_integer_def)
  then show ?thesis by (simp add: buckets_ok_def buckets_value_def list_all_iff case_prod_beta)
qed

lemma rollups_value_ok:
  "rollups_ok (Some (PDict [(''total'', PInt a), (''passed'', PInt b), (''by_category'', buckets_value x), (''by_difficulty'', buckets_value y),
     (''by_tier'', buckets_value z)]))"
  by (simp add: rollups_ok_def object_with_Some buckets_value_ok is_integer_def)

lemma doc_result_value: "doc_result (scored_value s) = [(sd_id s, sd_pass s)]"
  by (simp add: doc_result_def scored_value_def)

lemma doc_results_value: "doc_results (scorecard_value c) = map (\<lambda>s. (sd_id s, sd_pass s)) (cd_questions c)"
proof -
  have "concat (map doc_result (map scored_value ss)) = map (\<lambda>s. (sd_id s, sd_pass s)) ss" for ss
    by (induction ss) (simp_all add: doc_result_value)
  then show ?thesis by (simp add: doc_results_def scorecard_value_def card_questions_def)
qed

lemma doc_model_value: "doc_model (scorecard_value c) = Some (PStr (cd_model c))"
  by (simp add: doc_model_def scorecard_value_def)

lemma scorecard_value_ok:
  "scorecard_ok is_time (scorecard_value c) \<longleftrightarrow> cd_tier c \<in> set RUN_TIERS \<and> is_time (cd_scored_at c)"
proof -
  let ?d = "case scorecard_value c of PDict d \<Rightarrow> d"
  have d: "scorecard_value c = PDict ?d" by (simp add: scorecard_value_def)
  have "set (dkeys ?d) = set CARD_KEYS" by (simp add: scorecard_value_def CARD_KEYS_def)
  moreover have "card_questions ?d = map scored_value (cd_questions c)" "map_of ?d ''questions'' = Some (PList (map scored_value (cd_questions c)))"
    by (simp_all add: scorecard_value_def card_questions_def)
  moreover have "version_one (map_of ?d ''schema_version'')" "one_of (map_of ?d ''tier'') RUN_TIERS \<longleftrightarrow> cd_tier c \<in> set RUN_TIERS"
    "list_all (\<lambda>k. is_text (map_of ?d k)) [''run_id'', ''model'', ''runner'', ''principal'', ''corpus_version'']"
    "time_text is_time ?d ''scored_at'' \<noteq> None \<longleftrightarrow> is_time (cd_scored_at c)" "rollups_ok (map_of ?d ''rollups'')"
    by (simp_all add: scorecard_value_def version_one_def one_of_def is_text_def time_text_def rollups_value_ok)
  ultimately show ?thesis
    by (subst d, unfold scorecard_ok_def object_with_Some) (simp add: list_all_iff scored_value_ok)
qed

text \<open>The contract between scorer and gate holds.  The document of a scorecard is valid exactly when its tier is one of
  the two and its time is a time, whatever its questions, details and rollups are; and the gate reads from it the
  model and the results that the scorer put in.\<close>

theorem scorecard_contract:
  "(scorecard_ok is_time (scorecard_value c) \<longleftrightarrow> cd_tier c \<in> set RUN_TIERS \<and> is_time (cd_scored_at c))
    \<and> doc_model (scorecard_value c) = Some (PStr (cd_model c))
    \<and> doc_results (scorecard_value c) = map (\<lambda>s. (sd_id s, sd_pass s)) (cd_questions c)"
  using scorecard_value_ok doc_model_value doc_results_value by blast

lemma results_with_iff: "i \<in> set (results_with b v) \<longleftrightarrow> (i, b) \<in> set (doc_results v)"
  by (force simp: results_with_def)

lemma ever_passed_iff:
  "i \<in> set (ever_passed is_time model files path) \<longleftrightarrow>
    (\<exists>p v. (p, Some v) \<in> set files \<and> p \<noteq> path \<and> scorecard_ok is_time v \<and> doc_model v = model \<and> (i, True) \<in> set (doc_results v))"
  unfolding ever_passed_def
  by (auto simp: results_with_iff split: option.splits if_splits)

text \<open>C39: The regression gate is exact.  For a valid new scorecard and a results directory that exists, the gate exits with
  1 exactly when some question fails in the new scorecard that passed in a valid scorecard of the same model under
  another path, and with 0 otherwise; files that hold no valid scorecard do not matter.\<close>

theorem regression_gate_exact:
  assumes "scorecard_ok is_time (scorecard_value new)"
  shows "regress_main is_time (Some (scorecard_value new)) path (Some files) =
    (if \<exists>p v i. (p, Some v) \<in> set files \<and> p \<noteq> path \<and> scorecard_ok is_time v \<and> doc_model v = Some (PStr (cd_model new))
         \<and> (i, True) \<in> set (doc_results v) \<and> (i, False) \<in> set (map (\<lambda>s. (sd_id s, sd_pass s)) (cd_questions new))
     then 1 else 0)"
proof -
  have "find_regressions is_time (scorecard_value new) files path = [] \<longleftrightarrow>
      (\<forall>i \<in> set (ever_passed is_time (Some (PStr (cd_model new))) files path). (i, False) \<notin> set (doc_results (scorecard_value new)))"
    by (simp add: find_regressions_def doc_model_value filter_empty_conv results_with_iff)
  also have "\<dots> \<longleftrightarrow> \<not> (\<exists>p v i. (p, Some v) \<in> set files \<and> p \<noteq> path \<and> scorecard_ok is_time v \<and> doc_model v = Some (PStr (cd_model new))
      \<and> (i, True) \<in> set (doc_results v) \<and> (i, False) \<in> set (map (\<lambda>s. (sd_id s, sd_pass s)) (cd_questions new)))"
    unfolding Ball_def ever_passed_iff doc_results_value by blast
  finally show ?thesis unfolding regress_main_def using assms by (simp only: option.case if_True if_False not_True_eq_False not_not split: if_split)
qed

definition sample_card :: "bool \<Rightarrow> scorecard" where
  "sample_card b = make_card sample_manifest 0 [sample_question] [\<lparr>sd_id = ''q1'', sd_pass = b, sd_reasons = [], sd_detail = [], sd_tools = []\<rparr>]"

lemma regression_gate_exact_witness:
  "regress_main (\<lambda>t. True) (Some (scorecard_value (sample_card False))) ''b'' (Some [(''a'', Some (scorecard_value (sample_card True)))]) = 1"
proof -
  have ok: "scorecard_ok (\<lambda>t. True) (scorecard_value (sample_card b))" for b
    by (simp add: scorecard_value_ok sample_card_def make_card_def Let_def sample_manifest_def RUN_TIERS_def)
  have "(''q1'', True) \<in> set (doc_results (scorecard_value (sample_card True)))" by (simp add: doc_results_value sample_card_def make_card_def Let_def)
  moreover have "(''q1'', False) \<in> set (map (\<lambda>s. (sd_id s, sd_pass s)) (cd_questions (sample_card False)))" by (simp add: sample_card_def make_card_def Let_def)
  moreover have "doc_model (scorecard_value (sample_card True)) = Some (PStr (cd_model (sample_card False)))"
    by (simp add: doc_model_value sample_card_def make_card_def Let_def)
  moreover have "(''a'', Some (scorecard_value (sample_card True))) \<in> set [(''a'', Some (scorecard_value (sample_card True)))]" "''a'' \<noteq> ''b''" by simp_all
  ultimately show ?thesis unfolding regression_gate_exact [OF ok] using ok [of True] by (intro if_P exI conjI)
qed

text \<open>Scorecards overwrite each other.  The file of a scorecard joins the day, the model and the run by dashes: runs of one
  day whose model and run differ only in where the dash is, or in characters that are not allowed in a name, get one
  path, so the later scorecard replaces the earlier and the gate forgets what the earlier run passed.\<close>

theorem scorecard_paths_collide:
  assumes "take 10 (cd_scored_at c) = take 10 (cd_scored_at c')"
    and "mf_model m' = mf_model m @ ''-'' @ x" and "mf_run_id m = x @ ''-'' @ mf_run_id m'"
  shows "card_stem c m = card_stem c' m'"
proof -
  have dash: "sanitize (a @ ''-'' @ b) = sanitize a @ ''-'' @ sanitize b" for a b
    by (simp add: sanitize_def) (simp add: continues_char_def name_char_def)
  show ?thesis using assms(1) unfolding card_stem_def assms(2,3) dash by simp
qed

lemma scorecard_paths_collide_witness:
  "card_stem (sample_card True) (sample_manifest\<lparr>mf_model := ''gpt-4'', mf_run_id := ''turbo-1''\<rparr>)
     = card_stem (sample_card False) (sample_manifest\<lparr>mf_model := ''gpt-4-turbo'', mf_run_id := ''1''\<rparr>)"
  by (rule scorecard_paths_collide [where x = "''turbo''"]) (simp_all add: sample_card_def make_card_def Let_def)

end
