(* ===== verification/Runtime.thy ===== *)
theory Runtime
  imports Reconcile Sql Server PyOps PyText
begin

text \<open>
  What the processes run on: the read-only ClickHouse client with one connection per thread
  (\<open>ssdf_mcp_query/clickhouse.py\<close>), the bounded call of a vendor's MCP server (\<open>ssdf_common/mcp_client.py\<close>), a run of
  the entity resolver (\<open>ssdf_entity/resolve_main.py\<close>), the tool that mints tokens (\<open>ssdf_mcp_query/mint_token.py\<close>), and
  the script that creates the tables of the contract tests (\<open>scripts/apply_contract_schema.py\<close>).
\<close>

section \<open>Values of ClickHouse\<close>

text \<open>What the driver answers in a cell; \<open>VOther\<close> is any other object with its \<open>str\<close>.\<close>

datatype ch_value =
    VNone
  | VBool bool
  | VInt int
  | VFloat string
  | VText string
  | VTime pydt
  | VIp string
  | VDict "(string \<times> ch_value) list"
  | VList "ch_value list"
  | VOther string

fun jsonify :: "ch_value \<Rightarrow> pyval" where
  "jsonify VNone = PNone"
| "jsonify (VBool b) = PBool b"
| "jsonify (VInt i) = PInt i"
| "jsonify (VFloat s) = PFloat s"
| "jsonify (VText s) = PStr s"
| "jsonify (VTime t) = PStr (isoformat t)"
| "jsonify (VIp s) = PStr s"
| "jsonify (VDict d) = PDict (map (\<lambda>(k, v). (k, jsonify v)) d)"
| "jsonify (VList vs) = PList (map jsonify vs)"
| "jsonify (VOther s) = PStr s"

text \<open>\<open>run\<close>: a row is the dictionary of its columns, so a column that is named twice keeps its last value.\<close>

record query_answer =
  qa_columns :: "string list"
  qa_rows :: "(string, pyval) dict list"
  qa_count :: nat

definition answer_row :: "string list \<Rightarrow> ch_value list \<Rightarrow> (string, pyval) dict" where
  "answer_row columns row = dupdate [] (zip columns (map jsonify row))"

definition client_run :: "string list \<Rightarrow> ch_value list list \<Rightarrow> query_answer" where
  "client_run columns rows = \<lparr>qa_columns = columns, qa_rows = map (answer_row columns) rows, qa_count = length rows\<rparr>"

definition query_settings :: "server_config \<Rightarrow> (string, pyval) dict" where
  "query_settings c = [(''max_execution_time'', PInt (sc_max_execution_time c)), (''max_result_rows'', PInt (sc_max_result_rows c)),
     (''max_memory_usage'', PInt (sc_max_memory_usage c)), (''result_overflow_mode'', PStr ''throw'')]"

section \<open>One connection per thread\<close>

text \<open>The connections opened so far, that of each thread, and the queries that are running, each on a connection
  and for a thread.\<close>

record pool =
  pl_opened :: nat
  pl_local :: "(nat, nat) dict"
  pl_running :: "(nat \<times> nat) list"

definition open_connection :: "pool \<Rightarrow> nat \<Rightarrow> nat \<times> pool" where
  "open_connection s thread = (pl_opened s, s\<lparr>pl_opened := pl_opened s + 1, pl_local := dset (pl_local s) thread (pl_opened s)\<rparr>)"

text \<open>\<open>__init__\<close> connects on the thread that constructs the client.\<close>

definition new_pool :: "nat \<Rightarrow> pool" where
  "new_pool thread = snd (open_connection \<lparr>pl_opened = 0, pl_local = [], pl_running = []\<rparr> thread)"

definition client_for_thread :: "pool \<Rightarrow> nat \<Rightarrow> nat \<times> pool" where
  "client_for_thread s thread =
     (case map_of (pl_local s) thread of Some c \<Rightarrow> (c, s) | None \<Rightarrow> open_connection s thread)"

text \<open>A thread that runs no query starts one, and the query of a thread ends; threads interleave freely.\<close>

inductive pool_step :: "pool \<Rightarrow> pool \<Rightarrow> bool" where
  start: "thread \<notin> snd ` set (pl_running s) \<Longrightarrow> client_for_thread s thread = (c, s') \<Longrightarrow>
    pool_step s (s'\<lparr>pl_running := (c, thread) # pl_running s'\<rparr>)"
| finish: "pool_step s (s\<lparr>pl_running := filter (\<lambda>r. snd r \<noteq> thread) (pl_running s)\<rparr>)"

inductive_cases pool_stepE: "pool_step s s'"

section \<open>Calls of a vendor's server\<close>

definition default_timeout :: "attrs \<Rightarrow> pyfloat" where
  "default_timeout env =
     (let raw = strip (dget_or env ''MCP_CALL_TIMEOUT_SECS'' []) in
      if raw = [] then Fin 60
      else (case py_float raw of None \<Rightarrow> Fin 60 | Some v \<Rightarrow> if py_less (Fin 0) v then v else Fin 60))"

text \<open>What a server does with a call: it answers or raises after some seconds, or never returns.  The call returns after
  some seconds, or never.\<close>

type_synonym server_reply = "(rat \<times> (string + tool_result)) option"

definition timed_out :: "pyfloat \<Rightarrow> (rat \<times> (string + string)) option" where
  "timed_out timeout = (case timeout of Fin q \<Rightarrow> Some (q, Inl ''TimeoutError'') | _ \<Rightarrow> None)"

definition call_tool :: "pyfloat \<Rightarrow> server_reply \<Rightarrow> (rat \<times> (string + string)) option" where
  "call_tool timeout reply =
     (case reply of
        None \<Rightarrow> timed_out timeout
      | Some (t, r) \<Rightarrow>
          if py_less (Fin t) timeout then Some (t, case r of Inl exc \<Rightarrow> Inl exc | Inr x \<Rightarrow> Inr (extract_text x))
          else timed_out timeout)"

definition auth_headers :: "string \<Rightarrow> attrs" where
  "auth_headers token = (if token = [] then [] else [(''Authorization'', ''Bearer '' @ token)])"

section \<open>A run of the entity resolver\<close>

definition run_entity_resolver ::
  "(string \<Rightarrow> string) \<Rightarrow> (query \<Rightarrow> string + flow_agg list) \<Rightarrow> (query \<Rightarrow> string + binding list) \<Rightarrow> 'db client
     \<Rightarrow> string \<Rightarrow> int \<Rightarrow> int \<Rightarrow> 'db \<Rightarrow> (string + nat \<times> nat) \<times> 'db" where
  "run_entity_resolver H flows bindings c tenant window_hours lookback_hours db =
     (case bind_sum (flows (build_entity_flow_sql window_hours tenant)) (\<lambda>fs.
             bind_sum (bindings (build_binding_sql lookback_hours tenant)) (\<lambda>bs. Inr (fs, bs))) of
        Inl exc \<Rightarrow> (Inl exc, db)
      | Inr (fs, bs) \<Rightarrow>
          (case resolve_entities H fs bs tenant of
             None \<Rightarrow> (Inl ''ValueError'', db)
           | Some (ens, es) \<Rightarrow>
               (case replace_entities c ens db of
                  Inl exc \<Rightarrow> (Inl exc, db)
                | Inr (n, db1) \<Rightarrow>
                    (case replace_edges c es db1 of
                       Inl exc \<Rightarrow> (Inl exc, db1)
                     | Inr (m, db2) \<Rightarrow> (Inr (n, m), db2)))))"

section \<open>Minting a token\<close>

text \<open>The arguments of the command; the random token and the clock are given.\<close>

record mint_args =
  ma_principal :: string
  ma_tools :: string
  ma_days :: int
  ma_local :: bool

definition mint_main :: "(string \<Rightarrow> string) \<Rightarrow> mint_args \<Rightarrow> string \<Rightarrow> int \<Rightarrow> start_error + string \<times> pyval" where
  "mint_main D a token now =
     bind_sum (mint_entry (ma_principal a) (filter (\<lambda>t. t \<noteq> []) (map strip (split_on CHR '','' (ma_tools a))))
         (if ma_days a = 0 then None else Some (ma_days a)) (ma_local a) now)
       (\<lambda>e. Inr (token, PDict [mint_file_entry D token e]))"

section \<open>The tables of the contract tests\<close>

definition SCHEMA_MIGRATIONS :: "string list" where
  "SCHEMA_MIGRATIONS = [''001_events'', ''002_topology'', ''004_entities'', ''006_observer_hostname'']"

definition code_line :: "string \<Rightarrow> bool" where
  "code_line l \<longleftrightarrow> strip l \<noteq> [] \<and> \<not> startswith (strip l) ''--''"

definition statements :: "string \<Rightarrow> string list" where
  "statements sql =
     filter (\<lambda>s. s \<noteq> []) (map (\<lambda>chunk. strip (join [CHR 0x0A] (filter code_line (splitlines chunk)))) (split_on CHR '';'' sql))"

text \<open>The HTTP interface answers \<open>False\<close> for an error status.\<close>

fun post_all :: "(string \<Rightarrow> 'db \<Rightarrow> bool \<times> 'db) \<Rightarrow> string list \<Rightarrow> 'db \<Rightarrow> bool \<times> 'db" where
  "post_all post [] db = (True, db)"
| "post_all post (s # ss) db = (case post s db of (True, db') \<Rightarrow> post_all post ss db' | (False, db') \<Rightarrow> (False, db'))"

fun apply_migrations :: "(string \<Rightarrow> string option) \<Rightarrow> (string \<Rightarrow> 'db \<Rightarrow> bool \<times> 'db) \<Rightarrow> string list \<Rightarrow> 'db \<Rightarrow> int \<times> 'db" where
  "apply_migrations files post [] db = (0, db)"
| "apply_migrations files post (name # names) db =
     (case files name of
        None \<Rightarrow> (2, db)
      | Some sql \<Rightarrow>
          (case post_all post (statements sql) db of
             (True, db') \<Rightarrow> apply_migrations files post names db'
           | (False, db') \<Rightarrow> (1, db')))"

definition apply_schema_main ::
  "string \<Rightarrow> bool \<Rightarrow> (string \<Rightarrow> string option) \<Rightarrow> (string \<Rightarrow> 'db \<Rightarrow> bool \<times> 'db) \<Rightarrow> 'db \<Rightarrow> int \<times> 'db" where
  "apply_schema_main host permitted files post db =
     (if host \<notin> {''127.0.0.1'', ''localhost'', ''::1''} \<and> \<not> permitted then (2, db)
      else apply_migrations files post SCHEMA_MIGRATIONS db)"

section \<open>No two queries share a connection\<close>

text \<open>Connections of threads are distinct and opened, and a running query is on the connection of its thread.\<close>

definition pool_ok :: "pool \<Rightarrow> bool" where
  "pool_ok s \<longleftrightarrow> (\<forall>t u c. map_of (pl_local s) t = Some c \<longrightarrow> c < pl_opened s \<and> (map_of (pl_local s) u = Some c \<longrightarrow> t = u))
     \<and> (\<forall>r \<in> set (pl_running s). map_of (pl_local s) (snd r) = Some (fst r)) \<and> distinct (map snd (pl_running s))"

lemma client_for_thread_ok:
  assumes "pool_ok s" and "client_for_thread s t = (c, s')"
  shows "pool_ok s' \<and> map_of (pl_local s') t = Some c \<and> pl_running s' = pl_running s"
proof (cases "map_of (pl_local s) t")
  case None
  then have s': "c = pl_opened s" "s' = s\<lparr>pl_opened := pl_opened s + 1, pl_local := dset (pl_local s) t (pl_opened s)\<rparr>"
    using assms(2) by (auto simp: client_for_thread_def open_connection_def)
  have "snd r \<noteq> t" if "r \<in> set (pl_running s)" for r using that assms(1) None by (force simp: pool_ok_def)
  moreover have "map_of (pl_local s) u \<noteq> Some (pl_opened s)" for u using assms(1) unfolding pool_ok_def by (metis less_irrefl)
  ultimately show ?thesis using assms(1) unfolding s' pool_ok_def by (auto simp: less_Suc_eq)
qed (use assms in \<open>simp add: client_for_thread_def\<close>)

lemma pool_step_ok: "pool_step s s' \<Longrightarrow> pool_ok s \<Longrightarrow> pool_ok s'"
proof (induction rule: pool_step.induct)
  case (start thread s c s')
  then have "pool_ok s'" "map_of (pl_local s') thread = Some c" "pl_running s' = pl_running s"
    using client_for_thread_ok by blast+
  then show ?case using start(1) by (auto simp: pool_ok_def image_iff)
next
  case (finish s thread)
  then show ?case by (auto simp: pool_ok_def intro: distinct_map_filter)
qed

lemma new_pool_ok: "pool_ok (new_pool t)"
  by (simp add: pool_ok_def new_pool_def open_connection_def)

text \<open>C40: No two queries ever run on one connection.  However the threads of the server interleave, at every reachable moment
  the running queries are on different connections, each on that of its thread.\<close>

theorem connections_exclusive:
  assumes "pool_step\<^sup>*\<^sup>* (new_pool t) s"
  shows "distinct (map fst (pl_running s)) \<and> (\<forall>r \<in> set (pl_running s). map_of (pl_local s) (snd r) = Some (fst r))"
proof -
  have ok: "pool_ok s" using assms by (induction rule: rtranclp_induct) (auto intro: new_pool_ok pool_step_ok)
  have "inj_on fst (set (pl_running s))"
  proof (rule inj_onI)
    fix a b assume "a \<in> set (pl_running s)" "b \<in> set (pl_running s)" "fst a = fst b"
    then show "a = b" using ok unfolding pool_ok_def by (metis prod.expand)
  qed
  moreover have "distinct (pl_running s)" using ok by (simp add: pool_ok_def distinct_map)
  ultimately show ?thesis using ok by (simp add: pool_ok_def distinct_map)
qed

lemma connections_exclusive_witness:
  "\<exists>s. pool_step\<^sup>*\<^sup>* (new_pool 1) s \<and> pl_running s = [(1, 2), (0, 1)] \<and> distinct (map fst (pl_running s))"
proof -
  let ?s0 = "new_pool 1"
  let ?s1 = "?s0\<lparr>pl_running := [(0, 1)]\<rparr>"
  let ?s2 = "(snd (open_connection ?s1 2))\<lparr>pl_running := [(1, 2), (0, 1)]\<rparr>"
  have "pool_step ?s0 ?s1"
    using pool_step.start [of 1 ?s0 0 ?s0] by (simp add: new_pool_def open_connection_def client_for_thread_def)
  moreover have "pool_step ?s1 ?s2"
    using pool_step.start [of 2 ?s1 1 "snd (open_connection ?s1 2)"] by (simp add: new_pool_def open_connection_def client_for_thread_def)
  ultimately have r: "pool_step\<^sup>*\<^sup>* ?s0 ?s2" by simp
  show ?thesis by (rule exI [of _ ?s2], intro conjI r connections_exclusive [OF r, THEN conjunct1]) simp
qed

section \<open>Calls return\<close>

lemma default_timeout_positive: "py_less (Fin 0) (default_timeout env)"
  by (simp add: default_timeout_def Let_def split: option.splits)

text \<open>Calls are bounded unless the timeout is infinite.  Whatever a server does, a call returns within the configured
  timeout, which is always positive; and only the environment can undo this: with MCP_CALL_TIMEOUT_SECS set to
  an infinite number, and with nothing else, there is a server whose call never returns.\<close>

theorem calls_bounded:
  "(\<forall>reply. call_tool (default_timeout env) reply \<noteq> None) \<longleftrightarrow> default_timeout env \<noteq> PosInf"
proof
  assume "\<forall>reply. call_tool (default_timeout env) reply \<noteq> None"
  then have "call_tool (default_timeout env) None \<noteq> None" by blast
  then show "default_timeout env \<noteq> PosInf" by (auto simp: call_tool_def timed_out_def)
next
  assume "default_timeout env \<noteq> PosInf"
  then obtain q where "default_timeout env = Fin q" using default_timeout_positive [of env] by (cases "default_timeout env") auto
  then show "\<forall>reply. call_tool (default_timeout env) reply \<noteq> None"
    by (auto simp: call_tool_def timed_out_def split: option.splits)
qed

text \<open>What the environment can say.\<close>

lemma infinite_timeout:
  "default_timeout env = PosInf \<longleftrightarrow> py_float (strip (dget_or env ''MCP_CALL_TIMEOUT_SECS'' [])) = Some PosInf"
proof -
  have "py_float [] = None" by code_simp
  then show ?thesis by (auto simp: default_timeout_def Let_def split: option.splits)
qed

text \<open>Every answered call is answered in time.\<close>

lemma call_in_time: "call_tool (Fin q) reply = Some (t, r) \<Longrightarrow> t \<le> q"
  by (auto simp: call_tool_def timed_out_def split: option.splits if_splits)

section \<open>A minted token authenticates\<close>

lemma mint_entry_members:
  assumes "mint_entry p allowed days local now = Inr e"
  shows "map_of e ''principal'' = Some (PStr p)" and "meta_value (PDict e) ''local_only'' = (if local then PBool True else PNone)"
proof -
  obtain na where e: "e = [(''principal'', PStr p)] @ (if allowed = [] then [] else [(''allowed_tools'', PList (map PStr allowed))])
      @ (if local then [(''local_only'', PBool True)] else []) @ na" and na: "na = [] \<or> (\<exists>t. na = [(''not_after'', PStr t)])"
    using assms by (auto simp: mint_entry_def bind_sum_Inr_iff split: option.splits)
  show "map_of e ''principal'' = Some (PStr p)" by (simp add: e)
  show "meta_value (PDict e) ''local_only'' = (if local then PBool True else PNone)"
    using na by (auto simp: e meta_value_def dget_or_def)
qed

lemma stored_digest: "stored_key D (digest_for D t) = digest_for D t"
  by (simp add: stored_key_def is_digest_def digest_for_def startswith_def)

text \<open>C18: A minted token works where it should.  When the entry that the minting tool prints is put into the token file of a
  server that starts, its token authenticates there, on a sovereign server if it was minted as local; and on a
  sovereign server a token minted without it authenticates only if another entry of its digest is attested.\<close>

theorem minted_token_admitted:
  assumes "mint_main D a token now = Inr (token, PDict [(key, meta)])" and "build_app D w tr = Inr app"
    and "token_file w data" and "(key, meta) \<in> set data"
  shows "(ma_local a \<or> tr \<noteq> ''sovereign'' \<longrightarrow> verify_token D (ap_tokens app) token \<noteq> None)
    \<and> (\<not> ma_local a \<and> tr = ''sovereign'' \<and> verify_token D (ap_tokens app) token \<noteq> None
        \<longrightarrow> (\<exists>key' meta'. (key', meta') \<in> set data \<and> meta' \<noteq> meta \<and> stored_key D key' = key))"
proof -
  obtain e where m: "mint_entry (ma_principal a) (filter (\<lambda>t. t \<noteq> []) (map strip (split_on CHR '','' (ma_tools a))))
      (if ma_days a = 0 then None else Some (ma_days a)) (ma_local a) now = Inr e" and k: "key = digest_for D token" "meta = PDict e"
    using assms(1) by (auto simp: mint_main_def mint_file_entry_def bind_sum_Inr_iff)
  have s: "stored_key D key = digest_for D token" by (simp add: k stored_digest)
  have l: "meta_value meta ''local_only'' = PBool True \<longleftrightarrow> ma_local a" using mint_entry_members(2) [OF m] k by simp
  obtain c :: server_config where c: "load_server_config D (wd_env w) (wd_files w) = Inr c" using build_app_parts [OF assms(2)] by metis
  obtain tp where tp: "token_principal_of meta = Inr tp"
    using load_token_map_file(3) [OF assms(3) server_tokens [OF c] assms(4)] by blast
  note iff = app_tokens [OF assms(2,3), of token]
  have "verify_token D (ap_tokens app) token \<noteq> None" if "ma_local a \<or> tr \<noteq> ''sovereign''"
    unfolding iff using assms(4) s tp that token_local_only [OF tp] l by (auto simp: admitted_def)
  moreover have "\<exists>key' meta'. (key', meta') \<in> set data \<and> meta' \<noteq> meta \<and> stored_key D key' = key"
    if n: "\<not> ma_local a" "tr = ''sovereign''" "verify_token D (ap_tokens app) token \<noteq> None"
  proof -
    obtain key' meta' tp' where d: "(key', meta') \<in> set data" "stored_key D key' = digest_for D token" "token_principal_of meta' = Inr tp'"
      "admitted tr tp'" using n(3) unfolding iff by blast
    then have "meta_value meta' ''local_only'' = PBool True" using n(2) token_local_only by (auto simp: admitted_def)
    then have "meta' \<noteq> meta" using l n(1) by auto
    then show ?thesis using d k(1) by blast
  qed
  ultimately show ?thesis by blast
qed

definition sample_mint :: mint_args where
  "sample_mint = \<lparr>ma_principal = ''steward'', ma_tools = '' get_entity,'', ma_days = 0, ma_local = True\<rparr>"

definition minted_entries :: "(string \<times> pyval) list" where
  "minted_entries = [(''sha256:kot'', PDict [(''principal'', PStr ''steward''), (''allowed_tools'', PList [PStr ''get_entity'']), (''local_only'', PBool True)])]"

definition minted_world :: world where
  "minted_world = sample_world\<lparr>wd_files :=
     (\<lambda>p. if p = ''/t'' then Some \<lparr>tf_mode = 384, tf_text = json_dumps json_default (PDict minted_entries)\<rparr> else None)\<rparr>"

lemma minted_token_admitted_witness:
  "\<exists>app. build_app rev minted_world ''sovereign'' = Inr app \<and> verify_token rev (ap_tokens app) ''tok'' \<noteq> None"
proof -
  have "isl (build_app rev minted_world ''sovereign'') = False" by code_simp
  then obtain app where app: "build_app rev minted_world ''sovereign'' = Inr app" by (metis sum.collapse(2))
  have "token_entries (json_dumps json_default (PDict minted_entries)) = Inr minted_entries" by code_simp
  then have tf: "token_file minted_world minted_entries" by (simp add: token_file_def minted_world_def sample_world_def)
  have "mint_main rev sample_mint ''tok'' 0 = Inr (''tok'', PDict minted_entries)" by code_simp
  then have "mint_main rev sample_mint ''tok'' 0 = Inr (''tok'', PDict [(''sha256:kot'', snd (hd minted_entries))])"
    by (simp add: minted_entries_def)
  from minted_token_admitted [OF this app tf] have "verify_token rev (ap_tokens app) ''tok'' \<noteq> None"
    by (simp add: minted_entries_def sample_mint_def del: not_None_eq)
  then show ?thesis using app by blast
qed

end
