(* ===== verification/Spec2Isabelle.thy ===== *)
theory Spec2Isabelle
  imports Wrapper QueryTools Signals PanosPolicy Health TopoRun Metrics Evidence Evals Runtime
begin

text \<open>
  A verification development for SSDF, a security data fabric.  Collectors ask firewalls, switches, hypervisors and
  controllers through vendors' MCP servers and write what they report into ClickHouse; resolvers turn observations,
  flow logs and configurations into graphs of devices, assets and policies; an MCP server answers the questions of
  agents from these tables, under authentication, classification, rate limits and a hash-chained audit log; a
  public tier and the public metrics show a de-identified part; and an evaluation harness scores what agents answer.

  The theories, in the order of their dependencies, with the files under \<open>services\<close> and \<open>scripts\<close> that they model:

  Python.  \<open>Prelude\<close> (texts as UTF-8, decimal numbers, dictionaries as association lists in insertion order, sums as
  results, and the collections \<open>pydict\<close> and \<open>pystr\<close> of rewrite rules), \<open>PyText\<close> (lines, words, simple patterns), \<open>Regex\<close>
  (regular expressions with backtracking), \<open>PyJson\<close> (dynamic values, \<open>json.dumps\<close> and \<open>json.loads\<close>, proved inverse),
  \<open>PyTime\<close> (the calendar, \<open>isoformat\<close>, \<open>fromisoformat\<close>), \<open>PyFloat\<close> and \<open>PyOps\<close> (floats as rationals with infinities and
  NaN, equality, subscripts and conversions with their errors), \<open>Xml\<close> (elements as the XML reader answers them).

  The audit log (\<open>mcp-query\<close>: \<open>audit_chain.py\<close>, \<open>audit.py\<close>, \<open>verify_audit.py\<close>; \<open>scripts/verify_evidence_contract.py\<close>).
  \<open>AuditChain\<close> has the canonical form of a row, its hash, the state of the writer and the effect of an insert that may
  fail before or after the row lands.  \<open>VerifyAudit\<close> has the offline verifier with its worklist; its lemmas say what a
  clean log means, that writers keep it clean, and which deletions are seen.  \<open>Evidence\<close> has the round trip of the
  evidence contract against every database that counts and appends (locale \<open>evidence_store\<close>).

  The gate of a call (\<open>ratelimit.py\<close>, \<open>classification.py\<close>, \<open>tokenstore.py\<close>, \<open>auth.py\<close>, \<open>attribution.py\<close>, \<open>wrapper.py\<close>,
  \<open>config.py\<close>, \<open>server.py\<close>, \<open>mint_token.py\<close>).  \<open>RateLimit\<close> has the limiter (locale \<open>slot_limiter\<close>), \<open>Classification\<close> the
  labels of data classes, \<open>Tokens\<close> the token store and the claims.  \<open>Wrapper\<close> puts them around a tool: one call as a
  function, and the interleaving of calls as the step relation \<open>gate_step\<close>, over which the audit log is proved to verify
  and the concurrency limit to hold.  \<open>Settings\<close> loads the configuration of every service and the token file, \<open>Server\<close>
  assembles the server of a tier, \<open>Runtime\<close> has the connections of its threads (step relation \<open>pool_step\<close>) and minting.

  The tools (\<open>builders.py\<close>, \<open>rule_builders.py\<close>, the stores and \<open>*_tools.py\<close>).  \<open>TimeParse\<close> has relative times; \<open>Sql\<close> has
  every query text with its parameters, here and in the resolvers, and proves that each binds what it names;
  \<open>QueryTools\<close> has the SQL guard and the flow tools, \<open>Access\<close>, \<open>RuleTools\<close>, \<open>GraphTools\<close> and \<open>Signals\<close> the others, the
  public snapshot included.

  The resolvers.  \<open>UnionFind\<close>, \<open>Topo\<close>, \<open>TopoCollectors\<close> and \<open>TopoRun\<close> model \<open>services/topo\<close>; \<open>Entity\<close>, \<open>Reconcile\<close> and a
  part of \<open>Runtime\<close> model \<open>services/entity\<close>; \<open>Policy\<close>, \<open>JunosPolicy\<close> and \<open>PanosPolicy\<close> model \<open>services/policy\<close>; \<open>Health\<close>
  models \<open>services/health\<close>, and \<open>Common\<close> what they share (\<open>services/common\<close>).  Their lemmas say what is conserved, which
  identities are merged, and that a store that keeps the laws of its locale (\<open>entity_store\<close>, \<open>version_store\<close>,
  \<open>obs_store\<close>, \<open>partition_store\<close>) ends with the tables of the plan; each locale is interpreted on tables in memory.

  Publishing and evaluating.  \<open>Metrics\<close> models \<open>services/public-metrics\<close>: pseudonyms, the catalogue of measures, planning
  and writing.  \<open>Corpus\<close> and \<open>Evals\<close> model \<open>services/evals\<close>: the corpus, manifests and scorecards with their schemas,
  predicates, the scorer and the regression gate.

  Conventions.  A record or datatype carries the fields of a class, prefixed per class; a Python dictionary keeps its
  insertion order; an exception is \<open>Inl\<close> of a result, with its name or its text; a loop that may not end is a partial
  function whose value is then \<open>None\<close>.  Effects are explicit: a function takes the state of the store and answers the
  new one, also when it fails midway.  Where the code reads the clock twice, the definition takes two readings.

  Parameters.  Digests and keyed digests, the ClickHouse driver, the MCP servers of the vendors, the SQL parser, the
  XML and YAML readers, the searches of the graph library, the file system, the environment and the clock are
  arguments of the definitions that use them; what is assumed of them is a hypothesis or a locale, with a witness.
  Integers are unbounded, as they are in Python.  Definitions that search or follow links end by their structure: the
  JSON reader takes its fuel from the length of the text, which its round-trip theorem shows to be enough; union-find
  and minting are partial functions, proved to return or characterised when they do not.

  Not modelled.  Rounding of binary floats; characters outside ASCII in case folding and white space, and the code
  points of texts beyond their UTF-8 encoding; the messages printed and logged; the HTTP transport and the schemas
  of FastMCP and the command line parser, which are frameworks; elapsed times in answers; random tokens; and the
  shell, SQL and frontend files, which are no Python.
\<close>

end
